(* ===== verification/Prelude.thy ===== *)
theory Prelude imports Main "HOL-Library.AList" "HOL-Library.While_Combinator" begin

text \<open>
  The prelude of the development: JavaScript's insertion-ordered \<open>Map\<close> as an
  association list, the loop that shrinks a bounded store to its cap, and the
  lemma collections the component theories share.

  A \<open>Map\<close> keeps its keys in insertion order, \<open>set\<close> on a present key replaces
  the value in place, \<open>set\<close> on a new key appends, \<open>delete\<close> removes. That is
  what \<open>AList.update\<close> and \<open>AList.delete\<close> do on a list with distinct keys,
  so a \<open>Map\<close> is such a list, and \<open>keys().next()\<close> is its head.
\<close>

named_theorems jmap_simps
named_theorems step_inv

type_synonym ('k, 'v) jmap = "('k \<times> 'v) list"

abbreviation jmap_get :: "('k, 'v) jmap \<Rightarrow> 'k \<Rightarrow> 'v option" where
  "jmap_get m k \<equiv> map_of m k"

abbreviation jmap_set :: "('k, 'v) jmap \<Rightarrow> 'k \<Rightarrow> 'v \<Rightarrow> ('k, 'v) jmap" where
  "jmap_set m k v \<equiv> AList.update k v m"

abbreviation jmap_delete :: "('k, 'v) jmap \<Rightarrow> 'k \<Rightarrow> ('k, 'v) jmap" where
  "jmap_delete m k \<equiv> AList.delete k m"

abbreviation jmap_keys :: "('k, 'v) jmap \<Rightarrow> 'k list" where
  "jmap_keys m \<equiv> map fst m"

abbreviation jmap_values :: "('k, 'v) jmap \<Rightarrow> 'v list" where
  "jmap_values m \<equiv> map snd m"

abbreviation jmap_ok :: "('k, 'v) jmap \<Rightarrow> bool" where
  "jmap_ok m \<equiv> distinct (map fst m)"

definition jmap_has :: "('k, 'v) jmap \<Rightarrow> 'k \<Rightarrow> bool" where
  "jmap_has m k = (map_of m k \<noteq> None)"

text \<open>A JavaScript \<open>Set\<close>, and the key order of a \<open>Map\<close>: \<open>add\<close> appends an absent element.\<close>

definition jset_add :: "'a \<Rightarrow> 'a list \<Rightarrow> 'a list" where
  "jset_add x xs = (if x \<in> set xs then xs else xs @ [x])"

lemma set_jset_add [simp]: "set (jset_add x xs) = insert x (set xs)"
  by (auto simp: jset_add_def)

lemma distinct_jset_add [simp]: "distinct (jset_add x xs) = distinct xs"
  by (simp add: jset_add_def)

lemma length_jset_add: "length (jset_add x xs) = (if x \<in> set xs then length xs else Suc (length xs))"
  by (simp add: jset_add_def)

lemma pred_option_code [code]: "pred_option P None = True" "pred_option P (Some x) = P x"
  by simp_all

section \<open>Facts about insertion-ordered maps\<close>

lemma jmap_has_iff [jmap_simps]: "jmap_has m k \<longleftrightarrow> k \<in> fst ` set m"
  by (simp add: jmap_has_def map_of_eq_None_iff)

lemma length_jmap_set [jmap_simps]:
  "length (jmap_set m k v) = (if k \<in> fst ` set m then length m else Suc (length m))"
  by (induction m) auto

lemma length_jmap_set_le: "length (jmap_set m k v) \<le> Suc (length m)"
  by (simp add: length_jmap_set)

lemma jmap_set_fresh: "k \<notin> fst ` set m \<Longrightarrow> jmap_set m k v = m @ [(k, v)]"
  by (induction m) auto

lemma set_jmap_delete [jmap_simps]: "set (jmap_delete m k) = {p \<in> set m. fst p \<noteq> k}"
  by (auto simp: AList.delete_eq)

lemma jmap_delete_absent: "k \<notin> fst ` set m \<Longrightarrow> jmap_delete m k = m"
  by simp

lemma length_jmap_delete:
  "jmap_ok m \<Longrightarrow> k \<in> fst ` set m \<Longrightarrow> Suc (length (jmap_delete m k)) = length m"
  by (induction m) auto

lemma jmap_ok_set [intro, simp]: "jmap_ok m \<Longrightarrow> jmap_ok (jmap_set m k v)"
  by (rule distinct_update)

lemma jmap_ok_delete [intro, simp]: "jmap_ok m \<Longrightarrow> jmap_ok (jmap_delete m k)"
  by (rule distinct_delete)

lemma jmap_get_set [simp]: "jmap_get (jmap_set m k v) k' = (if k' = k then Some v else jmap_get m k')"
  by (simp add: update_conv')

lemma jmap_get_delete [simp]: "jmap_get (jmap_delete m k) k' = (if k' = k then None else jmap_get m k')"
  by (simp add: delete_conv')

lemma jmap_keys_set: "fst ` set (jmap_set m k v) = insert k (fst ` set m)"
  by (simp add: dom_update)

lemma set_jmap_set:
  "jmap_ok m \<Longrightarrow> set (jmap_set m k v) = insert (k, v) {p \<in> set m. fst p \<noteq> k}"
  by (induction m) (auto simp: image_iff)

lemma jmap_get_in: "jmap_get m k = Some v \<Longrightarrow> (k, v) \<in> set m"
  by (rule map_of_SomeD)

lemma jmap_in_get: "jmap_ok m \<Longrightarrow> (k, v) \<in> set m \<Longrightarrow> jmap_get m k = Some v"
  by (rule map_of_is_SomeI)

section \<open>Strings\<close>

text \<open>ASCII classes of the regular expressions, and \<open>String.split\<close> at a one-unit separator.\<close>

definition is_digit :: "char \<Rightarrow> bool" where
  "is_digit c = (48 \<le> (of_char c :: nat) \<and> (of_char c :: nat) \<le> 57)"

definition is_lower_hex :: "char \<Rightarrow> bool" where
  "is_lower_hex c = (is_digit c \<or> (97 \<le> (of_char c :: nat) \<and> (of_char c :: nat) \<le> 102))"

definition lower_hex :: "nat \<Rightarrow> string \<Rightarrow> bool" where
  "lower_hex n s = (length s = n \<and> list_all is_lower_hex s)"

fun split_on :: "'a \<Rightarrow> 'a list \<Rightarrow> 'a list list" where
  "split_on d [] = [[]]"
| "split_on d (x # xs) =
     (if x = d then [] # split_on d xs
      else case split_on d xs of [] \<Rightarrow> [[x]] | f # fs \<Rightarrow> (x # f) # fs)"

lemma split_on_nonempty [simp]: "split_on d xs \<noteq> []"
  by (induction xs) (auto split: list.splits)

lemma split_on_none: "d \<notin> set xs \<Longrightarrow> split_on d xs = [xs]"
  by (induction xs) auto

lemma split_on_append: "d \<notin> set xs \<Longrightarrow> split_on d (xs @ d # ys) = xs # split_on d ys"
  by (induction xs) auto

lemma split_on_fields: "f \<in> set (split_on d xs) \<Longrightarrow> d \<notin> set f"
  by (induction xs arbitrary: f) (fastforce split: list.splits if_splits)+

fun join_with :: "'a \<Rightarrow> 'a list list \<Rightarrow> 'a list" where
  "join_with d [] = []"
| "join_with d [f] = f"
| "join_with d (f # fs) = f @ d # join_with d fs"

lemma join_split_on: "join_with d (split_on d xs) = xs"
proof (induction xs)
  case (Cons x xs)
  then show ?case by (cases "split_on d xs"; cases "tl (split_on d xs)") auto
qed simp

section \<open>Decimal text\<close>

text \<open>What a template literal prints for an integer.\<close>

fun show_nat :: "nat \<Rightarrow> string" where
  "show_nat n = (if n < 10 then [char_of (48 + n)] else show_nat (n div 10) @ [char_of (48 + n mod 10)])"

declare show_nat.simps [simp del]

definition show_int :: "int \<Rightarrow> string" where
  "show_int i = (if i < 0 then ''-'' @ show_nat (nat (- i)) else show_nat (nat i))"

definition nat_of_text :: "string \<Rightarrow> nat" where
  "nat_of_text s = foldl (\<lambda>a c. 10 * a + (of_char c - 48)) 0 s"

lemma nat_of_show_nat [simp]: "nat_of_text (show_nat n) = n"
proof (induction n rule: show_nat.induct)
  case (1 n)
  then show ?case by (subst show_nat.simps) (simp add: nat_of_text_def)
qed

lemma show_nat_inject [simp]: "show_nat m = show_nat n \<longleftrightarrow> m = n"
  by (metis nat_of_show_nat)

lemma is_digit_char: "n < (10::nat) \<Longrightarrow> is_digit (char_of (48 + n))"
  by (simp add: is_digit_def)

lemma show_nat_digits: "list_all is_digit (show_nat n)"
proof (induction n rule: show_nat.induct)
  case (1 n)
  then show ?case by (subst show_nat.simps) (simp add: is_digit_char)
qed

lemma show_nat_nonempty [simp]: "show_nat n \<noteq> []"
  by (subst show_nat.simps) simp

section \<open>Shrinking a store to its cap\<close>

text \<open>
  \<open>while (size > cap) evict()\<close>. The loop is written with \<open>while_option\<close>, so a loop that
  did not stop would be the value \<open>None\<close>; \<open>shrink\<close> is its result.
\<close>

definition shrink_loop :: "('s \<Rightarrow> nat) \<Rightarrow> ('s \<Rightarrow> 's) \<Rightarrow> nat \<Rightarrow> 's \<Rightarrow> 's option" where
  "shrink_loop count evict cap s = while_option (\<lambda>x. cap < count x) evict s"

definition shrink :: "('s \<Rightarrow> nat) \<Rightarrow> ('s \<Rightarrow> 's) \<Rightarrow> nat \<Rightarrow> 's \<Rightarrow> 's" where
  "shrink count evict cap s = while (\<lambda>x. cap < count x) evict s"

lemma shrink_of_loop: "shrink_loop count evict cap s = Some t \<Longrightarrow> shrink count evict cap s = t"
  by (simp add: shrink_def shrink_loop_def while_def)

lemma shrink_unfold:
  "shrink count evict cap s =
     (if cap < count s then shrink count evict cap (evict s) else s)"
  unfolding shrink_def by (rule while_unfold)

text \<open>
  The interface of a store that evicts one element at a time: what the eviction loop
  relies on, and what it then delivers.
\<close>

locale evicting_store =
  fixes count :: "'s \<Rightarrow> nat" and evict :: "'s \<Rightarrow> 's"
    and ok :: "'s \<Rightarrow> bool" and contents :: "'s \<Rightarrow> 'e set"
  assumes evict_count: "ok s \<Longrightarrow> 0 < count s \<Longrightarrow> Suc (count (evict s)) = count s"
    and evict_ok: "ok s \<Longrightarrow> 0 < count s \<Longrightarrow> ok (evict s)"
    and evict_contents: "ok s \<Longrightarrow> 0 < count s \<Longrightarrow> contents (evict s) \<subseteq> contents s"
begin

lemma shrink_loop_stops:
  assumes "ok s"
  shows "\<exists>t. shrink_loop count evict cap s = Some t"
  unfolding shrink_loop_def
  using assms
  by (intro measure_while_option_Some [where P = ok and f = count])
     (auto simp: evict_ok less_Suc_eq_le dest: evict_count)

lemma shrink_rule:
  assumes "ok s"
  shows "ok (shrink count evict cap s) \<and>
    count (shrink count evict cap s) = min (count s) cap \<and>
    contents (shrink count evict cap s) \<subseteq> contents s"
  using assms
proof (induction "count s" arbitrary: s rule: less_induct)
  case less
  show ?case
  proof (cases "cap < count s")
    case True
    then have "0 < count s" by simp
    with less.prems have s: "Suc (count (evict s)) = count s" "ok (evict s)"
        "contents (evict s) \<subseteq> contents s"
      by (auto intro: evict_count evict_ok evict_contents [THEN subsetD])
    then have "ok (shrink count evict cap (evict s)) \<and>
        count (shrink count evict cap (evict s)) = min (count (evict s)) cap \<and>
        contents (shrink count evict cap (evict s)) \<subseteq> contents (evict s)"
      by (intro less.hyps) auto
    with s True show ?thesis
      by (auto simp: shrink_unfold [of count evict cap s] min_def)
  next
    case False
    with less.prems show ?thesis by (simp add: shrink_unfold [of count evict cap s])
  qed
qed

lemma shrink_within: "count s \<le> cap \<Longrightarrow> shrink count evict cap s = s"
  by (simp add: shrink_unfold [of count evict cap s])

lemma shrink_one:
  assumes "ok s" "count s = Suc cap"
  shows "shrink count evict cap s = evict s"
proof -
  from assms have "count (evict s) \<le> cap" using evict_count [of s] by simp
  with assms show ?thesis
    by (simp add: shrink_unfold [of count evict cap s] shrink_within)
qed

end

text \<open>A store whose victim is always an element of least age: what survives is the newest.\<close>

locale oldest_first_store = evicting_store +
  fixes age :: "'e \<Rightarrow> int"
  assumes evict_oldest:
    "ok s \<Longrightarrow> 0 < count s \<Longrightarrow> x \<in> contents s - contents (evict s) \<Longrightarrow> y \<in> contents s \<Longrightarrow> age x \<le> age y"
begin

lemma shrink_keeps_newest:
  assumes "ok s" "x \<in> contents s - contents (shrink count evict cap s)"
    "y \<in> contents (shrink count evict cap s)"
  shows "age x \<le> age y"
  using assms
proof (induction "count s" arbitrary: s rule: less_induct)
  case less
  show ?case
  proof (cases "cap < count s")
    case True
    then have pos: "0 < count s" by simp
    have u: "shrink count evict cap s = shrink count evict cap (evict s)"
      using True by (simp add: shrink_unfold [of count evict cap s])
    have e: "ok (evict s)" "count (evict s) < count s"
      using evict_ok [OF less.prems(1) pos] evict_count [OF less.prems(1) pos] by auto
    have y: "y \<in> contents s"
      using less.prems(3) shrink_rule [OF less.prems(1), of cap] by auto
    show ?thesis
    proof (cases "x \<in> contents (evict s)")
      case True
      with less.prems(2,3) u e show ?thesis by (intro less.hyps [of "evict s"]) auto
    next
      case False
      with less.prems pos y show ?thesis by (intro evict_oldest [of s]) auto
    qed
  next
    case False
    with less.prems show ?thesis by (simp add: shrink_unfold [of count evict cap s])
  qed
qed

end

end
