(* ===== verification/Text.thy ===== *)
theory Text imports Prelude "HOL-Library.Word" begin

text \<open>
  JavaScript's strings are lists of UTF-16 code units, a \<open>Buffer\<close> a list of bytes. This theory has the conversions
  between them (\<open>Buffer.from(s, "utf8")\<close>, \<open>toString("utf8")\<close> with its replacement characters) and the functions of the
  executors that cut text to a budget: \<^verbatim>\<open>packages/executors/src/truncation.ts\<close>, the stream collector of
  \<^verbatim>\<open>spawn.ts\<close>, and the summary, commit-message and output-tail caps of \<^verbatim>\<open>agent/agent-executor.ts\<close> and
  \<^verbatim>\<open>agent/write-executor.ts\<close>.
\<close>

unbundle bit_operations_syntax

type_synonym unit16 = "16 word"
type_synonym jtext = "unit16 list"
type_synonym byte = "8 word"

text \<open>An ASCII literal of the source as a text.\<close>

definition jtext_of :: "string \<Rightarrow> jtext" where
  "jtext_of s = map (\<lambda>c. of_nat (of_char c)) s"

lemma length_jtext_of [simp]: "length (jtext_of s) = length s"
  by (simp add: jtext_of_def)

section \<open>UTF-8 and UTF-16\<close>

definition scalar :: "nat \<Rightarrow> bool" where
  "scalar n = (n < 0x110000 \<and> \<not> (0xD800 \<le> n \<and> n < 0xE000))"

definition utf16 :: "nat \<Rightarrow> jtext" where
  "utf16 n = (if n < 0x10000 then [of_nat n]
     else [of_nat (0xD800 + (n - 0x10000) div 0x400), of_nat (0xDC00 + (n - 0x10000) mod 0x400)])"

definition utf8 :: "nat \<Rightarrow> byte list" where
  "utf8 n = map of_nat
     (if n < 0x80 then [n]
      else if n < 0x800 then [0xC0 + n div 0x40, 0x80 + n mod 0x40]
      else if n < 0x10000 then [0xE0 + n div 0x1000, 0x80 + n div 0x40 mod 0x40, 0x80 + n mod 0x40]
      else [0xF0 + n div 0x40000, 0x80 + n div 0x1000 mod 0x40, 0x80 + n div 0x40 mod 0x40, 0x80 + n mod 0x40])"

abbreviation utf16_text :: "nat list \<Rightarrow> jtext" where "utf16_text cs \<equiv> concat (map utf16 cs)"
abbreviation utf8_bytes :: "nat list \<Rightarrow> byte list" where "utf8_bytes cs \<equiv> concat (map utf8 cs)"

definition REPLACEMENT :: nat where "REPLACEMENT = 0xFFFD"

definition is_high :: "unit16 \<Rightarrow> bool" where "is_high u = (0xD800 \<le> u \<and> u \<le> 0xDBFF)"
definition is_low :: "unit16 \<Rightarrow> bool" where "is_low u = (0xDC00 \<le> u \<and> u \<le> 0xDFFF)"

text \<open>The code points of a text: a surrogate without its other half reads as the replacement character.\<close>

fun code_points :: "jtext \<Rightarrow> nat list" where
  "code_points [] = []"
| "code_points [u] = [if is_high u \<or> is_low u then REPLACEMENT else unat u]"
| "code_points (u # v # us) =
     (if is_high u \<and> is_low v then (0x10000 + (unat u - 0xD800) * 0x400 + (unat v - 0xDC00)) # code_points us
      else (if is_high u \<or> is_low u then REPLACEMENT else unat u) # code_points (v # us))"

definition to_buffer :: "jtext \<Rightarrow> byte list" where
  "to_buffer s = utf8_bytes (code_points s)"

text \<open>The decoder of \<open>toString\<close>: how many bytes are still missing, the range the next one must be in, and the bits so
  far. A byte out of range ends the sequence with a replacement character and is looked at again.\<close>

record decoder =
  dc_missing :: nat
  dc_lower :: nat
  dc_upper :: nat
  dc_bits :: nat

definition lead_byte :: "nat \<Rightarrow> nat list \<times> decoder" where
  "lead_byte b =
     (let st = (\<lambda>m lo up v. \<lparr>dc_missing = m, dc_lower = lo, dc_upper = up, dc_bits = v\<rparr>)
      in if b < 0x80 then ([b], st 0 0x80 0xBF 0)
         else if 0xC2 \<le> b \<and> b \<le> 0xDF then ([], st 1 0x80 0xBF (b - 0xC0))
         else if 0xE0 \<le> b \<and> b \<le> 0xEF then
           ([], st 2 (if b = 0xE0 then 0xA0 else 0x80) (if b = 0xED then 0x9F else 0xBF) (b - 0xE0))
         else if 0xF0 \<le> b \<and> b \<le> 0xF4 then
           ([], st 3 (if b = 0xF0 then 0x90 else 0x80) (if b = 0xF4 then 0x8F else 0xBF) (b - 0xF0))
         else ([REPLACEMENT], st 0 0x80 0xBF 0))"

definition next_byte :: "decoder \<Rightarrow> nat \<Rightarrow> nat list \<times> decoder" where
  "next_byte d b =
     (if dc_missing d = 0 then lead_byte b
      else if b < dc_lower d \<or> dc_upper d < b then (case lead_byte b of (cs, d') \<Rightarrow> (REPLACEMENT # cs, d'))
      else (let v = dc_bits d * 0x40 + (b - 0x80);
                d' = \<lparr>dc_missing = dc_missing d - 1, dc_lower = 0x80, dc_upper = 0xBF, dc_bits = v\<rparr>
            in if dc_missing d = 1 then ([v], d'\<lparr>dc_bits := 0\<rparr>) else ([], d')))"

fun decode_from :: "decoder \<Rightarrow> byte list \<Rightarrow> nat list" where
  "decode_from d [] = (if dc_missing d = 0 then [] else [REPLACEMENT])"
| "decode_from d (b # bs) = (case next_byte d (unat b) of (cs, d') \<Rightarrow> cs @ decode_from d' bs)"

definition fresh_decoder :: decoder where
  "fresh_decoder = \<lparr>dc_missing = 0, dc_lower = 0x80, dc_upper = 0xBF, dc_bits = 0\<rparr>"

definition buffer_text :: "byte list \<Rightarrow> jtext" where
  "buffer_text bs = utf16_text (decode_from fresh_decoder bs)"

section \<open>Truncation\<close>

definition is_continuation :: "byte \<Rightarrow> bool" where
  "is_continuation b = (b AND 0xC0 = 0x80)"

text \<open>The byte at the cut is the first one excluded; past the end there is none, read as 0.\<close>

fun back_off :: "byte list \<Rightarrow> nat \<Rightarrow> nat" where
  "back_off bs 0 = 0"
| "back_off bs (Suc n) =
     (if is_continuation (if Suc n < length bs then bs ! Suc n else 0) then back_off bs n else Suc n)"

definition capped_bytes :: "byte list \<Rightarrow> nat \<Rightarrow> byte list \<times> bool" where
  "capped_bytes bs maxBytes =
     (if length bs \<le> maxBytes then (bs, False) else (take (back_off bs maxBytes) bs, True))"

definition decode_utf8_capped :: "byte list \<Rightarrow> nat \<Rightarrow> jtext \<times> bool" where
  "decode_utf8_capped bs maxBytes = (case capped_bytes bs maxBytes of (kept, t) \<Rightarrow> (buffer_text kept, t))"

definition ELLIPSIS :: jtext where "ELLIPSIS = [0x2026]"

text \<open>Drops a lone high surrogate a cut left at the end; \<open>charCodeAt\<close> of the empty string is \<open>NaN\<close>.\<close>

definition drop_high :: "jtext \<Rightarrow> jtext" where
  "drop_high s = (if s \<noteq> [] \<and> is_high (last s) then butlast s else s)"

definition truncate_chars :: "jtext \<Rightarrow> nat \<Rightarrow> jtext" where
  "truncate_chars s maxChars = (if length s \<le> maxChars then s else drop_high (take maxChars s) @ ELLIPSIS)"

section \<open>What the executors cut\<close>

definition MAX_CAPTURED_STREAM_BYTES :: nat where "MAX_CAPTURED_STREAM_BYTES = 262144"

definition STREAM_TRUNCATION_MARKER :: jtext where
  "STREAM_TRUNCATION_MARKER = jtext_of (CHR 0x0A # ''[output truncated: stream exceeded 262144 bytes]'')"

text \<open>\<open>CappedStreamCollector\<close>: the kept bytes; four more than the cap, so that a cut character is seen.\<close>

definition collect :: "byte list \<Rightarrow> byte list \<Rightarrow> byte list" where
  "collect kept chunk =
     (let budget = MAX_CAPTURED_STREAM_BYTES + 4 - length kept
      in if budget = 0 then kept else kept @ (if length chunk \<le> budget then chunk else take budget chunk))"

definition collected_text :: "byte list \<Rightarrow> jtext" where
  "collected_text kept =
     (case decode_utf8_capped kept MAX_CAPTURED_STREAM_BYTES of
        (t, truncated) \<Rightarrow> if truncated then t @ STREAM_TRUNCATION_MARKER else t)"

definition MAX_SUMMARY_BYTES :: nat where "MAX_SUMMARY_BYTES = 262144"

definition SUMMARY_TRUNCATION_MARKER :: jtext where
  "SUMMARY_TRUNCATION_MARKER = jtext_of (CHR 0x0A # ''[summary truncated: exceeded 262144 bytes]'')"

definition cap_summary :: "jtext \<Rightarrow> jtext" where
  "cap_summary content =
     (case decode_utf8_capped (to_buffer content) MAX_SUMMARY_BYTES of
        (t, truncated) \<Rightarrow> if truncated then t @ SUMMARY_TRUNCATION_MARKER else t)"

definition MAX_COMMIT_MESSAGE_CHARS :: nat where "MAX_COMMIT_MESSAGE_CHARS = 4096"

definition cap_commit_message :: "jtext \<Rightarrow> jtext" where
  "cap_commit_message m =
     (if length m \<le> MAX_COMMIT_MESSAGE_CHARS then m else drop_high (take MAX_COMMIT_MESSAGE_CHARS m))"

definition tail_chars :: "jtext \<Rightarrow> nat \<Rightarrow> jtext" where
  "tail_chars s maxChars =
     (if length s \<le> maxChars then s
      else (let t = drop (length s - (maxChars - 1)) s
            in ELLIPSIS @ (if t \<noteq> [] \<and> is_low (hd t) then tl t else t)))"

section \<open>Encoding and decoding\<close>

lemma unat_byte [simp]: "n < 0x100 \<Longrightarrow> unat (of_nat n :: byte) = n"
  by (simp add: unat_of_nat)

lemma base64_digits:
  fixes n :: nat
  obtains q r where "n = q * 0x40 + r" "r < 0x40"
  by (metis div_mod_decomp mod_less_divisor zero_less_numeral)

lemma decode_step:
  assumes "dc_missing d = Suc m" "dc_lower d \<le> b" "b \<le> dc_upper d" "b < 0x100"
  shows "decode_from d (of_nat b # bs) =
    (if m = 0 then [dc_bits d * 0x40 + (b - 0x80)] @ decode_from fresh_decoder bs
     else decode_from \<lparr>dc_missing = m, dc_lower = 0x80, dc_upper = 0xBF, dc_bits = dc_bits d * 0x40 + (b - 0x80)\<rparr> bs)"
  using assms by (simp add: next_byte_def fresh_decoder_def Let_def)

lemma decode_lead:
  assumes "b < 0x100" "lead_byte b = ([], d)"
  shows "decode_from fresh_decoder (of_nat b # bs) = decode_from d bs"
  using assms by (simp add: next_byte_def fresh_decoder_def)

lemma decode_utf8_point:
  assumes "scalar n"
  shows "decode_from fresh_decoder (utf8 n @ bs) = n # decode_from fresh_decoder bs"
proof -
  obtain q r where n: "n = q * 0x40 + r" "r < 0x40" by (rule base64_digits)
  obtain p s where q: "q = p * 0x40 + s" "s < 0x40" by (rule base64_digits)
  obtain k t where p: "p = k * 0x40 + t" "t < 0x40" by (rule base64_digits)
  have "n div 0x40 = q \<and> n mod 0x40 = r" using n(2) by (simp add: n(1))
  moreover have "q div 0x40 = p \<and> q mod 0x40 = s" using q(2) by (simp add: q(1))
  moreover have "p div 0x40 = k \<and> p mod 0x40 = t" using p(2) by (simp add: p(1))
  ultimately have d: "n div 0x40 = q" "n mod 0x40 = r" "q div 0x40 = p" "q mod 0x40 = s" "p div 0x40 = k" "p mod 0x40 = t"
    by simp_all
  have "n div (0x40 * 0x40) = n div 0x40 div 0x40" "n div (0x40 * 0x40 * 0x40) = n div (0x40 * 0x40) div 0x40"
    by (rule div_mult2_eq)+
  then have d2: "n div 0x1000 = p" "n div 0x40000 = k" by (simp_all add: d)
  consider "n < 0x80" | "0x80 \<le> n" "n < 0x800" | "0x800 \<le> n" "n < 0x10000" | "0x10000 \<le> n" "n < 0x110000"
    using assms unfolding scalar_def by linarith
  then show ?thesis
  proof cases
    case 1
    then show ?thesis by (simp add: utf8_def next_byte_def fresh_decoder_def lead_byte_def)
  next
    case 2
    then have "q < 0x20" "2 \<le> q" using n by simp_all
    moreover have "utf8 n = [of_nat (0xC0 + q), of_nat (0x80 + r)]" using 2 d by (simp add: utf8_def)
    ultimately show ?thesis using n
      by (simp add: decode_lead decode_step lead_byte_def del: of_nat_add decode_from.simps)
  next
    case 3
    have u: "utf8 n = [of_nat (0xE0 + p), of_nat (0x80 + s), of_nat (0x80 + r)]" using 3 d d2 by (simp add: utf8_def)
    have b: "p < 0x10" "p = 0 \<Longrightarrow> 0x20 \<le> s" "p = 0xD \<Longrightarrow> s \<le> 0x1F"
      using 3 n q assms by (auto simp: scalar_def)
    show ?thesis unfolding u using n q b
      by (simp add: decode_lead decode_step lead_byte_def del: of_nat_add decode_from.simps)
  next
    case 4
    have u: "utf8 n = [of_nat (0xF0 + k), of_nat (0x80 + t), of_nat (0x80 + s), of_nat (0x80 + r)]"
      using 4 d d2 by (simp add: utf8_def)
    have b: "k < 5" "k = 0 \<Longrightarrow> 0x10 \<le> t" "k = 4 \<Longrightarrow> t \<le> 0xF"
      using 4 n q p by auto
    show ?thesis unfolding u using n q p b
      by (simp add: decode_lead decode_step lead_byte_def del: of_nat_add decode_from.simps)
  qed
qed

lemma decode_utf8_bytes: "list_all scalar cs \<Longrightarrow> decode_from fresh_decoder (utf8_bytes cs) = cs"
proof (induction cs)
  case Nil
  then show ?case by (simp add: fresh_decoder_def)
qed (simp add: decode_utf8_point)

lemma buffer_text_utf8: "list_all scalar cs \<Longrightarrow> buffer_text (utf8_bytes cs) = utf16_text cs"
  by (simp add: buffer_text_def decode_utf8_bytes)

lemma surrogates:
  assumes "n < 0x10000"
  shows "is_high (of_nat n) = (0xD800 \<le> n \<and> n < 0xDC00)" "is_low (of_nat n) = (0xDC00 \<le> n \<and> n < 0xE000)"
  using assms by (auto simp: is_high_def is_low_def word_le_nat_alt unat_of_nat)

lemma continuation_iff: "is_continuation b = (0x80 \<le> unat b \<and> unat b < 0xC0)"
proof -
  have "list_all (\<lambda>n. ((of_nat n :: byte) AND 0xC0 = 0x80) = (0x80 \<le> n \<and> n < 0xC0)) [0..<256]" by code_simp
  then have "\<forall>n \<in> set [0..<256]. ((of_nat n :: byte) AND 0xC0 = 0x80) = (0x80 \<le> n \<and> n < 0xC0)"
    by (simp only: list_all_iff)
  moreover have "unat b \<in> set [0..<256]" using unsigned_less [of b, where 'a = nat] by simp
  ultimately have "((of_nat (unat b) :: byte) AND 0xC0 = 0x80) = (0x80 \<le> unat b \<and> unat b < 0xC0)" by (rule bspec)
  then show ?thesis by (simp add: is_continuation_def)
qed

lemma utf8_nonempty [simp]: "utf8 c \<noteq> []"
  by (simp add: utf8_def)

lemma utf8_first:
  assumes "scalar c"
  shows "\<not> is_continuation (utf8 c ! 0)"
proof -
  have "c div 0x40 < 0x20" if "c < 0x800" using that by simp
  moreover have "c div 0x1000 < 0x10" if "c < 0x10000" using that by simp
  moreover have "c div 0x40000 < 0x5" if "c < 0x110000" using that by simp
  ultimately show ?thesis using assms
    by (simp add: utf8_def continuation_iff scalar_def del: of_nat_add)
qed

lemma utf8_rest: "0 < i \<Longrightarrow> i < length (utf8 c) \<Longrightarrow> is_continuation (utf8 c ! i)"
  by (auto simp: utf8_def continuation_iff less_Suc_eq numeral_2_eq_2 numeral_3_eq_3 split: if_splits simp del: of_nat_add)

text \<open>The longest prefix of the code points whose encoding fits.\<close>

fun fitting :: "nat \<Rightarrow> nat list \<Rightarrow> nat list" where
  "fitting m [] = []"
| "fitting m (c # cs) = (if length (utf8 c) \<le> m then c # fitting (m - length (utf8 c)) cs else [])"

lemma back_off_all:
  "\<forall>i. 0 < i \<and> i \<le> m \<longrightarrow> is_continuation (if i < length bs then bs ! i else 0) \<Longrightarrow> back_off bs m = 0"
  by (induction m) auto

lemma back_off_append:
  assumes "k < length ys" "\<not> is_continuation (ys ! 0)" "xs \<noteq> []"
  shows "back_off (xs @ ys) (length xs + k) = length xs + back_off ys k"
  using assms
proof (induction k)
  case 0
  then show ?case by (cases xs) (simp_all add: nth_append)
next
  case (Suc k)
  then show ?case by (simp add: nth_append)
qed

lemma back_off_fits:
  assumes "list_all scalar cs" "m < length (utf8_bytes cs)"
  shows "back_off (utf8_bytes cs) m = length (utf8_bytes (fitting m cs))"
  using assms
proof (induction cs arbitrary: m)
  case (Cons c cs)
  show ?case
  proof (cases "length (utf8 c) \<le> m")
    case True
    then obtain k where m: "m = length (utf8 c) + k" by (auto simp: le_iff_add)
    with Cons.prems have k: "k < length (utf8_bytes cs)" by simp
    then obtain d ds where cs: "cs = d # ds" by (cases cs) auto
    have "utf8_bytes cs ! 0 = utf8 d ! 0" by (simp add: cs nth_append)
    then have "\<not> is_continuation (utf8_bytes cs ! 0)" using utf8_first [of d] Cons.prems(1) by (simp add: cs)
    from back_off_append [OF k this, of "utf8 c"] show ?thesis
      using Cons.IH [OF _ k] Cons.prems(1) by (simp add: m)
  next
    case False
    then have "back_off (utf8_bytes (c # cs)) m = 0"
      by (intro back_off_all) (auto simp: nth_append utf8_rest)
    with False show ?thesis by simp
  qed
qed simp

lemma fitting_prefix: "\<exists>ds. cs = fitting m cs @ ds"
proof (induction m cs rule: fitting.induct)
  case (2 m c cs)
  then show ?case by (cases "length (utf8 c) \<le> m") auto
qed simp

lemma fitting_length: "length (utf8_bytes (fitting m cs)) \<le> m"
  by (induction m cs rule: fitting.induct) auto

lemma fitting_all: "length (utf8_bytes cs) \<le> m \<Longrightarrow> fitting m cs = cs"
  by (induction m cs rule: fitting.induct) auto

lemma fitting_scalar: "list_all scalar cs \<Longrightarrow> list_all scalar (fitting m cs)"
  by (induction m cs rule: fitting.induct) auto

lemma capped_text_fitting:
  assumes "list_all scalar cs"
  shows "decode_utf8_capped (utf8_bytes cs) maxBytes = (utf16_text (fitting maxBytes cs), maxBytes < length (utf8_bytes cs))"
proof (cases "length (utf8_bytes cs) \<le> maxBytes")
  case True
  then show ?thesis
    by (simp add: decode_utf8_capped_def capped_bytes_def buffer_text_utf8 [OF assms] fitting_all)
next
  case False
  obtain ds where "cs = fitting maxBytes cs @ ds" using fitting_prefix by blast
  then have "utf8_bytes cs = utf8_bytes (fitting maxBytes cs) @ utf8_bytes ds" by (metis concat_append map_append)
  then have "take (length (utf8_bytes (fitting maxBytes cs))) (utf8_bytes cs) = utf8_bytes (fitting maxBytes cs)"
    by (metis append_eq_conv_conj)
  with False show ?thesis
    by (simp add: decode_utf8_capped_def capped_bytes_def back_off_fits [OF assms]
        buffer_text_utf8 [OF fitting_scalar [OF assms]] del: length_concat)
qed

text \<open>The cut on a byte budget keeps whole characters: on the encoding of any text it keeps exactly the longest prefix
  of its characters whose encoding fits the budget, never a part of one, and reports whether anything was cut.\<close>

theorem capped_text_is_longest_prefix:
  assumes "list_all scalar cs"
  shows "decode_utf8_capped (utf8_bytes cs) maxBytes = (utf16_text (fitting maxBytes cs), maxBytes < length (utf8_bytes cs))"
  by (rule capped_text_fitting [OF assms])

section \<open>Well-formed texts\<close>

lemma unat_unit [simp]: "n < 0x10000 \<Longrightarrow> unat (of_nat n :: unit16) = n"
  by (simp add: unat_of_nat)

lemma utf16_cases:
  assumes "scalar c"
  obtains (unit) "utf16 c = [of_nat c]" "c < 0x10000" "\<not> is_high (of_nat c)" "\<not> is_low (of_nat c)"
  | (pair) h l where "utf16 c = [h, l]" "is_high h" "is_low l" "c = 0x10000 + (unat h - 0xD800) * 0x400 + (unat l - 0xDC00)"
proof (cases "c < 0x10000")
  case True
  then show thesis using assms surrogates [of c] by (intro unit) (auto simp: utf16_def scalar_def)
next
  case False
  let ?h = "0xD800 + (c - 0x10000) div 0x400" and ?l = "0xDC00 + (c - 0x10000) mod 0x400"
  have "c - 0x10000 < 0x100000" using assms False by (simp add: scalar_def)
  then have b: "(c - 0x10000) div 0x400 < 0x400" "(c - 0x10000) mod 0x400 < 0x400" by simp_all
  have h: "?h < 0x10000" "?l < 0x10000" using b by simp_all
  have c: "c = 0x10000 + ((c - 0x10000) div 0x400) * 0x400 + (c - 0x10000) mod 0x400" using False by simp
  show thesis
  proof (rule pair [of "of_nat ?h" "of_nat ?l"])
    show "utf16 c = [of_nat ?h, of_nat ?l]" using False by (simp add: utf16_def)
    show "is_high (of_nat ?h)" "is_low (of_nat ?l)" using surrogates [OF h(1)] surrogates [OF h(2)] b by simp_all
    show "c = 0x10000 + (unat (of_nat ?h :: unit16) - 0xD800) * 0x400 + (unat (of_nat ?l :: unit16) - 0xDC00)"
      using c by (simp only: unat_unit [OF h(1)] unat_unit [OF h(2)] diff_add_inverse)
  qed
qed

lemma high_not_low: "is_high u \<Longrightarrow> \<not> is_low u"
  by (auto simp: is_high_def is_low_def word_le_nat_alt)

lemma utf16_nonempty [simp]: "utf16 c \<noteq> []"
  by (simp add: utf16_def)

lemma code_points_utf16: "list_all scalar cs \<Longrightarrow> code_points (utf16_text cs) = cs"
proof (induction cs)
  case (Cons c cs)
  then have "scalar c" by simp
  then show ?case
  proof (cases rule: utf16_cases)
    case unit
    then have "code_points (of_nat c # us) = c # code_points us" for us by (cases us) simp_all
    with unit(1) Cons show ?thesis by simp
  next
    case (pair h l)
    with Cons show ?thesis by simp
  qed
qed simp

lemma code_points_scalar: "list_all scalar (code_points s)"
proof (induction s rule: code_points.induct)
  case (2 u)
  have "unat u < 0x10000" using unsigned_less [of u, where 'a = nat] by simp
  then show ?case using surrogates [of "unat u"] by (auto simp: scalar_def REPLACEMENT_def)
next
  case (3 u v us)
  have b: "unat u < 0x10000" "unat v < 0x10000"
    using unsigned_less [of u, where 'a = nat] unsigned_less [of v, where 'a = nat] by simp_all
  have "scalar (0x10000 + (unat u - 0xD800) * 0x400 + (unat v - 0xDC00))" if "is_high u" "is_low v"
  proof -
    have "unat u < 0xDC00" "unat v < 0xE000" using that surrogates [OF b(1)] surrogates [OF b(2)] by simp_all
    then have "unat u - 0xD800 \<le> 0x3FF" "unat v - 0xDC00 \<le> 0x3FF" by simp_all
    then show ?thesis by (simp add: scalar_def)
  qed
  moreover have "scalar (if is_high u \<or> is_low u then REPLACEMENT else unat u)"
    using b surrogates [OF b(1)] by (auto simp: scalar_def REPLACEMENT_def)
  ultimately show ?case using 3 by auto
qed simp

text \<open>A text is well formed if it is the encoding of some characters.\<close>

definition well_formed :: "jtext \<Rightarrow> bool" where
  "well_formed s = (utf16_text (code_points s) = s)"

lemma well_formed_utf16 [simp]: "list_all scalar cs \<Longrightarrow> well_formed (utf16_text cs)"
  by (simp add: well_formed_def code_points_utf16)

lemma well_formedE:
  assumes "well_formed s"
  obtains cs where "list_all scalar cs" "s = utf16_text cs"
  using assms code_points_scalar [of s] by (metis well_formed_def)

lemma well_formed_append: "well_formed s \<Longrightarrow> well_formed t \<Longrightarrow> well_formed (s @ t)"
proof -
  assume "well_formed s" "well_formed t"
  then obtain cs ds where "list_all scalar cs" "list_all scalar ds" "s = utf16_text cs" "t = utf16_text ds"
    by (metis well_formedE)
  then show ?thesis using well_formed_utf16 [of "cs @ ds"] by simp
qed

lemma utf16_small: "n < 0x10000 \<Longrightarrow> utf16 n = [of_nat n]"
  by (simp add: utf16_def)

lemma scalar_small: "n < 0xD800 \<Longrightarrow> scalar n"
  by (simp add: scalar_def)

lemma char_scalar: "scalar (of_char c)"
proof -
  have "(of_char c :: nat) < 256" by (rule nat_of_char_less_256)
  then have "(of_char c :: nat) < 0xD800" by linarith
  then show ?thesis by (rule scalar_small)
qed

lemma jtext_of_utf16: "jtext_of s = utf16_text (map of_char s)"
proof (induction s)
  case (Cons c s)
  have "(of_char c :: nat) < 256" by (rule nat_of_char_less_256)
  then have "(of_char c :: nat) < 0x10000" by linarith
  then have "utf16 (of_char c) = [of_nat (of_char c)]" by (rule utf16_small)
  with Cons show ?case by (simp add: jtext_of_def)
qed (simp add: jtext_of_def)

lemma literal_scalar: "list_all scalar (map of_char s)"
  by (simp add: list_all_iff char_scalar)

lemma well_formed_literal [simp]: "well_formed (jtext_of s)"
  unfolding jtext_of_utf16 by (rule well_formed_utf16 [OF literal_scalar])

lemma literal_bytes:
  assumes "list_all (\<lambda>c. (of_char c :: nat) < 0x80) s"
  shows "length (utf8_bytes (code_points (jtext_of s))) = length s"
proof -
  have "length (utf8_bytes (map of_char s)) = length s"
    using assms by (induction s) (simp_all add: utf8_def)
  then show ?thesis by (simp only: jtext_of_utf16 code_points_utf16 [OF literal_scalar])
qed

lemma well_formed_ellipsis [simp]: "well_formed ELLIPSIS"
  using well_formed_utf16 [of "[0x2026]"] by (simp add: ELLIPSIS_def scalar_def utf16_def)

section \<open>The cuts on code units\<close>

text \<open>The longest prefix of the characters whose encoding fits in code units.\<close>

fun fitting16 :: "nat \<Rightarrow> nat list \<Rightarrow> nat list" where
  "fitting16 m [] = []"
| "fitting16 m (c # cs) = (if length (utf16 c) \<le> m then c # fitting16 (m - length (utf16 c)) cs else [])"

lemma fitting16_scalar: "list_all scalar cs \<Longrightarrow> list_all scalar (fitting16 m cs)"
  by (induction m cs rule: fitting16.induct) auto

lemma drop_high_append: "ys \<noteq> [] \<or> \<not> is_high (last xs) \<Longrightarrow> xs \<noteq> [] \<Longrightarrow> drop_high (xs @ ys) = xs @ drop_high ys"
  by (auto simp: drop_high_def butlast_append)

lemma drop_high_take:
  "list_all scalar cs \<Longrightarrow> drop_high (take m (utf16_text cs)) = utf16_text (fitting16 m cs)"
proof (induction cs arbitrary: m)
  case (Cons c cs)
  then have c: "scalar c" by simp
  show ?case
  proof (cases "length (utf16 c) \<le> m")
    case True
    have "\<not> is_high (last (utf16 c))" using c by (cases rule: utf16_cases) (auto dest: high_not_low)
    then show ?thesis using True Cons by (simp add: drop_high_append)
  next
    case False
    with c have "m = 0 \<or> m = 1 \<and> (\<exists>h l. utf16 c = [h, l] \<and> is_high h)"
      by (cases rule: utf16_cases) (auto simp: less_Suc_eq)
    with False show ?thesis by (auto simp: drop_high_def)
  qed
qed (simp add: drop_high_def)

lemma drop_utf16:
  "list_all scalar cs \<Longrightarrow> \<exists>ds. list_all scalar ds \<and>
     (let t = drop k (utf16_text cs) in (if t \<noteq> [] \<and> is_low (hd t) then tl t else t)) = utf16_text ds"
proof (induction cs arbitrary: k)
  case (Cons c cs)
  then have c: "scalar c" by simp
  show ?case
  proof (cases "length (utf16 c) \<le> k")
    case True
    then show ?thesis using Cons by simp
  next
    case False
    show ?thesis using c
    proof (cases rule: utf16_cases)
      case unit
      with False have "k = 0" by simp
      with unit Cons.prems show ?thesis by (intro exI [of _ "c # cs"]) simp
    next
      case (pair h l)
      with False have "k = 0 \<or> k = 1" by auto
      then show ?thesis
      proof
        assume "k = 0"
        then show ?thesis using Cons.prems pair by (intro exI [of _ "c # cs"]) (auto dest: high_not_low)
      next
        assume "k = 1"
        then show ?thesis using Cons.prems pair by (intro exI [of _ cs]) simp
      qed
    qed
  qed
qed simp

lemma ELLIPSIS_length [simp]: "length ELLIPSIS = 1"
  by (simp add: ELLIPSIS_def)

lemma length_drop_high: "length (drop_high s) \<le> length s"
  by (simp add: drop_high_def)

lemma length_drop_high_ge: "length s - 1 \<le> length (drop_high s)"
  by (simp add: drop_high_def)

lemma cap_commit_nonempty: "s \<noteq> [] \<Longrightarrow> cap_commit_message s \<noteq> []"
proof -
  assume s: "s \<noteq> []"
  have "drop_high (take MAX_COMMIT_MESSAGE_CHARS s) \<noteq> []" if "\<not> length s \<le> MAX_COMMIT_MESSAGE_CHARS"
  proof -
    have "2 \<le> length (take MAX_COMMIT_MESSAGE_CHARS s)" using that by (simp add: MAX_COMMIT_MESSAGE_CHARS_def)
    then have "1 \<le> length (drop_high (take MAX_COMMIT_MESSAGE_CHARS s))"
      using length_drop_high_ge [of "take MAX_COMMIT_MESSAGE_CHARS s"] by linarith
    then show ?thesis by (metis list.size(3) not_one_le_zero)
  qed
  with s show ?thesis by (simp add: cap_commit_message_def)
qed

text \<open>Cutting a text never leaves half a character: every function of the executors that cuts text - to a number of
  code units at its end or at its start, or to a number of bytes - turns a well-formed text into a well-formed one, within
  its bound: one more unit than asked for the event summaries (the ellipsis comes on top), the schema's own 4096 for
  commit messages, and the asked-for number for an output tail.\<close>

theorem cuts_are_well_formed:
  assumes "well_formed s" "1 \<le> n"
  shows "well_formed (truncate_chars s n) \<and> length (truncate_chars s n) \<le> n + 1 \<and>
    well_formed (cap_commit_message s) \<and> length (cap_commit_message s) \<le> 4096 \<and> ((cap_commit_message s = []) = (s = [])) \<and>
    well_formed (tail_chars s n) \<and> length (tail_chars s n) \<le> n \<and> well_formed (cap_summary s)"
proof -
  obtain cs where cs: "list_all scalar cs" "s = utf16_text cs" by (rule well_formedE [OF assms(1)])
  have cut: "well_formed (drop_high (take k s))" for k
    using cs(1) by (simp add: cs(2) drop_high_take fitting16_scalar)
  have tr: "well_formed (truncate_chars s n)" "length (truncate_chars s n) \<le> n + 1"
    using cut [of n] length_drop_high [of "take n s"] assms(1)
    by (auto simp: truncate_chars_def intro: well_formed_append)
  have cm: "well_formed (cap_commit_message s)" "length (cap_commit_message s) \<le> 4096"
    using cut [of MAX_COMMIT_MESSAGE_CHARS] length_drop_high [of "take MAX_COMMIT_MESSAGE_CHARS s"] assms(1)
    by (auto simp: cap_commit_message_def MAX_COMMIT_MESSAGE_CHARS_def)
  have ne: "cap_commit_message s = [] \<longleftrightarrow> s = []"
    by (cases "s = []") (simp add: cap_commit_message_def, simp add: cap_commit_nonempty)
  have tl: "well_formed (tail_chars s n)"
  proof (cases "length s \<le> n")
    case False
    define t where "t = drop (length s - (n - 1)) s"
    obtain ds where ds: "list_all scalar ds" "(if t \<noteq> [] \<and> is_low (hd t) then tl t else t) = utf16_text ds"
      using drop_utf16 [OF cs(1), of "length s - (n - 1)"] unfolding t_def cs(2) Let_def by blast
    have "tail_chars s n = ELLIPSIS @ (if t \<noteq> [] \<and> is_low (hd t) then tl t else t)"
      using False by (simp add: tail_chars_def Let_def t_def)
    then have "tail_chars s n = ELLIPSIS @ utf16_text ds" by (simp only: ds(2))
    then show ?thesis using well_formed_append [OF well_formed_ellipsis well_formed_utf16 [OF ds(1)]] by simp
  qed (use assms(1) in \<open>simp add: tail_chars_def\<close>)
  have tl2: "length (tail_chars s n) \<le> n"
  proof (cases "length s \<le> n")
    case False
    define t where "t = drop (length s - (n - 1)) s"
    have "length t \<le> n - 1" by (simp add: t_def)
    then have "1 + length (if t \<noteq> [] \<and> is_low (hd t) then tl t else t) \<le> n" using assms(2) by auto
    moreover have "tail_chars s n = ELLIPSIS @ (if t \<noteq> [] \<and> is_low (hd t) then tl t else t)"
      using False by (simp add: tail_chars_def Let_def t_def)
    ultimately show ?thesis by simp
  qed (simp add: tail_chars_def)
  have "well_formed (cap_summary s)"
    by (simp add: cap_summary_def to_buffer_def capped_text_fitting [OF code_points_scalar] code_points_scalar fitting_scalar well_formed_append
        SUMMARY_TRUNCATION_MARKER_def)
  with tr cm ne tl tl2 show ?thesis by blast
qed


theorem cuts_are_well_formed_witness:
  "well_formed (jtext_of ''ab'' @ utf16 0x1F600) \<and>
   length (truncate_chars (jtext_of ''ab'' @ utf16 0x1F600) 3) \<le> 4"
proof -
  have "well_formed (utf16_text [0x61, 0x62, 0x1F600])" by (rule well_formed_utf16) (simp add: scalar_def)
  moreover have "utf16_text [0x61, 0x62, 0x1F600] = jtext_of ''ab'' @ utf16 0x1F600"
    by (simp add: utf16_def jtext_of_def)
  ultimately have w: "well_formed (jtext_of ''ab'' @ utf16 0x1F600)" by (simp only:)
  show ?thesis using w cuts_are_well_formed [OF w, of 3] by simp
qed

theorem capped_text_is_longest_prefix_witness:
  "decode_utf8_capped (utf8_bytes [0x61, 0x20AC]) 3 = (jtext_of ''a'', True)"
proof -
  have "list_all scalar [0x61, 0x20AC]" by (simp add: scalar_def)
  from capped_text_is_longest_prefix [OF this, of 3] show ?thesis by (simp add: utf8_def utf16_def jtext_of_def)
qed

section \<open>The stream collector\<close>

lemma collect_take: "collect (take (MAX_CAPTURED_STREAM_BYTES + 4) bs) chunk = take (MAX_CAPTURED_STREAM_BYTES + 4) (bs @ chunk)"
  by (simp add: collect_def Let_def min_def)

lemma collect_all: "foldl collect [] chunks = take (MAX_CAPTURED_STREAM_BYTES + 4) (concat chunks)"
proof (induction chunks rule: rev_induct)
  case (snoc c cs)
  then show ?case by (simp add: collect_take)
qed simp

lemma back_off_take: "m < k \<Longrightarrow> back_off (take k bs) m = back_off bs m"
  by (induction m) auto

lemma back_off_le: "back_off bs m \<le> m"
  by (induction bs m rule: back_off.induct) auto

text \<open>C39 Capturing a stream in pieces is the same as cutting it afterwards: whatever bytes the process writes and however
  they arrive, the collector, which stops keeping bytes four past the cap, delivers the text that cutting the whole output
  at the cap would give, and appends the marker exactly when the output exceeds the cap.\<close>

theorem capture_refines_whole_output:
  "collected_text (foldl collect [] chunks) =
     fst (decode_utf8_capped (concat chunks) MAX_CAPTURED_STREAM_BYTES) @
       (if MAX_CAPTURED_STREAM_BYTES < length (concat chunks) then STREAM_TRUNCATION_MARKER else [])"
proof (cases "length (concat chunks) \<le> MAX_CAPTURED_STREAM_BYTES")
  case True
  then have "take (MAX_CAPTURED_STREAM_BYTES + 4) (concat chunks) = concat chunks" by (simp del: length_concat)
  with True show ?thesis
    unfolding collect_all by (simp add: collected_text_def decode_utf8_capped_def capped_bytes_def del: length_concat)
next
  case False
  let ?M = MAX_CAPTURED_STREAM_BYTES
  have "back_off (take (?M + 4) (concat chunks)) ?M = back_off (concat chunks) ?M" by (rule back_off_take) simp
  moreover have "back_off (concat chunks) ?M \<le> ?M + 4" using back_off_le [of "concat chunks" ?M] by linarith
  ultimately show ?thesis using False
    unfolding collect_all
    by (simp add: collected_text_def decode_utf8_capped_def capped_bytes_def min_def del: length_concat)
qed

text \<open>The caps bound the captured bytes, not the text on the wire: a byte that is no UTF-8 is decoded to a replacement
  character of three bytes, so two streams of binary output exceed the 1 MiB body the transport accepts.\<close>

lemma decode_invalid: "decode_from fresh_decoder (replicate n 0xFF) = replicate n REPLACEMENT"
proof (induction n)
  case (Suc n)
  have "next_byte fresh_decoder 255 = ([REPLACEMENT], fresh_decoder)"
    by (simp add: next_byte_def fresh_decoder_def lead_byte_def)
  with Suc show ?case by simp
qed (simp add: fresh_decoder_def)

lemma concat_replicate_length: "length (concat (replicate n xs)) = n * length xs"
  by (induction n) simp_all

lemma binary_capture_exceeds_body:
  "1024 * 1024 < 2 * length (to_buffer (collected_text (replicate MAX_CAPTURED_STREAM_BYTES 0xFF)))"
proof -
  let ?n = MAX_CAPTURED_STREAM_BYTES
  have s: "list_all scalar (replicate ?n REPLACEMENT)" by (simp add: list_all_iff REPLACEMENT_def scalar_def)
  have "collected_text (replicate ?n 0xFF) = utf16_text (replicate ?n REPLACEMENT)"
    by (simp add: collected_text_def decode_utf8_capped_def capped_bytes_def buffer_text_def decode_invalid)
  then have "to_buffer (collected_text (replicate ?n 0xFF)) = utf8_bytes (replicate ?n REPLACEMENT)"
    by (simp add: to_buffer_def code_points_utf16 [OF s] del: map_replicate)
  also have "length \<dots> = ?n * 3" by (simp add: concat_replicate_length REPLACEMENT_def utf8_def del: length_concat)
  finally show ?thesis by (simp add: MAX_CAPTURED_STREAM_BYTES_def)
qed

section \<open>The summary fits\<close>

lemma to_buffer_utf16: "list_all scalar cs \<Longrightarrow> to_buffer (utf16_text cs) = utf8_bytes cs"
  by (simp add: to_buffer_def code_points_utf16)

text \<open>A summary always fits its budget on the wire: whatever the model answered, the capped summary takes at most 256
  KiB and the marker in UTF-8, and a well-formed answer that fits is delivered unchanged.\<close>

theorem summary_fits:
  "length (to_buffer (cap_summary s)) \<le> MAX_SUMMARY_BYTES + length SUMMARY_TRUNCATION_MARKER \<and>
   (if well_formed s \<and> length (to_buffer s) \<le> MAX_SUMMARY_BYTES then cap_summary s = s else True)"
proof -
  let ?cs = "code_points s"
  have f: "list_all scalar (fitting MAX_SUMMARY_BYTES ?cs)" by (rule fitting_scalar [OF code_points_scalar])
  have m: "list_all scalar (code_points SUMMARY_TRUNCATION_MARKER)" by (rule code_points_scalar)
  have mt: "utf16_text (code_points SUMMARY_TRUNCATION_MARKER) = SUMMARY_TRUNCATION_MARKER"
    using well_formed_literal by (simp add: SUMMARY_TRUNCATION_MARKER_def well_formed_def)
  have ml: "length (utf8_bytes (code_points SUMMARY_TRUNCATION_MARKER)) = length SUMMARY_TRUNCATION_MARKER"
    unfolding SUMMARY_TRUNCATION_MARKER_def length_jtext_of by (rule literal_bytes) simp
  have c: "cap_summary s = utf16_text (fitting MAX_SUMMARY_BYTES ?cs) @
      (if MAX_SUMMARY_BYTES < length (utf8_bytes ?cs) then SUMMARY_TRUNCATION_MARKER else [])"
    by (simp add: cap_summary_def to_buffer_def capped_text_fitting [OF code_points_scalar] del: length_concat)
  have "to_buffer (utf16_text (fitting MAX_SUMMARY_BYTES ?cs) @ SUMMARY_TRUNCATION_MARKER) =
      utf8_bytes (fitting MAX_SUMMARY_BYTES ?cs) @ utf8_bytes (code_points SUMMARY_TRUNCATION_MARKER)"
    using to_buffer_utf16 [of "fitting MAX_SUMMARY_BYTES ?cs @ code_points SUMMARY_TRUNCATION_MARKER"] f m by (simp add: mt)
  then have "length (to_buffer (cap_summary s)) \<le> MAX_SUMMARY_BYTES + length SUMMARY_TRUNCATION_MARKER"
    using fitting_length [of MAX_SUMMARY_BYTES ?cs] ml
    by (simp add: c to_buffer_utf16 [OF f] del: length_concat)
  moreover have "cap_summary s = s" if "well_formed s" "length (to_buffer s) \<le> MAX_SUMMARY_BYTES"
    using that by (simp add: c to_buffer_def well_formed_def fitting_all del: length_concat)
  ultimately show ?thesis by simp
qed

end
