(* ===== verification/Semver.thy ===== *)
theory Semver imports Prelude "HOL-Library.Extended_Nat" begin

text \<open>
  \<^verbatim>\<open>packages/daemon/src/upgrade/semver.ts\<close>: strict \<open>X.Y.Z\<close> versions. The regular
  expression is the split at dots into three non-empty fields of ASCII digits; \<open>Number\<close> of
  such a field is the IEEE double nearest to its decimal value (ties to even, infinity
  from \<open>2 ^ 1024\<close> on), which \<open>enat\<close> holds exactly.
\<close>

section \<open>The pattern\<close>

definition digits :: "string \<Rightarrow> bool" where
  "digits s = (s \<noteq> [] \<and> list_all is_digit s)"

definition SEMVER :: "string \<Rightarrow> (string \<times> string \<times> string) option" where
  "SEMVER version =
     (case split_on (CHR ''.'') version of
        [x, y, z] \<Rightarrow> if digits x \<and> digits y \<and> digits z then Some (x, y, z) else None
      | _ \<Rightarrow> None)"

definition is_semver :: "string \<Rightarrow> bool" where
  "is_semver version = (SEMVER version \<noteq> None)"

section \<open>Number of a digit string\<close>

definition dec_value :: "string \<Rightarrow> nat" where
  "dec_value s = foldl (\<lambda>n c. 10 * n + (of_char c - 48)) 0 s"

text \<open>The gap between neighbouring doubles at \<open>n\<close>, a power of two.\<close>

fun ulp :: "nat \<Rightarrow> nat" where
  "ulp n = (if n < 2 ^ 53 then 1 else 2 * ulp (n div 2))"

declare ulp.simps [simp del]

definition to_double :: "nat \<Rightarrow> enat" where
  "to_double n =
     (let u = ulp n; q = n div u; r = n mod u;
          q' = (if 2 * r > u \<or> (2 * r = u \<and> odd q) then Suc q else q);
          m = q' * u
      in if m \<ge> 2 ^ 1024 then \<infinity> else enat m)"

definition js_number :: "string \<Rightarrow> enat" where
  "js_number s = to_double (dec_value s)"

section \<open>Parsing and comparing\<close>

datatype semver_error = NotSemver string

definition parse_semver :: "string \<Rightarrow> semver_error + (enat \<times> enat \<times> enat)" where
  "parse_semver version =
     (case SEMVER version of
        None \<Rightarrow> Inl (NotSemver version)
      | Some (x, y, z) \<Rightarrow> Inr (js_number x, js_number y, js_number z))"

fun compare_components :: "enat list \<Rightarrow> enat list \<Rightarrow> int" where
  "compare_components (l # ls) (r # rs) =
     (if l \<noteq> r then (if l > r then 1 else -1) else compare_components ls rs)"
| "compare_components _ _ = 0"

definition compare_semver :: "string \<Rightarrow> string \<Rightarrow> semver_error + int" where
  "compare_semver a b =
     (case parse_semver a of
        Inl e \<Rightarrow> Inl e
      | Inr (l0, l1, l2) \<Rightarrow>
          (case parse_semver b of
             Inl e \<Rightarrow> Inl e
           | Inr (r0, r1, r2) \<Rightarrow> Inr (compare_components [l0, l1, l2] [r0, r1, r2])))"

definition major_of :: "string \<Rightarrow> semver_error + enat" where
  "major_of version = map_sum id fst (parse_semver version)"

section \<open>What the pattern accepts\<close>

lemma digits_no_dot: "digits s \<Longrightarrow> CHR ''.'' \<notin> set s"
  by (auto simp: digits_def is_digit_def list_all_iff)

lemma SEMVER_iff:
  "SEMVER v = Some (x, y, z) \<longleftrightarrow>
     v = x @ ''.'' @ y @ ''.'' @ z \<and> digits x \<and> digits y \<and> digits z"
proof
  assume "SEMVER v = Some (x, y, z)"
  then have s: "split_on (CHR ''.'') v = [x, y, z]" and d: "digits x" "digits y" "digits z"
    by (auto simp: SEMVER_def split: list.splits if_splits)
  from s have "v = join_with (CHR ''.'') [x, y, z]" using join_split_on [of _ v] by metis
  with d show "v = x @ ''.'' @ y @ ''.'' @ z \<and> digits x \<and> digits y \<and> digits z" by simp
next
  assume "v = x @ ''.'' @ y @ ''.'' @ z \<and> digits x \<and> digits y \<and> digits z"
  then show "SEMVER v = Some (x, y, z)"
    by (simp add: SEMVER_def split_on_append split_on_none digits_no_dot)
qed

lemma is_semver_parse: "is_semver v \<longleftrightarrow> (\<exists>p. parse_semver v = Inr p)"
  by (cases "SEMVER v") (auto simp: is_semver_def parse_semver_def)

lemma compare_semver_defined: "is_semver a \<Longrightarrow> is_semver b \<Longrightarrow> \<exists>n. compare_semver a b = Inr n"
  by (auto simp: is_semver_parse compare_semver_def split: sum.splits)

section \<open>Doubles below the exact range\<close>

lemma ulp_small: "n < 2 ^ 53 \<Longrightarrow> ulp n = 1"
  by (simp add: ulp.simps [of n])

lemma to_double_exact: "n < 2 ^ 53 \<Longrightarrow> to_double n = enat n"
  by (simp add: to_double_def ulp_small Let_def)

lemma to_double_gap: "to_double 9007199254740993 = to_double 9007199254740992"
  by (simp add: to_double_def ulp.simps Let_def)

text \<open>The equations that evaluate a comparison of concrete versions.\<close>

lemmas semver_eval = compare_semver_def major_of_def parse_semver_def is_semver_def SEMVER_def digits_def is_digit_def
  js_number_def to_double_exact dec_value_def

section \<open>The comparator contract\<close>

text \<open>
  What the guards, the rollout and the release hint rely on when they order versions: on
  valid inputs a defined, antisymmetric and transitive comparison.
\<close>

locale version_order =
  fixes cmp :: "'v \<Rightarrow> 'v \<Rightarrow> 'e + int" and valid :: "'v \<Rightarrow> bool"
  assumes cmp_defined: "valid a \<Longrightarrow> valid b \<Longrightarrow> \<exists>n. cmp a b = Inr n"
    and cmp_valid: "cmp a b = Inr n \<Longrightarrow> valid a \<and> valid b"
    and cmp_swap: "cmp a b = Inr n \<Longrightarrow> cmp b a = Inr (- n)"
    and cmp_trans: "cmp a b = Inr m \<Longrightarrow> cmp b c = Inr n \<Longrightarrow> 0 \<le> m \<Longrightarrow> 0 \<le> n \<Longrightarrow>
      \<exists>k. cmp a c = Inr k \<and> max m n \<le> k"
begin

lemma cmp_self: "valid a \<Longrightarrow> cmp a a = Inr 0"
  using cmp_defined [of a a] cmp_swap [of a a] by force

lemma newer_irrefl: "cmp a a \<noteq> Inr 1"
  using cmp_self [of a] cmp_valid [of a a 1] by auto

lemma newer_asym: "cmp a b = Inr m \<Longrightarrow> 0 < m \<Longrightarrow> cmp b a = Inr n \<Longrightarrow> n < 0"
  using cmp_swap [of a b m] by auto

lemma newer_trans: "cmp a b = Inr m \<Longrightarrow> cmp b c = Inr n \<Longrightarrow> 0 < m \<Longrightarrow> 0 \<le> n \<Longrightarrow>
    \<exists>k. cmp a c = Inr k \<and> 0 < k"
  using cmp_trans [of a b m c n] by fastforce

lemma not_newer_both: "cmp a b = Inr m \<Longrightarrow> 0 < m \<Longrightarrow> cmp b a = Inr n \<Longrightarrow> \<not> 0 < n"
  by (auto dest: newer_asym)

end

lemma compare_components_swap:
  "length ls = length rs \<Longrightarrow> compare_components rs ls = - compare_components ls rs"
  by (induction ls rs rule: compare_components.induct) auto

lemma compare_components_range: "compare_components ls rs \<in> {-1, 0, 1}"
  by (induction ls rs rule: compare_components.induct) auto

lemma compare_components_le: "compare_components ls rs \<le> 1"
  using compare_components_range [of ls rs] by auto

lemma compare_components_trans:
  "length xs = length ys \<Longrightarrow> length ys = length zs \<Longrightarrow>
   0 \<le> compare_components xs ys \<Longrightarrow> 0 \<le> compare_components ys zs \<Longrightarrow>
   max (compare_components xs ys) (compare_components ys zs) \<le> compare_components xs zs"
proof (induction xs arbitrary: ys zs)
  case (Cons x xs)
  then obtain y ys' z zs' where yz: "ys = y # ys'" "zs = z # zs'"
    by (metis length_Suc_conv)
  from Cons.prems yz have "y \<le> x" "z \<le> y"
    by (auto split: if_splits)
  then consider "x = y" "y = z" | "z < x" by fastforce
  then show ?case
  proof cases
    case 1
    with Cons.prems yz show ?thesis using Cons.IH [of ys' zs'] by simp
  next
    case 2
    then have "compare_components (x # xs) zs = 1" using yz by auto
    then show ?thesis by (simp only: max.bounded_iff compare_components_le simp_thms)
  qed
qed simp

definition triple_list :: "'a \<times> 'a \<times> 'a \<Rightarrow> 'a list" where
  "triple_list t = [fst t, fst (snd t), snd (snd t)]"

definition compare_triples :: "enat \<times> enat \<times> enat \<Rightarrow> enat \<times> enat \<times> enat \<Rightarrow> int" where
  "compare_triples l r = compare_components (triple_list l) (triple_list r)"

lemma length_triple_list [simp]: "length (triple_list t) = 3"
  by (simp add: triple_list_def)

lemma compare_triples_swap: "compare_triples r l = - compare_triples l r"
  unfolding compare_triples_def by (rule compare_components_swap) simp

lemma compare_triples_trans:
  "0 \<le> compare_triples x y \<Longrightarrow> 0 \<le> compare_triples y z \<Longrightarrow>
   max (compare_triples x y) (compare_triples y z) \<le> compare_triples x z"
  unfolding compare_triples_def by (rule compare_components_trans) simp_all

lemma compare_semver_eq:
  "compare_semver a b =
     (case parse_semver a of Inl e \<Rightarrow> Inl e
      | Inr l \<Rightarrow> map_sum id (compare_triples l) (parse_semver b))"
  by (simp add: compare_semver_def compare_triples_def triple_list_def del: compare_components.simps
      split: sum.split prod.split)

lemma compare_semver_Inr:
  "compare_semver a b = Inr n \<longleftrightarrow>
     (\<exists>l r. parse_semver a = Inr l \<and> parse_semver b = Inr r \<and> n = compare_triples l r)"
  by (cases "parse_semver a"; cases "parse_semver b") (auto simp: compare_semver_eq)

interpretation semver: version_order compare_semver is_semver
proof
  fix a b c and m n :: int
  show "is_semver a \<Longrightarrow> is_semver b \<Longrightarrow> \<exists>n. compare_semver a b = Inr n"
    by (rule compare_semver_defined)
  show "compare_semver a b = Inr n \<Longrightarrow> is_semver a \<and> is_semver b"
    by (auto simp: compare_semver_Inr is_semver_parse)
  show "compare_semver a b = Inr n \<Longrightarrow> compare_semver b a = Inr (- n)"
  proof -
    assume "compare_semver a b = Inr n"
    then obtain l r where "parse_semver a = Inr l" "parse_semver b = Inr r" "n = compare_triples l r"
      by (auto simp: compare_semver_Inr)
    moreover from this have "- n = compare_triples r l" by (simp add: compare_triples_swap [of r l])
    ultimately show ?thesis by (auto simp: compare_semver_Inr)
  qed
  assume "compare_semver a b = Inr m" "compare_semver b c = Inr n" "0 \<le> m" "0 \<le> n"
  then show "\<exists>k. compare_semver a c = Inr k \<and> max m n \<le> k"
    unfolding compare_semver_Inr using compare_triples_trans by fastforce
qed

lemma compare_components_exact:
  assumes "length ls = length rs"
  shows "compare_components (map enat ls) (map enat rs) =
    (if ls = rs then 0 else if (rs, ls) \<in> lex less_than then 1 else -1)"
  using assms
proof (induction ls rs rule: list_induct2)
  case (Cons x xs y ys)
  then show ?case by auto
qed simp

section \<open>Properties\<close>

text \<open>Versions compare as numbers, not as text: for versions whose components are below 2^53 the result is
  the sign of the lexicographic comparison of the three natural numbers.\<close>

theorem semver_numeric_order:
  assumes "parse_semver a = Inr (enat x, enat y, enat z)" "parse_semver b = Inr (enat x', enat y', enat z')"
  shows "compare_semver a b = Inr (if (x, y, z) = (x', y', z') then 0
    else if x' < x \<or> x' = x \<and> (y' < y \<or> y' = y \<and> z' < z) then 1 else -1)"
proof -
  have "compare_semver a b = Inr (compare_components (map enat [x, y, z]) (map enat [x', y', z']))"
    using assms by (simp add: compare_semver_def)
  also have "compare_components (map enat [x, y, z]) (map enat [x', y', z']) =
      (if [x, y, z] = [x', y', z'] then 0 else if ([x', y', z'], [x, y, z]) \<in> lex less_than then 1 else -1)"
    by (rule compare_components_exact) simp
  finally show ?thesis by auto
qed

theorem semver_numeric_order_witness: "compare_semver ''0.10.0'' ''0.9.1'' = Inr 1"
proof -
  have "parse_semver ''0.10.0'' = Inr (enat 0, enat 10, enat 0)" "parse_semver ''0.9.1'' = Inr (enat 0, enat 9, enat 1)"
    by (simp_all add: semver_eval)
  from semver_numeric_order [OF this] show ?thesis by simp
qed

end
