(* ===== verification/Protocol.thy ===== *)
theory Protocol imports Semver Text begin

text \<open>
  \<^verbatim>\<open>packages/protocol/src\<close>: the wire model. Each zod object schema is a record (or a
  datatype for a discriminated union) and the predicate of what its \<open>parse\<close> accepts; a
  default is a function from the optional input. An ISO timestamp is its number of
  milliseconds since the epoch, which is what the code compares; strings are lists of
  character codes. What an executor reports - summaries, captured output, commit messages - is text of
  UTF-16 code units, as \<open>length\<close> and the budgets count it.
\<close>

section \<open>JSON values and error bodies\<close>

text \<open>A number that is not an integer is \<open>JFrac\<close> of its digits.\<close>

datatype json =
    JNull | JBool bool | JNum int | JFrac string | JStr string | JArr "json list"
  | JObj "(string \<times> json) list"

datatype hfp_error_code =
    UNAUTHORIZED | UNKNOWN_JOB | NO_ARTIFACT | UNSUPPORTED_JOB_TYPE | WORKSPACE_UNAVAILABLE
  | BUSY | INVALID_REQUEST | CANCELED | TIMEOUT | BUDGET_EXCEEDED | COMMAND_NOT_ALLOWED
  | MODEL_NOT_OFFERED | NO_MODEL_SPECIFIED | UPGRADE_DISABLED | UPGRADE_REJECTED
  | UPGRADE_BUSY | INTERNAL

record hfp_error =
  err_code :: hfp_error_code
  err_message :: string
  err_details :: "json option"

definition hfp_err :: "hfp_error_code \<Rightarrow> string \<Rightarrow> hfp_error" where
  "hfp_err c m = \<lparr>err_code = c, err_message = m, err_details = None\<rparr>"

section \<open>Identifiers\<close>

definition device_id_ok :: "string \<Rightarrow> bool" where
  "device_id_ok s = lower_hex 64 s"

definition commit_hash_ok :: "string \<Rightarrow> bool" where
  "commit_hash_ok s = lower_hex 40 s"

definition repo_id_ok :: "string \<Rightarrow> bool" where
  "repo_id_ok s = (1 \<le> length s \<and> length s \<le> 1024)"

definition node_name_ok :: "string \<Rightarrow> bool" where
  "node_name_ok s = (1 \<le> length s \<and> length s \<le> 64 \<and>
     list_all (\<lambda>c. 31 < (of_char c :: nat) \<and> (of_char c :: nat) \<noteq> 127) s)"

text \<open>A lowercase RFC 4122 UUID: five hex groups, version nibble 1 to 8, variant nibble 8 to b.\<close>

definition job_id_ok :: "string \<Rightarrow> bool" where
  "job_id_ok s =
     (case split_on (CHR ''-'') s of
        [a, b, c, d, e] \<Rightarrow>
          lower_hex 8 a \<and> lower_hex 4 b \<and> lower_hex 4 c \<and> lower_hex 4 d \<and> lower_hex 12 e \<and>
          hd c \<in> set ''12345678'' \<and> hd d \<in> set ''89ab''
      | _ \<Rightarrow> False)"

definition WRITE_BRANCH_PREFIX :: string where
  "WRITE_BRANCH_PREFIX = ''homefleet/''"

definition job_id_12 :: "string \<Rightarrow> string" where
  "job_id_12 jobId = drop (length jobId - 12) jobId"

definition write_branch_name :: "string \<Rightarrow> string" where
  "write_branch_name jobId = WRITE_BRANCH_PREFIX @ job_id_12 jobId"

definition write_branch_ok :: "string \<Rightarrow> bool" where
  "write_branch_ok s = (\<exists>h. s = WRITE_BRANCH_PREFIX @ h \<and> lower_hex 12 h)"

lemma write_branch_ok_code [code]:
  "write_branch_ok s =
     (take (length WRITE_BRANCH_PREFIX) s = WRITE_BRANCH_PREFIX \<and>
      lower_hex 12 (drop (length WRITE_BRANCH_PREFIX) s))"
  unfolding write_branch_ok_def by (metis append_eq_conv_conj append_take_drop_id)

section \<open>Job types, statuses, parameters\<close>

datatype job_type = Recon | Command | Write

datatype job_status = Queued | Running | Succeeded | Failed | Canceled

definition TERMINAL_JOB_STATUSES :: "job_status list" where
  "TERMINAL_JOB_STATUSES = [Succeeded, Failed, Canceled]"

definition is_terminal :: "job_status \<Rightarrow> bool" where
  "is_terminal s = (s \<in> set TERMINAL_JOB_STATUSES)"

record workspace_ref =
  ws_repoId :: string
  ws_headCommit :: string

definition workspace_ref_ok :: "workspace_ref \<Rightarrow> bool" where
  "workspace_ref_ok w = lower_hex 40 (ws_headCommit w)"

record budgets =
  maxToolCalls :: int
  maxWallMs :: int

definition budgets_ok :: "budgets \<Rightarrow> bool" where
  "budgets_ok b = (1 \<le> maxToolCalls b \<and> maxToolCalls b \<le> 200 \<and>
     1000 \<le> maxWallMs b \<and> maxWallMs b \<le> 3600000)"

definition parse_budgets :: "int \<Rightarrow> int option \<Rightarrow> int option \<Rightarrow> budgets option" where
  "parse_budgets default_calls calls wall =
     (let b = \<lparr>maxToolCalls = (case calls of None \<Rightarrow> default_calls | Some n \<Rightarrow> n),
               maxWallMs = (case wall of None \<Rightarrow> 600000 | Some n \<Rightarrow> n)\<rparr>
      in if budgets_ok b then Some b else None)"

definition parse_job_budgets :: "int option \<Rightarrow> int option \<Rightarrow> budgets option" where
  "parse_job_budgets = parse_budgets 50"

definition parse_write_budgets :: "int option \<Rightarrow> int option \<Rightarrow> budgets option" where
  "parse_write_budgets = parse_budgets 100"

record recon_params =
  rp_workspace :: workspace_ref
  rp_prompt :: string
  rp_model :: "string option"
  rp_budgets :: budgets

record command_params =
  cp_workspace :: workspace_ref
  cp_command :: string
  cp_args :: "string list"
  cp_timeoutMs :: int

record verify_command =
  vc_name :: string
  vc_args :: "string list"

record write_params =
  wp_workspace :: workspace_ref
  wp_model :: "string option"
  wp_instructions :: string
  wp_pathHints :: "string list option"
  wp_verifyCommand :: "verify_command option"
  wp_budgets :: budgets

datatype job_params =
    ReconParams recon_params | CommandParams command_params | WriteParams write_params

definition recon_params_ok :: "recon_params \<Rightarrow> bool" where
  "recon_params_ok p = (workspace_ref_ok (rp_workspace p) \<and>
     1 \<le> length (rp_prompt p) \<and> length (rp_prompt p) \<le> 16384 \<and> budgets_ok (rp_budgets p))"

definition command_params_ok :: "command_params \<Rightarrow> bool" where
  "command_params_ok p = (workspace_ref_ok (cp_workspace p) \<and>
     1000 \<le> cp_timeoutMs p \<and> cp_timeoutMs p \<le> 3600000)"

definition write_params_ok :: "write_params \<Rightarrow> bool" where
  "write_params_ok p = (workspace_ref_ok (wp_workspace p) \<and>
     1 \<le> length (wp_instructions p) \<and> length (wp_instructions p) \<le> 16384 \<and>
     (case wp_pathHints p of None \<Rightarrow> True
      | Some hs \<Rightarrow> length hs \<le> 32 \<and> list_all (\<lambda>h. 1 \<le> length h \<and> length h \<le> 1024) hs) \<and>
     (case wp_verifyCommand p of None \<Rightarrow> True | Some v \<Rightarrow> 1 \<le> length (vc_name v)) \<and>
     budgets_ok (wp_budgets p))"

fun job_params_ok :: "job_params \<Rightarrow> bool" where
  "job_params_ok (ReconParams p) = recon_params_ok p"
| "job_params_ok (CommandParams p) = command_params_ok p"
| "job_params_ok (WriteParams p) = write_params_ok p"

fun params_type :: "job_params \<Rightarrow> job_type" where
  "params_type (ReconParams _) = Recon"
| "params_type (CommandParams _) = Command"
| "params_type (WriteParams _) = Write"

fun params_workspace :: "job_params \<Rightarrow> workspace_ref" where
  "params_workspace (ReconParams p) = rp_workspace p"
| "params_workspace (CommandParams p) = cp_workspace p"
| "params_workspace (WriteParams p) = wp_workspace p"

section \<open>Results\<close>

record command_output =
  out_stdout :: jtext
  out_stderr :: jtext
  out_exitCode :: "int option"

record job_stats =
  st_toolCalls :: int
  st_wallMs :: int
  st_promptTokens :: "int option"
  st_completionTokens :: "int option"

record diff_stat =
  filesChanged :: int
  insertions :: int
  deletions :: int

record write_artifact =
  art_branchName :: string
  art_baseCommit :: string
  art_headCommit :: string
  art_diffStat :: diff_stat
  art_commitMessage :: jtext

record verify_report =
  vr_name :: string
  vr_args :: "string list"
  vr_exitCode :: "int option"
  vr_outputTail :: jtext

text \<open>
  \<open>res_artifact\<close> is \<open>None\<close> when the key is absent, \<open>Some None\<close> for \<open>null\<close>.
\<close>

record job_result =
  res_jobId :: string
  res_type :: job_type
  res_status :: job_status
  res_summary :: "jtext option"
  res_output :: "command_output option"
  res_stats :: job_stats
  res_error :: "hfp_error option"
  res_artifact :: "write_artifact option option"
  res_verify :: "verify_report option"

definition job_stats_ok :: "job_stats \<Rightarrow> bool" where
  "job_stats_ok s = (0 \<le> st_toolCalls s \<and> 0 \<le> st_wallMs s \<and>
     pred_option (\<lambda>n. 0 \<le> n) (st_promptTokens s) \<and>
     pred_option (\<lambda>n. 0 \<le> n) (st_completionTokens s))"

definition write_artifact_ok :: "write_artifact \<Rightarrow> bool" where
  "write_artifact_ok a = (write_branch_ok (art_branchName a) \<and>
     commit_hash_ok (art_baseCommit a) \<and> commit_hash_ok (art_headCommit a) \<and>
     0 \<le> filesChanged (art_diffStat a) \<and> 0 \<le> insertions (art_diffStat a) \<and>
     0 \<le> deletions (art_diffStat a) \<and>
     1 \<le> length (art_commitMessage a) \<and> length (art_commitMessage a) \<le> 4096)"

text \<open>The object schema, then the cross-field rules of \<open>superRefine\<close> in their order.\<close>

definition job_result_shape_ok :: "job_result \<Rightarrow> bool" where
  "job_result_shape_ok r = (job_id_ok (res_jobId r) \<and> is_terminal (res_status r) \<and>
     job_stats_ok (res_stats r) \<and>
     (case res_artifact r of Some (Some a) \<Rightarrow> write_artifact_ok a | _ \<Rightarrow> True) \<and>
     (case res_verify r of Some v \<Rightarrow> 1 \<le> length (vr_name v) | None \<Rightarrow> True))"

definition job_result_rules_ok :: "job_result \<Rightarrow> bool" where
  "job_result_rules_ok r =
     (\<not> (res_status r = Failed \<and> res_error r = None) \<and>
      \<not> (res_status r = Succeeded \<and> res_error r \<noteq> None) \<and>
      \<not> (res_artifact r \<noteq> None \<and> res_type r \<noteq> Write) \<and>
      \<not> (res_verify r \<noteq> None \<and> res_type r \<noteq> Write) \<and>
      \<not> (res_status r \<noteq> Succeeded \<and> res_artifact r \<noteq> None \<and> res_artifact r \<noteq> Some None) \<and>
      \<not> (res_type r = Write \<and> res_status r = Succeeded \<and> res_artifact r = None))"

definition job_result_ok :: "job_result \<Rightarrow> bool" where
  "job_result_ok r = (job_result_shape_ok r \<and> job_result_rules_ok r)"

section \<open>Events and snapshots\<close>

datatype log_level = Debug | Info | Warn | Err

datatype event_body =
    StatusEv job_status
  | LogEv log_level string
  | ToolCallEv string jtext
  | ToolResultEv string jtext bool
  | ResultEv job_result

fun is_result_ev :: "event_body \<Rightarrow> bool" where
  "is_result_ev (ResultEv _) = True"
| "is_result_ev _ = False"

record job_event =
  ev_jobId :: string
  ev_seq :: nat
  ev_ts :: int
  ev_body :: event_body

definition job_event_ok :: "job_event \<Rightarrow> bool" where
  "job_event_ok e = (job_id_ok (ev_jobId e) \<and>
     (case ev_body e of
        ResultEv r \<Rightarrow> job_result_ok r \<and> res_jobId r = ev_jobId e
      | _ \<Rightarrow> True))"

record job_snapshot =
  snap_jobId :: string
  snap_status :: job_status
  snap_result :: "job_result option"

definition job_snapshot_ok :: "job_snapshot \<Rightarrow> bool" where
  "job_snapshot_ok s = (job_id_ok (snap_jobId s) \<and>
     (case snap_result s of
        None \<Rightarrow> \<not> is_terminal (snap_status s)
      | Some r \<Rightarrow> job_result_ok r \<and> is_terminal (snap_status s) \<and>
          res_status r = snap_status s \<and> res_jobId r = snap_jobId s))"

section \<open>Nodes, pairing, discovery, upgrade\<close>

datatype upgrade_outcome = UpSucceeded | UpRolledBack | UpFailed

record last_upgrade =
  lu_version :: string
  lu_outcome :: upgrade_outcome
  lu_reason :: "string option"
  lu_at :: int

datatype node_platform = Win32 | Linux | Darwin

datatype model_status = ModelOk | NotServed | Unreachable

record model_info =
  mi_id :: string
  mi_label :: "string option"
  mi_contextWindow :: "int option"
  mi_status :: "model_status option"

datatype node_role = Inference | Execution

datatype executor_kind = CommandKind | AgentKind | WriteKind

record gpu_info =
  gpu_name :: string
  gpu_vramBytes :: "int option"

record hardware_info =
  hw_cpu :: string
  hw_ramBytes :: int
  hw_gpus :: "gpu_info list"

record node_info =
  ni_deviceId :: string
  ni_name :: string
  ni_daemonVersion :: string
  ni_protocolVersion :: string
  ni_platform :: node_platform
  ni_roles :: "node_role list"
  ni_executors :: "executor_kind list"
  ni_hardware :: hardware_info
  ni_models :: "model_info list"
  ni_maxConcurrentJobs :: int
  ni_activeJobs :: int
  ni_allowRemote :: "bool option"
  ni_lastUpgrade :: "last_upgrade option"

definition node_info_ok :: "node_info \<Rightarrow> bool" where
  "node_info_ok n = (device_id_ok (ni_deviceId n) \<and> node_name_ok (ni_name n) \<and>
     is_semver (ni_daemonVersion n) \<and> is_semver (ni_protocolVersion n) \<and>
     list_all (\<lambda>m. pred_option (\<lambda>w. 1 \<le> w) (mi_contextWindow m)) (ni_models n) \<and>
     0 \<le> hw_ramBytes (ni_hardware n) \<and>
     list_all (\<lambda>g. pred_option (\<lambda>b. 0 \<le> b) (gpu_vramBytes g)) (hw_gpus (ni_hardware n)) \<and>
     1 \<le> ni_maxConcurrentJobs n \<and> 0 \<le> ni_activeJobs n \<and>
     pred_option (\<lambda>u. is_semver (lu_version u)) (ni_lastUpgrade n))"

definition is_code_char :: "char \<Rightarrow> bool" where
  "is_code_char c = (is_digit c \<or> (65 \<le> (of_char c :: nat) \<and> (of_char c :: nat) \<le> 90))"

definition pairing_code_ok :: "string \<Rightarrow> bool" where
  "pairing_code_ok s = (6 \<le> length s \<and> length s \<le> 10 \<and> list_all is_code_char s)"

record pair_request =
  pq_code :: string
  pq_nodeInfo :: node_info

definition pair_request_ok :: "pair_request \<Rightarrow> bool" where
  "pair_request_ok q = (pairing_code_ok (pq_code q) \<and> node_info_ok (pq_nodeInfo q))"

record pair_response =
  pr_accepted :: bool
  pr_nodeInfo :: "node_info option"

definition pair_response_ok :: "pair_response \<Rightarrow> bool" where
  "pair_response_ok r = (pred_option node_info_ok (pr_nodeInfo r) \<and>
     \<not> (pr_accepted r \<and> pr_nodeInfo r = None) \<and>
     \<not> (\<not> pr_accepted r \<and> pr_nodeInfo r \<noteq> None))"

record announcement =
  an_deviceId :: string
  an_name :: string
  an_port :: int
  an_protocolVersion :: string

definition announcement_ok :: "announcement \<Rightarrow> bool" where
  "announcement_ok a = (device_id_ok (an_deviceId a) \<and> node_name_ok (an_name a) \<and>
     1 \<le> an_port a \<and> an_port a \<le> 65535 \<and> is_semver (an_protocolVersion a))"

section \<open>Facts\<close>

lemma is_terminal_simps [simp]:
  "is_terminal Succeeded" "is_terminal Failed" "is_terminal Canceled"
  "\<not> is_terminal Queued" "\<not> is_terminal Running"
  by (simp_all add: is_terminal_def TERMINAL_JOB_STATUSES_def)

lemma not_terminal_iff: "\<not> is_terminal s \<longleftrightarrow> s = Queued \<or> s = Running"
  by (cases s) simp_all

lemma job_id_tail: "job_id_ok s \<Longrightarrow> \<exists>p e. s = p @ e \<and> lower_hex 12 e"
proof -
  assume "job_id_ok s"
  then obtain a b c d e where
    p: "split_on (CHR ''-'') s = [a, b, c, d, e]" and e: "lower_hex 12 e"
    by (auto simp: job_id_ok_def split: list.splits)
  from p have "s = join_with (CHR ''-'') [a, b, c, d, e]" using join_split_on by metis
  then have "s = (a @ ''-'' @ b @ ''-'' @ c @ ''-'' @ d @ ''-'') @ e" by simp
  with e show ?thesis by blast
qed

lemma write_branch_name_valid: "job_id_ok j \<Longrightarrow> write_branch_ok (write_branch_name j)"
  by (drule job_id_tail)
     (auto simp: write_branch_ok_def write_branch_name_def job_id_12_def lower_hex_def)

lemma parse_budgets_ok: "parse_budgets d c w = Some b \<Longrightarrow> budgets_ok b"
  by (auto simp: parse_budgets_def Let_def split: if_splits)

end
