(* ===== verification/Eviction.thy ===== *)
theory Eviction imports Prelude begin

text \<open>
  The eviction scan that the known-nodes registry and the discovery aggregator share: the
  first entry whose timestamp is strictly below every earlier one, starting at infinity
  (\<open>None\<close>), is the victim. It meets the contract of an oldest-first store.
\<close>

fun scan_oldest :: "('v \<Rightarrow> int) \<Rightarrow> ('k \<times> int) option \<Rightarrow> ('k, 'v) jmap \<Rightarrow> ('k \<times> int) option" where
  "scan_oldest age best [] = best"
| "scan_oldest age best ((k, v) # m) =
     scan_oldest age
       (case best of
          None \<Rightarrow> Some (k, age v)
        | Some (_, a) \<Rightarrow> if age v < a then Some (k, age v) else best) m"

definition evict_oldest :: "('v \<Rightarrow> int) \<Rightarrow> ('k, 'v) jmap \<Rightarrow> ('k, 'v) jmap" where
  "evict_oldest age m =
     (case scan_oldest age None m of None \<Rightarrow> m | Some (k, _) \<Rightarrow> jmap_delete m k)"

lemma scan_oldest_defined:
  "m \<noteq> [] \<or> best \<noteq> None \<Longrightarrow> \<exists>k a. scan_oldest age best m = Some (k, a)"
  by (induction age best m rule: scan_oldest.induct) (auto split: option.splits)

lemma scan_oldest_le_best:
  "scan_oldest age (Some (k0, a0)) m = Some (k, a) \<Longrightarrow> a \<le> a0"
  by (induction m arbitrary: k0 a0) (fastforce split: if_splits)+

lemma scan_oldest_le:
  "scan_oldest age best m = Some (k, a) \<Longrightarrow> (k', v') \<in> set m \<Longrightarrow> a \<le> age v'"
proof (induction age best m rule: scan_oldest.induct)
  case (2 age best k0 v0 m)
  show ?case
  proof (cases "(k', v') \<in> set m")
    case True
    with "2.IH" "2.prems" show ?thesis by (simp split: option.splits)
  next
    case False
    with "2.prems" have v': "v' = v0" by simp
    let ?b = "case best of None \<Rightarrow> Some (k0, age v0)
        | Some (_, a) \<Rightarrow> if age v0 < a then Some (k0, age v0) else best"
    have "\<exists>kb ab. ?b = Some (kb, ab) \<and> ab \<le> age v0"
      by (cases best) auto
    then obtain kb ab where b: "?b = Some (kb, ab)" "ab \<le> age v0" by blast
    with "2.prems" have "scan_oldest age (Some (kb, ab)) m = Some (k, a)"
      by (simp only: scan_oldest.simps)
    with b v' scan_oldest_le_best [of age kb ab m k a] show ?thesis by simp
  qed
qed simp

lemma scan_oldest_in:
  "scan_oldest age best m = Some (k, a) \<Longrightarrow>
     best = Some (k, a) \<or> (\<exists>v. (k, v) \<in> set m \<and> a = age v)"
  by (induction age best m rule: scan_oldest.induct) (auto split: option.splits if_splits)

lemma evict_oldest_victim:
  assumes "jmap_ok m" "m \<noteq> []"
  shows "\<exists>k v. (k, v) \<in> set m \<and> evict_oldest age m = jmap_delete m k \<and>
    (\<forall>p \<in> set m. age v \<le> age (snd p))"
proof -
  from assms obtain k a where s: "scan_oldest age None m = Some (k, a)"
    using scan_oldest_defined [of m None age] by blast
  then obtain v where "(k, v) \<in> set m" "a = age v" using scan_oldest_in [of age None m k a] by auto
  moreover have "\<forall>p \<in> set m. a \<le> age (snd p)" using scan_oldest_le [OF s] by auto
  ultimately show ?thesis using s by (auto simp: evict_oldest_def)
qed

text \<open>The victim is the last entry only when it is strictly older than all others.\<close>

lemma scan_oldest_append:
  "scan_oldest age best (m @ m') = scan_oldest age (scan_oldest age best m) m'"
  by (induction age best m rule: scan_oldest.induct) simp_all

lemma scan_oldest_backdated:
  assumes "\<forall>p \<in> set m. age v < age (snd p)"
  shows "scan_oldest age None (m @ [(k, v)]) = Some (k, age v)"
proof (cases "scan_oldest age None m")
  case None
  then show ?thesis by (simp add: scan_oldest_append)
next
  case (Some p)
  obtain k0 a0 where p: "p = (k0, a0)" by force
  with Some scan_oldest_in [of age None m k0 a0] obtain w where "(k0, w) \<in> set m" "a0 = age w"
    by auto
  with assms p Some show ?thesis by (force simp: scan_oldest_append)
qed

interpretation oldest: oldest_first_store length "evict_oldest age" jmap_ok set "\<lambda>p. age (snd p)"
  for age :: "'v \<Rightarrow> int"
proof
  fix s :: "('k, 'v) jmap" and x y
  assume ok: "jmap_ok s" and pos: "0 < length s"
  from pos have ne: "s \<noteq> []" by simp
  obtain k v where kv: "(k, v) \<in> set s" "evict_oldest age s = jmap_delete s k"
    "\<forall>p \<in> set s. age v \<le> age (snd p)"
    using evict_oldest_victim [OF ok ne, of age] by blast
  from kv(1) have k: "k \<in> fst ` set s" by force
  show "Suc (length (evict_oldest age s)) = length s"
    using length_jmap_delete [OF ok k] kv(2) by simp
  show "jmap_ok (evict_oldest age s)" using ok kv(2) by (simp add: distinct_delete)
  show "set (evict_oldest age s) \<subseteq> set s" using kv(2) by (auto simp: set_jmap_delete)
  assume "x \<in> set s - set (evict_oldest age s)" "y \<in> set s"
  then have x: "x \<in> set s" "fst x = k" using kv(2) by (auto simp: set_jmap_delete)
  with ok kv(1) have "x = (k, v)" by (metis eq_key_imp_eq_value prod.collapse)
  with kv(3) \<open>y \<in> set s\<close> show "age (snd x) \<le> age (snd y)" by simp
qed

end
