(* ===== verification/TrustStore.thy ===== *)
theory TrustStore imports Protocol begin

text \<open>
  \<^verbatim>\<open>packages/daemon/src/trust/trust-store.ts\<close>: the paired-device list, an insertion-ordered
  map persisted as a JSON array. A persist is queued behind the ones before it and snapshots the
  map when it runs; the file is the array it holds (\<open>None\<close>: no file yet).
\<close>

section \<open>Model\<close>

record trusted_device =
  td_deviceId :: string
  td_name :: string
  td_addedAt :: int

definition trusted_device_ok :: "trusted_device \<Rightarrow> bool" where
  "trusted_device_ok d = (device_id_ok (td_deviceId d) \<and> 1 \<le> length (td_name d))"

record trust_store =
  ts_entries :: "(string, trusted_device) jmap"
  ts_queued :: nat
  ts_file :: "trusted_device list option"

datatype trust_error = InvalidEntry | ReadFailed | CorruptStore | WriteFailed

text \<open>What reading the file gives: absent, another read error, or its text, which parses and validates to a list or does not.\<close>

datatype trust_file = Enoent | Unreadable | Contents "trusted_device list option"

fun set_entries :: "(string, trusted_device) jmap \<Rightarrow> trusted_device list \<Rightarrow> (string, trusted_device) jmap" where
  "set_entries m [] = m"
| "set_entries m (d # ds) = set_entries (jmap_set m (td_deviceId d) d) ds"

fun trust_load :: "trust_file \<Rightarrow> trust_error + trust_store" where
  "trust_load Enoent = Inr \<lparr>ts_entries = [], ts_queued = 0, ts_file = None\<rparr>"
| "trust_load Unreadable = Inl ReadFailed"
| "trust_load (Contents None) = Inl CorruptStore"
| "trust_load (Contents (Some ds)) =
     (if list_all trusted_device_ok ds
      then Inr \<lparr>ts_entries = set_entries [] ds, ts_queued = 0, ts_file = Some ds\<rparr>
      else Inl CorruptStore)"

definition trust_has :: "trust_store \<Rightarrow> string \<Rightarrow> bool" where
  "trust_has s d = jmap_has (ts_entries s) d"

definition trust_list :: "trust_store \<Rightarrow> trusted_device list" where
  "trust_list s = jmap_values (ts_entries s)"

text \<open>\<open>add\<close> and \<open>remove\<close> up to the queued persist; the returned flag of \<open>remove\<close> is whether the device was present.\<close>

definition trust_persist :: "trust_store \<Rightarrow> trust_store" where
  "trust_persist s = s\<lparr>ts_queued := Suc (ts_queued s)\<rparr>"

definition trust_add :: "trusted_device \<Rightarrow> trust_store \<Rightarrow> trust_error + trust_store" where
  "trust_add d s =
     (if trusted_device_ok d
      then Inr (trust_persist (s\<lparr>ts_entries := jmap_set (ts_entries s) (td_deviceId d) d\<rparr>))
      else Inl InvalidEntry)"

definition trust_remove :: "string \<Rightarrow> trust_store \<Rightarrow> bool \<times> trust_store" where
  "trust_remove d s =
     (if jmap_has (ts_entries s) d
      then (True, trust_persist (s\<lparr>ts_entries := jmap_delete (ts_entries s) d\<rparr>))
      else (False, s))"

text \<open>The oldest queued persist runs; \<open>renamed\<close> is whether its write and rename succeeded.\<close>

definition trust_write :: "bool \<Rightarrow> trust_store \<Rightarrow> trust_store" where
  "trust_write renamed s =
     (if ts_queued s = 0 then s
      else s\<lparr>ts_queued := ts_queued s - 1,
             ts_file := (if renamed then Some (trust_list s) else ts_file s)\<rparr>)"

section \<open>The contract of a device registry\<close>

datatype trust_op = OpAdd trusted_device | OpRemove string

locale device_registry =
  fixes has :: "'s \<Rightarrow> string \<Rightarrow> bool"
    and add :: "trusted_device \<Rightarrow> 's \<Rightarrow> 'e + 's"
    and remove :: "string \<Rightarrow> 's \<Rightarrow> bool \<times> 's"
  assumes has_add: "add d s = Inr s' \<Longrightarrow> has s' x \<longleftrightarrow> x = td_deviceId d \<or> has s x"
    and add_valid: "(\<exists>s'. add d s = Inr s') \<longleftrightarrow> trusted_device_ok d"
    and has_remove: "has (snd (remove k s)) x \<longleftrightarrow> x \<noteq> k \<and> has s x"
    and remove_reports: "fst (remove k s) = has s k"
begin

definition apply_op :: "trust_op \<Rightarrow> 's \<Rightarrow> 's" where
  "apply_op x s =
     (case x of
        OpAdd d \<Rightarrow> (case add d s of Inl _ \<Rightarrow> s | Inr s' \<Rightarrow> s')
      | OpRemove d \<Rightarrow> snd (remove d s))"

lemma has_apply:
  "has (apply_op op s) x \<longleftrightarrow>
     (case op of
        OpAdd d \<Rightarrow> (trusted_device_ok d \<and> x = td_deviceId d) \<or> has s x
      | OpRemove d \<Rightarrow> x \<noteq> d \<and> has s x)"
proof (cases op)
  case (OpAdd d)
  then show ?thesis
  proof (cases "add d s")
    case (Inl e)
    then have "\<not> trusted_device_ok d" using add_valid [of d s] by auto
    with Inl OpAdd show ?thesis by (simp add: apply_op_def)
  next
    case (Inr s')
    then have "trusted_device_ok d" using add_valid [of d s] by auto
    with Inr OpAdd has_add [OF Inr] show ?thesis by (auto simp: apply_op_def)
  qed
qed (simp add: apply_op_def has_remove)

lemma unpair_is_final: "has s x \<Longrightarrow> \<not> has (apply_op (OpRemove x) s) x"
  by (simp add: has_apply)

lemma only_add_grants: "has (apply_op op s) x \<Longrightarrow> \<not> has s x \<Longrightarrow>
    \<exists>d. op = OpAdd d \<and> trusted_device_ok d \<and> x = td_deviceId d"
  by (cases op) (auto simp: has_apply)

end

interpretation trust: device_registry trust_has trust_add trust_remove
proof
  fix d s s' x
  show "trust_add d s = Inr s' \<Longrightarrow> trust_has s' x \<longleftrightarrow> x = td_deviceId d \<or> trust_has s x"
    by (auto simp: trust_add_def trust_has_def trust_persist_def jmap_has_def split: if_splits)
  show "(\<exists>s'. trust_add d s = Inr s') \<longleftrightarrow> trusted_device_ok d"
    by (simp add: trust_add_def)
next
  fix d s x
  show "trust_has (snd (trust_remove d s)) x \<longleftrightarrow> x \<noteq> d \<and> trust_has s x"
    by (auto simp: trust_remove_def trust_has_def trust_persist_def jmap_has_def)
  show "fst (trust_remove d s) = trust_has s d"
    by (simp add: trust_remove_def trust_has_def)
qed

section \<open>The invariant and the saved file\<close>

definition trust_inv :: "trust_store \<Rightarrow> bool" where
  "trust_inv s = (jmap_ok (ts_entries s) \<and>
     (\<forall>(k, d) \<in> set (ts_entries s). k = td_deviceId d \<and> trusted_device_ok d))"

lemma trust_inv_add [step_inv]: "trust_inv s \<Longrightarrow> trust_add d s = Inr s' \<Longrightarrow> trust_inv s'"
  by (auto simp: trust_inv_def trust_add_def trust_persist_def set_jmap_set split: if_splits)

lemma trust_inv_remove [step_inv]: "trust_inv s \<Longrightarrow> trust_inv (snd (trust_remove d s))"
  by (auto simp: trust_inv_def trust_remove_def trust_persist_def set_jmap_delete)

lemma trust_inv_write [step_inv]: "trust_inv s \<Longrightarrow> trust_inv (trust_write b s)"
  by (simp add: trust_inv_def trust_write_def)

lemma set_entries_ok:
  "jmap_ok m \<Longrightarrow> \<forall>(k, d) \<in> set m. k = td_deviceId d \<and> trusted_device_ok d \<Longrightarrow>
   list_all trusted_device_ok ds \<Longrightarrow>
   jmap_ok (set_entries m ds) \<and>
   (\<forall>(k, d) \<in> set (set_entries m ds). k = td_deviceId d \<and> trusted_device_ok d)"
proof (induction ds arbitrary: m)
  case (Cons d ds)
  show ?case unfolding set_entries.simps
    by (rule Cons.IH) (use Cons.prems in \<open>auto simp: set_jmap_set\<close>)
qed simp

lemma trust_inv_load [step_inv]: "trust_load f = Inr s \<Longrightarrow> trust_inv s"
  using set_entries_ok [of "[]"]
  by (induction f rule: trust_load.induct) (force simp: trust_inv_def split: if_splits)+

lemma set_entries_append:
  "distinct (map fst m @ map td_deviceId ds) \<Longrightarrow>
   set_entries m ds = m @ map (\<lambda>d. (td_deviceId d, d)) ds"
  by (induction ds arbitrary: m) (auto simp: jmap_set_fresh image_iff)

lemma trust_inv_values:
  assumes "trust_inv s"
  shows "map (\<lambda>d. (td_deviceId d, d)) (trust_list s) = ts_entries s"
    and "distinct (map td_deviceId (trust_list s))"
    and "list_all trusted_device_ok (trust_list s)"
proof -
  have k: "\<And>p. p \<in> set (ts_entries s) \<Longrightarrow> td_deviceId (snd p) = fst p"
    using assms by (auto simp: trust_inv_def)
  then show "map (\<lambda>d. (td_deviceId d, d)) (trust_list s) = ts_entries s"
    by (simp add: trust_list_def map_idI)
  have "map td_deviceId (trust_list s) = map fst (ts_entries s)"
    using k by (simp add: trust_list_def)
  then show "distinct (map td_deviceId (trust_list s))" using assms by (simp add: trust_inv_def)
  show "list_all trusted_device_ok (trust_list s)"
    using assms by (auto simp: trust_inv_def trust_list_def list_all_iff)
qed

text \<open>Reading back what a persist wrote gives the same map, in the same order.\<close>

lemma trust_load_saved:
  assumes "trust_inv s"
  shows "\<exists>t. trust_load (Contents (Some (trust_list s))) = Inr t \<and> ts_entries t = ts_entries s"
  using trust_inv_values [OF assms] by (simp add: set_entries_append)

text \<open>The queue: mutations and writes in any order.\<close>

datatype trust_step = Mutate trust_op | Written

fun trust_run :: "trust_store \<Rightarrow> trust_step list \<Rightarrow> trust_store" where
  "trust_run s [] = s"
| "trust_run s (Mutate (OpAdd d) # xs) =
     trust_run (case trust_add d s of Inl _ \<Rightarrow> s | Inr s' \<Rightarrow> s') xs"
| "trust_run s (Mutate (OpRemove d) # xs) = trust_run (snd (trust_remove d s)) xs"
| "trust_run s (Written # xs) = trust_run (trust_write True s) xs"

definition trust_saved :: "trust_store \<Rightarrow> bool" where
  "trust_saved s = (0 < ts_queued s \<or> ts_file s = Some (trust_list s) \<or>
     (ts_file s = None \<and> ts_entries s = []))"

lemma trust_saved_add: "trust_saved s \<Longrightarrow> trust_saved (case trust_add d s of Inl _ \<Rightarrow> s | Inr s' \<Rightarrow> s')"
  by (auto simp: trust_add_def trust_saved_def trust_persist_def split: if_splits)

lemma trust_saved_remove: "trust_saved s \<Longrightarrow> trust_saved (snd (trust_remove d s))"
  by (simp add: trust_remove_def trust_saved_def trust_persist_def)

lemma trust_saved_write: "trust_saved s \<Longrightarrow> trust_saved (trust_write True s)"
  by (auto simp: trust_write_def trust_saved_def trust_list_def)

lemma trust_run_saved: "trust_saved s \<Longrightarrow> trust_saved (trust_run s xs)"
  by (induction s xs rule: trust_run.induct)
     (simp_all add: trust_saved_add trust_saved_remove trust_saved_write)

lemma trust_run_inv: "trust_inv s \<Longrightarrow> trust_inv (trust_run s xs)"
  by (induction s xs rule: trust_run.induct)
     (auto intro: trust_inv_remove trust_inv_write dest: trust_inv_add split: sum.splits)

section \<open>Properties\<close>

text \<open>Trust survives a restart: from a store that agrees with its file, after any sequence of pairings,
  unpairings and queued writes that succeed, once the queue is drained a daemon that loads the file gets
  exactly the same entries in the same order.\<close>

theorem trust_survives_restart:
  assumes "trust_load f = Inr s" "trust_saved s" "ts_queued (trust_run s xs) = 0"
    "ts_file (trust_run s xs) = Some ds"
  shows "\<exists>t. trust_load (Contents (Some ds)) = Inr t \<and> ts_entries t = ts_entries (trust_run s xs)"
proof -
  have inv: "trust_inv (trust_run s xs)"
    using assms(1) by (intro trust_run_inv trust_inv_load)
  from trust_run_saved [OF assms(2), of xs] assms(3,4) have "ds = trust_list (trust_run s xs)"
    by (simp add: trust_saved_def)
  with trust_load_saved [OF inv] show ?thesis by simp
qed

definition demo_device :: trusted_device where
  "demo_device = \<lparr>td_deviceId = replicate 64 (CHR ''a''), td_name = ''laptop'', td_addedAt = 5\<rparr>"

theorem trust_survives_restart_witness:
  "\<exists>t. trust_load (Contents (Some [demo_device])) = Inr t \<and> trust_has t (td_deviceId demo_device)"
proof -
  let ?s = "\<lparr>ts_entries = [], ts_queued = 0, ts_file = None\<rparr>"
  have l: "trust_load Enoent = Inr ?s" by simp
  have s: "trust_saved ?s" by (simp add: trust_saved_def)
  have r: "trust_run ?s [Mutate (OpAdd demo_device), Written] =
      \<lparr>ts_entries = [(td_deviceId demo_device, demo_device)], ts_queued = 0, ts_file = Some [demo_device]\<rparr>"
    by code_simp
  from trust_survives_restart [OF l s, of "[Mutate (OpAdd demo_device), Written]" "[demo_device]"]
  have "\<exists>t. trust_load (Contents (Some [demo_device])) = Inr t \<and> ts_entries t = [(td_deviceId demo_device, demo_device)]"
    unfolding r by simp
  then show ?thesis by (auto simp: trust_has_def jmap_has_def simp del: trust_load.simps)
qed

text \<open>Trust is exactly what the operations say: an operation changes the standing of no device but the one
  it names, an unpaired device is untrusted at once, and only an \<open>add\<close> of a valid entry can grant trust.\<close>

theorem trust_changes_only_named:
  "trust_has (case trust_add d s of Inl _ \<Rightarrow> s | Inr s' \<Rightarrow> s') x =
     (trust_has s x \<or> trusted_device_ok d \<and> x = td_deviceId d) \<and>
   trust_has (snd (trust_remove k s)) x = (trust_has s x \<and> x \<noteq> k) \<and>
   fst (trust_remove k s) = trust_has s k"
  using trust.has_apply [of "OpAdd d" s x] trust.has_apply [of "OpRemove k" s x]
  by (auto simp: trust.apply_op_def trust.remove_reports)

end
