(* ===== verification/Pairing.thy ===== *)
theory Pairing imports TrustStore begin

text \<open>
  \<^verbatim>\<open>packages/daemon/src/pairing/pairing.ts\<close>: the single active pairing code and the
  decision on an incoming pair request. Random draws and clock readings are arguments. The
  trust store is the model of TrustStore; a request that reaches \<open>trustStore.add\<close> also takes the
  outcome of the persist it awaits.
\<close>

section \<open>Model\<close>

definition PAIRING_CODE_ALPHABET :: string where
  "PAIRING_CODE_ALPHABET = ''ABCDEFGHJKLMNPQRSTUVWXYZ23456789''"

definition PAIRING_CODE_LENGTH :: nat where
  "PAIRING_CODE_LENGTH = 8"

definition MAX_PAIRING_FAILURES :: nat where
  "MAX_PAIRING_FAILURES = 5"

definition DEFAULT_PAIRING_TTL_MS :: int where
  "DEFAULT_PAIRING_TTL_MS = 10 * 60000"

text \<open>\<open>draw i\<close> is the result of the i-th \<open>randomInt\<close> call.\<close>

definition generate_pairing_code :: "(nat \<Rightarrow> nat) \<Rightarrow> string" where
  "generate_pairing_code draw =
     map (\<lambda>i. PAIRING_CODE_ALPHABET ! draw i) [0..<PAIRING_CODE_LENGTH]"

text \<open>\<open>Buffer.alloc(16)\<close> then \<open>write\<close>: at most 16 bytes, zero filled (codes are ASCII).\<close>

definition code_buffer :: "string \<Rightarrow> string" where
  "code_buffer s = take 16 (s @ replicate 16 (CHR 0x00))"

definition pairing_codes_equal :: "string \<Rightarrow> string \<Rightarrow> bool" where
  "pairing_codes_equal a b = (code_buffer a = code_buffer b)"

record active_code =
  ac_code :: string
  ac_expiresAt :: int
  ac_failures :: nat

record pairing =
  pm_active :: "active_code option"
  pm_trust :: trust_store
  pm_burns :: nat

definition begin_pairing :: "(nat \<Rightarrow> nat) \<Rightarrow> int \<Rightarrow> int \<Rightarrow> pairing \<Rightarrow> (string \<times> int) \<times> pairing" where
  "begin_pairing draw now ttlMs p =
     (let code = generate_pairing_code draw; expiresAt = now + ttlMs
      in ((code, expiresAt),
          p\<lparr>pm_active := Some \<lparr>ac_code = code, ac_expiresAt = expiresAt, ac_failures = 0\<rparr>\<rparr>))"

definition cancel_pairing :: "pairing \<Rightarrow> pairing" where
  "cancel_pairing p = p\<lparr>pm_active := None\<rparr>"

definition refused :: pair_response where
  "refused = \<lparr>pr_accepted = False, pr_nodeInfo = None\<rparr>"

text \<open>The inputs of one \<open>handlePairRequest\<close>: clock readings, persist outcome, TLS identity, name.\<close>

record attempt =
  at_request :: pair_request
  at_peer :: string
  at_name :: string
  at_now :: int
  at_stamp :: int
  at_saved :: bool

definition accept_peer :: "node_info \<Rightarrow> attempt \<Rightarrow> pairing \<Rightarrow> (trust_error + pair_response) \<times> pairing" where
  "accept_peer own a p =
     (case trust_add \<lparr>td_deviceId = at_peer a, td_name = at_name a, td_addedAt = at_stamp a\<rparr> (pm_trust p) of
        Inl e \<Rightarrow> (Inl e, p)
      | Inr t \<Rightarrow>
          (if at_saved a then Inr \<lparr>pr_accepted = True, pr_nodeInfo = Some own\<rparr> else Inl WriteFailed,
           p\<lparr>pm_trust := t\<rparr>))"

definition handle_pair_request :: "node_info \<Rightarrow> attempt \<Rightarrow> pairing \<Rightarrow> (trust_error + pair_response) \<times> pairing" where
  "handle_pair_request own a p =
     (if ni_deviceId (pq_nodeInfo (at_request a)) \<noteq> at_peer a then (Inr refused, p)
      else case pm_active p of
        None \<Rightarrow> (Inr refused, p)
      | Some ac \<Rightarrow>
          if at_now a \<ge> ac_expiresAt ac then (Inr refused, p)
          else if \<not> pairing_codes_equal (pq_code (at_request a)) (ac_code ac) then
            (let failures = ac_failures ac + 1
             in if failures \<ge> MAX_PAIRING_FAILURES
                then (Inr refused, p\<lparr>pm_active := None, pm_burns := pm_burns p + 1\<rparr>)
                else (Inr refused, p\<lparr>pm_active := Some (ac\<lparr>ac_failures := failures\<rparr>)\<rparr>))
          else accept_peer own a (p\<lparr>pm_active := None\<rparr>))"

section \<open>Codes\<close>

lemma code_char_alphabet: "list_all is_code_char PAIRING_CODE_ALPHABET"
  by (simp add: PAIRING_CODE_ALPHABET_def is_code_char_def is_digit_def)

lemma length_alphabet: "length PAIRING_CODE_ALPHABET = 32"
  by (simp add: PAIRING_CODE_ALPHABET_def)

lemma generated_code_ok:
  "(\<And>i. draw i < length PAIRING_CODE_ALPHABET) \<Longrightarrow> pairing_code_ok (generate_pairing_code draw)"
  using code_char_alphabet
  by (auto simp: pairing_code_ok_def generate_pairing_code_def PAIRING_CODE_LENGTH_def list_all_iff)

lemma code_char_nonzero: "is_code_char c \<Longrightarrow> c \<noteq> CHR 0x00"
  by (auto simp: is_code_char_def is_digit_def)

lemma code_buffer_strip:
  "pairing_code_ok s \<Longrightarrow> takeWhile (\<lambda>c. c \<noteq> CHR 0x00) (code_buffer s) = s"
  by (auto simp: pairing_code_ok_def code_buffer_def list_all_iff takeWhile_append
      dest: code_char_nonzero)

lemma pairing_codes_equal_iff:
  "pairing_code_ok a \<Longrightarrow> pairing_code_ok b \<Longrightarrow> pairing_codes_equal a b \<longleftrightarrow> a = b"
  unfolding pairing_codes_equal_def by (metis code_buffer_strip)

section \<open>The decision\<close>

text \<open>Whether the request's code is compared with the active one: the attempts an attacker spends.\<close>

definition compares_code :: "attempt \<Rightarrow> pairing \<Rightarrow> bool" where
  "compares_code a p =
     (ni_deviceId (pq_nodeInfo (at_request a)) = at_peer a \<and>
      (case pm_active p of None \<Rightarrow> False | Some ac \<Rightarrow> at_now a < ac_expiresAt ac))"

definition right_code :: "attempt \<Rightarrow> pairing \<Rightarrow> bool" where
  "right_code a p =
     (case pm_active p of None \<Rightarrow> False
      | Some ac \<Rightarrow> pairing_codes_equal (pq_code (at_request a)) (ac_code ac))"

lemma handle_no_compare: "\<not> compares_code a p \<Longrightarrow> handle_pair_request own a p = (Inr refused, p)"
  by (auto simp: handle_pair_request_def compares_code_def split: option.splits)

lemma handle_wrong:
  "compares_code a p \<Longrightarrow> \<not> right_code a p \<Longrightarrow>
   fst (handle_pair_request own a p) = Inr refused \<and>
   pm_trust (snd (handle_pair_request own a p)) = pm_trust p"
  by (auto simp: handle_pair_request_def compares_code_def right_code_def Let_def split: option.splits)

lemma handle_right:
  "compares_code a p \<Longrightarrow> right_code a p \<Longrightarrow>
   handle_pair_request own a p = accept_peer own a (p\<lparr>pm_active := None\<rparr>)"
  by (auto simp: handle_pair_request_def compares_code_def right_code_def split: option.splits)

lemma accept_peer_active: "pm_active (snd (accept_peer own a p)) = pm_active p"
  by (auto simp: accept_peer_def split: sum.splits)

lemma accept_peer_trust:
  "trust_has (pm_trust (snd (accept_peer own a p))) x \<longleftrightarrow>
     trust_has (pm_trust p) x \<or>
     (x = at_peer a \<and> trusted_device_ok \<lparr>td_deviceId = at_peer a, td_name = at_name a, td_addedAt = at_stamp a\<rparr>)"
  using trust.add_valid [of "\<lparr>td_deviceId = at_peer a, td_name = at_name a, td_addedAt = at_stamp a\<rparr>" "pm_trust p"]
  by (auto simp: accept_peer_def trust.has_add split: sum.splits)

lemma handle_trust:
  "trust_has (pm_trust (snd (handle_pair_request own a p))) x \<longleftrightarrow>
     trust_has (pm_trust p) x \<or>
     (x = at_peer a \<and> compares_code a p \<and> right_code a p \<and>
      trusted_device_ok \<lparr>td_deviceId = at_peer a, td_name = at_name a, td_addedAt = at_stamp a\<rparr>)"
proof (cases "compares_code a p \<and> right_code a p")
  case True
  then show ?thesis by (simp add: handle_right accept_peer_trust)
next
  case False
  then show ?thesis
    by (cases "compares_code a p") (simp_all add: handle_no_compare handle_wrong)
qed

section \<open>The guessing budget of one window\<close>

fun pair_run :: "node_info \<Rightarrow> attempt list \<Rightarrow> pairing \<Rightarrow> pairing" where
  "pair_run own [] p = p"
| "pair_run own (a # as) p = pair_run own as (snd (handle_pair_request own a p))"

fun compared :: "node_info \<Rightarrow> attempt list \<Rightarrow> pairing \<Rightarrow> nat" where
  "compared own [] p = 0"
| "compared own (a # as) p =
     (if compares_code a p then 1 else 0) + compared own as (snd (handle_pair_request own a p))"

definition guesses_left :: "pairing \<Rightarrow> nat" where
  "guesses_left p = (case pm_active p of None \<Rightarrow> 0 | Some ac \<Rightarrow> MAX_PAIRING_FAILURES - ac_failures ac)"

definition pairing_inv :: "pairing \<Rightarrow> bool" where
  "pairing_inv p = (case pm_active p of None \<Rightarrow> True | Some ac \<Rightarrow> ac_failures ac < MAX_PAIRING_FAILURES)"

lemma pairing_inv_begin: "pairing_inv (snd (begin_pairing draw now ttl p))"
  by (simp add: begin_pairing_def pairing_inv_def MAX_PAIRING_FAILURES_def Let_def)

lemma guesses_left_begin: "guesses_left (snd (begin_pairing draw now ttl p)) = MAX_PAIRING_FAILURES"
  by (simp add: begin_pairing_def guesses_left_def Let_def)

lemma handle_step:
  assumes "pairing_inv p"
  shows "pairing_inv (snd (handle_pair_request own a p)) \<and>
    guesses_left (snd (handle_pair_request own a p)) + (if compares_code a p then 1 else 0)
      \<le> guesses_left p"
proof (cases "compares_code a p")
  case False
  with assms show ?thesis by (simp add: handle_no_compare)
next
  case True
  then obtain ac where ac: "pm_active p = Some ac" by (auto simp: compares_code_def split: option.splits)
  with assms have f: "ac_failures ac < MAX_PAIRING_FAILURES" by (simp add: pairing_inv_def)
  show ?thesis
  proof (cases "right_code a p")
    case right: True
    then show ?thesis using True ac f
      by (simp add: handle_right pairing_inv_def guesses_left_def accept_peer_active)
  next
    case False
    then have "\<not> pairing_codes_equal (pq_code (at_request a)) (ac_code ac)"
      by (simp add: right_code_def ac)
    then show ?thesis using True ac f
      by (auto simp: handle_pair_request_def compares_code_def pairing_inv_def guesses_left_def Let_def)
  qed
qed

lemma compared_le: "pairing_inv p \<Longrightarrow> compared own as p \<le> guesses_left p"
proof (induction as arbitrary: p)
  case (Cons a as)
  from handle_step [OF Cons.prems, of own a] Cons.IH [of "snd (handle_pair_request own a p)"]
  show ?case by auto
qed simp

lemma pair_run_burned:
  assumes "pairing_inv p" "guesses_left p \<le> compared own as p"
  shows "pm_active (pair_run own as p) = None"
  using assms
proof (induction as arbitrary: p)
  case Nil
  then show ?case
    by (auto simp: guesses_left_def pairing_inv_def split: option.splits)
next
  case (Cons a as)
  from handle_step [OF Cons.prems(1), of own a] Cons.prems(2)
    Cons.IH [of "snd (handle_pair_request own a p)"]
  show ?case by (auto split: if_splits)
qed

section \<open>Properties\<close>

text \<open>Only the right code, in time and over the named identity, grants trust: after a pair request a device
  is trusted that was not before only if it is the TLS peer, the request names that device, the active code
  has not expired and the submitted code equals it; the code is then spent.\<close>

theorem pairing_grants_trust:
  assumes "pairing_code_ok (pq_code (at_request a))"
    "pred_option (\<lambda>ac. pairing_code_ok (ac_code ac)) (pm_active p)"
  shows "trust_has (pm_trust (snd (handle_pair_request own a p))) x \<longleftrightarrow>
     trust_has (pm_trust p) x \<or>
     (x = at_peer a \<and> ni_deviceId (pq_nodeInfo (at_request a)) = at_peer a \<and>
      (\<exists>ac. pm_active p = Some ac \<and> at_now a < ac_expiresAt ac \<and> pq_code (at_request a) = ac_code ac \<and>
            pm_active (snd (handle_pair_request own a p)) = None) \<and>
      trusted_device_ok \<lparr>td_deviceId = at_peer a, td_name = at_name a, td_addedAt = at_stamp a\<rparr>)"
proof -
  have "compares_code a p \<and> right_code a p \<longleftrightarrow>
      ni_deviceId (pq_nodeInfo (at_request a)) = at_peer a \<and>
      (\<exists>ac. pm_active p = Some ac \<and> at_now a < ac_expiresAt ac \<and> pq_code (at_request a) = ac_code ac)"
    using assms by (auto simp: compares_code_def right_code_def pairing_codes_equal_iff split: option.splits)
  moreover have "compares_code a p \<Longrightarrow> right_code a p \<Longrightarrow> pm_active (snd (handle_pair_request own a p)) = None"
    by (simp add: handle_right accept_peer_active)
  ultimately show ?thesis unfolding handle_trust by auto
qed

definition demo_node :: node_info where
  "demo_node = \<lparr>ni_deviceId = replicate 64 (CHR ''a''), ni_name = ''laptop'', ni_daemonVersion = ''0.6.0'',
     ni_protocolVersion = ''0.1.0'', ni_platform = Linux, ni_roles = [], ni_executors = [],
     ni_hardware = \<lparr>hw_cpu = ''cpu'', hw_ramBytes = 1024, hw_gpus = []\<rparr>, ni_models = [],
     ni_maxConcurrentJobs = 2, ni_activeJobs = 0, ni_allowRemote = None, ni_lastUpgrade = None\<rparr>"

definition demo_attempt :: "string \<Rightarrow> attempt" where
  "demo_attempt code = \<lparr>at_request = \<lparr>pq_code = code, pq_nodeInfo = demo_node\<rparr>,
     at_peer = replicate 64 (CHR ''a''), at_name = ''laptop'', at_now = 7, at_stamp = 7, at_saved = True\<rparr>"

definition demo_pairing :: pairing where
  "demo_pairing = \<lparr>pm_active = Some \<lparr>ac_code = ''ABCDEFGH'', ac_expiresAt = 100, ac_failures = 0\<rparr>,
     pm_trust = \<lparr>ts_entries = [], ts_queued = 0, ts_file = None\<rparr>, pm_burns = 0\<rparr>"

theorem pairing_grants_trust_witness:
  "trust_has (pm_trust (snd (handle_pair_request demo_node (demo_attempt ''ABCDEFGH'') demo_pairing)))
     (replicate 64 (CHR ''a''))"
proof -
  have h: "pairing_code_ok (pq_code (at_request (demo_attempt ''ABCDEFGH'')))"
    "pred_option (\<lambda>ac. pairing_code_ok (ac_code ac)) (pm_active demo_pairing)"
    by (simp_all add: demo_attempt_def demo_pairing_def pairing_code_ok_def is_code_char_def is_digit_def)
  have e: "pm_active (snd (handle_pair_request demo_node (demo_attempt ''ABCDEFGH'') demo_pairing)) = None"
    by code_simp
  have d: "trusted_device_ok \<lparr>td_deviceId = replicate 64 (CHR ''a''), td_name = ''laptop'', td_addedAt = 7\<rparr>"
    by code_simp
  show ?thesis
    unfolding pairing_grants_trust [OF h]
    using e d by (simp add: demo_attempt_def demo_pairing_def demo_node_def)
qed

text \<open>C24 A pairing window allows five guesses: whatever requests arrive after \<open>beginPairing\<close>, at most
  \<open>MAX_PAIRING_FAILURES\<close> of them are compared with the code, and after the fifth comparison none is active.\<close>

theorem pairing_guess_budget:
  "compared own as (snd (begin_pairing draw now ttl p)) \<le> MAX_PAIRING_FAILURES \<and>
   (compared own as (snd (begin_pairing draw now ttl p)) = MAX_PAIRING_FAILURES \<longrightarrow>
      pm_active (pair_run own as (snd (begin_pairing draw now ttl p))) = None)"
  using compared_le [OF pairing_inv_begin, of own as draw now ttl p]
    pair_run_burned [OF pairing_inv_begin, of draw now ttl p own as]
  by (auto simp: guesses_left_begin)

theorem pairing_guess_budget_witness:
  "pm_active (pair_run demo_node (replicate 5 (demo_attempt ''ZZZZZZZZ''))
     (snd (begin_pairing (\<lambda>_. 0) 0 100 demo_pairing))) = None"
proof -
  have "compared demo_node (replicate 5 (demo_attempt ''ZZZZZZZZ'')) (snd (begin_pairing (\<lambda>_. 0) 0 100 demo_pairing)) = 5"
    by code_simp
  then show ?thesis
    using pairing_guess_budget [of demo_node "replicate 5 (demo_attempt ''ZZZZZZZZ'')" "\<lambda>_. 0" 0 100 demo_pairing]
    by (simp add: MAX_PAIRING_FAILURES_def)
qed

end
