(* ===== verification/KnownNodes.thy ===== *)
theory KnownNodes imports Protocol Eviction begin

text \<open>
  \<^verbatim>\<open>packages/daemon/src/discovery/known-nodes.ts\<close>: the capped, persisted registry of
  discovered nodes. A write has three phases (created but before its snapshot, snapshot taken,
  settled); calls that arrive during a write share one follow-up.
\<close>

section \<open>Model\<close>

definition MAX_KNOWN_NODES :: nat where
  "MAX_KNOWN_NODES = 512"

datatype discovery_source = Mdns | Udp | Static

record known_node =
  kn_deviceId :: string
  kn_name :: "string option"
  kn_host :: string
  kn_port :: nat
  kn_lastSeenAt :: int
  kn_source :: discovery_source

definition known_node_ok :: "known_node \<Rightarrow> bool" where
  "known_node_ok n = (device_id_ok (kn_deviceId n) \<and> pred_option node_name_ok (kn_name n) \<and>
     1 \<le> length (kn_host n) \<and> 1 \<le> kn_port n \<and> kn_port n \<le> 65535)"

type_synonym node_map = "(string, known_node) jmap"

text \<open>\<open>writing\<close>: no write, one before its snapshot, or one that serialized these entries.\<close>

datatype write_phase = Idle | Starting | Snapshotted "known_node list"

record registry =
  kr_entries :: node_map
  kr_writing :: write_phase
  kr_pending :: bool
  kr_writes :: nat
  kr_file :: "known_node list option"

datatype registry_error = BadNode | RegistryReadFailed | CorruptRegistry

datatype registry_file = NoFile | FileError | FileNodes "known_node list option"

fun set_nodes :: "node_map \<Rightarrow> known_node list \<Rightarrow> node_map" where
  "set_nodes m [] = m"
| "set_nodes m (n # ns) = set_nodes (jmap_set m (kn_deviceId n) n) ns"

definition registry_of :: "node_map \<Rightarrow> known_node list option \<Rightarrow> registry" where
  "registry_of m f = \<lparr>kr_entries = m, kr_writing = Idle, kr_pending = False, kr_writes = 0, kr_file = f\<rparr>"

fun registry_load :: "registry_file \<Rightarrow> registry_error + registry" where
  "registry_load NoFile = Inr (registry_of [] None)"
| "registry_load FileError = Inl RegistryReadFailed"
| "registry_load (FileNodes None) = Inl CorruptRegistry"
| "registry_load (FileNodes (Some ns)) =
     (if list_all known_node_ok ns then Inr (registry_of (set_nodes [] ns) (Some ns))
      else Inl CorruptRegistry)"

definition registry_list :: "registry \<Rightarrow> known_node list" where
  "registry_list r = jmap_values (kr_entries r)"

definition registry_evict_oldest :: "node_map \<Rightarrow> node_map" where
  "registry_evict_oldest m = evict_oldest kn_lastSeenAt m"

definition registry_persist :: "registry \<Rightarrow> registry" where
  "registry_persist r =
     (case kr_writing r of Idle \<Rightarrow> r\<lparr>kr_writing := Starting\<rparr> | _ \<Rightarrow> r\<lparr>kr_pending := True\<rparr>)"

definition registry_record :: "known_node \<Rightarrow> registry \<Rightarrow> registry_error + registry" where
  "registry_record n r =
     (if known_node_ok n
      then Inr (registry_persist (r\<lparr>kr_entries :=
             shrink length registry_evict_oldest MAX_KNOWN_NODES
               (jmap_set (kr_entries r) (kn_deviceId n) n)\<rparr>))
      else Inl BadNode)"

definition registry_remove :: "string \<Rightarrow> registry \<Rightarrow> bool \<times> registry" where
  "registry_remove d r =
     (if jmap_has (kr_entries r) d
      then (True, registry_persist (r\<lparr>kr_entries := jmap_delete (kr_entries r) d\<rparr>))
      else (False, r))"

text \<open>\<open>writeSnapshot\<close>: past the \<open>mkdir\<close> the entries are serialized; then the write settles and a
  pending follow-up becomes the write in flight. A write can also fail in \<open>mkdir\<close>, before its snapshot.\<close>

definition registry_snapshot :: "registry \<Rightarrow> registry" where
  "registry_snapshot r =
     (case kr_writing r of
        Starting \<Rightarrow> r\<lparr>kr_writing := Snapshotted (registry_list r), kr_writes := kr_writes r + 1\<rparr>
      | _ \<Rightarrow> r)"

definition registry_settle :: "bool \<Rightarrow> registry \<Rightarrow> registry" where
  "registry_settle renamed r =
     (case kr_writing r of
        Snapshotted ns \<Rightarrow>
          r\<lparr>kr_file := (if renamed then Some ns else kr_file r),
            kr_writing := (if kr_pending r then Starting else Idle),
            kr_pending := False\<rparr>
      | Starting \<Rightarrow>
          if renamed then r
          else r\<lparr>kr_writing := (if kr_pending r then Starting else Idle), kr_pending := False\<rparr>
      | Idle \<Rightarrow> r)"

section \<open>The cap\<close>

interpretation node_store: oldest_first_store length registry_evict_oldest jmap_ok set
    "\<lambda>p. kn_lastSeenAt (snd p)"
  unfolding registry_evict_oldest_def by (rule oldest.oldest_first_store_axioms)

definition registry_inv :: "registry \<Rightarrow> bool" where
  "registry_inv r = (jmap_ok (kr_entries r) \<and>
     (\<forall>(k, n) \<in> set (kr_entries r). k = kn_deviceId n \<and> known_node_ok n))"

lemma registry_persist_entries [simp]: "kr_entries (registry_persist r) = kr_entries r"
  by (simp add: registry_persist_def split: write_phase.splits)

lemma registry_inv_persist [simp]: "registry_inv (registry_persist r) = registry_inv r"
  by (simp add: registry_inv_def)

lemma registry_record_entries:
  assumes "registry_inv r" "registry_record n r = Inr r'"
  shows "registry_inv r' \<and>
    length (kr_entries r') = min (length (jmap_set (kr_entries r) (kn_deviceId n) n)) MAX_KNOWN_NODES \<and>
    set (kr_entries r') \<subseteq> insert (kn_deviceId n, n) (set (kr_entries r))"
proof -
  let ?m = "jmap_set (kr_entries r) (kn_deviceId n) n"
  from assms(2) have n: "known_node_ok n"
    and r': "r' = registry_persist (r\<lparr>kr_entries :=
      shrink length registry_evict_oldest MAX_KNOWN_NODES ?m\<rparr>)"
    by (auto simp: registry_record_def split: if_splits)
  from assms(1) have ok: "jmap_ok (kr_entries r)" and kv: "\<forall>(k, n) \<in> set (kr_entries r). k = kn_deviceId n \<and> known_node_ok n"
    by (auto simp: registry_inv_def)
  note s = node_store.shrink_rule [OF jmap_ok_set [OF ok], of MAX_KNOWN_NODES "kn_deviceId n" n]
  have "set ?m \<subseteq> insert (kn_deviceId n, n) (set (kr_entries r))"
    using set_jmap_set [OF ok] by auto
  with s n kv show ?thesis by (fastforce simp: r' registry_inv_def)
qed

section \<open>Coalesced writes\<close>

text \<open>The entries a later write will serialize, or the last one did, are the current ones.\<close>

definition registry_durable :: "registry \<Rightarrow> bool" where
  "registry_durable r =
     (kr_pending r \<or>
      (case kr_writing r of
         Idle \<Rightarrow> kr_file r = Some (registry_list r) \<or> (kr_file r = None \<and> kr_entries r = [])
       | Starting \<Rightarrow> True
       | Snapshotted ns \<Rightarrow> ns = registry_list r))"

definition pending_ok :: "registry \<Rightarrow> bool" where
  "pending_ok r = (kr_writing r = Idle \<longrightarrow> \<not> kr_pending r)"

datatype registry_step = Record known_node | Remove string | TakeSnapshot | Settle

definition registry_step :: "registry_step \<Rightarrow> registry \<Rightarrow> registry" where
  "registry_step x r =
     (case x of
        Record n \<Rightarrow> (case registry_record n r of Inl _ \<Rightarrow> r | Inr r' \<Rightarrow> r')
      | Remove d \<Rightarrow> snd (registry_remove d r)
      | TakeSnapshot \<Rightarrow> registry_snapshot r
      | Settle \<Rightarrow> registry_settle True r)"

lemma persist_durable: "registry_durable (registry_persist r)"
  by (simp add: registry_durable_def registry_persist_def split: write_phase.splits)

lemma registry_step_durable:
  assumes "registry_durable r" "pending_ok r"
  shows "registry_durable (registry_step x r) \<and> pending_ok (registry_step x r)"
proof (cases x)
  case (Record n)
  with assms show ?thesis
    by (auto simp: registry_step_def registry_record_def persist_durable)
       (auto simp: pending_ok_def registry_persist_def split: write_phase.splits)
next
  case (Remove d)
  with assms show ?thesis
    by (auto simp: registry_step_def registry_remove_def persist_durable)
       (auto simp: pending_ok_def registry_persist_def split: write_phase.splits)
next
  case TakeSnapshot
  with assms show ?thesis
    by (auto simp: registry_step_def registry_snapshot_def registry_durable_def pending_ok_def
        registry_list_def split: write_phase.splits)
next
  case Settle
  with assms show ?thesis
    by (auto simp: registry_step_def registry_settle_def registry_durable_def pending_ok_def
        registry_list_def split: write_phase.splits if_splits)
qed

lemma registry_run_durable:
  "registry_durable r \<Longrightarrow> pending_ok r \<Longrightarrow>
   registry_durable (fold registry_step xs r) \<and> pending_ok (fold registry_step xs r)"
  by (induction xs arbitrary: r) (simp_all add: registry_step_durable)

text \<open>A burst of mutations while a write is in flight costs one follow-up write.\<close>

definition writes_owed :: "registry \<Rightarrow> nat" where
  "writes_owed r =
     (case kr_writing r of Idle \<Rightarrow> 0 | Starting \<Rightarrow> 1 | Snapshotted _ \<Rightarrow> 0) + (if kr_pending r then 1 else 0)"

lemma writes_owed_le: "writes_owed r \<le> 2"
  by (simp add: writes_owed_def split: write_phase.splits)

lemma snapshot_pays: "kr_writing r = Starting \<Longrightarrow>
    writes_owed (registry_snapshot r) + 1 = writes_owed r \<and> kr_writes (registry_snapshot r) = kr_writes r + 1"
  by (simp add: registry_snapshot_def writes_owed_def)

lemma settle_owes: "pending_ok r \<Longrightarrow> kr_writing r \<noteq> Starting \<Longrightarrow> writes_owed (registry_settle b r) = writes_owed r \<and> kr_writes (registry_settle b r) = kr_writes r"
  by (simp add: registry_settle_def writes_owed_def pending_ok_def split: write_phase.splits)

section \<open>Properties\<close>

text \<open>The registry keeps at most 512 nodes, one per device, each valid, and drops the least recently seen:
  a recorded node is kept unless it is older than every node that stays.\<close>

theorem registry_bounded_newest:
  assumes "registry_inv r" "registry_record n r = Inr r'"
  shows "registry_inv r' \<and> length (kr_entries r') \<le> MAX_KNOWN_NODES \<and>
    (\<forall>p \<in> set (jmap_set (kr_entries r) (kn_deviceId n) n) - set (kr_entries r').
       \<forall>q \<in> set (kr_entries r'). kn_lastSeenAt (snd p) \<le> kn_lastSeenAt (snd q))"
proof -
  from assms(2) have e: "kr_entries r' = shrink length registry_evict_oldest MAX_KNOWN_NODES
      (jmap_set (kr_entries r) (kn_deviceId n) n)"
    by (auto simp: registry_record_def split: if_splits)
  have ok: "jmap_ok (jmap_set (kr_entries r) (kn_deviceId n) n)"
    using assms(1) by (auto simp: registry_inv_def)
  note b = registry_record_entries [OF assms]
  moreover from b have "length (kr_entries r') \<le> MAX_KNOWN_NODES" by simp
  moreover have "\<forall>p \<in> set (jmap_set (kr_entries r) (kn_deviceId n) n) - set (kr_entries r').
       \<forall>q \<in> set (kr_entries r'). kn_lastSeenAt (snd p) \<le> kn_lastSeenAt (snd q)"
    using node_store.shrink_keeps_newest [OF ok] unfolding e by blast
  ultimately show ?thesis by blast
qed

definition demo_known :: known_node where
  "demo_known = \<lparr>kn_deviceId = replicate 64 (CHR ''a''), kn_name = None, kn_host = ''10.0.0.2'', kn_port = 7433,
     kn_lastSeenAt = 5, kn_source = Static\<rparr>"

lemma demo_known_ok: "known_node_ok demo_known"
  by (simp add: known_node_ok_def demo_known_def device_id_ok_def lower_hex_def is_lower_hex_def is_digit_def list_all_iff)

theorem registry_bounded_newest_witness:
  "\<exists>r'. registry_record demo_known (registry_of [] None) = Inr r' \<and> registry_inv r' \<and>
     length (kr_entries r') \<le> MAX_KNOWN_NODES"
proof -
  obtain r' where r': "registry_record demo_known (registry_of [] None) = Inr r'"
    by (simp add: registry_record_def demo_known_ok)
  have "registry_inv (registry_of [] None)" by (simp add: registry_inv_def registry_of_def)
  from registry_bounded_newest [OF this r'] r' show ?thesis by blast
qed

text \<open>Coalesced writes lose nothing: whatever records, removals and successful write steps interleave, at
  most two writes are owed, and when no write is running the file holds exactly the current list.\<close>

theorem registry_file_current:
  assumes "registry_durable r" "pending_ok r"
  shows "writes_owed (fold registry_step xs r) \<le> 2 \<and>
    (kr_writing (fold registry_step xs r) = Idle \<longrightarrow>
       kr_file (fold registry_step xs r) = Some (registry_list (fold registry_step xs r)) \<or>
       (kr_file (fold registry_step xs r) = None \<and> registry_list (fold registry_step xs r) = []))"
  using registry_run_durable [OF assms, of xs] writes_owed_le [of "fold registry_step xs r"]
  by (auto simp: registry_durable_def pending_ok_def registry_list_def)

theorem registry_file_current_witness:
  "kr_file (fold registry_step [Record demo_known, TakeSnapshot, Settle] (registry_of [] None)) = Some [demo_known]"
proof -
  let ?r = "fold registry_step [Record demo_known, TakeSnapshot, Settle] (registry_of [] None)"
  have w: "kr_writing ?r = Idle" "registry_list ?r = [demo_known]"
    by (simp_all add: registry_step_def registry_record_def registry_of_def registry_persist_def demo_known_ok
        registry_snapshot_def registry_settle_def registry_list_def node_store.shrink_within MAX_KNOWN_NODES_def)
  from registry_file_current [of "registry_of [] None" "[Record demo_known, TakeSnapshot, Settle]"] w show ?thesis
    by (simp add: registry_durable_def pending_ok_def registry_of_def)
qed

end
