(* ===== verification/Aggregator.thy ===== *)
theory Aggregator imports KnownNodes begin

text \<open>
  \<^verbatim>\<open>packages/daemon/src/discovery/aggregator.ts\<close>, \<^verbatim>\<open>candidate.ts\<close>, \<^verbatim>\<open>static.ts\<close>: the candidate
  map fed by every discovery channel. A channel's callback is an \<open>ingest\<close>; the persist chain is the
  list of registry records still to run. The mDNS and UDP sockets are not modelled.
\<close>

section \<open>Model\<close>

record candidate =
  ca_deviceId :: "string option"
  ca_name :: "string option"
  ca_host :: string
  ca_port :: nat
  ca_source :: discovery_source
  ca_lastSeenAt :: int

definition LAST_SEEN_PERSIST_THRESHOLD_MS :: int where
  "LAST_SEEN_PERSIST_THRESHOLD_MS = 60000"

datatype agg_state = NewAgg | StartedAgg | StoppedAgg

record aggregator =
  ag_entries :: "(string, candidate) jmap"
  ag_lastQueued :: "(string, known_node) jmap"
  ag_chain :: "known_node list"
  ag_emitted :: "candidate list"
  ag_state :: agg_state

definition endpoint_key :: "candidate \<Rightarrow> string" where
  "endpoint_key c = ca_host c @ '':'' @ show_nat (ca_port c)"

definition entry_key :: "candidate \<Rightarrow> string" where
  "entry_key c = (case ca_deviceId c of Some d \<Rightarrow> d | None \<Rightarrow> endpoint_key c)"

definition known_node_to_candidate :: "int \<Rightarrow> known_node \<Rightarrow> candidate" where
  "known_node_to_candidate now n =
     \<lparr>ca_deviceId = Some (kn_deviceId n), ca_name = kn_name n, ca_host = kn_host n, ca_port = kn_port n,
      ca_source = kn_source n, ca_lastSeenAt = min (kn_lastSeenAt n) now\<rparr>"

definition same_except_last_seen :: "known_node \<Rightarrow> known_node \<Rightarrow> bool" where
  "same_except_last_seen a b =
     (kn_deviceId a = kn_deviceId b \<and> kn_name a = kn_name b \<and> kn_host a = kn_host b \<and>
      kn_port a = kn_port b \<and> kn_source a = kn_source b)"

definition evict_oldest_candidate :: "aggregator \<Rightarrow> aggregator" where
  "evict_oldest_candidate a =
     (case scan_oldest ca_lastSeenAt None (ag_entries a) of
        None \<Rightarrow> a
      | Some (k, _) \<Rightarrow>
          a\<lparr>ag_entries := jmap_delete (ag_entries a) k,
            ag_lastQueued :=
              (case jmap_get (ag_entries a) k of
                 None \<Rightarrow> ag_lastQueued a
               | Some e \<Rightarrow>
                   (case ca_deviceId e of
                      None \<Rightarrow> ag_lastQueued a
                    | Some d \<Rightarrow> jmap_delete (ag_lastQueued a) d))\<rparr>)"

definition queue_record :: "string \<Rightarrow> candidate \<Rightarrow> aggregator \<Rightarrow> aggregator" where
  "queue_record d c a =
     (let entry = \<lparr>kn_deviceId = d, kn_name = ca_name c, kn_host = ca_host c, kn_port = ca_port c,
                   kn_lastSeenAt = ca_lastSeenAt c, kn_source = ca_source c\<rparr>
      in if (case jmap_get (ag_lastQueued a) d of
               None \<Rightarrow> False
             | Some p \<Rightarrow> same_except_last_seen p entry \<and>
                 \<bar>kn_lastSeenAt entry - kn_lastSeenAt p\<bar> < LAST_SEEN_PERSIST_THRESHOLD_MS)
         then a
         else a\<lparr>ag_lastQueued := jmap_set (ag_lastQueued a) d entry, ag_chain := ag_chain a @ [entry]\<rparr>)"

definition first_some :: "'a option \<Rightarrow> 'a option \<Rightarrow> 'a option" where
  "first_some x y = (case x of None \<Rightarrow> y | Some _ \<Rightarrow> x)"

definition merge_candidate :: "candidate \<Rightarrow> candidate option \<Rightarrow> candidate" where
  "merge_candidate c existing =
     c\<lparr>ca_deviceId := first_some (ca_deviceId c) (Option.bind existing ca_deviceId),
       ca_name := first_some (ca_name c) (Option.bind existing ca_name)\<rparr>"

definition candidate_count :: "aggregator \<Rightarrow> nat" where
  "candidate_count a = length (ag_entries a)"

text \<open>From the merge on: store, shrink to the cap, report, queue the record.\<close>

definition store_candidate :: "bool \<Rightarrow> string \<Rightarrow> candidate \<Rightarrow> aggregator \<Rightarrow> aggregator" where
  "store_candidate persist key merged a =
     (let a1 = shrink candidate_count evict_oldest_candidate MAX_KNOWN_NODES
                 (a\<lparr>ag_entries := jmap_set (ag_entries a) key merged\<rparr>);
          a2 = a1\<lparr>ag_emitted := ag_emitted a1 @ [merged]\<rparr>
      in case ca_deviceId merged of
           None \<Rightarrow> a2
         | Some d \<Rightarrow> if persist then queue_record d merged a2 else a2)"

definition stale :: "candidate \<Rightarrow> candidate option \<Rightarrow> bool" where
  "stale c existing = (case existing of None \<Rightarrow> False | Some e \<Rightarrow> ca_lastSeenAt c < ca_lastSeenAt e)"

definition shadowed :: "candidate \<Rightarrow> aggregator \<Rightarrow> bool" where
  "shadowed c a = list_ex (\<lambda>e. ca_deviceId e \<noteq> None \<and> ca_host e = ca_host c \<and> ca_port e = ca_port c)
     (jmap_values (ag_entries a))"

definition ingest :: "bool \<Rightarrow> candidate \<Rightarrow> aggregator \<Rightarrow> aggregator" where
  "ingest persist c a =
     (if ag_state a \<noteq> StartedAgg then a
      else case ca_deviceId c of
        Some d \<Rightarrow>
          (let existing = jmap_get (ag_entries a) d
           in if stale c existing then a
              else store_candidate persist d (merge_candidate c existing)
                     (a\<lparr>ag_entries := jmap_delete (ag_entries a) (endpoint_key c)\<rparr>))
      | None \<Rightarrow>
          if shadowed c a then a
          else (let existing = jmap_get (ag_entries a) (endpoint_key c)
                in if stale c existing then a
                   else store_candidate persist (endpoint_key c) (merge_candidate c existing) a))"

record static_node =
  sn_host :: string
  sn_port :: nat
  sn_expectedDeviceId :: "string option"

definition static_node_candidates :: "static_node list \<Rightarrow> int \<Rightarrow> candidate list" where
  "static_node_candidates ns now =
     map (\<lambda>n. \<lparr>ca_deviceId = sn_expectedDeviceId n, ca_name = None, ca_host = sn_host n,
               ca_port = sn_port n, ca_source = Static, ca_lastSeenAt = now\<rparr>) ns"

definition new_aggregator :: aggregator where
  "new_aggregator = \<lparr>ag_entries = [], ag_lastQueued = [], ag_chain = [], ag_emitted = [], ag_state = NewAgg\<rparr>"

text \<open>\<open>start\<close> up to the live channels; \<open>None\<close> is its throw. The clock is read once per registry entry.\<close>

fun seed_known :: "(known_node \<times> int) list \<Rightarrow> aggregator \<Rightarrow> aggregator" where
  "seed_known [] a = a"
| "seed_known ((n, now) # ns) a =
     seed_known ns (ingest False (known_node_to_candidate now n)
       (a\<lparr>ag_lastQueued := jmap_set (ag_lastQueued a) (kn_deviceId n) n\<rparr>))"

fun ingest_all :: "bool \<Rightarrow> candidate list \<Rightarrow> aggregator \<Rightarrow> aggregator" where
  "ingest_all persist [] a = a"
| "ingest_all persist (c # cs) a = ingest_all persist cs (ingest persist c a)"

definition agg_start :: "(known_node \<times> int) list \<Rightarrow> static_node list \<Rightarrow> int \<Rightarrow> aggregator \<Rightarrow> aggregator option" where
  "agg_start known statics now a =
     (if ag_state a \<noteq> NewAgg then None
      else Some (ingest_all True (static_node_candidates statics now)
             (seed_known known (a\<lparr>ag_state := StartedAgg\<rparr>))))"

definition agg_stop :: "aggregator \<Rightarrow> aggregator" where
  "agg_stop a = a\<lparr>ag_state := StoppedAgg\<rparr>"

text \<open>The head of the persist chain runs; a failed record is reported and dropped.\<close>

definition chain_next :: "aggregator \<times> registry \<Rightarrow> aggregator \<times> registry" where
  "chain_next ar =
     (case ag_chain (fst ar) of
        [] \<Rightarrow> ar
      | n # ns \<Rightarrow>
          ((fst ar)\<lparr>ag_chain := ns\<rparr>,
           (case registry_record n (snd ar) of Inl _ \<Rightarrow> snd ar | Inr r \<Rightarrow> r)))"

section \<open>The cap\<close>

lemma evict_candidate_entries:
  "ag_entries (evict_oldest_candidate a) = evict_oldest ca_lastSeenAt (ag_entries a)"
  by (simp add: evict_oldest_candidate_def evict_oldest_def split: option.split)

interpretation candidates: oldest_first_store candidate_count evict_oldest_candidate
    "\<lambda>a. jmap_ok (ag_entries a)" "\<lambda>a. set (ag_entries a)" "\<lambda>p. ca_lastSeenAt (snd p)"
proof
  fix a :: aggregator
  assume a: "jmap_ok (ag_entries a)" "0 < candidate_count a"
  then have l: "0 < length (ag_entries a)" by (simp add: candidate_count_def)
  show "Suc (candidate_count (evict_oldest_candidate a)) = candidate_count a"
    using oldest.evict_count [OF a(1) l] by (simp add: candidate_count_def evict_candidate_entries)
  show "jmap_ok (ag_entries (evict_oldest_candidate a))"
    using oldest.evict_ok [OF a(1) l] by (simp add: evict_candidate_entries)
  show "set (ag_entries (evict_oldest_candidate a)) \<subseteq> set (ag_entries a)"
    using oldest.evict_contents [OF a(1) l] by (simp add: evict_candidate_entries)
  fix x y
  assume "x \<in> set (ag_entries a) - set (ag_entries (evict_oldest_candidate a))" "y \<in> set (ag_entries a)"
  then show "ca_lastSeenAt (snd x) \<le> ca_lastSeenAt (snd y)"
    using oldest.evict_oldest [OF a(1) l, of x ca_lastSeenAt y] by (simp add: evict_candidate_entries)
qed

section \<open>The invariant\<close>

definition same_endpoint :: "candidate \<Rightarrow> candidate \<Rightarrow> bool" where
  "same_endpoint c e = (ca_host c = ca_host e \<and> ca_port c = ca_port e)"

definition candidate_ok :: "candidate \<Rightarrow> bool" where
  "candidate_ok c = pred_option device_id_ok (ca_deviceId c)"

definition agg_inv :: "aggregator \<Rightarrow> bool" where
  "agg_inv a = (jmap_ok (ag_entries a) \<and> length (ag_entries a) \<le> MAX_KNOWN_NODES \<and>
     (\<forall>p \<in> set (ag_entries a). fst p = entry_key (snd p) \<and> candidate_ok (snd p)) \<and>
     (\<forall>p \<in> set (ag_entries a). \<forall>q \<in> set (ag_entries a).
        ca_deviceId (snd p) = None \<and> ca_deviceId (snd q) \<noteq> None \<longrightarrow> \<not> same_endpoint (snd p) (snd q)))"

lemma split_last:
  assumes "xs @ d # ys = us @ d # vs" "d \<notin> set ys" "d \<notin> set vs"
  shows "xs = us \<and> ys = vs"
  using assms by (auto simp: append_eq_append_conv2 Cons_eq_append_conv append_eq_Cons_conv)

lemma endpoint_key_inject: "endpoint_key c = endpoint_key e \<longleftrightarrow> same_endpoint c e"
proof -
  have "CHR '':'' \<notin> set (show_nat n)" for n
    using show_nat_digits [of n] by (auto simp: list_all_iff is_digit_def)
  then show ?thesis by (auto simp: endpoint_key_def same_endpoint_def dest!: split_last)
qed

lemma device_id_no_colon: "device_id_ok d \<Longrightarrow> CHR '':'' \<notin> set d"
  by (auto simp: device_id_ok_def lower_hex_def list_all_iff is_lower_hex_def is_digit_def)

lemma endpoint_key_not_device: "device_id_ok d \<Longrightarrow> endpoint_key c \<noteq> d"
  using device_id_no_colon [of "endpoint_key c"] by (auto simp: endpoint_key_def)


lemma queue_record_entries [simp]: "ag_entries (queue_record d c a) = ag_entries a"
  by (simp add: queue_record_def Let_def)

text \<open>What \<open>store_candidate\<close> leaves: part of the old entries and the new one, within the cap.\<close>

lemma store_candidate_entries:
  assumes "jmap_ok (ag_entries a)"
  shows "jmap_ok (ag_entries (store_candidate b k c a)) \<and>
    length (ag_entries (store_candidate b k c a)) \<le> MAX_KNOWN_NODES \<and>
    set (ag_entries (store_candidate b k c a)) \<subseteq> insert (k, c) {p \<in> set (ag_entries a). fst p \<noteq> k}"
proof -
  let ?a = "a\<lparr>ag_entries := jmap_set (ag_entries a) k c\<rparr>"
  let ?s = "shrink candidate_count evict_oldest_candidate MAX_KNOWN_NODES ?a"
  have "jmap_ok (ag_entries ?a)" using assms by simp
  from candidates.shrink_rule [OF this, of MAX_KNOWN_NODES]
  have s: "jmap_ok (ag_entries ?s)" "length (ag_entries ?s) \<le> MAX_KNOWN_NODES"
    "set (ag_entries ?s) \<subseteq> insert (k, c) {p \<in> set (ag_entries a). fst p \<noteq> k}"
    by (simp_all add: candidate_count_def set_jmap_set [OF assms])
  have "ag_entries (store_candidate b k c a) = ag_entries ?s"
    by (simp add: store_candidate_def Let_def split: option.split)
  with s show ?thesis by simp
qed

lemma agg_inv_subset:
  assumes "agg_inv a" "jmap_ok (ag_entries b)" "length (ag_entries b) \<le> MAX_KNOWN_NODES"
    "set (ag_entries b) \<subseteq> insert (k, c) S" "S \<subseteq> set (ag_entries a)"
    "k = entry_key c" "candidate_ok c"
    "\<And>p. p \<in> S \<Longrightarrow> (ca_deviceId (snd p) = None) \<noteq> (ca_deviceId c = None) \<Longrightarrow> \<not> same_endpoint (snd p) c"
  shows "agg_inv b"
proof -
  have i: "\<And>p. p \<in> S \<Longrightarrow> fst p = entry_key (snd p) \<and> candidate_ok (snd p)"
    "\<And>p q. p \<in> S \<Longrightarrow> q \<in> S \<Longrightarrow> ca_deviceId (snd p) = None \<Longrightarrow> ca_deviceId (snd q) \<noteq> None \<Longrightarrow>
       \<not> same_endpoint (snd p) (snd q)"
    using assms(1,5) unfolding agg_inv_def by blast+
  have sym: "same_endpoint x y = same_endpoint y x" for x y by (auto simp: same_endpoint_def)
  have m: "\<And>p. p \<in> set (ag_entries b) \<Longrightarrow> p = (k, c) \<or> p \<in> S" using assms(4) by auto
  have "fst p = entry_key (snd p) \<and> candidate_ok (snd p)" if "p \<in> set (ag_entries b)" for p
    using m [OF that] i(1) [of p] assms(6,7) by auto
  moreover have "\<not> same_endpoint (snd p) (snd q)"
    if "p \<in> set (ag_entries b)" "q \<in> set (ag_entries b)" "ca_deviceId (snd p) = None" "ca_deviceId (snd q) \<noteq> None" for p q
    using m [OF that(1)] m [OF that(2)] that(3,4) i(2) [of p q] assms(8) [of p] assms(8) [of q]
      sym [of "snd q" c] by auto
  ultimately show ?thesis using assms(2,3) by (simp add: agg_inv_def)
qed

lemma merge_device [simp]:
  "ca_host (merge_candidate c e) = ca_host c" "ca_port (merge_candidate c e) = ca_port c"
  "ca_lastSeenAt (merge_candidate c e) = ca_lastSeenAt c" "ca_source (merge_candidate c e) = ca_source c"
  "ca_deviceId c = Some d \<Longrightarrow> ca_deviceId (merge_candidate c e) = Some d"
  by (simp_all add: merge_candidate_def first_some_def)

lemma ingest_inv:
  assumes inv: "agg_inv a" and ok: "candidate_ok c"
  shows "agg_inv (ingest b c a)"
proof (cases "ag_state a = StartedAgg")
  case started: True
  have jok: "jmap_ok (ag_entries a)" using inv by (simp add: agg_inv_def)
  show ?thesis
  proof (cases "ca_deviceId c")
    case (Some d)
    let ?ex = "jmap_get (ag_entries a) d"
    let ?m = "merge_candidate c ?ex"
    let ?a = "a\<lparr>ag_entries := jmap_delete (ag_entries a) (endpoint_key c)\<rparr>"
    show ?thesis
    proof (cases "stale c ?ex")
      case False
      have e: "ingest b c a = store_candidate b d ?m ?a"
        using started Some False by (simp add: ingest_def Let_def)
      let ?S = "{p \<in> set (ag_entries a). fst p \<noteq> endpoint_key c}"
      have "jmap_ok (ag_entries ?a)" using jok by simp
      note s = store_candidate_entries [OF this, of b d ?m]
      have "agg_inv (store_candidate b d ?m ?a)"
      proof (rule agg_inv_subset [OF inv])
        show "set (ag_entries (store_candidate b d ?m ?a)) \<subseteq> insert (d, ?m) ?S"
          using s by (auto simp: set_jmap_delete)
        show "d = entry_key ?m" "candidate_ok ?m" using Some ok by (simp_all add: entry_key_def candidate_ok_def)
        fix p
        assume p: "p \<in> ?S" "(ca_deviceId (snd p) = None) \<noteq> (ca_deviceId ?m = None)"
        then have "fst p = endpoint_key (snd p)"
          using inv Some by (auto simp: agg_inv_def entry_key_def)
        with p have "endpoint_key (snd p) \<noteq> endpoint_key c" by simp
        then show "\<not> same_endpoint (snd p) ?m" by (auto simp: endpoint_key_inject same_endpoint_def)
      qed (use s in auto)
      then show ?thesis by (simp add: e)
    qed (use started Some inv in \<open>simp add: ingest_def Let_def\<close>)
  next
    case None
    let ?k = "endpoint_key c"
    let ?ex = "jmap_get (ag_entries a) ?k"
    let ?m = "merge_candidate c ?ex"
    show ?thesis
    proof (cases "shadowed c a \<or> stale c ?ex")
      case False
      have e: "ingest b c a = store_candidate b ?k ?m a"
        using started None False by (simp add: ingest_def Let_def)
      have anon: "ca_deviceId ?m = None"
      proof (cases ?ex)
        case (Some x)
        then have "?k = entry_key x" "candidate_ok x" using inv jmap_get_in [OF Some] by (auto simp: agg_inv_def)
        then have "ca_deviceId x = None"
          using endpoint_key_not_device by (cases "ca_deviceId x") (auto simp: entry_key_def candidate_ok_def)
        with Some None show ?thesis by (simp add: merge_candidate_def first_some_def)
      qed (simp add: merge_candidate_def first_some_def None)
      note s = store_candidate_entries [OF jok, of b ?k ?m]
      have "agg_inv (store_candidate b ?k ?m a)"
      proof (rule agg_inv_subset [OF inv])
        show "set (ag_entries (store_candidate b ?k ?m a)) \<subseteq> insert (?k, ?m) (set (ag_entries a))"
          using s by auto
        show "?k = entry_key ?m" using anon by (simp add: entry_key_def endpoint_key_def)
        show "candidate_ok ?m" using anon by (simp add: candidate_ok_def)
        fix p
        assume "p \<in> set (ag_entries a)" "(ca_deviceId (snd p) = None) \<noteq> (ca_deviceId ?m = None)"
        with False anon show "\<not> same_endpoint (snd p) ?m"
          by (force simp: shadowed_def list_ex_iff same_endpoint_def)
      qed (use s in auto)
      then show ?thesis by (simp add: e)
    qed (use started None inv in \<open>auto simp: ingest_def Let_def\<close>)
  qed
qed (simp add: ingest_def inv)

lemma ingest_all_inv: "agg_inv a \<Longrightarrow> list_all candidate_ok cs \<Longrightarrow> agg_inv (ingest_all b cs a)"
  by (induction cs arbitrary: a) (simp_all add: ingest_inv)

lemma agg_inv_new: "agg_inv (new_aggregator\<lparr>ag_state := StartedAgg\<rparr>)"
  by (simp add: agg_inv_def new_aggregator_def)

lemma seed_known_inv:
  "agg_inv a \<Longrightarrow> list_all (\<lambda>(n, t). known_node_ok n) ns \<Longrightarrow> agg_inv (seed_known ns a)"
proof (induction ns arbitrary: a)
  case (Cons x ns)
  obtain n t where x: "x = (n, t)" by force
  have "candidate_ok (known_node_to_candidate t n)"
    using Cons.prems(2) by (simp add: x candidate_ok_def known_node_to_candidate_def known_node_ok_def)
  moreover have "agg_inv (a\<lparr>ag_lastQueued := q\<rparr>)" for q using Cons.prems(1) by (simp add: agg_inv_def)
  ultimately show ?case using Cons by (simp add: x ingest_inv)
qed simp

section \<open>Write bounding\<close>

text \<open>A re-sighting that says nothing new within the threshold queues no write.\<close>

lemma queue_record_bounded:
  "jmap_get (ag_lastQueued a) d = Some p \<Longrightarrow> kn_deviceId p = d \<Longrightarrow> kn_name p = ca_name c \<Longrightarrow> kn_host p = ca_host c \<Longrightarrow>
   kn_port p = ca_port c \<Longrightarrow> kn_source p = ca_source c \<Longrightarrow>
   \<bar>ca_lastSeenAt c - kn_lastSeenAt p\<bar> < LAST_SEEN_PERSIST_THRESHOLD_MS \<Longrightarrow> queue_record d c a = a"
  by (simp add: queue_record_def same_except_last_seen_def)

text \<open>On a full map, a sighting older than every entry is evicted at once, and still recorded.\<close>

lemma ingest_backdated:
  assumes st: "ag_state a = StartedAgg" and full: "length (ag_entries a) = MAX_KNOWN_NODES"
    and jok: "jmap_ok (ag_entries a)" and d: "ca_deviceId c = Some d"
    and fresh: "d \<notin> fst ` set (ag_entries a)" "endpoint_key c \<notin> fst ` set (ag_entries a)"
      "d \<notin> fst ` set (ag_lastQueued a)"
    and old: "\<forall>p \<in> set (ag_entries a). ca_lastSeenAt c < ca_lastSeenAt (snd p)"
  shows "ag_entries (ingest True c a) = ag_entries a \<and>
    (\<exists>n. kn_deviceId n = d \<and> ag_lastQueued (ingest True c a) = ag_lastQueued a @ [(d, n)]) \<and>
    ag_state (ingest True c a) = StartedAgg"
proof -
  have del: "jmap_delete (ag_entries a) (endpoint_key c) = ag_entries a" using fresh(2) by simp
  have ex: "jmap_get (ag_entries a) d = None" using fresh(1) by (simp add: map_of_eq_None_iff)
  let ?m = "merge_candidate c None"
  let ?b = "a\<lparr>ag_entries := ag_entries a @ [(d, ?m)]\<rparr>"
  have "ag_entries (a\<lparr>ag_entries := ag_entries a\<rparr>) = ag_entries a" by simp
  have i: "ingest True c a = store_candidate True d ?m a"
    using st d ex del by (simp add: ingest_def stale_def Let_def)
  have sc: "scan_oldest ca_lastSeenAt None (ag_entries a @ [(d, ?m)]) = Some (d, ca_lastSeenAt ?m)"
    by (rule scan_oldest_backdated) (use fresh(1) old in auto)
  have get: "jmap_get (ag_entries a @ [(d, ?m)]) d = Some ?m" using ex by (simp add: map_add_Some_iff)
  have "jmap_ok (ag_entries ?b)" "candidate_count ?b = Suc MAX_KNOWN_NODES"
    using jok fresh(1) full by (simp_all add: candidate_count_def)
  from candidates.shrink_one [OF this]
  have sh: "shrink candidate_count evict_oldest_candidate MAX_KNOWN_NODES ?b = evict_oldest_candidate ?b" .
  have dm: "ca_deviceId ?m = Some d" using d by simp
  have "jmap_delete (ag_entries a @ [(d, ?m)]) d = ag_entries a"
    using fresh(1) by (force simp: AList.delete_eq filter_id_conv)
  then have ev: "ag_entries (evict_oldest_candidate ?b) = ag_entries a"
    "ag_lastQueued (evict_oldest_candidate ?b) = ag_lastQueued a"
    "ag_state (evict_oldest_candidate ?b) = StartedAgg"
    using sc get dm fresh(3) st by (simp_all add: evict_oldest_candidate_def)
  have q: "jmap_get (ag_lastQueued a) d = None" using fresh(3) by (simp add: map_of_eq_None_iff)
  show ?thesis
    using ev q sh dm fresh(1,3)
    by (auto simp: i store_candidate_def Let_def jmap_set_fresh queue_record_def)
qed


text \<open>A later state never holds an older sighting under the same key, and never forgets a name.\<close>

lemma ingest_fresher:
  assumes inv: "agg_inv a" and e: "jmap_get (ag_entries a) k = Some e"
    and e': "jmap_get (ag_entries (ingest b c a)) k = Some e'"
  shows "ca_lastSeenAt e \<le> ca_lastSeenAt e' \<and> (ca_name e \<noteq> None \<longrightarrow> ca_name e' \<noteq> None)"
proof (cases "ingest b c a = a")
  case False
  have jok: "jmap_ok (ag_entries a)" using inv by (simp add: agg_inv_def)
  obtain k0 a0 where i: "ingest b c a = store_candidate b k0 (merge_candidate c (jmap_get (ag_entries a) k0)) a0"
    and ns: "\<not> stale c (jmap_get (ag_entries a) k0)"
    and sub: "set (ag_entries a0) \<subseteq> set (ag_entries a)" "jmap_ok (ag_entries a0)"
  proof (cases "ca_deviceId c")
    case None
    with False that [of "endpoint_key c" a] jok show ?thesis
      by (auto simp: ingest_def Let_def split: if_splits)
  next
    case (Some d)
    with False that [of d "a\<lparr>ag_entries := jmap_delete (ag_entries a) (endpoint_key c)\<rparr>"] jok show ?thesis
      by (auto simp: ingest_def Let_def set_jmap_delete split: if_splits)
  qed
  let ?m = "merge_candidate c (jmap_get (ag_entries a) k0)"
  have "(k, e') \<in> insert (k0, ?m) {p \<in> set (ag_entries a0). fst p \<noteq> k0}"
    using store_candidate_entries [OF sub(2), of b k0 ?m] jmap_get_in [OF e'] by (auto simp: i)
  then consider "k = k0" "e' = ?m" | "(k, e') \<in> set (ag_entries a)" using sub(1) by auto
  then show ?thesis
  proof cases
    case 1
    with e ns show ?thesis by (auto simp: stale_def merge_candidate_def first_some_def split: option.splits)
  next
    case 2
    with jmap_in_get [OF jok] e show ?thesis by simp
  qed
qed (use e e' in simp)

section \<open>Properties\<close>

text \<open>C25 The candidate map stays within the cap under any flood of sightings, and an anonymous
  sighting never sits beside an identified one for the same endpoint: identified sightings absorb
  it, whatever the order the registry, the configuration and the channels deliver them in.\<close>

theorem candidates_bounded_and_unshadowed:
  assumes "agg_start known statics now new_aggregator = Some a"
    "list_all (\<lambda>(n, t). known_node_ok n) known"
    "list_all (\<lambda>n. pred_option device_id_ok (sn_expectedDeviceId n)) statics"
    "list_all candidate_ok cs"
  shows "length (ag_entries (ingest_all True cs a)) \<le> MAX_KNOWN_NODES \<and>
    (\<forall>p q. p \<in> set (ag_entries (ingest_all True cs a)) \<and> q \<in> set (ag_entries (ingest_all True cs a)) \<and>
       ca_deviceId (snd p) = None \<and> ca_deviceId (snd q) \<noteq> None \<longrightarrow> \<not> same_endpoint (snd p) (snd q))"
proof -
  let ?s = "seed_known known (new_aggregator\<lparr>ag_state := StartedAgg\<rparr>)"
  have a: "a = ingest_all True (static_node_candidates statics now) ?s"
    using assms(1) by (simp add: agg_start_def new_aggregator_def)
  have "list_all candidate_ok (static_node_candidates statics now)"
    using assms(3) by (simp add: static_node_candidates_def list.pred_map comp_def candidate_ok_def)
  then have "agg_inv a" unfolding a by (intro ingest_all_inv seed_known_inv agg_inv_new assms(2))
  from ingest_all_inv [OF this assms(4), of True] show ?thesis unfolding agg_inv_def by blast
qed

theorem candidates_bounded_and_unshadowed_witness:
  "length (ag_entries (ingest_all True [\<lparr>ca_deviceId = None, ca_name = None, ca_host = ''h'', ca_port = 1,
       ca_source = Udp, ca_lastSeenAt = 5\<rparr>] (the (agg_start [] [] 0 new_aggregator)))) \<le> MAX_KNOWN_NODES"
proof -
  obtain a where a: "agg_start [] [] 0 new_aggregator = Some a"
    by (simp add: agg_start_def new_aggregator_def)
  from candidates_bounded_and_unshadowed [OF this, of "[\<lparr>ca_deviceId = None, ca_name = None, ca_host = ''h'',
      ca_port = 1, ca_source = Udp, ca_lastSeenAt = 5\<rparr>]"] a
  show ?thesis by (simp add: candidate_ok_def)
qed

text \<open>Latest sighting wins: an ingest never replaces an entry by an older sighting and never erases a
  name that is already known.\<close>

theorem candidate_only_fresher:
  assumes "agg_inv a" "jmap_get (ag_entries a) k = Some e" "jmap_get (ag_entries (ingest b c a)) k = Some e'"
  shows "ca_lastSeenAt e \<le> ca_lastSeenAt e' \<and> (ca_name e \<noteq> None \<longrightarrow> ca_name e' \<noteq> None)"
  by (rule ingest_fresher [OF assms])

definition demo_candidate :: "int \<Rightarrow> string option \<Rightarrow> candidate" where
  "demo_candidate t n = \<lparr>ca_deviceId = None, ca_name = n, ca_host = ''h'', ca_port = 1, ca_source = Udp, ca_lastSeenAt = t\<rparr>"

theorem candidate_only_fresher_witness:
  "ca_name (the (jmap_get (ag_entries (ingest True (demo_candidate 9 None)
     (ingest True (demo_candidate 5 (Some ''n'')) (new_aggregator\<lparr>ag_state := StartedAgg\<rparr>)))) ''h:1'')) \<noteq> None"
proof -
  let ?a = "ingest True (demo_candidate 5 (Some ''n'')) (new_aggregator\<lparr>ag_state := StartedAgg\<rparr>)"
  have i: "agg_inv ?a" by (rule ingest_inv [OF agg_inv_new]) (simp add: demo_candidate_def candidate_ok_def)
  have one: "show_nat 1 = ''1''" by code_simp
  have 1: "jmap_get (ag_entries ?a) ''h:1'' = Some (demo_candidate 5 (Some ''n''))"
    by (simp add: ingest_def new_aggregator_def demo_candidate_def shadowed_def stale_def store_candidate_def
        endpoint_key_def one [simplified] Let_def merge_candidate_def first_some_def candidates.shrink_within
        candidate_count_def MAX_KNOWN_NODES_def)
  have 2: "jmap_get (ag_entries (ingest True (demo_candidate 9 None) ?a)) ''h:1'' = Some (demo_candidate 9 (Some ''n''))"
    by (simp add: ingest_def new_aggregator_def demo_candidate_def shadowed_def stale_def store_candidate_def
        endpoint_key_def one [simplified] Let_def merge_candidate_def first_some_def candidates.shrink_within
        candidate_count_def MAX_KNOWN_NODES_def)
  from candidate_only_fresher [OF i 1 2] 2 show ?thesis by (simp add: demo_candidate_def)
qed

text \<open>The write-bounding map is not bounded by the cap: \<open>n\<close> backdated sightings of distinct devices on
  a full map leave \<open>n\<close> more entries in it and the candidates as they were.\<close>

theorem last_queued_unbounded:
  assumes "ag_state a = StartedAgg" "length (ag_entries a) = MAX_KNOWN_NODES" "jmap_ok (ag_entries a)"
    "distinct ds" "\<forall>d \<in> set ds. d \<notin> fst ` set (ag_entries a) \<and> d \<notin> fst ` set (ag_lastQueued a)"
    "endpoint_key (c ''x'') \<notin> fst ` set (ag_entries a)" "\<And>d. endpoint_key (c d) = endpoint_key (c ''x'')"
    "\<And>d. ca_deviceId (c d) = Some d" "\<And>d p. p \<in> set (ag_entries a) \<Longrightarrow> ca_lastSeenAt (c d) < ca_lastSeenAt (snd p)"
  shows "length (ag_lastQueued (ingest_all True (map c ds) a)) = length (ag_lastQueued a) + length ds \<and>
    ag_entries (ingest_all True (map c ds) a) = ag_entries a"
  using assms(1-7,9)
proof (induction ds arbitrary: a)
  case (Cons d ds)
  let ?b = "ingest True (c d) a"
  have b: "ag_entries ?b = ag_entries a \<and> (\<exists>n. kn_deviceId n = d \<and> ag_lastQueued ?b = ag_lastQueued a @ [(d, n)]) \<and>
    ag_state ?b = StartedAgg"
  proof (rule ingest_backdated)
    show "endpoint_key (c d) \<notin> fst ` set (ag_entries a)" using Cons.prems(6) Cons.prems(7) [of d] by simp
  qed (use Cons.prems assms(8) in auto)
  have "length (ag_lastQueued (ingest_all True (map c ds) ?b)) = length (ag_lastQueued ?b) + length ds \<and>
    ag_entries (ingest_all True (map c ds) ?b) = ag_entries ?b"
  proof (rule Cons.IH)
    show "endpoint_key (c ''x'') \<notin> fst ` set (ag_entries ?b)" using Cons.prems(6) b by simp
    show "endpoint_key (c d') = endpoint_key (c ''x'')" for d' by (rule Cons.prems(7))
    show "\<forall>d \<in> set ds. d \<notin> fst ` set (ag_entries ?b) \<and> d \<notin> fst ` set (ag_lastQueued ?b)"
    proof -
      have "fst ` set (ag_lastQueued ?b) = insert d (fst ` set (ag_lastQueued a))" using b by auto
      with Cons.prems(4,5) b show ?thesis by auto
    qed
  qed (use Cons.prems b in auto)
  with b show ?case by auto
qed simp

end
