(* ===== verification/Catalog.thy ===== *)
theory Catalog imports Protocol begin

text \<open>
  \<^verbatim>\<open>packages/daemon/src/node/catalog.ts\<close>: the node's model catalog, the resolver that
  enforces it when a job is submitted, and the advisory startup probe. The HTTP fetch is a
  parameter: what it returns for a URL and a bearer token.
\<close>

section \<open>Model\<close>

definition MIN_AGENT_CONTEXT_WINDOW :: int where
  "MIN_AGENT_CONTEXT_WINDOW = 16384"

record endpoint_config =
  ep_baseUrl :: string
  ep_apiKey :: "string option"

record model_config =
  mc_id :: string
  mc_label :: "string option"
  mc_contextWindow :: "int option"
  mc_endpoint :: "endpoint_config option"

record catalog_config =
  cc_defaultEndpoint :: "endpoint_config option"
  cc_models :: "model_config list"
  cc_agentDefault :: "string option"
  cc_writeDefault :: "string option"

record catalog_entry =
  ce_id :: string
  ce_label :: "string option"
  ce_contextWindow :: "int option"
  ce_baseUrl :: "string option"
  ce_apiKey :: "string option"

record catalog_runtime =
  cr_entries :: "(string, catalog_entry) jmap"
  cr_recon :: "string option"
  cr_write :: "string option"

definition catalog_entry_of :: "endpoint_config option \<Rightarrow> model_config \<Rightarrow> catalog_entry" where
  "catalog_entry_of dflt m =
     (let ep = (case mc_endpoint m of None \<Rightarrow> dflt | Some e \<Rightarrow> Some e)
      in \<lparr>ce_id = mc_id m, ce_label = mc_label m, ce_contextWindow = mc_contextWindow m,
          ce_baseUrl = map_option ep_baseUrl ep,
          ce_apiKey = (case ep of None \<Rightarrow> None | Some e \<Rightarrow> ep_apiKey e)\<rparr>)"

definition build_catalog :: "catalog_config \<Rightarrow> catalog_runtime" where
  "build_catalog c =
     \<lparr>cr_entries = foldl (\<lambda>es m. jmap_set es (mc_id m) (catalog_entry_of (cc_defaultEndpoint c) m)) [] (cc_models c),
      cr_recon = cc_agentDefault c, cr_write = cc_writeDefault c\<rparr>"

record agent_endpoint =
  ae_baseUrl :: string
  ae_apiKey :: "string option"
  ae_model :: string
  ae_contextWindow :: int

datatype model_resolution = Resolved "agent_endpoint option" | Unresolved hfp_error

definition model_bearing :: "job_type \<Rightarrow> bool" where
  "model_bearing t = (t \<in> set [Recon, Write])"

definition model_error :: "hfp_error_code \<Rightarrow> string \<Rightarrow> string \<Rightarrow> model_resolution" where
  "model_error c m chosen =
     Unresolved \<lparr>err_code = c, err_message = m, err_details = Some (JObj [(''model'', JStr chosen)])\<rparr>"

definition chosen_model :: "catalog_runtime \<Rightarrow> job_type \<Rightarrow> string option \<Rightarrow> string option" where
  "chosen_model c t requested =
     (let dflt = (if t = Recon then cr_recon c else cr_write c);
          sole = (case cr_entries c of [(k, _)] \<Rightarrow> Some k | _ \<Rightarrow> None)
      in case requested of Some m \<Rightarrow> Some m
         | None \<Rightarrow> (case dflt of Some m \<Rightarrow> Some m | None \<Rightarrow> sole))"

definition make_model_resolver :: "catalog_runtime \<Rightarrow> job_type \<Rightarrow> string option \<Rightarrow> model_resolution" where
  "make_model_resolver c t requested =
     (if \<not> model_bearing t then Resolved None
      else case chosen_model c t requested of
        None \<Rightarrow> Unresolved (hfp_err NO_MODEL_SPECIFIED
          (''no model specified and this node has no single default; name a '' @
           ''model from this node's catalog (see list_nodes).''))
      | Some chosen \<Rightarrow>
          (case jmap_get (cr_entries c) chosen of
             None \<Rightarrow> model_error MODEL_NOT_OFFERED
               (''this node does not offer model \"'' @ chosen @ ''\"'') chosen
           | Some e \<Rightarrow>
               (case ce_baseUrl e of
                  None \<Rightarrow> model_error INVALID_REQUEST
                    (''model \"'' @ chosen @ ''\" is advertised but has no configured endpoint'') chosen
                | Some url \<Rightarrow>
                    (case ce_contextWindow e of
                       Some w \<Rightarrow>
                         if w < MIN_AGENT_CONTEXT_WINDOW
                         then model_error INVALID_REQUEST
                           (''model \"'' @ chosen @ ''\" contextWindow '' @ show_int w @
                            '' is below the required minimum of '' @ show_int MIN_AGENT_CONTEXT_WINDOW @
                            ''; raise the served context window.'') chosen
                         else Resolved (Some \<lparr>ae_baseUrl = url, ae_apiKey = ce_apiKey e,
                                ae_model = chosen, ae_contextWindow = w\<rparr>)
                     | None \<Rightarrow> model_error INVALID_REQUEST
                         (''model \"'' @ chosen @ ''\" contextWindow (unset)'' @
                          '' is below the required minimum of '' @ show_int MIN_AGENT_CONTEXT_WINDOW @
                          ''; raise the served context window.'') chosen))))"

section \<open>The startup probe\<close>

text \<open>A request that rejects (network, abort, a body that is not JSON) or a response.\<close>

datatype fetch_result = FetchRejected | Response bool json

definition strip_slashes :: "string \<Rightarrow> string" where
  "strip_slashes s = rev (dropWhile (\<lambda>c. c = CHR ''/'') (rev s))"

text \<open>Reading a property: \<open>null\<close> throws, other values without the key give \<open>undefined\<close>.\<close>

fun json_prop :: "string \<Rightarrow> json \<Rightarrow> unit + json option" where
  "json_prop k JNull = Inl ()"
| "json_prop k (JObj kvs) = Inr (map_of kvs k)"
| "json_prop k _ = Inr None"

fun served_ids :: "json list \<Rightarrow> string list option" where
  "served_ids [] = Some []"
| "served_ids (j # js) =
     (case json_prop ''id'' j of
        Inl _ \<Rightarrow> None
      | Inr (Some (JStr s)) \<Rightarrow> map_option (\<lambda>r. s # r) (served_ids js)
      | Inr _ \<Rightarrow> served_ids js)"

definition probe_served :: "(string \<Rightarrow> string option \<Rightarrow> fetch_result) \<Rightarrow> string \<Rightarrow> string option \<Rightarrow> string list option" where
  "probe_served fetch baseUrl apiKey =
     (case fetch (strip_slashes baseUrl @ ''/models'') (map_option (\<lambda>k. ''Bearer '' @ k) apiKey) of
        FetchRejected \<Rightarrow> None
      | Response ok body \<Rightarrow>
          if \<not> ok then None
          else (case json_prop ''data'' body of Inr (Some (JArr js)) \<Rightarrow> served_ids js | _ \<Rightarrow> None))"

type_synonym probe_groups = "(string, string list \<times> string option) jmap"

fun group_entries :: "catalog_entry list \<Rightarrow> (string, model_status) jmap \<Rightarrow> probe_groups \<Rightarrow> (string, model_status) jmap \<times> probe_groups" where
  "group_entries [] st g = (st, g)"
| "group_entries (e # es) st g =
     (case ce_baseUrl e of
        None \<Rightarrow> group_entries es (jmap_set st (ce_id e) Unreachable) g
      | Some u \<Rightarrow>
          (case jmap_get g u of
             None \<Rightarrow> group_entries es st (jmap_set g u ([ce_id e], ce_apiKey e))
           | Some (ids, key) \<Rightarrow> group_entries es st (jmap_set g u (ids @ [ce_id e], key))))"

definition probe_status :: "string list option \<Rightarrow> string \<Rightarrow> model_status" where
  "probe_status served i =
     (case served of None \<Rightarrow> Unreachable | Some ids \<Rightarrow> if i \<in> set ids then ModelOk else NotServed)"

text \<open>\<open>finish\<close> is the order in which the concurrent probes complete.\<close>

definition validate_catalog :: "(string \<Rightarrow> string option \<Rightarrow> fetch_result) \<Rightarrow> (probe_groups \<Rightarrow> probe_groups) \<Rightarrow> catalog_runtime \<Rightarrow> (string, model_status) jmap" where
  "validate_catalog fetch finish c =
     (case group_entries (jmap_values (cr_entries c)) [] [] of
        (st, g) \<Rightarrow>
          foldl (\<lambda>st (u, ids, key). foldl (\<lambda>st i. jmap_set st i (probe_status (probe_served fetch u key) i)) st ids)
            st (finish g))"

definition advertised_models :: "catalog_runtime \<Rightarrow> (string, model_status) jmap \<Rightarrow> model_info list" where
  "advertised_models c statuses =
     map (\<lambda>e. \<lparr>mi_id = ce_id e, mi_label = ce_label e, mi_contextWindow = ce_contextWindow e,
               mi_status = Some (case jmap_get statuses (ce_id e) of None \<Rightarrow> Unreachable | Some s \<Rightarrow> s)\<rparr>)
       (jmap_values (cr_entries c))"


section \<open>The resolver\<close>

lemma model_error_neq [simp]: "model_error c m x \<noteq> Resolved e"
  by (simp add: model_error_def)

lemma resolver_not_bearing: "make_model_resolver c Command r = Resolved None"
  by (simp add: make_model_resolver_def model_bearing_def)

lemma resolver_bearing:
  assumes "t = Recon \<or> t = Write"
  shows "make_model_resolver c t r = Resolved x \<longleftrightarrow>
    (\<exists>m e u w. chosen_model c t r = Some m \<and> jmap_get (cr_entries c) m = Some e \<and>
       ce_baseUrl e = Some u \<and> ce_contextWindow e = Some w \<and> MIN_AGENT_CONTEXT_WINDOW \<le> w \<and>
       x = Some \<lparr>ae_baseUrl = u, ae_apiKey = ce_apiKey e, ae_model = m, ae_contextWindow = w\<rparr>)"
  using assms
  by (auto simp: make_model_resolver_def model_bearing_def split: option.splits if_splits)

lemma resolver_error_codes:
  "make_model_resolver c t r = Unresolved e \<Longrightarrow>
   (err_code e = NO_MODEL_SPECIFIED \<longleftrightarrow> chosen_model c t r = None) \<and>
   (err_code e = MODEL_NOT_OFFERED \<longleftrightarrow>
      (\<exists>m. chosen_model c t r = Some m \<and> jmap_get (cr_entries c) m = None)) \<and>
   err_code e \<in> {NO_MODEL_SPECIFIED, MODEL_NOT_OFFERED, INVALID_REQUEST}"
  by (auto simp: make_model_resolver_def model_error_def hfp_err_def split: option.splits if_splits)

section \<open>The built catalog\<close>

definition catalog_ok :: "catalog_runtime \<Rightarrow> bool" where
  "catalog_ok c = (jmap_ok (cr_entries c) \<and> list_all (\<lambda>(k, e). ce_id e = k) (cr_entries c))"

lemma build_entries_ok:
  "jmap_ok es \<Longrightarrow> list_all (\<lambda>(k, e). ce_id e = k) es \<Longrightarrow>
   jmap_ok (foldl (\<lambda>es m. jmap_set es (mc_id m) (catalog_entry_of d m)) es ms) \<and>
   list_all (\<lambda>(k, e). ce_id e = k) (foldl (\<lambda>es m. jmap_set es (mc_id m) (catalog_entry_of d m)) es ms)"
proof (induction ms arbitrary: es)
  case (Cons m ms)
  show ?case unfolding foldl_Cons
    by (rule Cons.IH) (use Cons.prems in \<open>auto simp: list_all_iff set_jmap_set catalog_entry_of_def Let_def\<close>)
qed simp

lemma build_catalog_ok: "catalog_ok (build_catalog c)"
  by (simp add: catalog_ok_def build_catalog_def build_entries_ok)

lemma catalog_ids: "catalog_ok c \<Longrightarrow> map ce_id (jmap_values (cr_entries c)) = jmap_keys (cr_entries c)"
  by (auto simp: catalog_ok_def list_all_iff)

section \<open>The probe\<close>

abbreviation at_url :: "string \<Rightarrow> catalog_entry list \<Rightarrow> catalog_entry list" where
  "at_url u es \<equiv> filter (\<lambda>e. ce_baseUrl e = Some u) es"

lemma group_entries_groups:
  "jmap_get (snd (group_entries es st g)) u =
     (case jmap_get g u of
        Some (ids, key) \<Rightarrow> Some (ids @ map ce_id (at_url u es), key)
      | None \<Rightarrow> (case at_url u es of [] \<Rightarrow> None | e # _ \<Rightarrow> Some (map ce_id (at_url u es), ce_apiKey e)))"
  by (induction es arbitrary: st g) (auto split: option.splits list.splits)

lemma group_entries_status:
  "jmap_get (fst (group_entries es st g)) i =
     (if \<exists>e \<in> set es. ce_id e = i \<and> ce_baseUrl e = None then Some Unreachable else jmap_get st i)"
  by (induction es arbitrary: st g) (auto split: option.splits)

lemma group_entries_ok: "jmap_ok g \<Longrightarrow> jmap_ok (snd (group_entries es st g))"
proof (induction es arbitrary: st g)
  case (Cons e es)
  then show ?case by (auto split: option.splits simp: distinct_update)
qed simp

lemma foldl_set_status:
  "jmap_get (foldl (\<lambda>st i. jmap_set st i (f i)) st ids) i = (if i \<in> set ids then Some (f i) else jmap_get st i)"
  by (induction ids arbitrary: st) auto

lemma foldl_group_status:
  "(\<And>u ids key. (u, ids, key) \<in> set gs \<Longrightarrow> i \<in> set ids \<Longrightarrow> f u key i = v) \<Longrightarrow>
   jmap_get (foldl (\<lambda>st (u, ids, key). foldl (\<lambda>st i. jmap_set st i (f u key i)) st ids) st gs) i =
     (if \<exists>(u, ids, key) \<in> set gs. i \<in> set ids then Some v else jmap_get st i)"
proof (induction gs arbitrary: st)
  case (Cons p gs)
  obtain u ids key where p: "p = (u, ids, key)" by (cases p) auto
  have "\<And>u ids key. (u, ids, key) \<in> set gs \<Longrightarrow> i \<in> set ids \<Longrightarrow> f u key i = v"
    using Cons.prems by auto
  from Cons.IH [OF this] Cons.prems [of u ids key] show ?case
    by (auto simp: p foldl_set_status)
qed simp

lemma catalog_entry_unique:
  assumes "catalog_ok c" "e \<in> set (jmap_values (cr_entries c))" "e' \<in> set (jmap_values (cr_entries c))"
    "ce_id e = ce_id e'"
  shows "e = e'"
proof -
  have "distinct (map ce_id (jmap_values (cr_entries c)))"
    using assms(1) by (simp only: catalog_ids) (simp add: catalog_ok_def)
  then show ?thesis using assms(2-4) by (simp only: distinct_map) (blast dest: inj_onD)
qed

lemma validate_status:
  assumes ok: "catalog_ok c" and fin: "set (finish g) = set g"
    and g: "g = snd (group_entries (jmap_values (cr_entries c)) [] [])"
    and e: "e \<in> set (jmap_values (cr_entries c))"
  shows "jmap_get (validate_catalog fetch finish c) (ce_id e) = Some
    (case ce_baseUrl e of None \<Rightarrow> Unreachable
     | Some u \<Rightarrow> probe_status
         (probe_served fetch u (ce_apiKey (hd (at_url u (jmap_values (cr_entries c)))))) (ce_id e))"
proof -
  let ?es = "jmap_values (cr_entries c)"
  have u: "\<And>e'. e' \<in> set ?es \<Longrightarrow> ce_id e' = ce_id e \<Longrightarrow> e' = e"
    using catalog_entry_unique [OF ok _ e] by blast
  have gm: "\<And>u ids key. (u, ids, key) \<in> set g \<longleftrightarrow>
      at_url u ?es \<noteq> [] \<and> ids = map ce_id (at_url u ?es) \<and> key = ce_apiKey (hd (at_url u ?es))"
  proof -
    fix u ids key
    have "(u, ids, key) \<in> set g \<longleftrightarrow> jmap_get g u = Some (ids, key)"
      using group_entries_ok [of "[]" ?es "[]"] g by (auto dest: jmap_in_get jmap_get_in)
    then show "(u, ids, key) \<in> set g \<longleftrightarrow>
      at_url u ?es \<noteq> [] \<and> ids = map ce_id (at_url u ?es) \<and> key = ce_apiKey (hd (at_url u ?es))"
      by (auto simp: g group_entries_groups split: list.splits)
  qed
  let ?f = "\<lambda>u key i. probe_status (probe_served fetch u key) i"
  let ?v = "case ce_baseUrl e of None \<Rightarrow> Unreachable
     | Some u \<Rightarrow> ?f u (ce_apiKey (hd (at_url u ?es))) (ce_id e)"
  have "\<And>u ids key. (u, ids, key) \<in> set (finish g) \<Longrightarrow> ce_id e \<in> set ids \<Longrightarrow> ?f u key (ce_id e) = ?v"
    using u by (force simp: fin gm)
  from foldl_group_status [where f = ?f, OF this]
  have s: "jmap_get (validate_catalog fetch finish c) (ce_id e) =
    (if \<exists>(u, ids, key) \<in> set (finish g). ce_id e \<in> set ids then Some ?v
     else jmap_get (fst (group_entries ?es [] [])) (ce_id e))"
    by (simp add: validate_catalog_def g split: prod.split)
  show ?thesis
  proof (cases "ce_baseUrl e")
    case None
    with e have "jmap_get (fst (group_entries ?es [] [])) (ce_id e) = Some Unreachable"
      by (auto simp: group_entries_status)
    with s None show ?thesis by simp
  next
    case (Some b)
    with e have "(b, map ce_id (at_url b ?es), ce_apiKey (hd (at_url b ?es))) \<in> set (finish g)"
      by (force simp: fin gm filter_empty_conv)
    moreover have "ce_id e \<in> set (map ce_id (at_url b ?es))" using e Some by auto
    ultimately have "\<exists>(u, ids, key) \<in> set (finish g). ce_id e \<in> set ids" by blast
    with s Some show ?thesis by simp
  qed
qed

section \<open>Properties\<close>

text \<open>The resolver enforces the catalog: a recon or write job gets an endpoint exactly when a model is chosen
  (the requested one, else the type's default, else the only entry), the catalog has it, and its URL and a
  large enough context window are configured, and then it gets that entry's endpoint; otherwise it gets one of three
  refusals; a command job never needs a model.\<close>

theorem model_resolution_spec:
  assumes "t = Recon \<or> t = Write"
  shows "(case make_model_resolver c t r of
      Resolved x \<Rightarrow> \<exists>m e u w. chosen_model c t r = Some m \<and> jmap_get (cr_entries c) m = Some e \<and>
         ce_baseUrl e = Some u \<and> ce_contextWindow e = Some w \<and> MIN_AGENT_CONTEXT_WINDOW \<le> w \<and>
         x = Some \<lparr>ae_baseUrl = u, ae_apiKey = ce_apiKey e, ae_model = m, ae_contextWindow = w\<rparr>
    | Unresolved e \<Rightarrow>
         (case chosen_model c t r of
            None \<Rightarrow> err_code e = NO_MODEL_SPECIFIED
          | Some m \<Rightarrow>
              (case jmap_get (cr_entries c) m of
                 None \<Rightarrow> err_code e = MODEL_NOT_OFFERED
               | Some d \<Rightarrow> err_code e = INVALID_REQUEST \<and>
                   (ce_baseUrl d = None \<or> pred_option (\<lambda>w. w < MIN_AGENT_CONTEXT_WINDOW) (ce_contextWindow d))))) \<and>
    make_model_resolver c Command r = Resolved None"
proof (cases "make_model_resolver c t r")
  case (Resolved x)
  with resolver_bearing [OF assms, of c r x] show ?thesis by (simp add: resolver_not_bearing)
next
  case (Unresolved e)
  then show ?thesis
    by (auto simp: make_model_resolver_def model_error_def hfp_err_def model_bearing_def
        split: option.splits if_splits)
qed

definition demo_catalog :: catalog_config where
  "demo_catalog = \<lparr>cc_defaultEndpoint = Some \<lparr>ep_baseUrl = ''http://m/v1/'', ep_apiKey = None\<rparr>,
     cc_models = [\<lparr>mc_id = ''qwen'', mc_label = None, mc_contextWindow = Some 32768, mc_endpoint = None\<rparr>,
       \<lparr>mc_id = ''tiny'', mc_label = None, mc_contextWindow = Some 4096, mc_endpoint = None\<rparr>],
     cc_agentDefault = Some ''qwen'', cc_writeDefault = None\<rparr>"

theorem model_resolution_spec_witness:
  "(\<exists>x. make_model_resolver (build_catalog demo_catalog) Recon None = Resolved x) \<and>
   (\<exists>e. make_model_resolver (build_catalog demo_catalog) Write None = Unresolved e \<and> err_code e = NO_MODEL_SPECIFIED)"
proof -
  let ?c = "build_catalog demo_catalog"
  have c: "chosen_model ?c Recon None = Some ''qwen''" "chosen_model ?c Write None = None"
    "jmap_get (cr_entries ?c) ''qwen'' = Some \<lparr>ce_id = ''qwen'', ce_label = None, ce_contextWindow = Some 32768,
       ce_baseUrl = Some ''http://m/v1/'', ce_apiKey = None\<rparr>"
    by code_simp+
  have r: "case make_model_resolver ?c Recon None of Unresolved e \<Rightarrow> False | _ \<Rightarrow> True"
    "case make_model_resolver ?c Write None of Unresolved e \<Rightarrow> err_code e = NO_MODEL_SPECIFIED | _ \<Rightarrow> False"
    using model_resolution_spec [of Recon ?c None] model_resolution_spec [of Write ?c None]
    by (auto simp: c MIN_AGENT_CONTEXT_WINDOW_def split: model_resolution.splits)
  from r show ?thesis by (auto split: model_resolution.splits)
qed

text \<open>The startup probe reports each model's real standing, whatever order the probes finish in: every entry
  of a built catalog is marked unreachable when it has no URL or its endpoint could not be read, and otherwise
  served or not served according to the one answer of its endpoint, asked with the key of that URL's first entry.\<close>

theorem probe_reports_standing:
  assumes "set (finish g) = set g" "g = snd (group_entries (jmap_values (cr_entries (build_catalog c))) [] [])"
    and "e \<in> set (jmap_values (cr_entries (build_catalog c)))"
  shows "jmap_get (validate_catalog fetch finish (build_catalog c)) (ce_id e) = Some
    (case ce_baseUrl e of None \<Rightarrow> Unreachable
     | Some u \<Rightarrow> probe_status
         (probe_served fetch u (ce_apiKey (hd (at_url u (jmap_values (cr_entries (build_catalog c))))))) (ce_id e))"
  by (rule validate_status [where finish = finish, OF build_catalog_ok assms])

theorem probe_reports_standing_witness:
  "jmap_get (validate_catalog (\<lambda>u k. Response True (JObj [(''data'', JArr [JObj [(''id'', JStr ''qwen'')]])])) rev
     (build_catalog demo_catalog)) ''tiny'' = Some NotServed"
proof -
  let ?f = "\<lambda>u k. Response True (JObj [(''data'', JArr [JObj [(''id'', JStr ''qwen'')]])])"
  let ?e = "\<lparr>ce_id = ''tiny'', ce_label = None, ce_contextWindow = Some 4096,
       ce_baseUrl = Some ''http://m/v1/'', ce_apiKey = None\<rparr>"
  have e: "?e \<in> set (jmap_values (cr_entries (build_catalog demo_catalog)))" by code_simp
  have p: "\<And>k. probe_served ?f ''http://m/v1/'' k = Some [''qwen'']"
    by (simp add: probe_served_def)
  from probe_reports_standing [OF _ refl e, of rev ?f] p show ?thesis by (simp add: probe_status_def)
qed

end
