(* ===== verification/ExecutorContract.thy ===== *)
theory ExecutorContract imports Catalog begin

text \<open>
  \<^verbatim>\<open>packages/executors/src/executor.ts\<close>: what the job manager relies on in an executor. It
  answers every outcome with a result that its schema accepts and that names the job, so
  the lifecycle events the manager derives from it always parse.
\<close>

text \<open>What an executor may hand to \<open>emit\<close>: the three allowed payloads, an allowed type whose
  fields the schema rejects, or another type.\<close>

datatype exec_payload =
    LogP log_level string
  | ToolCallP string jtext
  | ToolResultP string jtext bool
  | MalformedP
  | ForeignP string

fun payload_body :: "exec_payload \<Rightarrow> event_body option" where
  "payload_body (LogP l s) = Some (LogEv l s)"
| "payload_body (ToolCallP t s) = Some (ToolCallEv t s)"
| "payload_body (ToolResultP t s b) = Some (ToolResultEv t s b)"
| "payload_body _ = None"

definition conforms :: "job_type \<Rightarrow> string \<Rightarrow> job_result \<Rightarrow> bool" where
  "conforms t j r = (job_result_ok r \<and> res_jobId r = j \<and> res_type r = t)"

locale executor_contract =
  fixes etype :: job_type
    and answers :: "string \<Rightarrow> job_params \<Rightarrow> job_result \<Rightarrow> bool"
  assumes answers_valid: "job_id_ok j \<Longrightarrow> job_params_ok p \<Longrightarrow> params_type p = etype \<Longrightarrow>
      answers j p r \<Longrightarrow> job_result_ok r"
    and answers_job: "params_type p = etype \<Longrightarrow> answers j p r \<Longrightarrow> res_jobId r = j \<and> res_type r = etype"
begin

lemma answers_conform:
  "job_id_ok j \<Longrightarrow> job_params_ok p \<Longrightarrow> params_type p = etype \<Longrightarrow> answers j p r \<Longrightarrow> conforms etype j r"
  by (simp add: conforms_def answers_valid answers_job)

lemma answers_terminal:
  "job_id_ok j \<Longrightarrow> job_params_ok p \<Longrightarrow> params_type p = etype \<Longrightarrow> answers j p r \<Longrightarrow> is_terminal (res_status r)"
  by (drule answers_valid) (auto simp: job_result_ok_def job_result_shape_ok_def)

lemma answers_event_ok:
  "job_id_ok j \<Longrightarrow> job_params_ok p \<Longrightarrow> params_type p = etype \<Longrightarrow> answers j p r \<Longrightarrow>
   job_event_ok \<lparr>ev_jobId = j, ev_seq = n, ev_ts = t, ev_body = ResultEv r\<rparr>"
  by (simp add: job_event_ok_def answers_valid answers_job)

end

end
