(* ===== verification/JobManager.thy ===== *)
theory JobManager imports ExecutorContract begin

text \<open>
  \<^verbatim>\<open>packages/daemon/src/jobs/job.ts\<close> and \<^verbatim>\<open>job-manager.ts\<close>: the worker's dispatch engine. Job
  records are shared objects that outlive the \<open>records\<close> map (an evicted job's \<open>runJob\<close> still
  holds its record), so the model keeps every record in a heap indexed by job id and
  \<open>jm_records\<close> is the key list of the map. Each \<open>await\<close> of \<open>runJob\<close>/\<open>executeJob\<close> is a phase of the
  record; what settles it is a step. Callbacks to subscribers, the eviction hook and the
  executor launch go to \<open>jm_out\<close>. Subscriber callbacks do not re-enter the manager.
\<close>

section \<open>State\<close>

datatype run_phase =
    NotStarted
  | Resolving
  | Executing
  | Releasing "string option"
  | Ended "string option"
  | Done

record job_record =
  jb_jobId :: string
  jb_owner :: string
  jb_params :: job_params
  jb_status :: job_status
  jb_endpoint :: "agent_endpoint option"
  jb_result :: "job_result option"
  jb_events :: "job_event list"
  jb_subscribers :: "nat list"
  jb_aborted :: bool
  jb_createdAt :: int
  jb_startedAt :: "int option"
  jb_terminalAt :: "int option"
  jb_phase :: run_phase

datatype jm_out =
    Deliver nat job_event
  | CloseSub nat
  | Evicted string
  | Launch string job_params string "agent_endpoint option"

record manager =
  jm_executors :: "job_type list"
  jm_maxConcurrent :: nat
  jm_maxQueued :: nat
  jm_maxRetained :: nat
  jm_heap :: "string \<Rightarrow> job_record option"
  jm_records :: "string list"
  jm_queue :: "string list"
  jm_running :: "string list"
  jm_terminalOrder :: "string list"
  jm_stopped :: bool
  jm_tornDown :: bool
  jm_out :: "jm_out list"

definition DEFAULT_MAX_CONCURRENT_JOBS :: nat where "DEFAULT_MAX_CONCURRENT_JOBS = 2"
definition DEFAULT_MAX_QUEUED_JOBS :: nat where "DEFAULT_MAX_QUEUED_JOBS = 64"
definition DEFAULT_MAX_RETAINED_JOBS :: nat where "DEFAULT_MAX_RETAINED_JOBS = 256"

text \<open>The constructor: a duplicate executor type or a zero concurrency is an error.\<close>

definition or_default :: "nat option \<Rightarrow> nat \<Rightarrow> nat" where
  "or_default x d = (case x of None \<Rightarrow> d | Some n \<Rightarrow> n)"

definition new_manager :: "job_type list \<Rightarrow> nat option \<Rightarrow> nat option \<Rightarrow> nat option \<Rightarrow> string + manager" where
  "new_manager types conc que ret =
     (if \<not> distinct types then Inl ''duplicate executor registered for job type''
      else if or_default conc DEFAULT_MAX_CONCURRENT_JOBS < 1 then Inl ''maxConcurrentJobs must be >= 1''
      else Inr \<lparr>jm_executors = types, jm_maxConcurrent = or_default conc DEFAULT_MAX_CONCURRENT_JOBS,
                jm_maxQueued = or_default que DEFAULT_MAX_QUEUED_JOBS,
                jm_maxRetained = or_default ret DEFAULT_MAX_RETAINED_JOBS,
                jm_heap = (\<lambda>_. None), jm_records = [], jm_queue = [], jm_running = [],
                jm_terminalOrder = [], jm_stopped = False, jm_tornDown = False, jm_out = []\<rparr>)"

definition active_jobs :: "manager \<Rightarrow> nat" where
  "active_jobs m = length (jm_running m)"

text \<open>A clock reading and the text of a schema failure, should one be thrown in this step.\<close>

record tick =
  tk_now :: int
  tk_error :: string

text \<open>An accessor throws a typed dispatch error or lets a schema failure escape.\<close>

datatype jm_throw = Dispatch hfp_error | SchemaFailure

section \<open>Records and results\<close>

definition heap_upd :: "string \<Rightarrow> (job_record \<Rightarrow> job_record) \<Rightarrow> manager \<Rightarrow> manager" where
  "heap_upd j f m = m\<lparr>jm_heap := (jm_heap m)(j := map_option f (jm_heap m j))\<rparr>"

definition records_get :: "manager \<Rightarrow> string \<Rightarrow> job_record option" where
  "records_get m j = (if j \<in> set (jm_records m) then jm_heap m j else None)"

definition unknown_job :: "string \<Rightarrow> hfp_error" where
  "unknown_job j = \<lparr>err_code = UNKNOWN_JOB, err_message = ''no job with id \"'' @ j @ ''\"'',
     err_details = Some (JObj [(''jobId'', JStr j)])\<rparr>"

definition get_owned :: "manager \<Rightarrow> string \<Rightarrow> string \<Rightarrow> jm_throw + job_record" where
  "get_owned m j owner =
     (case records_get m j of
        None \<Rightarrow> Inl (Dispatch (unknown_job j))
      | Some r \<Rightarrow> if jb_owner r \<noteq> owner then Inl (Dispatch (unknown_job j)) else Inr r)"

definition elapsed_ms :: "int \<Rightarrow> job_record \<Rightarrow> int" where
  "elapsed_ms now r = (case jb_startedAt r of None \<Rightarrow> 0 | Some t \<Rightarrow> now - t)"

definition plain_result :: "int \<Rightarrow> job_record \<Rightarrow> job_status \<Rightarrow> hfp_error \<Rightarrow> job_result" where
  "plain_result now r s e =
     \<lparr>res_jobId = jb_jobId r, res_type = params_type (jb_params r), res_status = s,
      res_summary = None, res_output = None,
      res_stats = \<lparr>st_toolCalls = 0, st_wallMs = elapsed_ms now r, st_promptTokens = None, st_completionTokens = None\<rparr>,
      res_error = Some e, res_artifact = None, res_verify = None\<rparr>"

definition canceled_result :: "int \<Rightarrow> job_record \<Rightarrow> job_result" where
  "canceled_result now r = plain_result now r Canceled (hfp_err CANCELED ''job canceled'')"

definition workspace_unavailable_result :: "int \<Rightarrow> job_record \<Rightarrow> string \<Rightarrow> job_result" where
  "workspace_unavailable_result now r msg =
     plain_result now r Failed
       \<lparr>err_code = WORKSPACE_UNAVAILABLE, err_message = ''workspace unavailable: '' @ msg,
        err_details = Some (JObj [(''workspace'',
          JObj [(''repoId'', JStr (ws_repoId (params_workspace (jb_params r)))),
                (''headCommit'', JStr (ws_headCommit (params_workspace (jb_params r))))])])\<rparr>"

definition error_result :: "int \<Rightarrow> job_record \<Rightarrow> hfp_error_code \<Rightarrow> string \<Rightarrow> job_result" where
  "error_result now r c msg = plain_result now r Failed (hfp_err c msg)"

section \<open>Events, termination, eviction\<close>

text \<open>\<open>append\<close>: \<open>None\<close> is the throw of \<open>JobEventSchema.parse\<close>, before any change.\<close>

definition append_event :: "int \<Rightarrow> string \<Rightarrow> event_body \<Rightarrow> manager \<Rightarrow> manager option" where
  "append_event now j body m =
     (case jm_heap m j of
        None \<Rightarrow> None
      | Some r \<Rightarrow>
          (let e = \<lparr>ev_jobId = jb_jobId r, ev_seq = length (jb_events r), ev_ts = now, ev_body = body\<rparr>
           in if job_event_ok e
              then Some ((heap_upd j (\<lambda>r. r\<lparr>jb_events := jb_events r @ [e]\<rparr>) m)
                     \<lparr>jm_out := jm_out m @ map (\<lambda>s. Deliver s e) (jb_subscribers r)\<rparr>)
              else None))"

definition drop_record :: "string \<Rightarrow> manager \<Rightarrow> manager" where
  "drop_record j m =
     (heap_upd j (\<lambda>r. r\<lparr>jb_subscribers := []\<rparr>) m)
       \<lparr>jm_records := remove1 j (jm_records m),
        jm_out := jm_out m @
          (case jm_heap m j of None \<Rightarrow> [] | Some r \<Rightarrow> map CloseSub (jb_subscribers r)) @ [Evicted j]\<rparr>"

fun evict_loop :: "string list \<Rightarrow> manager \<Rightarrow> manager" where
  "evict_loop [] m = m\<lparr>jm_terminalOrder := []\<rparr>"
| "evict_loop (j # js) m =
     (if length (jm_records m) \<le> jm_maxRetained m then m\<lparr>jm_terminalOrder := j # js\<rparr>
      else case records_get m j of
        None \<Rightarrow> evict_loop js m
      | Some r \<Rightarrow> if \<not> is_terminal (jb_status r) then evict_loop js m
                  else evict_loop js (drop_record j m))"

definition evict_if_needed :: "manager \<Rightarrow> manager" where
  "evict_if_needed m = evict_loop (jm_terminalOrder m) m"

text \<open>\<open>finishJob\<close>: the flag is whether it threw (a result its event schema rejects).\<close>

definition finish_job :: "int \<Rightarrow> string \<Rightarrow> job_result \<Rightarrow> manager \<Rightarrow> bool \<times> manager" where
  "finish_job now j res m =
     (case jm_heap m j of
        None \<Rightarrow> (False, m)
      | Some r \<Rightarrow>
          if is_terminal (jb_status r) then (False, m)
          else
            (let m1 = (heap_upd j (\<lambda>r. r\<lparr>jb_status := res_status res, jb_result := Some res,
                         jb_terminalAt := Some now\<rparr>) m)\<lparr>jm_terminalOrder := jm_terminalOrder m @ [j]\<rparr>
             in case append_event now j (StatusEv (res_status res)) m1 of
                  None \<Rightarrow> (True, m1)
                | Some m2 \<Rightarrow>
                    (case append_event now j (ResultEv res) m2 of
                       None \<Rightarrow> (True, m2)
                     | Some m3 \<Rightarrow> (False, evict_if_needed m3))))"

definition emit_executor_event :: "int \<Rightarrow> string \<Rightarrow> exec_payload \<Rightarrow> manager \<Rightarrow> manager" where
  "emit_executor_event now j p m =
     (case jm_heap m j of
        None \<Rightarrow> m
      | Some r \<Rightarrow>
          (case p of
             ForeignP _ \<Rightarrow> m
           | _ \<Rightarrow>
               if is_terminal (jb_status r) then m
               else (case payload_body p of
                  None \<Rightarrow> m
                | Some b \<Rightarrow> (case append_event now j b m of None \<Rightarrow> m | Some m' \<Rightarrow> m'))))"

section \<open>Scheduling\<close>

definition set_phase :: "string \<Rightarrow> run_phase \<Rightarrow> manager \<Rightarrow> manager" where
  "set_phase j ph m = heap_upd j (\<lambda>r. r\<lparr>jb_phase := ph\<rparr>) m"

text \<open>The synchronous prefix of \<open>runJob\<close>: up to the call of \<open>resolveWorkspace\<close>.\<close>

definition start_job :: "tick \<Rightarrow> string \<Rightarrow> manager \<Rightarrow> manager" where
  "start_job tk j m =
     (let m1 = (heap_upd j (\<lambda>r. r\<lparr>jb_status := Running, jb_startedAt := Some (tk_now tk)\<rparr>) m)
                 \<lparr>jm_running := jset_add j (jm_running m)\<rparr>
      in case append_event (tk_now tk) j (StatusEv Running) m1 of
           None \<Rightarrow> set_phase j (Ended (Some (tk_error tk))) m1
         | Some m2 \<Rightarrow> set_phase j Resolving m2)"

fun pump_loop :: "tick \<Rightarrow> string list \<Rightarrow> manager \<Rightarrow> manager" where
  "pump_loop tk [] m = m\<lparr>jm_queue := []\<rparr>"
| "pump_loop tk (j # js) m =
     (if \<not> length (jm_running m) < jm_maxConcurrent m then m\<lparr>jm_queue := j # js\<rparr>
      else case records_get m j of
        None \<Rightarrow> pump_loop tk js m
      | Some r \<Rightarrow> if jb_status r \<noteq> Queued then pump_loop tk js m
                  else pump_loop tk js (start_job tk j m))"

definition pump :: "tick \<Rightarrow> manager \<Rightarrow> manager" where
  "pump tk m = (if jm_stopped m then m else pump_loop tk (jm_queue m) m)"

fun requested_model :: "job_params \<Rightarrow> string option" where
  "requested_model (ReconParams p) = rp_model p"
| "requested_model (WriteParams p) = wp_model p"
| "requested_model (CommandParams p) = None"

fun job_type_name :: "job_type \<Rightarrow> string" where
  "job_type_name Recon = ''recon''"
| "job_type_name Command = ''command''"
| "job_type_name Write = ''write''"

text \<open>\<open>j\<close> is the identifier \<open>randomUUID\<close> returns.\<close>

definition submit :: "(job_type \<Rightarrow> string option \<Rightarrow> model_resolution) \<Rightarrow> tick \<Rightarrow> job_params \<Rightarrow> string \<Rightarrow> string \<Rightarrow> manager \<Rightarrow> (hfp_error + string) \<times> manager" where
  "submit resolve tk params owner j m =
     (if jm_stopped m then (Inl (hfp_err INTERNAL ''job manager is stopped''), m)
      else if params_type params \<notin> set (jm_executors m) then
        (Inl \<lparr>err_code = UNSUPPORTED_JOB_TYPE,
              err_message = ''this worker does not support job type \"'' @ job_type_name (params_type params) @ ''\"'',
              err_details = Some (JObj [(''type'', JStr (job_type_name (params_type params)))])\<rparr>, m)
      else case resolve (params_type params) (requested_model params) of
        Unresolved e \<Rightarrow> (Inl e, m)
      | Resolved ep \<Rightarrow>
          if jm_maxConcurrent m \<le> length (jm_running m) \<and> jm_maxQueued m \<le> length (jm_queue m)
          then (Inl (hfp_err BUSY (''worker is busy (maxConcurrentJobs='' @ show_nat (jm_maxConcurrent m) @
                   '', maxQueuedJobs='' @ show_nat (jm_maxQueued m) @ '')'')), m)
          else
            (Inr j,
             pump tk (m\<lparr>jm_heap := (jm_heap m)(j \<mapsto>
                  \<lparr>jb_jobId = j, jb_owner = owner, jb_params = params, jb_status = Queued,
                   jb_endpoint = ep, jb_result = None, jb_events = [], jb_subscribers = [],
                   jb_aborted = False, jb_createdAt = tk_now tk, jb_startedAt = None,
                   jb_terminalAt = None, jb_phase = NotStarted\<rparr>),
                jm_records := jset_add j (jm_records m),
                jm_queue := jm_queue m @ [j]\<rparr>)))"


section \<open>Accessors\<close>

definition snapshot :: "manager \<Rightarrow> string \<Rightarrow> string \<Rightarrow> jm_throw + job_snapshot" where
  "snapshot m j owner =
     (case get_owned m j owner of
        Inl e \<Rightarrow> Inl e
      | Inr r \<Rightarrow>
          (let s = \<lparr>snap_jobId = jb_jobId r, snap_status = jb_status r, snap_result = jb_result r\<rparr>
           in if job_snapshot_ok s then Inr s else Inl SchemaFailure))"

record job_listing =
  jl_jobId :: string
  jl_type :: job_type
  jl_owner :: string
  jl_repoId :: string
  jl_status :: job_status
  jl_createdAt :: int
  jl_startedAt :: "int option"
  jl_terminalAt :: "int option"
  jl_errorCode :: "hfp_error_code option"

definition listing :: "job_record \<Rightarrow> job_listing" where
  "listing r =
     \<lparr>jl_jobId = jb_jobId r, jl_type = params_type (jb_params r), jl_owner = jb_owner r,
      jl_repoId = ws_repoId (params_workspace (jb_params r)), jl_status = jb_status r,
      jl_createdAt = jb_createdAt r, jl_startedAt = jb_startedAt r, jl_terminalAt = jb_terminalAt r,
      jl_errorCode = (case jb_result r of None \<Rightarrow> None | Some res \<Rightarrow> map_option err_code (res_error res))\<rparr>"

definition list_jobs :: "manager \<Rightarrow> job_listing list" where
  "list_jobs m = map listing (rev (List.map_filter (jm_heap m) (jm_records m)))"

text \<open>\<open>cancel\<close> up to its first await. A running job answers later, with the status its record has then.\<close>

datatype cancel_reply = Answer job_status | AwaitUnwind

definition cancel :: "int \<Rightarrow> string \<Rightarrow> string \<Rightarrow> manager \<Rightarrow> (jm_throw + cancel_reply) \<times> manager" where
  "cancel now j owner m =
     (case get_owned m j owner of
        Inl e \<Rightarrow> (Inl e, m)
      | Inr r \<Rightarrow>
          if is_terminal (jb_status r) then (Inr (Answer (jb_status r)), m)
          else if jb_status r = Queued then
            (case finish_job now j (canceled_result now r) (m\<lparr>jm_queue := remove1 j (jm_queue m)\<rparr>) of
               (True, m') \<Rightarrow> (Inl SchemaFailure, m')
             | (False, m') \<Rightarrow>
                 (case jm_heap m' j of None \<Rightarrow> (Inl SchemaFailure, m')
                  | Some r' \<Rightarrow> (Inr (Answer (jb_status r')), m')))
          else (Inr AwaitUnwind, heap_upd j (\<lambda>r. r\<lparr>jb_aborted := True\<rparr>) m))"

definition cancel_response :: "manager \<Rightarrow> string \<Rightarrow> job_status option" where
  "cancel_response m j = map_option jb_status (jm_heap m j)"

text \<open>\<open>cancelOwnedBy\<close>: over the records as they were when it was called.\<close>

fun cancel_each :: "int \<Rightarrow> string \<Rightarrow> string list \<Rightarrow> nat \<times> manager \<Rightarrow> nat \<times> manager" where
  "cancel_each now owner [] (n, m) = (n, m)"
| "cancel_each now owner (j # js) (n, m) =
     (case jm_heap m j of
        None \<Rightarrow> cancel_each now owner js (n, m)
      | Some r \<Rightarrow>
          if jb_owner r \<noteq> owner \<or> is_terminal (jb_status r) then cancel_each now owner js (n, m)
          else cancel_each now owner js (n + 1, snd (cancel now j owner m)))"

definition cancel_owned_by :: "int \<Rightarrow> string \<Rightarrow> manager \<Rightarrow> nat \<times> manager" where
  "cancel_owned_by now owner m = cancel_each now owner (jm_records m) (0, m)"

text \<open>\<open>fromSeq\<close> is \<open>None\<close> when it is not an integer. The result is \<open>isTerminal\<close>.\<close>

definition replay_start :: "int option \<Rightarrow> nat" where
  "replay_start fromSeq = (case fromSeq of None \<Rightarrow> 0 | Some n \<Rightarrow> if 0 < n then nat n else 0)"

definition subscribe :: "string \<Rightarrow> string \<Rightarrow> int option \<Rightarrow> nat \<Rightarrow> manager \<Rightarrow> (jm_throw + bool) \<times> manager" where
  "subscribe j owner fromSeq sub m =
     (case get_owned m j owner of
        Inl e \<Rightarrow> (Inl e, m)
      | Inr r \<Rightarrow>
          (let m' = m\<lparr>jm_out := jm_out m @ map (Deliver sub) (filter (\<lambda>e. replay_start fromSeq \<le> ev_seq e) (jb_events r))\<rparr>
           in if is_terminal (jb_status r) then (Inr True, m')
              else (Inr False, heap_upd j (\<lambda>r. r\<lparr>jb_subscribers := jset_add sub (jb_subscribers r)\<rparr>) m')))"

definition unsubscribe :: "string \<Rightarrow> nat \<Rightarrow> manager \<Rightarrow> manager" where
  "unsubscribe j sub m = heap_upd j (\<lambda>r. r\<lparr>jb_subscribers := remove1 sub (jb_subscribers r)\<rparr>) m"

definition subscriber_count :: "manager \<Rightarrow> string \<Rightarrow> string \<Rightarrow> jm_throw + nat" where
  "subscriber_count m j owner =
     (case get_owned m j owner of Inl e \<Rightarrow> Inl e | Inr r \<Rightarrow> Inr (length (jb_subscribers r)))"

section \<open>Shutdown\<close>

fun stop_queued :: "int \<Rightarrow> string list \<Rightarrow> manager \<Rightarrow> bool \<times> manager" where
  "stop_queued now [] m = (False, m)"
| "stop_queued now (j # js) m =
     (case records_get m j of
        None \<Rightarrow> stop_queued now js m
      | Some r \<Rightarrow>
          if jb_status r \<noteq> Queued then stop_queued now js m
          else (case finish_job now j (canceled_result now r) m of
                  (True, m') \<Rightarrow> (True, m')
                | (False, m') \<Rightarrow> stop_queued now js m'))"

fun abort_each :: "string list \<Rightarrow> manager \<Rightarrow> manager" where
  "abort_each [] m = m"
| "abort_each (j # js) m =
     abort_each js (case records_get m j of None \<Rightarrow> m
                    | Some _ \<Rightarrow> heap_upd j (\<lambda>r. r\<lparr>jb_aborted := True\<rparr>) m)"

text \<open>The jobs whose executions \<open>stop\<close> then awaits.\<close>

definition awaited :: "manager \<Rightarrow> string list" where
  "awaited m = filter (\<lambda>j. records_get m j \<noteq> None) (jm_running m)"

definition stop_begin :: "int \<Rightarrow> manager \<Rightarrow> bool \<times> manager" where
  "stop_begin now m =
     (if jm_stopped m then (False, m)
      else case stop_queued now (jm_queue m) (m\<lparr>jm_stopped := True, jm_queue := []\<rparr>) of
        (True, m') \<Rightarrow> (True, m')
      | (False, m') \<Rightarrow> (False, abort_each (jm_running m') m'))"

fun close_all :: "string list \<Rightarrow> manager \<Rightarrow> manager" where
  "close_all [] m = m"
| "close_all (j # js) m =
     close_all js ((heap_upd j (\<lambda>r. r\<lparr>jb_subscribers := []\<rparr>) m)\<lparr>jm_out := jm_out m @
       (case jm_heap m j of None \<Rightarrow> [] | Some r \<Rightarrow> map CloseSub (jb_subscribers r)) @ [Evicted j]\<rparr>)"

text \<open>After the bounded wait, whether the executions settled or the guard timer fired.\<close>

definition stop_finish :: "manager \<Rightarrow> manager" where
  "stop_finish m =
     (if jm_stopped m \<and> \<not> jm_tornDown m
      then (close_all (jm_records m) m)\<lparr>jm_records := [], jm_terminalOrder := [], jm_tornDown := True\<rparr>
      else m)"

section \<open>The phases of a run\<close>

datatype ws_outcome = WorkspaceReady string | WorkspaceFailed string

definition phase_of :: "manager \<Rightarrow> string \<Rightarrow> run_phase" where
  "phase_of m j = (case jm_heap m j of None \<Rightarrow> NotStarted | Some r \<Rightarrow> jb_phase r)"

text \<open>What \<open>finishJob\<close> leaves behind: the phase that follows and the error it carries.\<close>

definition finish_then :: "(string option \<Rightarrow> run_phase) \<Rightarrow> tick \<Rightarrow> string \<Rightarrow> job_result \<Rightarrow> manager \<Rightarrow> manager" where
  "finish_then ph tk j res m =
     (case finish_job (tk_now tk) j res m of
        (threw, m') \<Rightarrow> set_phase j (ph (if threw then Some (tk_error tk) else None)) m')"

definition workspace_done :: "tick \<Rightarrow> string \<Rightarrow> ws_outcome \<Rightarrow> manager \<Rightarrow> manager" where
  "workspace_done tk j w m =
     (case jm_heap m j of
        None \<Rightarrow> m
      | Some r \<Rightarrow>
          if jb_phase r \<noteq> Resolving then m
          else (case w of
             WorkspaceFailed msg \<Rightarrow>
               finish_then Ended tk j (workspace_unavailable_result (tk_now tk) r msg) m
           | WorkspaceReady dir \<Rightarrow>
               if jb_aborted r then finish_then Releasing tk j (canceled_result (tk_now tk) r) m
               else if params_type (jb_params r) \<notin> set (jm_executors m) then
                 finish_then Releasing tk j (error_result (tk_now tk) r UNSUPPORTED_JOB_TYPE ''no executor'') m
               else (set_phase j Executing m)
                      \<lparr>jm_out := jm_out m @ [Launch j (jb_params r) dir (jb_endpoint r)]\<rparr>))"

datatype exec_outcome = Returned job_result | Threw string

definition exec_done :: "tick \<Rightarrow> string \<Rightarrow> exec_outcome \<Rightarrow> manager \<Rightarrow> manager" where
  "exec_done tk j x m =
     (case jm_heap m j of
        None \<Rightarrow> m
      | Some r \<Rightarrow>
          if jb_phase r \<noteq> Executing then m
          else finish_then Releasing tk j
            (case x of Returned res \<Rightarrow> res
             | Threw msg \<Rightarrow> error_result (tk_now tk) r INTERNAL (''executor threw: '' @ msg)) m)"

definition release_done :: "string \<Rightarrow> manager \<Rightarrow> manager" where
  "release_done j m = (case phase_of m j of Releasing e \<Rightarrow> set_phase j (Ended e) m | _ \<Rightarrow> m)"

text \<open>The \<open>catch\<close> and \<open>finally\<close> of \<open>runJob\<close>.\<close>

definition run_ended :: "tick \<Rightarrow> string \<Rightarrow> manager \<Rightarrow> manager" where
  "run_ended tk j m =
     (case jm_heap m j of
        None \<Rightarrow> m
      | Some r \<Rightarrow>
          (case jb_phase r of
             Ended e \<Rightarrow>
               (let m1 = (case e of None \<Rightarrow> m
                   | Some msg \<Rightarrow>
                       if is_terminal (jb_status r) then m
                       else snd (finish_job (tk_now tk) j (error_result (tk_now tk) r INTERNAL msg) m))
                in pump tk ((set_phase j Done m1)\<lparr>jm_running := remove1 j (jm_running m1)\<rparr>))
           | _ \<Rightarrow> m))"

definition executor_emits :: "tick \<Rightarrow> string \<Rightarrow> exec_payload \<Rightarrow> manager \<Rightarrow> manager" where
  "executor_emits tk j p m =
     (if phase_of m j \<in> {NotStarted, Resolving} then m else emit_executor_event (tk_now tk) j p m)"

section \<open>Steps\<close>

datatype jm_action =
    Submit job_params string string
  | Cancel string string
  | CancelOwned string
  | Subscribe string string "int option" nat
  | Unsubscribe string nat
  | WorkspaceDone string ws_outcome
  | Emit string exec_payload
  | ExecDone string exec_outcome
  | ReleaseDone string
  | RunEnded string
  | StopBegin
  | StopFinish

fun jm_step :: "(job_type \<Rightarrow> string option \<Rightarrow> model_resolution) \<Rightarrow> tick \<Rightarrow> jm_action \<Rightarrow> manager \<Rightarrow> manager" where
  "jm_step rm tk (Submit p owner j) m = snd (submit rm tk p owner j m)"
| "jm_step rm tk (Cancel j owner) m = snd (cancel (tk_now tk) j owner m)"
| "jm_step rm tk (CancelOwned owner) m = snd (cancel_owned_by (tk_now tk) owner m)"
| "jm_step rm tk (Subscribe j owner n s) m = snd (subscribe j owner n s m)"
| "jm_step rm tk (Unsubscribe j s) m = unsubscribe j s m"
| "jm_step rm tk (WorkspaceDone j w) m = workspace_done tk j w m"
| "jm_step rm tk (Emit j p) m = executor_emits tk j p m"
| "jm_step rm tk (ExecDone j x) m = exec_done tk j x m"
| "jm_step rm tk (ReleaseDone j) m = release_done j m"
| "jm_step rm tk (RunEnded j) m = run_ended tk j m"
| "jm_step rm tk StopBegin m = snd (stop_begin (tk_now tk) m)"
| "jm_step rm tk StopFinish m = stop_finish m"

end
