(* ===== verification/JobInvariants.thy ===== *)
theory JobInvariants imports JobManager begin

text \<open>
  What every reachable state of the job manager satisfies: the event log of each job, its
  lifecycle, the scheduling lists and their bounds. Proved operation by operation.
\<close>

section \<open>One record\<close>

definition log_ok :: "job_record \<Rightarrow> bool" where
  "log_ok r = (\<forall>i < length (jb_events r).
     ev_jobId (jb_events r ! i) = jb_jobId r \<and> ev_seq (jb_events r ! i) = i \<and>
     job_event_ok (jb_events r ! i))"

definition no_result :: "job_event list \<Rightarrow> bool" where
  "no_result es = list_all (\<lambda>e. \<not> is_result_ev (ev_body e)) es"

definition ends_with_result :: "job_record \<Rightarrow> job_result \<Rightarrow> bool" where
  "ends_with_result r res = (\<exists>es s f. jb_events r = es @ [s, f] \<and> no_result es \<and>
     ev_body s = StatusEv (res_status res) \<and> ev_body f = ResultEv res)"

definition life_ok :: "job_record \<Rightarrow> bool" where
  "life_ok r =
     (case jb_status r of
        Queued \<Rightarrow> jb_events r = [] \<and> jb_phase r = NotStarted \<and> jb_result r = None \<and> jb_startedAt r = None
      | Running \<Rightarrow> jb_phase r \<in> {Resolving, Executing} \<and> jb_result r = None \<and> no_result (jb_events r)
      | s \<Rightarrow> jb_phase r \<in> {NotStarted, Releasing None, Ended None, Done} \<and>
          (\<exists>res. jb_result r = Some res \<and> res_status res = s \<and>
             conforms (params_type (jb_params r)) (jb_jobId r) res \<and> ends_with_result r res))"

definition rec_ok :: "string \<Rightarrow> job_record \<Rightarrow> bool" where
  "rec_ok j r = (jb_jobId r = j \<and> job_id_ok j \<and> job_params_ok (jb_params r) \<and> log_ok r \<and> life_ok r)"

definition core :: "job_record \<Rightarrow> job_record" where
  "core r = r\<lparr>jb_subscribers := []\<rparr>"

lemma core_fields [simp]:
  "jb_jobId (core r) = jb_jobId r" "jb_owner (core r) = jb_owner r" "jb_params (core r) = jb_params r"
  "jb_status (core r) = jb_status r" "jb_endpoint (core r) = jb_endpoint r" "jb_result (core r) = jb_result r"
  "jb_events (core r) = jb_events r" "jb_aborted (core r) = jb_aborted r" "jb_startedAt (core r) = jb_startedAt r"
  "jb_phase (core r) = jb_phase r" "jb_createdAt (core r) = jb_createdAt r" "jb_terminalAt (core r) = jb_terminalAt r"
  by (simp_all add: core_def)

lemma rec_ok_core [simp]: "rec_ok j (core r) = rec_ok j r"
proof -
  have "life_ok (core r) = life_ok r"
    by (cases "jb_status r") (simp_all add: life_ok_def ends_with_result_def)
  then show ?thesis by (simp add: rec_ok_def log_ok_def)
qed

lemma core_eq_fields:
  assumes "core r = core s"
  shows "jb_status r = jb_status s \<and> jb_phase r = jb_phase s \<and> jb_owner r = jb_owner s \<and>
    jb_events r = jb_events s \<and> jb_params r = jb_params s \<and> jb_startedAt r = jb_startedAt s \<and>
    jb_result r = jb_result s \<and> rec_ok j r = rec_ok j s"
  using arg_cong [OF assms, of jb_status] arg_cong [OF assms, of jb_phase] arg_cong [OF assms, of jb_owner]
    arg_cong [OF assms, of jb_events] arg_cong [OF assms, of jb_params] arg_cong [OF assms, of jb_startedAt]
    arg_cong [OF assms, of jb_result] arg_cong [OF assms, of "rec_ok j"] by simp

lemma log_ok_snoc:
  "log_ok r \<Longrightarrow> job_event_ok \<lparr>ev_jobId = jb_jobId r, ev_seq = length (jb_events r), ev_ts = t, ev_body = b\<rparr> \<Longrightarrow>
   log_ok (r\<lparr>jb_events := jb_events r @ [\<lparr>ev_jobId = jb_jobId r, ev_seq = length (jb_events r), ev_ts = t, ev_body = b\<rparr>]\<rparr>)"
  by (auto simp: log_ok_def nth_append less_Suc_eq)

lemma event_ok_plain: "job_id_ok j \<Longrightarrow> \<not> is_result_ev b \<Longrightarrow>
    job_event_ok \<lparr>ev_jobId = j, ev_seq = n, ev_ts = t, ev_body = b\<rparr>"
  by (cases b) (simp_all add: job_event_ok_def)

lemma event_ok_result: "job_id_ok j \<Longrightarrow> conforms ty j res \<Longrightarrow>
    job_event_ok \<lparr>ev_jobId = j, ev_seq = n, ev_ts = t, ev_body = ResultEv res\<rparr>"
  by (simp add: job_event_ok_def conforms_def)

lemma conforms_terminal: "conforms ty j res \<Longrightarrow> is_terminal (res_status res)"
  by (simp add: conforms_def job_result_ok_def job_result_shape_ok_def)

lemma plain_result_conforms:
  assumes "job_id_ok (jb_jobId r)" "s = Failed \<or> s = Canceled" "0 \<le> elapsed_ms now r"
  shows "conforms (params_type (jb_params r)) (jb_jobId r) (plain_result now r s e)"
  using assms
  by (auto simp: conforms_def plain_result_def job_result_ok_def job_result_shape_ok_def
      job_result_rules_ok_def job_stats_ok_def)

section \<open>Effects of the operations\<close>

lemma heap_upd_simps [simp]:
  "jm_heap (heap_upd j f m) k = (if k = j then map_option f (jm_heap m j) else jm_heap m k)"
  "jm_records (heap_upd j f m) = jm_records m" "jm_queue (heap_upd j f m) = jm_queue m"
  "jm_running (heap_upd j f m) = jm_running m" "jm_terminalOrder (heap_upd j f m) = jm_terminalOrder m"
  "jm_stopped (heap_upd j f m) = jm_stopped m" "jm_tornDown (heap_upd j f m) = jm_tornDown m"
  "jm_out (heap_upd j f m) = jm_out m" "jm_executors (heap_upd j f m) = jm_executors m"
  "jm_maxConcurrent (heap_upd j f m) = jm_maxConcurrent m" "jm_maxQueued (heap_upd j f m) = jm_maxQueued m"
  "jm_maxRetained (heap_upd j f m) = jm_maxRetained m"
  by (simp_all add: heap_upd_def)

text \<open>The fields that the eviction loop leaves alone.\<close>

lemma evict_loop_frame [simp]:
  "jm_queue (evict_loop js m) = jm_queue m" "jm_running (evict_loop js m) = jm_running m"
  "jm_stopped (evict_loop js m) = jm_stopped m" "jm_tornDown (evict_loop js m) = jm_tornDown m"
  "jm_maxConcurrent (evict_loop js m) = jm_maxConcurrent m" "jm_maxQueued (evict_loop js m) = jm_maxQueued m"
  "jm_maxRetained (evict_loop js m) = jm_maxRetained m" "jm_executors (evict_loop js m) = jm_executors m"
  by (induction js m rule: evict_loop.induct) (auto simp: drop_record_def split: option.splits)

lemma evict_loop_core: "map_option core (jm_heap (evict_loop js m) k) = map_option core (jm_heap m k)"
proof (induction js m rule: evict_loop.induct)
  case (2 j js m)
  have "map_option core (jm_heap (drop_record j m) k) = map_option core (jm_heap m k)"
    by (cases "jm_heap m k") (auto simp: drop_record_def core_def)
  with 2 show ?case by (auto split: option.splits)
qed simp

lemma evict_if_needed_frame [simp]:
  "jm_queue (evict_if_needed m) = jm_queue m" "jm_running (evict_if_needed m) = jm_running m"
  "jm_stopped (evict_if_needed m) = jm_stopped m" "jm_tornDown (evict_if_needed m) = jm_tornDown m"
  "jm_maxConcurrent (evict_if_needed m) = jm_maxConcurrent m" "jm_maxQueued (evict_if_needed m) = jm_maxQueued m"
  "jm_maxRetained (evict_if_needed m) = jm_maxRetained m" "jm_executors (evict_if_needed m) = jm_executors m"
  by (simp_all add: evict_if_needed_def)

text \<open>The order list and the records after eviction: what is left of the list is the
  terminal records, within the cap.\<close>

lemma evict_loop_lists:
  assumes "distinct js" "distinct (jm_records m)"
    "\<And>j. j \<in> set js \<longleftrightarrow> j \<in> set (jm_records m) \<and> (\<exists>r. jm_heap m j = Some r \<and> is_terminal (jb_status r))"
  shows "distinct (jm_terminalOrder (evict_loop js m)) \<and> distinct (jm_records (evict_loop js m)) \<and>
    set (jm_records (evict_loop js m)) \<subseteq> set (jm_records m) \<and>
    set (jm_records m) - set (jm_records (evict_loop js m)) \<subseteq> set js \<and>
    (\<forall>j. j \<in> set (jm_terminalOrder (evict_loop js m)) \<longleftrightarrow>
       j \<in> set js \<and> j \<in> set (jm_records (evict_loop js m))) \<and>
    (jm_terminalOrder (evict_loop js m) = [] \<or> length (jm_records (evict_loop js m)) \<le> jm_maxRetained m)"
  using assms
proof (induction js m rule: evict_loop.induct)
  case (1 m)
  then show ?case by simp
next
  case (2 j js m)
  show ?case
  proof (cases "length (jm_records m) \<le> jm_maxRetained m")
    case True
    with "2.prems" show ?thesis by auto
  next
    case False
    from "2.prems"(3) [of j] obtain r where r: "j \<in> set (jm_records m)" "jm_heap m j = Some r"
      "is_terminal (jb_status r)" by auto
    then have g: "records_get m j = Some r" by (simp add: records_get_def)
    let ?m = "drop_record j m"
    have m: "jm_records ?m = remove1 j (jm_records m)" "jm_maxRetained ?m = jm_maxRetained m"
      by (simp_all add: drop_record_def)
    have p: "\<And>i. i \<in> set js \<longleftrightarrow> i \<in> set (jm_records ?m) \<and> (\<exists>r. jm_heap ?m i = Some r \<and> is_terminal (jb_status r))"
      using "2.prems" by (auto simp: drop_record_def)
    have "distinct js" "distinct (jm_records ?m)" using "2.prems" m by auto
    from "2.IH"(3) [OF False g _ this p] r have ih:
      "distinct (jm_terminalOrder (evict_loop js ?m)) \<and> distinct (jm_records (evict_loop js ?m)) \<and>
       set (jm_records (evict_loop js ?m)) \<subseteq> set (jm_records ?m) \<and>
       set (jm_records ?m) - set (jm_records (evict_loop js ?m)) \<subseteq> set js \<and>
       (\<forall>i. i \<in> set (jm_terminalOrder (evict_loop js ?m)) \<longleftrightarrow> i \<in> set js \<and> i \<in> set (jm_records (evict_loop js ?m))) \<and>
       (jm_terminalOrder (evict_loop js ?m) = [] \<or> length (jm_records (evict_loop js ?m)) \<le> jm_maxRetained ?m)"
      by simp
    have e: "evict_loop (j # js) m = evict_loop js ?m" using False g r by simp
    have j: "j \<notin> set (jm_records ?m)" "set (jm_records ?m) = set (jm_records m) - {j}"
      using "2.prems"(2) m by auto
    show ?thesis unfolding e using ih j m(2) by auto
  qed
qed


section \<open>The invariant of the manager\<close>

definition live_phase :: "run_phase \<Rightarrow> bool" where
  "live_phase ph = (ph \<noteq> NotStarted \<and> ph \<noteq> Done)"

definition jobs_ok :: "manager \<Rightarrow> bool" where
  "jobs_ok m = (\<forall>j r. jm_heap m j = Some r \<longrightarrow> rec_ok j r)"

definition stat :: "manager \<Rightarrow> string \<Rightarrow> job_status option" where
  "stat m j = map_option jb_status (jm_heap m j)"

text \<open>The lists against the records; \<open>x\<close> is the queue, which some operations hold in hand.\<close>

definition sched_ok :: "string list \<Rightarrow> manager \<Rightarrow> bool" where
  "sched_ok x m =
     (distinct x \<and> distinct (jm_running m) \<and> distinct (jm_records m) \<and>
      (\<forall>j. j \<in> set x \<longleftrightarrow> stat m j = Some Queued) \<and>
      (\<forall>j. j \<in> set (jm_running m) \<longleftrightarrow> live_phase (phase_of m j)) \<and>
      (\<forall>j. j \<in> set (jm_records m) \<longrightarrow> jm_heap m j \<noteq> None) \<and>
      length (jm_running m) \<le> jm_maxConcurrent m \<and> 
      (if jm_tornDown m then jm_records m = []
       else distinct (jm_terminalOrder m) \<and>
         (\<forall>j. (\<exists>s. stat m j = Some s \<and> \<not> is_terminal s) \<longrightarrow> j \<in> set (jm_records m)) \<and>
         (\<forall>j. j \<in> set (jm_terminalOrder m) \<longleftrightarrow>
            j \<in> set (jm_records m) \<and> (\<exists>s. stat m j = Some s \<and> is_terminal s)) \<and>
         length (jm_terminalOrder m) \<le> jm_maxRetained m))"

definition work_conserving :: "manager \<Rightarrow> bool" where
  "work_conserving m =
     (if jm_stopped m then jm_queue m = []
      else jm_queue m = [] \<or> length (jm_running m) = jm_maxConcurrent m)"

definition jm_inv :: "manager \<Rightarrow> bool" where
  "jm_inv m = (jobs_ok m \<and> sched_ok (jm_queue m) m \<and> work_conserving m \<and>
     length (jm_queue m) \<le> jm_maxQueued m \<and> (jm_tornDown m \<longrightarrow> jm_stopped m))"

lemma stat_simps: "stat m j = Some s \<longleftrightarrow> (\<exists>r. jm_heap m j = Some r \<and> jb_status r = s)"
  by (auto simp: stat_def)

lemma phase_of_simps: "live_phase (phase_of m j) \<longleftrightarrow> (\<exists>r. jm_heap m j = Some r \<and> live_phase (jb_phase r))"
  by (auto simp: phase_of_def live_phase_def split: option.splits)

text \<open>States whose jobs agree up to subscribers have the same statuses and phases.\<close>

definition same_jobs :: "manager \<Rightarrow> manager \<Rightarrow> bool" where
  "same_jobs m n = (\<forall>j. map_option core (jm_heap m j) = map_option core (jm_heap n j))"

lemma same_jobs_views:
  assumes "same_jobs m n"
  shows "stat m j = stat n j" "phase_of m j = phase_of n j" "jm_heap m j = None \<longleftrightarrow> jm_heap n j = None"
    "jobs_ok m \<longleftrightarrow> jobs_ok n"
proof -
  have c: "\<And>j. map_option core (jm_heap m j) = map_option core (jm_heap n j)"
    using assms by (simp add: same_jobs_def)
  show "stat m j = stat n j"
    using arg_cong [OF c [of j], of "map_option jb_status"] by (simp add: stat_def option.map_comp comp_def)
  show "phase_of m j = phase_of n j"
    using c [of j] by (cases "jm_heap m j"; cases "jm_heap n j") (auto simp: phase_of_def dest: core_eq_fields)
  show "jm_heap m j = None \<longleftrightarrow> jm_heap n j = None" using c [of j] by (metis map_option_is_None)
  have "(\<exists>r. jm_heap m j = Some r \<and> \<not> rec_ok j r) \<longleftrightarrow> (\<exists>r. jm_heap n j = Some r \<and> \<not> rec_ok j r)" for j
    using c [of j] by (cases "jm_heap m j"; cases "jm_heap n j") (auto dest: core_eq_fields)
  then show "jobs_ok m \<longleftrightarrow> jobs_ok n" unfolding jobs_ok_def by metis
qed

lemma same_jobs_evict: "same_jobs (evict_if_needed m) m"
  by (simp add: same_jobs_def evict_if_needed_def evict_loop_core)

section \<open>Finishing a job\<close>

definition finish_events :: "int \<Rightarrow> string \<Rightarrow> job_result \<Rightarrow> job_record \<Rightarrow> job_event list" where
  "finish_events now j res r =
     [\<lparr>ev_jobId = j, ev_seq = length (jb_events r), ev_ts = now, ev_body = StatusEv (res_status res)\<rparr>,
      \<lparr>ev_jobId = j, ev_seq = Suc (length (jb_events r)), ev_ts = now, ev_body = ResultEv res\<rparr>]"

definition finished :: "int \<Rightarrow> string \<Rightarrow> job_result \<Rightarrow> job_record \<Rightarrow> job_record" where
  "finished now j res r =
     r\<lparr>jb_status := res_status res, jb_result := Some res, jb_terminalAt := Some now,
       jb_events := jb_events r @ finish_events now j res r\<rparr>"

definition deliveries :: "nat list \<Rightarrow> job_event list \<Rightarrow> jm_out list" where
  "deliveries subs es = concat (map (\<lambda>e. map (\<lambda>s. Deliver s e) subs) es)"

text \<open>The state \<open>finishJob\<close> hands to the eviction loop.\<close>

definition with_finished :: "int \<Rightarrow> string \<Rightarrow> job_result \<Rightarrow> job_record \<Rightarrow> manager \<Rightarrow> manager" where
  "with_finished now j res r m =
     m\<lparr>jm_terminalOrder := jm_terminalOrder m @ [j],
       jm_heap := (jm_heap m)(j \<mapsto> finished now j res r),
       jm_out := jm_out m @ deliveries (jb_subscribers r) (finish_events now j res r)\<rparr>"

lemma finish_job_conforming:
  assumes "jm_heap m j = Some r" "rec_ok j r" "\<not> is_terminal (jb_status r)"
    "conforms (params_type (jb_params r)) j res"
  shows "finish_job now j res m = (False, evict_if_needed (with_finished now j res r m))"
proof -
  have j: "jb_jobId r = j" "job_id_ok j" using assms(2) by (auto simp: rec_ok_def)
  note ev = event_ok_plain [OF j(2), of "StatusEv (res_status res)"] event_ok_result [OF j(2) assms(4)]
  show ?thesis
    using assms(1,3) j ev
    by (simp add: finish_job_def append_event_def heap_upd_def Let_def finished_def with_finished_def
        finish_events_def deliveries_def)
qed

lemma rec_ok_finished:
  assumes "rec_ok j r" "\<not> is_terminal (jb_status r)" "conforms (params_type (jb_params r)) j res"
    "ph \<in> {NotStarted, Releasing None, Ended None, Done}"
  shows "rec_ok j ((finished now j res r)\<lparr>jb_phase := ph\<rparr>)"
proof -
  have j: "jb_jobId r = j" "job_id_ok j" "log_ok r" "life_ok r" "job_params_ok (jb_params r)"
    using assms(1) by (auto simp: rec_ok_def)
  have n: "no_result (jb_events r)"
    using assms(2) j(4) by (cases "jb_status r") (auto simp: life_ok_def no_result_def)
  have "log_ok (finished now j res r)"
    using j(1,3) event_ok_plain [OF j(2)] event_ok_result [OF j(2) assms(3)]
    by (auto simp: log_ok_def finished_def finish_events_def nth_append less_Suc_eq nth_Cons')
  moreover have "life_ok ((finished now j res r)\<lparr>jb_phase := ph\<rparr>)"
    using conforms_terminal [OF assms(3)] assms(3,4) j(1) n
    by (cases "res_status res") (auto simp: life_ok_def finished_def finish_events_def ends_with_result_def)
  ultimately show ?thesis using j by (simp add: rec_ok_def log_ok_def finished_def)
qed


lemma sched_okI:
  assumes "distinct x" "distinct (jm_running m)" "distinct (jm_records m)"
    "\<And>i. i \<in> set x \<longleftrightarrow> stat m i = Some Queued"
    "\<And>i. i \<in> set (jm_running m) \<longleftrightarrow> live_phase (phase_of m i)"
    "\<And>i. i \<in> set (jm_records m) \<Longrightarrow> jm_heap m i \<noteq> None"
    "length (jm_running m) \<le> jm_maxConcurrent m"
    "\<not> jm_tornDown m" "distinct (jm_terminalOrder m)"
    "\<And>i s. stat m i = Some s \<Longrightarrow> \<not> is_terminal s \<Longrightarrow> i \<in> set (jm_records m)"
    "\<And>i. i \<in> set (jm_terminalOrder m) \<longleftrightarrow>
       i \<in> set (jm_records m) \<and> (\<exists>s. stat m i = Some s \<and> is_terminal s)"
    "length (jm_terminalOrder m) \<le> jm_maxRetained m"
  shows "sched_ok x m"
  using assms unfolding sched_ok_def by (simp (no_asm_simp)) blast

lemma sched_ok_cong:
  assumes "same_jobs m n" "jm_running m = jm_running n" "jm_records m = jm_records n"
    "jm_terminalOrder m = jm_terminalOrder n" "jm_tornDown m = jm_tornDown n"
    "jm_maxConcurrent m = jm_maxConcurrent n" "jm_maxRetained m = jm_maxRetained n"
  shows "sched_ok x m = sched_ok x n"
  unfolding sched_ok_def using same_jobs_views [OF assms(1)] assms(2-) by simp

lemma set_phase_simps [simp]:
  "jm_records (set_phase j ph m) = jm_records m" "jm_queue (set_phase j ph m) = jm_queue m"
  "jm_running (set_phase j ph m) = jm_running m" "jm_terminalOrder (set_phase j ph m) = jm_terminalOrder m"
  "jm_stopped (set_phase j ph m) = jm_stopped m" "jm_tornDown (set_phase j ph m) = jm_tornDown m"
  "jm_out (set_phase j ph m) = jm_out m" "jm_executors (set_phase j ph m) = jm_executors m"
  "jm_maxConcurrent (set_phase j ph m) = jm_maxConcurrent m" "jm_maxQueued (set_phase j ph m) = jm_maxQueued m"
  "jm_maxRetained (set_phase j ph m) = jm_maxRetained m"
  by (simp_all add: set_phase_def)

lemma with_finished_simps [simp]:
  "jm_records (with_finished now j res r m) = jm_records m" "jm_queue (with_finished now j res r m) = jm_queue m"
  "jm_running (with_finished now j res r m) = jm_running m"
  "jm_terminalOrder (with_finished now j res r m) = jm_terminalOrder m @ [j]"
  "jm_heap (with_finished now j res r m) = (jm_heap m)(j \<mapsto> finished now j res r)"
  "jm_stopped (with_finished now j res r m) = jm_stopped m" "jm_tornDown (with_finished now j res r m) = jm_tornDown m"
  "jm_executors (with_finished now j res r m) = jm_executors m"
  "jm_maxConcurrent (with_finished now j res r m) = jm_maxConcurrent m" "jm_maxQueued (with_finished now j res r m) = jm_maxQueued m"
  "jm_maxRetained (with_finished now j res r m) = jm_maxRetained m"
  by (simp_all add: with_finished_def)

lemma finished_simps [simp]:
  "jb_status (finished now j res r) = res_status res" "jb_phase (finished now j res r) = jb_phase r"
  "jb_result (finished now j res r) = Some res" "jb_owner (finished now j res r) = jb_owner r"
  "jb_params (finished now j res r) = jb_params r" "jb_startedAt (finished now j res r) = jb_startedAt r"
  "jb_jobId (finished now j res r) = jb_jobId r"
  by (simp_all add: finished_def)

text \<open>\<open>core\<close> commutes with a phase change, so eviction and a phase change do too.\<close>

lemma core_phase: "core (r\<lparr>jb_phase := ph\<rparr>) = (core r)\<lparr>jb_phase := ph\<rparr>"
  by (simp add: core_def)

lemma same_jobs_set_phase: "same_jobs m n \<Longrightarrow> same_jobs (set_phase j ph m) (set_phase j ph n)"
  unfolding same_jobs_def set_phase_def
proof
  fix k
  assume a: "\<forall>j. map_option core (jm_heap m j) = map_option core (jm_heap n j)"
  show "map_option core (jm_heap (heap_upd j (\<lambda>r. r\<lparr>jb_phase := ph\<rparr>) m) k) =
      map_option core (jm_heap (heap_upd j (\<lambda>r. r\<lparr>jb_phase := ph\<rparr>) n) k)"
    using a [THEN spec, of k]
    by (cases "jm_heap m k"; cases "jm_heap n k") (auto simp: core_phase)
qed

text \<open>A job finishes: the step every terminal transition goes through.\<close>

lemma finish_ok:
  assumes js: "jobs_ok m" and so: "sched_ok x m"
    and r: "jm_heap m j = Some r" "\<not> is_terminal (jb_status r)"
    and c: "conforms (params_type (jb_params r)) j res"
    and ph: "ph \<in> {NotStarted, Releasing None, Ended None, Done}" "live_phase (jb_phase r) = live_phase ph"
  shows "jobs_ok (set_phase j ph (evict_if_needed (with_finished now j res r m))) \<and>
    sched_ok (remove1 j x) (set_phase j ph (evict_if_needed (with_finished now j res r m)))"
proof -
  let ?w = "with_finished now j res r m"
  let ?e = "evict_if_needed ?w"
  have rk: "rec_ok j r" using js r by (simp add: jobs_ok_def)
  have t: "is_terminal (res_status res)" using c by (rule conforms_terminal)
  have same: "same_jobs (set_phase j ph ?e) (set_phase j ph ?w)"
    by (intro same_jobs_set_phase same_jobs_evict)
  note v = same_jobs_views [OF same]
  have "jobs_ok (set_phase j ph ?w)"
    using js rec_ok_finished [OF rk r(2) c ph(1)]
    by (auto simp: jobs_ok_def set_phase_def)
  moreover have st: "\<And>i. stat (set_phase j ph ?w) i = (if i = j then Some (res_status res) else stat m i)"
    by (simp add: stat_def set_phase_def)
  moreover have pv: "\<And>i. live_phase (phase_of (set_phase j ph ?w) i) = live_phase (phase_of m i)"
    using r ph(2) by (simp add: phase_of_def set_phase_def)
  moreover have "sched_ok (remove1 j x) (set_phase j ph ?e)"
  proof (cases "jm_tornDown m")
    case True
    then have "jm_records m = []" using so by (simp add: sched_ok_def)
    then have "jm_records ?e = []"
      by (cases "jm_terminalOrder ?w") (simp_all add: evict_if_needed_def)
    with True so st pv v t show ?thesis by (auto simp: sched_ok_def)
  next
    case False
    then have rec: "j \<in> set (jm_records m)" "distinct (jm_records m)" "distinct (jm_terminalOrder m)"
      "j \<notin> set (jm_terminalOrder m)"
      "\<And>i. i \<in> set (jm_terminalOrder m) \<longleftrightarrow> i \<in> set (jm_records m) \<and> (\<exists>s. stat m i = Some s \<and> is_terminal s)"
      using so r by (auto simp: sched_ok_def stat_def)
    have "\<And>i. i \<in> set (jm_terminalOrder m @ [j]) \<longleftrightarrow> i \<in> set (jm_records ?w) \<and>
        (\<exists>r. jm_heap ?w i = Some r \<and> is_terminal (jb_status r))"
      using rec t by (auto simp: stat_simps)
    from evict_loop_lists [OF _ _ this] rec
    have l: "distinct (jm_terminalOrder ?e)" "distinct (jm_records ?e)"
      "set (jm_records ?e) \<subseteq> set (jm_records m)"
      "set (jm_records m) - set (jm_records ?e) \<subseteq> set (jm_terminalOrder m @ [j])"
      "\<And>i. i \<in> set (jm_terminalOrder ?e) \<longleftrightarrow> i \<in> set (jm_terminalOrder m @ [j]) \<and> i \<in> set (jm_records ?e)"
      "jm_terminalOrder ?e = [] \<or> length (jm_records ?e) \<le> jm_maxRetained m"
      by (auto simp: evict_if_needed_def)
    have len: "length (jm_terminalOrder ?e) \<le> jm_maxRetained m"
    proof (cases "jm_terminalOrder ?e = []")
      case False
      have "length (jm_terminalOrder ?e) \<le> length (jm_records ?e)"
        using l(1,2,5) by (metis card_mono distinct_card finite_set subsetI)
      with l(6) False show ?thesis by simp
    qed simp
    have q: "distinct (remove1 j x)" "\<And>i. i \<in> set (remove1 j x) \<longleftrightarrow> i \<noteq> j \<and> stat m i = Some Queued"
      using so by (auto simp: sched_ok_def)
    have "i \<in> set (jm_records ?e)" if "stat m i = Some s" "\<not> is_terminal s" "i \<noteq> j" for i s
    proof -
      have "i \<in> set (jm_records m)" using so False that by (auto simp: sched_ok_def)
      moreover have "i \<notin> set (jm_terminalOrder m @ [j])" using rec(5) [of i] that by simp
      ultimately show ?thesis using l(4) by blast
    qed
    moreover have "\<And>i. i \<in> set (jm_records ?e) \<Longrightarrow> jm_heap m i \<noteq> None"
      using so l(3) by (auto simp: sched_ok_def)
    ultimately have R: "\<And>i s. stat m i = Some s \<Longrightarrow> \<not> is_terminal s \<Longrightarrow> i \<noteq> j \<Longrightarrow> i \<in> set (jm_records ?e)"
      "\<And>i. i \<in> set (jm_records ?e) \<Longrightarrow> jm_heap m i \<noteq> None" by blast+
    let ?F = "set_phase j ph ?e"
    have F: "\<And>i. stat ?F i = (if i = j then Some (res_status res) else stat m i)"
      "\<And>i. live_phase (phase_of ?F i) = live_phase (phase_of m i)"
      using v(1,2) st pv by simp_all
    have H: "\<And>i. i \<in> set (jm_records ?F) \<Longrightarrow> jm_heap ?F i \<noteq> None"
      using R(2) v(3) r(1) by (auto simp: set_phase_def split: if_splits)
    show ?thesis
    proof (rule sched_okI)
      show "\<And>i. i \<in> set (remove1 j x) \<longleftrightarrow> stat ?F i = Some Queued" using q(2) F(1) t by auto
      show "\<And>i. i \<in> set (jm_running ?F) \<longleftrightarrow> live_phase (phase_of ?F i)"
        using so F(2) by (simp add: sched_ok_def)
      show "\<And>i s. stat ?F i = Some s \<Longrightarrow> \<not> is_terminal s \<Longrightarrow> i \<in> set (jm_records ?F)"
        using R(1) F(1) t by (auto split: if_splits)
      show "\<And>i. i \<in> set (jm_terminalOrder ?F) \<longleftrightarrow>
          i \<in> set (jm_records ?F) \<and> (\<exists>s. stat ?F i = Some s \<and> is_terminal s)"
        using l(3,5) F(1) t rec(5) by auto
    qed (use so False q H l len in \<open>auto simp: sched_ok_def\<close>)
  qed
  ultimately show ?thesis using v(4) by simp
qed


section \<open>Starting queued jobs\<close>

definition started :: "int \<Rightarrow> job_record \<Rightarrow> job_record" where
  "started now r =
     r\<lparr>jb_status := Running, jb_startedAt := Some now,
       jb_events := jb_events r @ [\<lparr>ev_jobId = jb_jobId r, ev_seq = length (jb_events r), ev_ts = now, ev_body = StatusEv Running\<rparr>],
       jb_phase := Resolving\<rparr>"

lemma start_job_heap:
  assumes "jm_heap m j = Some r" "rec_ok j r"
  shows "jm_heap (start_job tk j m) = (jm_heap m)(j \<mapsto> started (tk_now tk) r)"
    "jm_running (start_job tk j m) = jset_add j (jm_running m)"
    "jm_records (start_job tk j m) = jm_records m" "jm_queue (start_job tk j m) = jm_queue m"
    "jm_terminalOrder (start_job tk j m) = jm_terminalOrder m"
    "jm_stopped (start_job tk j m) = jm_stopped m" "jm_tornDown (start_job tk j m) = jm_tornDown m"
    "jm_maxConcurrent (start_job tk j m) = jm_maxConcurrent m" "jm_maxQueued (start_job tk j m) = jm_maxQueued m"
    "jm_maxRetained (start_job tk j m) = jm_maxRetained m" "jm_executors (start_job tk j m) = jm_executors m"
  using assms event_ok_plain [of j "StatusEv Running"]
  by (auto simp: start_job_def append_event_def Let_def rec_ok_def set_phase_def heap_upd_def started_def
      intro!: ext)

lemma rec_ok_started: "rec_ok j r \<Longrightarrow> jb_status r = Queued \<Longrightarrow> rec_ok j (started now r)"
  using event_ok_plain [of j "StatusEv Running" 0 now]
  by (auto simp: rec_ok_def log_ok_def life_ok_def started_def no_result_def)

lemma start_job_ok:
  assumes "jobs_ok m" "sched_ok (j # js) m" "length (jm_running m) < jm_maxConcurrent m"
  shows "jobs_ok (start_job tk j m) \<and> sched_ok js (start_job tk j m)"
proof -
  have q: "stat m j = Some Queued" using assms(2) by (auto simp: sched_ok_def)
  then obtain r where r: "jm_heap m j = Some r" "jb_status r = Queued" by (auto simp: stat_def)
  have rk: "rec_ok j r" using assms(1) r by (simp add: jobs_ok_def)
  note h = start_job_heap [OF r(1) rk, of tk]
  have "jb_phase r = NotStarted" using rk r by (simp add: rec_ok_def life_ok_def)
  then have nr: "j \<notin> set (jm_running m)"
    using assms(2) r by (auto simp: sched_ok_def phase_of_def live_phase_def)
  let ?m = "start_job tk j m"
  have st: "\<And>i. stat ?m i = (if i = j then Some Running else stat m i)"
    by (simp add: stat_def h started_def)
  have ph: "\<And>i. live_phase (phase_of ?m i) \<longleftrightarrow> i = j \<or> live_phase (phase_of m i)"
    by (simp add: phase_of_def h started_def live_phase_def)
  have "jobs_ok ?m" using assms(1) rec_ok_started [OF rk r(2)] by (simp add: jobs_ok_def h)
  moreover have "length (jm_running ?m) \<le> jm_maxConcurrent ?m"
    using assms(3) nr by (simp add: h length_jset_add)
  moreover have "distinct (j # js)" "\<And>i. i \<in> set (j # js) \<longleftrightarrow> stat m i = Some Queued"
    using assms(2) by (auto simp: sched_ok_def)
  then have "distinct js \<and> (\<forall>i. i \<in> set js \<longleftrightarrow> stat ?m i = Some Queued)"
    using st by auto
  moreover have "distinct (jm_running ?m) \<and> (\<forall>i. i \<in> set (jm_running ?m) \<longleftrightarrow> live_phase (phase_of ?m i))"
    using assms(2) ph by (auto simp: sched_ok_def h)
  moreover have "\<forall>i. i \<in> set (jm_records ?m) \<longrightarrow> jm_heap ?m i \<noteq> None"
    using assms(2) by (auto simp: sched_ok_def h)
  moreover have "if jm_tornDown ?m then jm_records ?m = []
       else distinct (jm_terminalOrder ?m) \<and>
         (\<forall>i. (\<exists>s. stat ?m i = Some s \<and> \<not> is_terminal s) \<longrightarrow> i \<in> set (jm_records ?m)) \<and>
         (\<forall>i. i \<in> set (jm_terminalOrder ?m) \<longleftrightarrow>
            i \<in> set (jm_records ?m) \<and> (\<exists>s. stat ?m i = Some s \<and> is_terminal s)) \<and>
         length (jm_terminalOrder ?m) \<le> jm_maxRetained ?m"
    using assms(2) st q by (auto simp: sched_ok_def h)
  moreover have "distinct (jm_records ?m)" using assms(2) by (simp add: sched_ok_def h)
  ultimately show ?thesis unfolding sched_ok_def by simp
qed

text \<open>\<open>pump\<close> never skips: every queued id is a retained, queued job.\<close>

lemma pump_loop_ok:
  assumes "jobs_ok m" "sched_ok js m" "\<not> jm_tornDown m"
  shows "jobs_ok (pump_loop tk js m) \<and> sched_ok (jm_queue (pump_loop tk js m)) (pump_loop tk js m) \<and>
    (jm_queue (pump_loop tk js m) = [] \<or> length (jm_running (pump_loop tk js m)) = jm_maxConcurrent m) \<and>
    length (jm_queue (pump_loop tk js m)) \<le> length js - (jm_maxConcurrent m - length (jm_running m)) \<and>
    jm_stopped (pump_loop tk js m) = jm_stopped m \<and> jm_tornDown (pump_loop tk js m) = jm_tornDown m \<and>
    jm_maxConcurrent (pump_loop tk js m) = jm_maxConcurrent m \<and> jm_maxQueued (pump_loop tk js m) = jm_maxQueued m \<and>
    jm_maxRetained (pump_loop tk js m) = jm_maxRetained m \<and> jm_executors (pump_loop tk js m) = jm_executors m \<and>
    jm_records (pump_loop tk js m) = jm_records m"
  using assms
proof (induction js arbitrary: m)
  case Nil
  have "same_jobs (m\<lparr>jm_queue := []\<rparr>) m" by (simp add: same_jobs_def)
  then have "jobs_ok (m\<lparr>jm_queue := []\<rparr>)" "sched_ok [] (m\<lparr>jm_queue := []\<rparr>)"
    using Nil sched_ok_cong [of "m\<lparr>jm_queue := []\<rparr>" m "[]"] by (simp_all add: same_jobs_views(4))
  then show ?case by simp
next
  case (Cons j js)
  show ?case
  proof (cases "length (jm_running m) < jm_maxConcurrent m")
    case False
    let ?n = "m\<lparr>jm_queue := j # js\<rparr>"
    have "same_jobs ?n m" by (simp add: same_jobs_def)
    then have "jobs_ok ?n" "sched_ok (j # js) ?n"
      using Cons.prems sched_ok_cong [of ?n m "j # js"] by (simp_all add: same_jobs_views(4))
    moreover have "length (jm_running m) = jm_maxConcurrent m"
      using False Cons.prems(2) by (simp add: sched_ok_def)
    ultimately show ?thesis using False by simp
  next
    case True
    have "stat m j = Some Queued" using Cons.prems(2) by (auto simp: sched_ok_def)
    then obtain r where r: "jm_heap m j = Some r" "jb_status r = Queued" by (auto simp: stat_def)
    have "j \<in> set (jm_records m)"
      using Cons.prems(2,3) \<open>stat m j = Some Queued\<close> unfolding sched_ok_def by (metis is_terminal_simps(4))
    then have g: "records_get m j = Some r" using r by (simp add: records_get_def)
    have rk: "rec_ok j r" using Cons.prems(1) r by (simp add: jobs_ok_def)
    note h = start_job_heap [OF r(1) rk, of tk]
    have "jb_phase r = NotStarted" using rk r by (simp add: rec_ok_def life_ok_def)
    then have nr: "j \<notin> set (jm_running m)"
      using Cons.prems(2) r by (auto simp: sched_ok_def phase_of_def live_phase_def)
    have e: "pump_loop tk (j # js) m = pump_loop tk js (start_job tk j m)"
      using True g r by simp
    from start_job_ok [OF Cons.prems(1,2) True]
    have "jobs_ok (start_job tk j m)" "sched_ok js (start_job tk j m)" by simp_all
    from Cons.IH [OF this] Cons.prems(3) nr True show ?thesis
      unfolding e by (simp add: h length_jset_add)
  qed
qed

lemma pump_inv:
  assumes "jobs_ok m" "sched_ok (jm_queue m) m" "jm_tornDown m \<longrightarrow> jm_stopped m"
    "jm_stopped m \<longrightarrow> jm_queue m = []"
    "length (jm_queue m) \<le> jm_maxQueued m \<or>
       (length (jm_running m) < jm_maxConcurrent m \<and> length (jm_queue m) \<le> Suc (jm_maxQueued m))"
  shows "jm_inv (pump tk m)"
proof (cases "jm_stopped m")
  case True
  with assms show ?thesis by (auto simp: pump_def jm_inv_def work_conserving_def)
next
  case False
  with assms have "\<not> jm_tornDown m" by simp
  from pump_loop_ok [OF assms(1,2) this, of tk] False assms(3-5) show ?thesis
    by (auto simp: pump_def jm_inv_def work_conserving_def)
qed


section \<open>Steps that preserve the invariant\<close>

lemma jm_inv_cong:
  assumes "jm_inv m" "jobs_ok n" "\<And>i. stat n i = stat m i"
    "\<And>i. live_phase (phase_of n i) = live_phase (phase_of m i)"
    "jm_records n = jm_records m" "jm_queue n = jm_queue m" "jm_running n = jm_running m"
    "jm_terminalOrder n = jm_terminalOrder m" "jm_stopped n = jm_stopped m" "jm_tornDown n = jm_tornDown m"
    "jm_maxConcurrent n = jm_maxConcurrent m" "jm_maxQueued n = jm_maxQueued m"
    "jm_maxRetained n = jm_maxRetained m"
  shows "jm_inv n"
proof -
  have "\<And>i. jm_heap n i = None \<longleftrightarrow> jm_heap m i = None"
    using assms(3) by (metis option.map_disc_iff stat_def)
  with assms show ?thesis unfolding jm_inv_def sched_ok_def work_conserving_def by (simp (no_asm_simp))
qed

lemma jm_inv_same_jobs:
  assumes "jm_inv m" "same_jobs n m"
    "jm_records n = jm_records m" "jm_queue n = jm_queue m" "jm_running n = jm_running m"
    "jm_terminalOrder n = jm_terminalOrder m" "jm_stopped n = jm_stopped m" "jm_tornDown n = jm_tornDown m"
    "jm_maxConcurrent n = jm_maxConcurrent m" "jm_maxQueued n = jm_maxQueued m"
    "jm_maxRetained n = jm_maxRetained m"
  shows "jm_inv n"
  using same_jobs_views [OF assms(2)] assms(1)
  by (intro jm_inv_cong [OF assms(1)]) (auto simp: assms jm_inv_def)

lemma jm_inv_heap_upd:
  assumes "jm_inv m" "\<And>r. jb_status (f r) = jb_status r"
    "\<And>r. jm_heap m j = Some r \<Longrightarrow> live_phase (jb_phase (f r)) = live_phase (jb_phase r)"
    "\<And>r. jm_heap m j = Some r \<Longrightarrow> rec_ok j r \<Longrightarrow> rec_ok j (f r)"
  shows "jm_inv (heap_upd j f m)"
proof (rule jm_inv_cong [OF assms(1)])
  show "jobs_ok (heap_upd j f m)" using assms(1,4) by (auto simp: jobs_ok_def jm_inv_def)
  show "stat (heap_upd j f m) i = stat m i" for i
    using assms(2) by (cases "jm_heap m j") (auto simp: stat_def)
  show "live_phase (phase_of (heap_upd j f m) i) = live_phase (phase_of m i)" for i
    using assms(3) by (cases "jm_heap m j") (auto simp: phase_of_def)
qed simp_all

lemma rec_ok_fields:
  "rec_ok j (r\<lparr>jb_aborted := b\<rparr>) = rec_ok j r" "rec_ok j (r\<lparr>jb_subscribers := x\<rparr>) = rec_ok j r"
  using core_eq_fields [of "r\<lparr>jb_subscribers := x\<rparr>" r] 
  by (cases "jb_status r"; simp add: rec_ok_def log_ok_def life_ok_def ends_with_result_def core_def)+

lemma set_phase_same: "phase_of m j = ph \<Longrightarrow> set_phase j ph m = m"
  by (auto simp: phase_of_def set_phase_def heap_upd_def fun_upd_idem split: option.splits)

lemma running_rec:
  assumes "jm_inv m" "jm_heap m j = Some r"
  shows "rec_ok j r" "jb_phase r \<in> {Resolving, Executing} \<longleftrightarrow> jb_status r = Running"
    "jb_phase r = Ended e \<or> jb_phase r = Releasing e \<Longrightarrow> is_terminal (jb_status r) \<and> e = None"
proof -
  show rk: "rec_ok j r" using assms by (simp add: jm_inv_def jobs_ok_def)
  then show "jb_phase r \<in> {Resolving, Executing} \<longleftrightarrow> jb_status r = Running"
    by (cases "jb_status r") (auto simp: rec_ok_def life_ok_def)
  show "jb_phase r = Ended e \<or> jb_phase r = Releasing e \<Longrightarrow> is_terminal (jb_status r) \<and> e = None"
    using rk by (cases "jb_status r") (auto simp: rec_ok_def life_ok_def)
qed

lemma not_queued: "jm_inv m \<Longrightarrow> jm_heap m j = Some r \<Longrightarrow> jb_status r \<noteq> Queued \<Longrightarrow> j \<notin> set (jm_queue m)"
  by (auto simp: jm_inv_def sched_ok_def stat_def)

lemma finish_then_inv:
  assumes m: "jm_inv m" and r: "jm_heap m j = Some r" "jb_status r = Running"
    and c: "conforms (params_type (jb_params r)) j res"
    and ph: "phf None \<in> {Releasing None, Ended None}"
  shows "jm_inv (finish_then phf tk j res m)"
proof -
  note rr = running_rec [OF m r(1)]
  have nt: "\<not> is_terminal (jb_status r)" using r by simp
  have lp: "live_phase (jb_phase r) = live_phase (phf None)"
    using rr(2) r(2) ph by (auto simp: live_phase_def)
  have e: "finish_then phf tk j res m =
    set_phase j (phf None) (evict_if_needed (with_finished (tk_now tk) j res r m))"
    by (simp add: finish_then_def finish_job_conforming [OF r(1) rr(1) nt c])
  have q: "remove1 j (jm_queue m) = jm_queue m"
    using not_queued [OF m r(1)] r(2) by (simp add: remove1_idem)
  from finish_ok [OF _ _ r(1) nt c _ lp, of "jm_queue m" "tk_now tk"] m ph q
  have "jobs_ok (finish_then phf tk j res m)" "sched_ok (jm_queue m) (finish_then phf tk j res m)"
    by (auto simp: e jm_inv_def)
  with m show ?thesis by (auto simp: jm_inv_def e work_conserving_def)
qed

definition clock_ok :: "int \<Rightarrow> manager \<Rightarrow> bool" where
  "clock_ok now m = (\<forall>j r t. jm_heap m j = Some r \<longrightarrow> jb_startedAt r = Some t \<longrightarrow> t \<le> now)"

lemma plain_conforms:
  assumes "jm_inv m" "clock_ok now m" "jm_heap m j = Some r" "s = Failed \<or> s = Canceled"
  shows "conforms (params_type (jb_params r)) j (plain_result now r s e)"
proof -
  have "rec_ok j r" using assms by (simp add: jm_inv_def jobs_ok_def)
  moreover have "0 \<le> elapsed_ms now r"
    using assms(2,3) by (auto simp: elapsed_ms_def clock_ok_def split: option.splits)
  ultimately show ?thesis
    using plain_result_conforms [of r s now e] assms(4) by (auto simp: rec_ok_def)
qed

lemma workspace_done_inv:
  assumes "jm_inv m" "clock_ok (tk_now tk) m"
  shows "jm_inv (workspace_done tk j w m)"
proof (cases "jm_heap m j")
  case (Some r)
  show ?thesis
  proof (cases "jb_phase r = Resolving")
    case True
    then have run: "jb_status r = Running" using running_rec(2) [OF assms(1) Some] by simp
    note pc = plain_conforms [OF assms Some]
    have "jm_inv (set_phase j Executing m)"
      unfolding set_phase_def
    proof (rule jm_inv_heap_upd [OF assms(1)])
      fix r'
      assume r': "jm_heap m j = Some r'"
      then have "r' = r" using Some by simp
      then show "live_phase (jb_phase (r'\<lparr>jb_phase := Executing\<rparr>)) = live_phase (jb_phase r')"
        using True by (simp add: live_phase_def)
      show "rec_ok j r' \<Longrightarrow> rec_ok j (r'\<lparr>jb_phase := Executing\<rparr>)"
        using \<open>r' = r\<close> run by (auto simp: rec_ok_def log_ok_def life_ok_def)
    qed simp
    then have "jm_inv ((set_phase j Executing m)\<lparr>jm_out := o'\<rparr>)" for o'
      by (rule jm_inv_same_jobs) (simp_all add: same_jobs_def)
    with True Some run pc show ?thesis
      by (auto simp: workspace_done_def workspace_unavailable_result_def canceled_result_def error_result_def
          intro!: finish_then_inv [OF assms(1) Some] split: ws_outcome.split)
  qed (simp add: workspace_done_def Some assms(1))
qed (simp add: workspace_done_def assms(1))

lemma exec_done_inv:
  assumes "jm_inv m" "clock_ok (tk_now tk) m"
    "\<And>r res. jm_heap m j = Some r \<Longrightarrow> jb_phase r = Executing \<Longrightarrow> x = Returned res \<Longrightarrow>
       conforms (params_type (jb_params r)) j res"
  shows "jm_inv (exec_done tk j x m)"
proof (cases "jm_heap m j")
  case (Some r)
  show ?thesis
  proof (cases "jb_phase r = Executing")
    case True
    then have run: "jb_status r = Running" using running_rec(2) [OF assms(1) Some] by simp
    from True Some run plain_conforms [OF assms(1,2) Some] assms(3) [OF Some True] show ?thesis
      by (auto simp: exec_done_def error_result_def
          intro!: finish_then_inv [OF assms(1) Some] split: exec_outcome.split)
  qed (simp add: exec_done_def Some assms(1))
qed (simp add: exec_done_def assms(1))

lemma release_done_inv:
  assumes "jm_inv m"
  shows "jm_inv (release_done j m)"
proof (cases "jm_heap m j")
  case (Some r)
  show ?thesis
  proof (cases "jb_phase r")
    case (Releasing e)
    have t: "is_terminal (jb_status r) \<and> e = None" using running_rec(3) [OF assms Some] Releasing by blast
    have "jm_inv (heap_upd j (\<lambda>r. r\<lparr>jb_phase := Ended e\<rparr>) m)"
    proof (rule jm_inv_heap_upd [OF assms])
      fix r'
      assume "jm_heap m j = Some r'"
      then have r': "r' = r" using Some by simp
      then show "live_phase (jb_phase (r'\<lparr>jb_phase := Ended e\<rparr>)) = live_phase (jb_phase r')"
        using Releasing by (simp add: live_phase_def)
      show "rec_ok j r' \<Longrightarrow> rec_ok j (r'\<lparr>jb_phase := Ended e\<rparr>)"
        using r' t Releasing by (cases "jb_status r") (auto simp: rec_ok_def log_ok_def life_ok_def ends_with_result_def)
    qed simp
    then show ?thesis using Some Releasing by (simp add: release_done_def phase_of_def set_phase_def)
  qed (simp_all add: release_done_def phase_of_def Some assms)
qed (simp add: release_done_def phase_of_def assms)


lemma run_ended_inv:
  assumes "jm_inv m"
  shows "jm_inv (run_ended tk j m)"
proof (cases "jm_heap m j")
  case (Some r)
  show ?thesis
  proof (cases "jb_phase r")
    case (Ended e)
    then have t: "is_terminal (jb_status r)" "e = None"
      using running_rec(3) [OF assms Some] by blast+
    let ?n = "(set_phase j Done m)\<lparr>jm_running := remove1 j (jm_running m)\<rparr>"
    have h: "jm_heap ?n = (jm_heap m)(j \<mapsto> r\<lparr>jb_phase := Done\<rparr>)"
      using Some by (auto simp: set_phase_def heap_upd_def)
    have rk: "rec_ok j (r\<lparr>jb_phase := Done\<rparr>)"
      using running_rec(1) [OF assms Some] t(1)
      by (cases "jb_status r") (auto simp: rec_ok_def log_ok_def life_ok_def ends_with_result_def)
    have st: "\<And>i. stat ?n i = stat m i" using Some by (simp add: stat_def h)
    have ph: "\<And>i. live_phase (phase_of ?n i) \<longleftrightarrow> i \<noteq> j \<and> live_phase (phase_of m i)"
      by (simp add: phase_of_def h live_phase_def)
    have run: "distinct (jm_running ?n)" "\<And>i. i \<in> set (jm_running ?n) \<longleftrightarrow> live_phase (phase_of ?n i)"
      "length (jm_running ?n) \<le> jm_maxConcurrent m"
      "j \<in> set (jm_running m)"
      using assms ph Ended Some
      by (auto simp: jm_inv_def sched_ok_def length_remove1 phase_of_def live_phase_def)
    have js: "jobs_ok ?n" using assms rk by (simp add: jm_inv_def jobs_ok_def h)
    have hn: "\<And>i. jm_heap ?n i = None \<longleftrightarrow> jm_heap m i = None" using Some by (simp add: h)
    have so: "sched_ok (jm_queue ?n) ?n"
      using assms unfolding jm_inv_def sched_ok_def st hn by (simp (no_asm_simp)) (use run in auto)
    have "jm_inv (pump tk ?n)"
      by (rule pump_inv [OF js so]) (use assms in \<open>auto simp: jm_inv_def work_conserving_def\<close>)
    then show ?thesis using Some Ended t by (simp add: run_ended_def)
  qed (simp_all add: run_ended_def Some assms)
qed (simp add: run_ended_def assms)

lemma cancel_inv:
  assumes "jm_inv m" "clock_ok now m"
  shows "jm_inv (snd (cancel now j owner m))"
proof (cases "get_owned m j owner")
  case (Inl e)
  then show ?thesis using assms by (simp add: cancel_def)
next
  case (Inr r)
  then have r: "jm_heap m j = Some r"
    by (auto simp: get_owned_def records_get_def split: option.splits if_splits)
  note rk = running_rec(1) [OF assms(1) r]
  show ?thesis
  proof (cases "jb_status r = Queued")
    case True
    then have nt: "\<not> is_terminal (jb_status r)" by simp
    have c: "conforms (params_type (jb_params r)) j (canceled_result now r)"
      unfolding canceled_result_def by (rule plain_conforms [OF assms r]) simp
    let ?q = "m\<lparr>jm_queue := remove1 j (jm_queue m)\<rparr>"
    let ?w = "with_finished now j (canceled_result now r) r ?q"
    have rq: "jm_heap ?q j = Some r" using r by simp
    have ns: "jb_phase r = NotStarted" using rk True by (simp add: rec_ok_def life_ok_def)
    have sq: "same_jobs ?q m" by (simp add: same_jobs_def)
    have "jobs_ok ?q" "sched_ok (jm_queue m) ?q"
      using assms(1) sched_ok_cong [OF sq, of "jm_queue m"] by (simp_all add: jm_inv_def same_jobs_views(4) [OF sq])
    from finish_ok [OF this rq nt c, of NotStarted now] ns
    have f: "jobs_ok (set_phase j NotStarted (evict_if_needed ?w))"
      "sched_ok (remove1 j (jm_queue m)) (set_phase j NotStarted (evict_if_needed ?w))" by auto
    have "phase_of (evict_if_needed ?w) j = NotStarted"
      using same_jobs_views(2) [OF same_jobs_evict, of ?w j] ns by (simp add: phase_of_def)
    with f have f: "jobs_ok (evict_if_needed ?w)" "sched_ok (remove1 j (jm_queue m)) (evict_if_needed ?w)"
      by (simp_all add: set_phase_same)
    have "length (remove1 j (jm_queue m)) \<le> length (jm_queue m)" by (simp add: length_remove1)
    with f assms(1) have "jm_inv (evict_if_needed ?w)"
      unfolding jm_inv_def work_conserving_def by (auto split: if_splits)
    moreover have "jm_heap (evict_if_needed ?w) j \<noteq> None"
      using same_jobs_views(3) [OF same_jobs_evict, of ?w j] by simp
    ultimately show ?thesis
      using Inr True finish_job_conforming [OF rq rk nt c]
      by (auto simp: cancel_def split: option.splits)
  next
    case False
    have "jm_inv (heap_upd j (\<lambda>r. r\<lparr>jb_aborted := True\<rparr>) m)"
      by (rule jm_inv_heap_upd [OF assms(1)]) (simp_all add: rec_ok_fields)
    with assms(1) Inr False show ?thesis by (simp add: cancel_def)
  qed
qed

text \<open>When each job started: what the clock hypothesis is about.\<close>

definition started_at :: "manager \<Rightarrow> string \<Rightarrow> int option" where
  "started_at m j = (case jm_heap m j of None \<Rightarrow> None | Some r \<Rightarrow> jb_startedAt r)"

lemma clock_ok_started_at:
  "clock_ok now m \<longleftrightarrow> (\<forall>j t. started_at m j = Some t \<longrightarrow> t \<le> now)"
  by (auto simp: clock_ok_def started_at_def split: option.splits)

lemma started_at_same_jobs: "same_jobs n m \<Longrightarrow> started_at n i = started_at m i"
  unfolding same_jobs_def started_at_def
  by (cases "jm_heap n i"; cases "jm_heap m i") (auto dest!: spec [of _ i] core_eq_fields)

lemma started_at_evict [simp]: "started_at (evict_if_needed m) i = started_at m i"
  by (rule started_at_same_jobs [OF same_jobs_evict])

lemma started_at_heap_upd:
  "(\<And>r. jb_startedAt (f r) = jb_startedAt r) \<Longrightarrow> started_at (heap_upd j f m) i = started_at m i"
  by (simp add: started_at_def split: option.splits)

lemma started_at_lists [simp]:
  "started_at (m\<lparr>jm_terminalOrder := x\<rparr>) i = started_at m i"
  "started_at (m\<lparr>jm_queue := x\<rparr>) i = started_at m i"
  "started_at (m\<lparr>jm_out := y\<rparr>) i = started_at m i"
  by (simp_all add: started_at_def)

lemma append_event_started:
  "append_event t j b m = Some n \<Longrightarrow> started_at n i = started_at m i"
  by (auto simp: append_event_def Let_def started_at_heap_upd split: option.splits if_splits)

lemma finish_job_started [simp]: "started_at (snd (finish_job now j res m)) i = started_at m i"
  by (auto simp: finish_job_def Let_def started_at_heap_upd
      split: option.splits dest!: append_event_started [of _ _ _ _ _ i])

lemma cancel_started [simp]: "started_at (snd (cancel now j owner m)) i = started_at m i"
proof (cases "get_owned m j owner")
  case (Inr r)
  have "started_at (snd (finish_job now j (canceled_result now r) (m\<lparr>jm_queue := remove1 j (jm_queue m)\<rparr>))) i =
      started_at m i" by simp
  with Inr show ?thesis
    by (cases "finish_job now j (canceled_result now r) (m\<lparr>jm_queue := remove1 j (jm_queue m)\<rparr>)")
       (auto simp: cancel_def started_at_heap_upd split: bool.splits option.splits)
qed (simp add: cancel_def)

lemma cancel_each_inv:
  "jm_inv m \<Longrightarrow> clock_ok now m \<Longrightarrow> jm_inv (snd (cancel_each now owner js (n, m)))"
proof (induction js arbitrary: n m)
  case (Cons j js)
  have "clock_ok now (snd (cancel now j owner m))"
    using Cons.prems(2) by (simp add: clock_ok_started_at)
  with Cons cancel_inv [OF Cons.prems] show ?case by (auto split: option.splits)
qed simp


lemma submit_inv:
  assumes "jm_inv m" "jm_heap m j = None" "job_id_ok j" "job_params_ok params"
  shows "jm_inv (snd (submit resolve tk params owner j m))"
proof (cases "fst (submit resolve tk params owner j m)")
  case (Inl e)
  then have "snd (submit resolve tk params owner j m) = m"
    by (auto simp: submit_def split: if_splits model_resolution.splits)
  with assms show ?thesis by simp
next
  case (Inr x)
  then obtain ep where
    ns: "\<not> jm_stopped m" and room: "\<not> (jm_maxConcurrent m \<le> length (jm_running m) \<and> jm_maxQueued m \<le> length (jm_queue m))"
    and sub: "snd (submit resolve tk params owner j m) = pump tk (m\<lparr>jm_heap := (jm_heap m)(j \<mapsto>
                  \<lparr>jb_jobId = j, jb_owner = owner, jb_params = params, jb_status = Queued,
                   jb_endpoint = ep, jb_result = None, jb_events = [], jb_subscribers = [],
                   jb_aborted = False, jb_createdAt = tk_now tk, jb_startedAt = None,
                   jb_terminalAt = None, jb_phase = NotStarted\<rparr>),
                jm_records := jset_add j (jm_records m), jm_queue := jm_queue m @ [j]\<rparr>)"
    (is "_ = pump tk ?n")
    by (auto simp: submit_def split: if_splits model_resolution.splits)
  have nt: "\<not> jm_tornDown m" using assms(1) ns by (auto simp: jm_inv_def)
  have so: "sched_ok (jm_queue m) m" using assms(1) by (simp add: jm_inv_def)
  have fresh: "j \<notin> set (jm_records m)" "j \<notin> set (jm_queue m)" "stat m j = None"
    using so assms(2) by (auto simp: sched_ok_def stat_def)
  have st: "\<And>i. stat ?n i = (if i = j then Some Queued else stat m i)" by (simp add: stat_def)
  have ph: "\<And>i. live_phase (phase_of ?n i) = live_phase (phase_of m i)"
    using assms(2) by (simp add: phase_of_def live_phase_def)
  have js: "jobs_ok ?n"
    using assms by (auto simp: jm_inv_def jobs_ok_def rec_ok_def log_ok_def life_ok_def)
  have so': "sched_ok (jm_queue ?n) ?n"
  proof (rule sched_okI)
    show "\<And>i. i \<in> set (jm_terminalOrder ?n) \<longleftrightarrow>
        i \<in> set (jm_records ?n) \<and> (\<exists>s. stat ?n i = Some s \<and> is_terminal s)"
      using so nt fresh st by (auto simp: sched_ok_def)
    show "\<And>i. i \<in> set (jm_queue ?n) \<longleftrightarrow> stat ?n i = Some Queued"
      using so fresh st by (auto simp: sched_ok_def)
    show "\<And>i. i \<in> set (jm_running ?n) \<longleftrightarrow> live_phase (phase_of ?n i)"
      using so ph by (simp add: sched_ok_def)
    show "\<And>i s. stat ?n i = Some s \<Longrightarrow> \<not> is_terminal s \<Longrightarrow> i \<in> set (jm_records ?n)"
      using so nt st by (auto simp: sched_ok_def split: if_splits)
  qed (use so nt fresh in \<open>auto simp: sched_ok_def\<close>)
  have "length (jm_queue ?n) \<le> jm_maxQueued ?n \<or>
      (length (jm_running ?n) < jm_maxConcurrent ?n \<and> length (jm_queue ?n) \<le> Suc (jm_maxQueued ?n))"
    using assms(1) room by (auto simp: jm_inv_def)
  from pump_inv [OF js so' _ _ this] ns nt show ?thesis by (simp add: sub)
qed

lemma core_subscribers: "core (r\<lparr>jb_subscribers := x\<rparr>) = core r"
  by (simp add: core_def)

lemma same_jobs_subscribers: "same_jobs (heap_upd j (\<lambda>r. r\<lparr>jb_subscribers := f r\<rparr>) m) m"
  by (simp add: same_jobs_def option.map_comp comp_def core_subscribers)

lemma subscribe_inv: "jm_inv m \<Longrightarrow> jm_inv (snd (subscribe j owner n s m))"
proof (erule jm_inv_same_jobs)
  show "same_jobs (snd (subscribe j owner n s m)) m"
    by (auto simp: subscribe_def Let_def same_jobs_def option.map_comp comp_def core_subscribers split: sum.splits)
qed (auto simp: subscribe_def Let_def split: sum.splits)

lemma unsubscribe_inv: "jm_inv m \<Longrightarrow> jm_inv (unsubscribe j s m)"
  by (erule jm_inv_same_jobs) (simp_all add: unsubscribe_def same_jobs_subscribers)

lemma emit_inv:
  assumes "jm_inv m"
  shows "jm_inv (executor_emits tk j p m)"
proof (cases "executor_emits tk j p m = m")
  case False
  then obtain r b n where r: "jm_heap m j = Some r" "\<not> is_terminal (jb_status r)" "payload_body p = Some b"
    and n: "append_event (tk_now tk) j b m = Some n" "executor_emits tk j p m = n"
    and ph: "phase_of m j \<notin> {NotStarted, Resolving}"
    by (cases p) (auto simp: executor_emits_def emit_executor_event_def split: option.splits if_splits)
  have b: "\<not> is_result_ev b" using r(3) by (cases p) auto
  have rk: "rec_ok j r" using running_rec(1) [OF assms r(1)] .
  have run: "jb_status r = Running"
    using rk r ph by (cases "jb_status r") (auto simp: rec_ok_def life_ok_def phase_of_def)
  let ?e = "\<lparr>ev_jobId = jb_jobId r, ev_seq = length (jb_events r), ev_ts = tk_now tk, ev_body = b\<rparr>"
  have e: "job_event_ok ?e" using b rk by (intro event_ok_plain) (auto simp: rec_ok_def)
  have "jm_inv (heap_upd j (\<lambda>r. r\<lparr>jb_events := jb_events r @ [?e]\<rparr>) m)"
  proof (rule jm_inv_heap_upd [OF assms])
    fix r'
    assume "jm_heap m j = Some r'"
    then have r': "r' = r" using r by simp
    then show "rec_ok j (r'\<lparr>jb_events := jb_events r' @ [?e]\<rparr>)"
      using rk run b log_ok_snoc [OF _ e] by (auto simp: rec_ok_def life_ok_def no_result_def)
  qed simp_all
  moreover have "n = (heap_upd j (\<lambda>r. r\<lparr>jb_events := jb_events r @ [?e]\<rparr>) m)
      \<lparr>jm_out := jm_out m @ map (\<lambda>s. Deliver s ?e) (jb_subscribers r)\<rparr>"
    using n(1) r(1) e by (auto simp: append_event_def Let_def)
  ultimately show ?thesis using n(2) jm_inv_same_jobs [of _ n] by (simp add: same_jobs_def)
qed (simp add: assms)

section \<open>Shutdown\<close>

lemma stop_queued_ok:
  assumes "jobs_ok m" "sched_ok js m" "\<not> jm_tornDown m" "clock_ok now m"
  shows "\<exists>n. stop_queued now js m = (False, n) \<and> jobs_ok n \<and> sched_ok [] n \<and> clock_ok now n \<and>
    jm_queue n = jm_queue m \<and> jm_running n = jm_running m \<and> jm_stopped n = jm_stopped m \<and>
    jm_tornDown n = jm_tornDown m \<and> jm_maxConcurrent n = jm_maxConcurrent m \<and>
    jm_maxQueued n = jm_maxQueued m \<and> jm_maxRetained n = jm_maxRetained m"
  using assms
proof (induction js arbitrary: m)
  case (Cons j js)
  have "stat m j = Some Queued" using Cons.prems(2) by (auto simp: sched_ok_def)
  then obtain r where r: "jm_heap m j = Some r" "jb_status r = Queued" by (auto simp: stat_def)
  have "j \<in> set (jm_records m)"
    using Cons.prems(2,3) \<open>stat m j = Some Queued\<close> unfolding sched_ok_def by (metis is_terminal_simps(4))
  then have g: "records_get m j = Some r" using r by (simp add: records_get_def)
  have rk: "rec_ok j r" using Cons.prems(1) r by (simp add: jobs_ok_def)
  have nt: "\<not> is_terminal (jb_status r)" using r by simp
  have ns: "jb_phase r = NotStarted" "jb_startedAt r = None" using rk r by (simp_all add: rec_ok_def life_ok_def)
  have c: "conforms (params_type (jb_params r)) j (canceled_result now r)"
    using plain_result_conforms [of r Canceled now "hfp_err CANCELED ''job canceled''"] rk ns
    by (simp add: canceled_result_def elapsed_ms_def rec_ok_def)
  let ?w = "with_finished now j (canceled_result now r) r m"
  note f = finish_job_conforming [OF r(1) rk nt c]
  from finish_ok [OF Cons.prems(1,2) r(1) nt c, of NotStarted now] ns
  have ok: "jobs_ok (set_phase j NotStarted (evict_if_needed ?w))"
    "sched_ok js (set_phase j NotStarted (evict_if_needed ?w))" by auto
  have "phase_of (evict_if_needed ?w) j = NotStarted"
    using same_jobs_views(2) [OF same_jobs_evict, of ?w j] ns by (simp add: phase_of_def)
  with ok have ok: "jobs_ok (evict_if_needed ?w)" "sched_ok js (evict_if_needed ?w)"
    by (simp_all add: set_phase_same)
  have "clock_ok now (evict_if_needed ?w)"
    using Cons.prems(4) finish_job_started [of now j "canceled_result now r" m] f by (simp add: clock_ok_started_at)
  from Cons.IH [OF ok _ this] Cons.prems(3) obtain n where
    "stop_queued now js (evict_if_needed ?w) = (False, n)" "jobs_ok n \<and> sched_ok [] n \<and> clock_ok now n \<and>
    jm_queue n = jm_queue m \<and> jm_running n = jm_running m \<and> jm_stopped n = jm_stopped m \<and>
    jm_tornDown n = jm_tornDown m \<and> jm_maxConcurrent n = jm_maxConcurrent m \<and>
    jm_maxQueued n = jm_maxQueued m \<and> jm_maxRetained n = jm_maxRetained m" by auto
  moreover from this have "stop_queued now (j # js) m = (False, n)" using g r f by simp
  ultimately show ?case by blast
qed simp

lemma abort_each_inv: "jm_inv m \<Longrightarrow> jm_inv (abort_each js m)"
proof (induction js arbitrary: m)
  case (Cons j js)
  have "jm_inv (heap_upd j (\<lambda>r. r\<lparr>jb_aborted := True\<rparr>) m)"
    by (rule jm_inv_heap_upd [OF Cons.prems]) (simp_all add: rec_ok_fields)
  with Cons show ?case by (simp split: option.splits)
qed simp

lemma stop_begin_inv:
  assumes "jm_inv m" "clock_ok now m"
  shows "jm_inv (snd (stop_begin now m)) \<and> fst (stop_begin now m) = False"
proof (cases "jm_stopped m")
  case False
  then have nt: "\<not> jm_tornDown m" using assms by (auto simp: jm_inv_def)
  let ?q = "m\<lparr>jm_stopped := True, jm_queue := []\<rparr>"
  have sq: "same_jobs ?q m" by (simp add: same_jobs_def)
  have "jobs_ok ?q" "sched_ok (jm_queue m) ?q" "clock_ok now ?q"
    using assms sched_ok_cong [OF sq, of "jm_queue m"]
    by (simp_all add: jm_inv_def same_jobs_views(4) [OF sq] clock_ok_def)
  from stop_queued_ok [OF this(1,2) _ this(3)] nt obtain n where
    n: "stop_queued now (jm_queue m) ?q = (False, n)" "jobs_ok n" "sched_ok [] n" "jm_queue n = []"
      "jm_stopped n" "jm_tornDown n = jm_tornDown m" by auto
  have "jm_inv n" using n nt by (auto simp: jm_inv_def work_conserving_def)
  then show ?thesis using False n by (simp add: stop_begin_def abort_each_inv)
qed (simp add: stop_begin_def assms)

lemma close_all_frame:
  "same_jobs (close_all js m) m \<and> jm_records (close_all js m) = jm_records m \<and>
   jm_queue (close_all js m) = jm_queue m \<and> jm_running (close_all js m) = jm_running m \<and>
   jm_stopped (close_all js m) = jm_stopped m \<and> jm_maxConcurrent (close_all js m) = jm_maxConcurrent m \<and>
   jm_maxQueued (close_all js m) = jm_maxQueued m \<and> jm_maxRetained (close_all js m) = jm_maxRetained m"
proof (induction js arbitrary: m)
  case (Cons j js)
  let ?n = "(heap_upd j (\<lambda>r. r\<lparr>jb_subscribers := []\<rparr>) m)\<lparr>jm_out := jm_out m @
       (case jm_heap m j of None \<Rightarrow> [] | Some r \<Rightarrow> map CloseSub (jb_subscribers r)) @ [Evicted j]\<rparr>"
  have "same_jobs ?n m" by (cases "jm_heap m j") (auto simp: same_jobs_def core_def)
  with Cons [of ?n] show ?case by (simp add: same_jobs_def)
qed (simp add: same_jobs_def)

lemma stop_finish_inv:
  assumes "jm_inv m"
  shows "jm_inv (stop_finish m)"
proof (cases "jm_stopped m \<and> \<not> jm_tornDown m")
  case True
  let ?c = "close_all (jm_records m) m"
  let ?n = "?c\<lparr>jm_records := [], jm_terminalOrder := [], jm_tornDown := True\<rparr>"
  note f = close_all_frame [of "jm_records m" m]
  have same: "same_jobs ?n m" using f by (simp add: same_jobs_def)
  note v = same_jobs_views [OF same]
  have "jobs_ok ?n" using v(4) assms by (simp add: jm_inv_def)
  moreover have "sched_ok (jm_queue ?n) ?n"
    using assms v f True by (simp add: sched_ok_def jm_inv_def)
  ultimately have "jm_inv ?n" using assms f True by (simp add: jm_inv_def work_conserving_def)
  then show ?thesis using True by (simp add: stop_finish_def)
qed (auto simp: stop_finish_def assms)

section \<open>Reachable states\<close>

text \<open>
  What the environment guarantees in a step: the clock has not gone back behind a job's start,
  a fresh random id, validated parameters, and executors that honour their contract.
\<close>

definition step_ok :: "tick \<Rightarrow> jm_action \<Rightarrow> manager \<Rightarrow> bool" where
  "step_ok tk a m =
     (clock_ok (tk_now tk) m \<and>
      (case a of
         Submit p owner j \<Rightarrow> jm_heap m j = None \<and> job_id_ok j \<and> job_params_ok p
       | ExecDone j (Returned res) \<Rightarrow>
           (case jm_heap m j of None \<Rightarrow> True | Some r \<Rightarrow> conforms (params_type (jb_params r)) j res)
       | _ \<Rightarrow> True))"

theorem jm_step_inv: "jm_inv m \<Longrightarrow> step_ok tk a m \<Longrightarrow> jm_inv (jm_step resolve tk a m)"
  by (cases a)
     (auto simp: step_ok_def submit_inv cancel_inv cancel_owned_by_def cancel_each_inv subscribe_inv
       unsubscribe_inv workspace_done_inv emit_inv release_done_inv run_ended_inv stop_begin_inv stop_finish_inv
       intro!: exec_done_inv split: exec_outcome.splits)

lemma new_manager_inv: "new_manager types c q r = Inr m \<Longrightarrow> jm_inv m"
  by (auto simp: new_manager_def jm_inv_def jobs_ok_def sched_ok_def work_conserving_def stat_def phase_of_def
      live_phase_def split: if_splits)

inductive reachable :: "(job_type \<Rightarrow> string option \<Rightarrow> model_resolution) \<Rightarrow> manager \<Rightarrow> manager \<Rightarrow> bool"
  for resolve where
  reach_start: "new_manager types c q r = Inr m \<Longrightarrow> reachable resolve m m"
| reach_step: "reachable resolve m0 m \<Longrightarrow> step_ok tk a m \<Longrightarrow> reachable resolve m0 (jm_step resolve tk a m)"

lemma reachable_inv: "reachable resolve m0 m \<Longrightarrow> jm_inv m"
  by (induction rule: reachable.induct) (simp_all add: new_manager_inv jm_step_inv)

end
