(* ===== verification/JobRuns.thy ===== *)
theory JobRuns imports JobInvariants begin

text \<open>
  Concrete runs of the job manager, used to instantiate the theorems about it and to show
  behaviour at the edges: the retention cap between two terminations, a job evicted while its
  workspace is still being released, a clock that goes back under a running job.
\<close>

definition id_a :: string where "id_a = ''00000000-0000-1000-8000-00000000000a''"
definition id_b :: string where "id_b = ''00000000-0000-1000-8000-00000000000b''"

definition id_c :: string where "id_c = ''00000000-0000-1000-8000-00000000000c''"

definition demo_command :: job_params where
  "demo_command = CommandParams \<lparr>cp_workspace = \<lparr>ws_repoId = ''r'', ws_headCommit = replicate 40 (CHR ''a'')\<rparr>,
     cp_command = ''make'', cp_args = [], cp_timeoutMs = 1000\<rparr>"

definition demo_result :: "string \<Rightarrow> job_result" where
  "demo_result j = \<lparr>res_jobId = j, res_type = Command, res_status = Succeeded, res_summary = None,
     res_output = None, res_stats = \<lparr>st_toolCalls = 0, st_wallMs = 0, st_promptTokens = None, st_completionTokens = None\<rparr>,
     res_error = None, res_artifact = None, res_verify = None\<rparr>"

definition no_models :: "job_type \<Rightarrow> string option \<Rightarrow> model_resolution" where
  "no_models t r = Resolved None"

definition tick_at :: "int \<Rightarrow> tick" where
  "tick_at t = \<lparr>tk_now = t, tk_error = ''schema''\<rparr>"

fun run_at :: "(int \<times> jm_action) list \<Rightarrow> manager \<Rightarrow> manager" where
  "run_at [] m = m"
| "run_at ((t, a) # as) m = run_at as (jm_step no_models (tick_at t) a m)"

definition demo_manager :: "nat \<Rightarrow> nat \<Rightarrow> nat \<Rightarrow> manager" where
  "demo_manager c q r = (case new_manager [Command] (Some c) (Some q) (Some r) of Inr m \<Rightarrow> m)"

definition run_job :: "string \<Rightarrow> int \<Rightarrow> (int \<times> jm_action) list" where
  "run_job j t = [(t, Submit demo_command ''peer'' j), (t, WorkspaceDone j (WorkspaceReady ''/w'')),
     (t, ExecDone j (Returned (demo_result j)))]"

section \<open>Times that do not decrease\<close>

lemma started_at_set_phase [simp]: "started_at (set_phase j ph m) i = started_at m i"
  by (simp add: set_phase_def started_at_heap_upd)

lemma clock_ok_cong: "(\<And>i. started_at n i = started_at m i) \<Longrightarrow> clock_ok now n = clock_ok now m"
  by (simp add: clock_ok_started_at)

lemma start_job_clock: "clock_ok (tk_now tk) m \<Longrightarrow> clock_ok (tk_now tk) (start_job tk j m)"
  by (auto simp: start_job_def Let_def clock_ok_started_at started_at_def set_phase_def append_event_def heap_upd_def
      split: option.splits if_splits)

lemma clock_ok_lists [simp]:
  "clock_ok now (m\<lparr>jm_queue := x\<rparr>) = clock_ok now m" "clock_ok now (m\<lparr>jm_running := x\<rparr>) = clock_ok now m"
  by (simp_all add: clock_ok_def)

lemma pump_loop_clock: "clock_ok (tk_now tk) m \<Longrightarrow> clock_ok (tk_now tk) (pump_loop tk js m)"
  by (induction tk js m rule: pump_loop.induct) (simp_all add: start_job_clock split: option.split)

lemma pump_clock: "clock_ok (tk_now tk) m \<Longrightarrow> clock_ok (tk_now tk) (pump tk m)"
  by (simp add: pump_def pump_loop_clock)

lemma clock_ok_insert:
  "clock_ok now m \<Longrightarrow> jb_startedAt r = None \<Longrightarrow>
   clock_ok now (m\<lparr>jm_heap := (jm_heap m)(j \<mapsto> r), jm_records := x\<rparr>)"
  by (simp add: clock_ok_def)

lemma submit_clock: "clock_ok (tk_now tk) m \<Longrightarrow> clock_ok (tk_now tk) (snd (submit resolve tk p owner j m))"
  by (simp add: submit_def pump_clock clock_ok_insert split: model_resolution.split)

lemma finish_then_started [simp]: "started_at (finish_then ph tk j res m) i = started_at m i"
  using finish_job_started [of "tk_now tk" j res m i]
  by (cases "finish_job (tk_now tk) j res m") (simp add: finish_then_def)

lemma workspace_done_started [simp]: "started_at (workspace_done tk j w m) i = started_at m i"
  by (simp add: workspace_done_def split: option.split ws_outcome.split)

lemma exec_done_started [simp]: "started_at (exec_done tk j x m) i = started_at m i"
  by (simp add: exec_done_def split: option.split)

lemma release_done_started [simp]: "started_at (release_done j m) i = started_at m i"
  by (simp add: release_done_def split: run_phase.split)

lemma started_at_running [simp]: "started_at (m\<lparr>jm_running := x\<rparr>) i = started_at m i"
  by (simp add: started_at_def)

lemma run_ended_clock:
  assumes "clock_ok (tk_now tk) m"
  shows "clock_ok (tk_now tk) (run_ended tk j m)"
proof -
  have "clock_ok (tk_now tk) (snd (finish_job (tk_now tk) j res m))" for res
    using assms by (simp add: clock_ok_started_at)
  moreover have "clock_ok (tk_now tk) (set_phase j ph n) = clock_ok (tk_now tk) n" for ph n
    by (simp add: clock_ok_started_at)
  ultimately show ?thesis
    using assms by (simp add: run_ended_def Let_def pump_clock split: option.split run_phase.split)
qed

lemma emit_started [simp]: "started_at (executor_emits tk j p m) i = started_at m i"
  by (auto simp: executor_emits_def emit_executor_event_def append_event_started
      split: option.splits exec_payload.splits)

lemma cancel_each_started [simp]: "started_at (snd (cancel_each now owner js (n, m))) i = started_at m i"
  by (induction js arbitrary: n m) (simp_all split: option.split)

lemma subscribe_started [simp]: "started_at (snd (subscribe j owner n s m)) i = started_at m i"
  by (auto simp: subscribe_def Let_def started_at_heap_upd split: sum.splits)

lemma stop_queued_started [simp]: "started_at (snd (stop_queued now js m)) i = started_at m i"
proof (induction js arbitrary: m)
  case (Cons j js)
  have f: "started_at n i = started_at m i" if "finish_job now j res m = (b, n)" for res b n
    using finish_job_started [of now j res m i] that by simp
  show ?case
  proof (cases "records_get m j")
    case (Some r)
    obtain b n where fn: "finish_job now j (canceled_result now r) m = (b, n)" by force
    with Some Cons f [OF fn] show ?thesis by (cases b) simp_all
  qed (simp add: Cons)
qed simp

lemma abort_each_started [simp]: "started_at (abort_each js m) i = started_at m i"
  by (induction js arbitrary: m) (simp_all add: started_at_heap_upd split: option.split)

lemma stop_begin_started [simp]: "started_at (snd (stop_begin now m)) i = started_at m i"
proof -
  have "started_at (m\<lparr>jm_stopped := True, jm_queue := []\<rparr>) i = started_at m i" by (simp add: started_at_def)
  then have "started_at n i = started_at m i"
    if "stop_queued now (jm_queue m) (m\<lparr>jm_stopped := True, jm_queue := []\<rparr>) = (b, n)" for b n
    using stop_queued_started [of now "jm_queue m" "m\<lparr>jm_stopped := True, jm_queue := []\<rparr>" i] that by simp
  then show ?thesis by (auto simp: stop_begin_def split: prod.split bool.split)
qed

lemma stop_finish_started [simp]: "started_at (stop_finish m) i = started_at m i"
  using started_at_same_jobs [OF conjunct1 [OF close_all_frame]]
  by (simp add: stop_finish_def started_at_def)

lemma jm_step_clock:
  assumes "clock_ok (tk_now tk) m"
  shows "clock_ok (tk_now tk) (jm_step resolve tk a m)"
proof -
  have c: "clock_ok (tk_now tk) n" if "\<And>i. started_at n i = started_at m i" for n
    using assms that by (simp add: clock_ok_started_at)
  show ?thesis
    by (cases a)
       (simp_all add: assms submit_clock run_ended_clock c cancel_owned_by_def unsubscribe_def started_at_heap_upd)
qed

lemma clock_ok_mono: "clock_ok s m \<Longrightarrow> s \<le> t \<Longrightarrow> clock_ok t m"
  by (fastforce simp: clock_ok_def)

text \<open>The environment's side of a timed run, as a check that evaluates.\<close>

fun action_ok :: "jm_action \<Rightarrow> manager \<Rightarrow> bool" where
  "action_ok (Submit p owner j) m = (jm_heap m j = None \<and> job_id_ok j \<and> job_params_ok p)"
| "action_ok (ExecDone j (Returned res)) m =
     (case jm_heap m j of None \<Rightarrow> True | Some r \<Rightarrow> conforms (params_type (jb_params r)) j res)"
| "action_ok _ m = True"

fun run_ok :: "int \<Rightarrow> (int \<times> jm_action) list \<Rightarrow> manager \<Rightarrow> bool" where
  "run_ok s [] m = True"
| "run_ok s ((t, a) # as) m = (s \<le> t \<and> action_ok a m \<and> run_ok t as (jm_step no_models (tick_at t) a m))"

lemma run_reachable:
  "reachable no_models m0 m \<Longrightarrow> clock_ok s m \<Longrightarrow> run_ok s as m \<Longrightarrow> reachable no_models m0 (run_at as m)"
proof (induction as arbitrary: s m)
  case (Cons x as)
  obtain t a where x: "x = (t, a)" by force
  have c: "clock_ok t m" using Cons.prems(2,3) clock_ok_mono by (auto simp: x)
  have "action_ok a m" using Cons.prems(3) by (simp add: x)
  then have "step_ok (tick_at t) a m"
    using c by (cases "(a, m)" rule: action_ok.cases) (simp_all add: step_ok_def tick_at_def)
  from reach_step [OF Cons.prems(1) this] Cons.IH [of "jm_step no_models (tick_at t) a m" t]
    jm_step_clock [of "tick_at t" m no_models a] c Cons.prems(3)
  show ?case by (simp add: x tick_at_def)
qed simp

lemma demo_manager_reachable: "0 < c \<Longrightarrow> reachable no_models (demo_manager c q r) (demo_manager c q r)"
  by (rule reach_start [of "[Command]" "Some c" "Some q" "Some r"])
     (simp add: demo_manager_def new_manager_def or_default_def)

lemma demo_reachable:
  assumes "0 < c" "run_ok s as (demo_manager c q r)"
  shows "reachable no_models (demo_manager c q r) (run_at as (demo_manager c q r))"
proof (rule run_reachable [OF demo_manager_reachable [OF assms(1)] _ assms(2)])
  show "clock_ok s (demo_manager c q r)"
    using assms(1) by (simp add: clock_ok_def demo_manager_def new_manager_def or_default_def)
qed

section \<open>Runs at the edges\<close>

text \<open>A job ends, the next is accepted: one record more than the cap on retained jobs.\<close>

definition cap_run :: "(int \<times> jm_action) list" where
  "cap_run = run_job id_a 5 @ [(5, ReleaseDone id_a), (5, RunEnded id_a), (6, Submit demo_command ''peer'' id_b)]"

lemma cap_run_ok: "run_ok 0 cap_run (demo_manager 1 0 1)"
  by code_simp

lemma cap_run_exceeds:
  "let m = run_at cap_run (demo_manager 1 0 1) in jm_maxRetained m < length (jm_records m)"
  by code_simp

text \<open>Job \<open>a\<close> is terminal and still releasing its workspace when a later termination evicts it;
  then the manager stops.\<close>

definition evict_run :: "(int \<times> jm_action) list" where
  "evict_run = run_job id_a 5 @ run_job id_b 6 @ [(7, ReleaseDone id_b), (7, RunEnded id_b)] @
     run_job id_c 8 @ [(9, StopBegin)]"

lemma evict_run_ok: "run_ok 0 evict_run (demo_manager 2 0 2)"
  by code_simp

lemma evict_run_orphan:
  "let m = run_at evict_run (demo_manager 2 0 2)
   in phase_of m id_a = Releasing None \<and> jm_running m = [id_a, id_c] \<and> awaited m = [id_c]"
  by code_simp

text \<open>The clock goes back two seconds under a running job whose workspace fails to resolve.\<close>

definition clock_run :: "(int \<times> jm_action) list" where
  "clock_run = [(5000, Submit demo_command ''peer'' id_a), (3000, WorkspaceDone id_a (WorkspaceFailed ''gone'')),
     (3000, RunEnded id_a)]"

definition clock_back_run :: "(int \<times> jm_action) list" where
  "clock_back_run = clock_run @
    [(3000, Submit demo_command ''peer'' id_b), (2000, WorkspaceDone id_b (WorkspaceFailed ''gone'')), (2000, RunEnded id_b),
     (2000, Submit demo_command ''peer'' id_c), (1000, WorkspaceDone id_c (WorkspaceFailed ''gone'')), (1000, RunEnded id_c)]"

text \<open>
  With the clock set back under each job, \<open>append\<close> throws before \<open>evictIfNeeded\<close> is reached, and the records
  outgrow the retention cap (here 1) plus the active ones: the bound of the records needs the clock assumption.
\<close>

lemma clock_back_unbounded:
  "let m = run_at clock_back_run (demo_manager 1 0 1)
   in length (jm_records m) = 3 \<and> jm_maxRetained m + jm_maxConcurrent m + jm_maxQueued m = 2"
  by code_simp

lemma clock_run_stuck:
  "let m = run_at clock_run (demo_manager 1 0 1)
   in stat m id_a = Some Failed \<and> snapshot m id_a ''peer'' = Inl SchemaFailure \<and>
     map_option (map ev_body \<circ> jb_events) (jm_heap m id_a) = Some [StatusEv Running, StatusEv Failed]"
  by code_simp

end
