(* ===== verification/JobProperties.thy ===== *)
theory JobProperties imports JobRuns begin

text \<open>
  What the job manager promises, over its reachable states: bounds, the event log, terminal
  stability, ownership, progress, and the exact stream of a subscriber.
\<close>

section \<open>Bounds\<close>

lemma records_covered:
  assumes "jm_inv m"
  shows "set (jm_records m) \<subseteq> set (jm_queue m) \<union> set (jm_running m) \<union> set (jm_terminalOrder m)"
proof
  fix j
  assume j: "j \<in> set (jm_records m)"
  then have nt: "\<not> jm_tornDown m" using assms by (auto simp: jm_inv_def sched_ok_def)
  from j assms obtain r where r: "jm_heap m j = Some r" by (auto simp: jm_inv_def sched_ok_def)
  show "j \<in> set (jm_queue m) \<union> set (jm_running m) \<union> set (jm_terminalOrder m)"
  proof (cases "is_terminal (jb_status r)")
    case True
    with j r nt assms show ?thesis by (auto simp: jm_inv_def sched_ok_def stat_def)
  next
    case False
    then consider "jb_status r = Queued" | "jb_status r = Running" using not_terminal_iff by blast
    then show ?thesis
    proof cases
      case 1
      with r assms show ?thesis by (auto simp: jm_inv_def sched_ok_def stat_def)
    next
      case 2
      then have "live_phase (phase_of m j)"
        using running_rec(2) [OF assms r] r by (auto simp: phase_of_def live_phase_def)
      with assms show ?thesis by (auto simp: jm_inv_def sched_ok_def)
    qed
  qed
qed

lemma inv_bounds:
  assumes "jm_inv m"
  shows "length (jm_running m) \<le> jm_maxConcurrent m \<and> length (jm_queue m) \<le> jm_maxQueued m \<and>
    length (jm_records m) \<le> jm_maxRetained m + jm_maxConcurrent m + jm_maxQueued m"
proof (cases "jm_tornDown m")
  case True
  with assms show ?thesis by (auto simp: jm_inv_def sched_ok_def)
next
  case False
  with assms have d: "distinct (jm_records m)" "length (jm_running m) \<le> jm_maxConcurrent m"
    "length (jm_queue m) \<le> jm_maxQueued m" "length (jm_terminalOrder m) \<le> jm_maxRetained m"
    by (auto simp: jm_inv_def sched_ok_def)
  have "length (jm_records m) = card (set (jm_records m))" using d(1) by (simp add: distinct_card)
  also have "\<dots> \<le> card (set (jm_queue m @ jm_running m @ jm_terminalOrder m))"
    using records_covered [OF assms] by (intro card_mono) auto
  also have "\<dots> \<le> length (jm_queue m @ jm_running m @ jm_terminalOrder m)" by (rule card_length)
  finally show ?thesis using d by simp
qed

section \<open>What a step does to a job that exists\<close>

definition grows :: "job_record \<Rightarrow> job_record \<Rightarrow> bool" where
  "grows r s = ((\<exists>es. jb_events s = jb_events r @ es) \<and> jb_owner s = jb_owner r \<and>
     jb_params s = jb_params r \<and> jb_endpoint s = jb_endpoint r \<and>
     (is_terminal (jb_status r) \<longrightarrow>
        jb_status s = jb_status r \<and> jb_result s = jb_result r \<and> jb_events s = jb_events r))"

definition advances :: "manager \<Rightarrow> manager \<Rightarrow> bool" where
  "advances m n = (\<forall>j r. jm_heap m j = Some r \<longrightarrow> (\<exists>s. jm_heap n j = Some s \<and> grows r s))"

lemma advancesD: "advances m n \<Longrightarrow> jm_heap m j = Some r \<Longrightarrow> \<exists>s. jm_heap n j = Some s \<and> grows r s"
  by (simp add: advances_def)

lemma grows_refl [simp]: "grows r r"
  by (simp add: grows_def)

lemma grows_trans: "grows r s \<Longrightarrow> grows s t \<Longrightarrow> grows r t"
  by (auto simp: grows_def)

lemma advances_refl [simp]: "advances m m"
  by (simp add: advances_def)

lemma advances_trans: "advances m n \<Longrightarrow> advances n p \<Longrightarrow> advances m p"
  unfolding advances_def using grows_trans by blast

lemma advances_heap: "jm_heap n = jm_heap m \<Longrightarrow> advances m n"
  by (simp add: advances_def)

lemma advances_heap_upd: "(\<And>r. jm_heap m j = Some r \<Longrightarrow> grows r (f r)) \<Longrightarrow> advances m (heap_upd j f m)"
  by (simp add: advances_def)

lemma advances_same_jobs:
  assumes "same_jobs n m"
  shows "advances m n"
  unfolding advances_def
proof (intro allI impI)
  fix j r
  assume r: "jm_heap m j = Some r"
  then obtain s where s: "jm_heap n j = Some s" "core s = core r"
    using assms by (cases "jm_heap n j") (auto simp: same_jobs_def dest: spec [of _ j])
  have "jb_endpoint s = jb_endpoint r" using arg_cong [OF s(2), of jb_endpoint] by simp
  then have "grows r s" using core_eq_fields [OF s(2)] by (simp add: grows_def)
  with s show "\<exists>s. jm_heap n j = Some s \<and> grows r s" by blast
qed

lemma advances_append:
  assumes "append_event now j b m = Some n" "jm_heap m j = Some r" "\<not> is_terminal (jb_status r)"
  shows "advances m n"
  using assms by (auto simp: append_event_def Let_def advances_def grows_def split: if_splits)

lemma advances_finish_job: "advances m (snd (finish_job now j res m))"
proof (cases "jm_heap m j")
  case (Some r)
  show ?thesis
  proof (cases "is_terminal (jb_status r)")
    case False
    let ?m1 = "(heap_upd j (\<lambda>r. r\<lparr>jb_status := res_status res, jb_result := Some res,
        jb_terminalAt := Some now\<rparr>) m)\<lparr>jm_terminalOrder := jm_terminalOrder m @ [j]\<rparr>"
    have 1: "advances m ?m1" using False Some by (auto simp: advances_def grows_def)
    have app: "advances m n'" if "append_event now j b n = Some n'" "advances m n" for b n n'
      using that False Some
      by (auto simp: append_event_def Let_def advances_def grows_def split: option.splits if_splits)
         fastforce+
    show ?thesis
      using False Some 1 app advances_trans [OF _ advances_same_jobs [OF same_jobs_evict]]
      by (auto simp: finish_job_def Let_def split: option.split)
  qed (simp add: finish_job_def Some)
qed (simp add: finish_job_def)

lemma advances_set_phase: "advances m (set_phase j ph m)"
  by (simp add: set_phase_def advances_heap_upd grows_def)

lemma advances_finish_then: "advances m (finish_then ph tk j res m)"
  using advances_trans [OF advances_finish_job [of m "tk_now tk" j res] advances_set_phase]
  by (auto simp: finish_then_def split: prod.split)


lemma advances_start_job:
  assumes "jm_heap m j = Some r" "jb_status r = Queued"
  shows "advances m (start_job tk j m)"
  using assms
  by (auto simp: start_job_def Let_def advances_def grows_def set_phase_def append_event_def
      split: option.splits if_splits)

lemma advances_pump_loop: "advances m (pump_loop tk js m)"
proof (induction tk js m rule: pump_loop.induct)
  case (2 tk j js m)
  show ?case
  proof (cases "records_get m j")
    case (Some r)
    then have "jm_heap m j = Some r" by (simp add: records_get_def split: if_splits)
    with 2 Some show ?thesis
      by (auto simp: advances_heap intro: advances_trans [OF advances_start_job])
  qed (use 2 in \<open>simp add: advances_heap\<close>)
qed (simp add: advances_heap)

lemma advances_pump: "advances m (pump tk m)"
  by (simp add: pump_def advances_pump_loop)

lemma advances_submit:
  assumes "jm_heap m j = None"
  shows "advances m (snd (submit resolve tk p owner j m))"
proof -
  have "advances m (m\<lparr>jm_heap := (jm_heap m)(j \<mapsto> r), jm_records := x, jm_queue := y\<rparr>)" for r x y
    using assms by (auto simp: advances_def)
  from advances_trans [OF this advances_pump] show ?thesis
    by (simp add: submit_def split: model_resolution.split)
qed

lemma advances_cancel: "advances m (snd (cancel now j owner m))"
proof -
  have "advances m (m\<lparr>jm_queue := x\<rparr>)" for x by (simp add: advances_heap)
  from advances_trans [OF this advances_finish_job] have
    "advances m n" if "finish_job now j res (m\<lparr>jm_queue := x\<rparr>) = (b, n)" for res x b n
    using that by (metis snd_conv)
  then show ?thesis
    by (auto simp: cancel_def advances_heap_upd grows_def
        split: sum.splits prod.splits bool.splits option.splits)
qed

lemma advances_cancel_each: "advances m (snd (cancel_each now owner js (n, m)))"
proof (induction js arbitrary: n m)
  case (Cons j js)
  show ?case
    using Cons advances_trans [OF advances_cancel Cons]
    by (auto split: option.split)
qed simp

lemma advances_workspace_done: "advances m (workspace_done tk j w m)"
proof -
  have "advances m ((set_phase j Executing m)\<lparr>jm_out := x\<rparr>)" for x
    using advances_set_phase [of m j Executing] by (simp add: advances_def)
  then show ?thesis
    by (auto simp: workspace_done_def advances_finish_then split: option.split ws_outcome.split)
qed

lemma advances_emit: "advances m (executor_emits tk j p m)"
  by (auto simp: executor_emits_def emit_executor_event_def advances_append
      split: option.split exec_payload.split)

lemma advances_run_ended: "advances m (run_ended tk j m)"
proof (cases "jm_heap m j")
  case (Some r)
  have "advances m ((set_phase j Done n)\<lparr>jm_running := x\<rparr>)" if "advances m n" for n x
    using advances_trans [OF that advances_set_phase [of n j Done]] by (simp add: advances_def)
  note a = advances_trans [OF this advances_pump]
  show ?thesis
    using Some advances_finish_job
    by (auto simp: run_ended_def Let_def intro!: a split: run_phase.split option.split)
qed (simp add: run_ended_def)

lemma advances_stop_queued: "advances m (snd (stop_queued now js m))"
proof (induction js arbitrary: m)
  case (Cons j js)
  show ?case
  proof (cases "records_get m j")
    case (Some r)
    obtain b n where f: "finish_job now j (canceled_result now r) m = (b, n)" by force
    then have n: "advances m n" using advances_finish_job [of m now j "canceled_result now r"] by simp
    show ?thesis using Some f n Cons [of m] advances_trans [OF n Cons] by (cases b) simp_all
  qed (simp add: Cons)
qed simp

lemma advances_abort_each: "advances m (abort_each js m)"
proof (induction js arbitrary: m)
  case (Cons j js)
  have "advances m (heap_upd j (\<lambda>r. r\<lparr>jb_aborted := True\<rparr>) m)" by (simp add: advances_heap_upd grows_def)
  from advances_trans [OF this Cons] Cons show ?case by (simp split: option.split)
qed simp

lemma advances_stop_begin: "advances m (snd (stop_begin now m))"
proof -
  obtain b n where s: "stop_queued now (jm_queue m) (m\<lparr>jm_stopped := True, jm_queue := []\<rparr>) = (b, n)" by force
  have "advances m (m\<lparr>jm_stopped := True, jm_queue := []\<rparr>)" by (simp add: advances_heap)
  from advances_trans [OF this advances_stop_queued [of _ now "jm_queue m"]] s have "advances m n" by simp
  then show ?thesis using s advances_trans [OF _ advances_abort_each]
    by (cases b) (simp_all add: stop_begin_def)
qed

lemma advances_stop_finish: "advances m (stop_finish m)"
proof -
  have "same_jobs ((close_all (jm_records m) m)\<lparr>jm_records := [], jm_terminalOrder := [], jm_tornDown := True\<rparr>) m"
    using close_all_frame [of "jm_records m" m] by (simp add: same_jobs_def)
  then show ?thesis by (simp add: stop_finish_def advances_same_jobs)
qed

lemma advances_subscribe: "advances m (snd (subscribe j owner n s m))"
proof -
  have "advances m (heap_upd j (\<lambda>r. r\<lparr>jb_subscribers := f r\<rparr>) (m\<lparr>jm_out := x\<rparr>))" for f x
    by (auto simp: advances_def grows_def)
  then show ?thesis by (auto simp: subscribe_def Let_def advances_heap split: sum.split)
qed

theorem jm_step_advances:
  assumes "step_ok tk a m"
  shows "advances m (jm_step resolve tk a m)"
proof (cases a)
  case (Submit p owner j)
  with assms show ?thesis by (simp add: step_ok_def advances_submit)
qed (simp_all add: advances_cancel cancel_owned_by_def advances_cancel_each advances_subscribe
    unsubscribe_def advances_heap_upd grows_def advances_workspace_done advances_emit exec_done_def
    advances_finish_then release_done_def advances_set_phase advances_run_ended advances_stop_begin
    advances_stop_finish split: option.split run_phase.split)

end
