(* ===== verification/JobStream.thy ===== *)
theory JobStream imports JobProperties begin

text \<open>
  The stream of one subscriber: from the moment it subscribes it receives every event of its
  job from its start position on, each once and in order, until it unsubscribes or the manager
  is torn down. Replay and live delivery meet without a gap.
\<close>

fun delivered :: "nat \<Rightarrow> jm_out list \<Rightarrow> job_event list" where
  "delivered s [] = []"
| "delivered s (Deliver t e # xs) = (if t = s then e # delivered s xs else delivered s xs)"
| "delivered s (x # xs) = delivered s xs"

lemma delivered_append [simp]: "delivered s (xs @ ys) = delivered s xs @ delivered s ys"
  by (induction s xs rule: delivered.induct) simp_all

lemma delivered_map [simp]: "delivered s (map (Deliver t) es) = (if t = s then es else [])"
  by (induction es) (simp_all split: if_splits)

lemma delivered_each:
  "distinct ts \<Longrightarrow> delivered s (map (\<lambda>t. Deliver t e) ts) = (if s \<in> set ts then [e] else [])"
  by (induction ts) auto

lemma delivered_close [simp]: "delivered s (map CloseSub ts) = []"
  by (induction ts) simp_all

text \<open>Subscriber \<open>s\<close> follows job \<open>j\<close> from position \<open>k\<close>; \<open>live\<close>: it is still registered.\<close>

definition follows :: "bool \<Rightarrow> nat \<Rightarrow> string \<Rightarrow> nat \<Rightarrow> manager \<Rightarrow> bool" where
  "follows live s j k m =
     (\<exists>r. jm_heap m j = Some r \<and> k \<le> length (jb_events r) \<and>
        delivered s (jm_out m) = drop k (jb_events r) \<and>
        (s \<in> set (jb_subscribers r) \<or> (\<not> live \<and> is_terminal (jb_status r))) \<and>
        (\<forall>i r'. jm_heap m i = Some r' \<longrightarrow> distinct (jb_subscribers r') \<and>
            (i \<noteq> j \<longrightarrow> s \<notin> set (jb_subscribers r'))))"

lemma follows_weaken: "follows True s j k m \<Longrightarrow> follows b s j k m"
  by (auto simp: follows_def)

lemma follows_cong:
  "jm_heap n = jm_heap m \<Longrightarrow> delivered s (jm_out n) = delivered s (jm_out m) \<Longrightarrow>
   follows b s j k n = follows b s j k m"
  by (simp add: follows_def)

lemma follows_lists [simp]:
  "follows b s j k (m\<lparr>jm_queue := x\<rparr>) = follows b s j k m"
  "follows b s j k (m\<lparr>jm_running := x\<rparr>) = follows b s j k m"
  "follows b s j k (m\<lparr>jm_terminalOrder := x\<rparr>) = follows b s j k m"
  by (simp_all add: follows_def)

lemma follows_nonterminal:
  "follows b s j k m \<Longrightarrow> jm_heap m j = Some r \<Longrightarrow> \<not> is_terminal (jb_status r) \<Longrightarrow> follows True s j k m"
  by (auto simp: follows_def)

lemma follows_heap_upd:
  assumes "follows b s j k m" "\<And>r. jb_events (f r) = jb_events r" "\<And>r. jb_subscribers (f r) = jb_subscribers r"
    "\<And>r. \<not> b \<Longrightarrow> jm_heap m i = Some r \<Longrightarrow> is_terminal (jb_status r) \<Longrightarrow> is_terminal (jb_status (f r))"
  shows "follows b s j k (heap_upd i f m)"
proof -
  from assms(1) obtain r where r: "jm_heap m j = Some r" "k \<le> length (jb_events r)"
      "delivered s (jm_out m) = drop k (jb_events r)"
      "s \<in> set (jb_subscribers r) \<or> (\<not> b \<and> is_terminal (jb_status r))"
    and o: "\<And>i r'. jm_heap m i = Some r' \<Longrightarrow> distinct (jb_subscribers r') \<and> (i \<noteq> j \<longrightarrow> s \<notin> set (jb_subscribers r'))"
    unfolding follows_def by blast
  let ?r = "if i = j then f r else r"
  have "jm_heap (heap_upd i f m) j = Some ?r" using r(1) by (cases "i = j") simp_all
  moreover have "s \<in> set (jb_subscribers ?r) \<or> (\<not> b \<and> is_terminal (jb_status ?r))"
    using r assms(3,4) by auto
  ultimately show ?thesis unfolding follows_def
    using r o assms(2,3) by (intro exI [of _ ?r]) (auto split: if_splits)
qed

lemma follows_append:
  assumes "follows b s j k m" "append_event t i body m = Some n" "b \<or> i \<noteq> j"
  shows "follows b s j k n"
proof -
  from assms(1) obtain r where r: "jm_heap m j = Some r" "k \<le> length (jb_events r)"
      "delivered s (jm_out m) = drop k (jb_events r)"
      "s \<in> set (jb_subscribers r) \<or> (\<not> b \<and> is_terminal (jb_status r))"
    and o: "\<And>i r'. jm_heap m i = Some r' \<Longrightarrow> distinct (jb_subscribers r') \<and> (i \<noteq> j \<longrightarrow> s \<notin> set (jb_subscribers r'))"
    unfolding follows_def by blast
  from assms(2) obtain q e where q: "jm_heap m i = Some q"
    and n: "n = (heap_upd i (\<lambda>r. r\<lparr>jb_events := jb_events r @ [e]\<rparr>) m)
        \<lparr>jm_out := jm_out m @ map (\<lambda>s. Deliver s e) (jb_subscribers q)\<rparr>"
    by (auto simp: append_event_def Let_def split: option.splits if_splits)
  have d: "delivered s (jm_out n) = delivered s (jm_out m) @ (if s \<in> set (jb_subscribers q) then [e] else [])"
    using o [OF q] by (simp add: n delivered_each)
  show ?thesis
  proof (cases "i = j")
    case True
    then have "q = r" "s \<in> set (jb_subscribers r)" using q r assms(3) by auto
    then show ?thesis using r o True d unfolding follows_def
      by (intro exI [of _ "r\<lparr>jb_events := jb_events r @ [e]\<rparr>"]) (auto simp: n)
  next
    case False
    then have "s \<notin> set (jb_subscribers q)" using o [OF q] by simp
    then show ?thesis using r o False d unfolding follows_def
      by (intro exI [of _ r]) (auto simp: n split: if_splits)
  qed
qed

lemma follows_drop:
  assumes "follows False s j k m" "jm_heap m i = Some q" "is_terminal (jb_status q)"
  shows "follows False s j k (drop_record i m)"
proof -
  from assms(1) obtain r where r: "jm_heap m j = Some r" "k \<le> length (jb_events r)"
      "delivered s (jm_out m) = drop k (jb_events r)"
      "s \<in> set (jb_subscribers r) \<or> is_terminal (jb_status r)"
    and o: "\<And>i r'. jm_heap m i = Some r' \<Longrightarrow> distinct (jb_subscribers r') \<and> (i \<noteq> j \<longrightarrow> s \<notin> set (jb_subscribers r'))"
    unfolding follows_def by blast
  let ?r = "if i = j then r\<lparr>jb_subscribers := []\<rparr> else r"
  have "jm_heap (drop_record i m) j = Some ?r" using r(1) by (cases "i = j") (simp_all add: drop_record_def)
  moreover have "delivered s (jm_out (drop_record i m)) = delivered s (jm_out m)"
    using assms(2) by (simp add: drop_record_def)
  ultimately show ?thesis unfolding follows_def
    using r o assms(2,3) by (intro exI [of _ ?r]) (auto simp: drop_record_def split: if_splits)
qed

lemma follows_evict_loop: "follows False s j k m \<Longrightarrow> follows False s j k (evict_loop js m)"
proof (induction js m rule: evict_loop.induct)
  case (1 m)
  then show ?case by simp
next
  case (2 i js m)
  show ?case
  proof (cases "records_get m i")
    case None
    with 2 show ?thesis by simp
  next
    case (Some q)
    then have "jm_heap m i = Some q" by (simp add: records_get_def split: if_splits)
    with 2 Some show ?thesis
      by (simp add: follows_drop)
  qed
qed

lemma follows_finish_job:
  assumes "follows False s j k m"
  shows "follows False s j k (snd (finish_job now i res m))"
proof (cases "jm_heap m i")
  case (Some q)
  show ?thesis
  proof (cases "is_terminal (jb_status q)")
    case False
    define b where "b = (i = j)"
    have f: "follows b s j k m"
      using assms follows_nonterminal [OF assms] Some False by (cases "i = j") (simp_all add: b_def)
    let ?m1 = "(heap_upd i (\<lambda>r. r\<lparr>jb_status := res_status res, jb_result := Some res,
        jb_terminalAt := Some now\<rparr>) m)\<lparr>jm_terminalOrder := jm_terminalOrder m @ [i]\<rparr>"
    have "follows b s j k (heap_upd i (\<lambda>r. r\<lparr>jb_status := res_status res, jb_result := Some res,
        jb_terminalAt := Some now\<rparr>) m)"
      by (rule follows_heap_upd [OF f]) (use Some False in simp_all)
    then have 1: "follows b s j k ?m1" by simp
    have app: "follows b s j k n'" if "append_event now i body n = Some n'" "follows b s j k n" for body n n'
      using follows_append [OF that(2,1)] by (simp add: b_def)
    have w: "follows b s j k n \<Longrightarrow> follows False s j k n" for n
      by (cases b) (auto intro: follows_weaken)
    show ?thesis
      using False Some 1 w app
      by (auto simp: finish_job_def Let_def evict_if_needed_def intro!: follows_evict_loop split: option.split)
  qed (simp add: finish_job_def Some assms)
qed (simp add: finish_job_def assms)

lemma follows_set_phase: "follows b s j k m \<Longrightarrow> follows b s j k (set_phase i ph m)"
  unfolding set_phase_def by (rule follows_heap_upd) simp_all

lemma follows_start_job:
  assumes "follows False s j k m" "jm_heap m i = Some q" "jb_status q = Queued"
  shows "follows False s j k (start_job tk i m)"
proof -
  define b where "b = (i = j)"
  have f: "follows b s j k m" using assms follows_nonterminal [OF assms(1)] by (cases "i = j") (simp_all add: b_def)
  have "follows b s j k (heap_upd i (\<lambda>r. r\<lparr>jb_status := Running, jb_startedAt := Some (tk_now tk)\<rparr>) m)"
    by (rule follows_heap_upd [OF f]) (use assms(2,3) in simp_all)
  then have 1: "follows b s j k ((heap_upd i (\<lambda>r. r\<lparr>jb_status := Running, jb_startedAt := Some (tk_now tk)\<rparr>) m)
       \<lparr>jm_running := jset_add i (jm_running m)\<rparr>)" by simp
  have "follows b s j k (start_job tk i m)"
    using 1 follows_append [OF 1] by (auto simp: start_job_def Let_def b_def follows_set_phase split: option.split)
  then show ?thesis by (cases b) (auto intro: follows_weaken)
qed

lemma follows_pump_loop: "follows False s j k m \<Longrightarrow> follows False s j k (pump_loop tk js m)"
proof (induction tk js m rule: pump_loop.induct)
  case (2 tk i js m)
  show ?case
  proof (cases "records_get m i")
    case (Some q)
    then have "jm_heap m i = Some q" by (simp add: records_get_def split: if_splits)
    with 2 Some show ?thesis by (simp add: follows_start_job)
  qed (use 2 in simp)
qed simp

lemma follows_pump: "follows False s j k m \<Longrightarrow> follows False s j k (pump tk m)"
  by (simp add: pump_def follows_pump_loop)


lemma follows_finish_then: "follows False s j k m \<Longrightarrow> follows False s j k (finish_then ph tk i res m)"
  using follows_finish_job [of s j k m "tk_now tk" i res]
  by (cases "finish_job (tk_now tk) i res m") (simp add: finish_then_def follows_set_phase)

lemma follows_out: "delivered s x = [] \<Longrightarrow> follows b s j k (m\<lparr>jm_out := jm_out m @ x\<rparr>) = follows b s j k m"
  by (simp add: follows_def)

lemma follows_fresh_job:
  assumes "follows b s j k m" "jm_heap m i = None" "jb_subscribers q = []"
  shows "follows b s j k (m\<lparr>jm_heap := (jm_heap m)(i \<mapsto> q), jm_records := x\<rparr>)"
proof -
  have "i \<noteq> j" using assms(1,2) by (auto simp: follows_def)
  with assms show ?thesis by (auto simp: follows_def)
qed

lemma follows_submit:
  "follows False s j k m \<Longrightarrow> jm_heap m i = None \<Longrightarrow> follows False s j k (snd (submit resolve tk p owner i m))"
  by (auto simp: submit_def intro!: follows_pump split: model_resolution.split)
     (simp_all add: follows_fresh_job)

lemma follows_cancel:
  assumes "follows False s j k m"
  shows "follows False s j k (snd (cancel now i owner m))"
proof -
  have "follows False s j k n" if "finish_job now i res (m\<lparr>jm_queue := x\<rparr>) = (b, n)" for res x b n
    using follows_finish_job [of s j k "m\<lparr>jm_queue := x\<rparr>" now i res] assms that by simp
  moreover have "follows False s j k (heap_upd i (\<lambda>r. r\<lparr>jb_aborted := True\<rparr>) m)"
    by (rule follows_heap_upd [OF assms]) simp_all
  ultimately show ?thesis using assms
    by (auto simp: cancel_def split: sum.splits prod.splits bool.splits option.splits)
qed

lemma follows_cancel_each: "follows False s j k m \<Longrightarrow> follows False s j k (snd (cancel_each now owner is (n, m)))"
  by (induction "is" arbitrary: n m) (simp_all add: follows_cancel split: option.split)

lemma follows_subscribe_other:
  assumes f: "follows False s j k m" and t: "t \<noteq> s"
  shows "follows False s j k (snd (subscribe i owner n t m))"
proof -
  have "follows False s j k (heap_upd i (\<lambda>r. r\<lparr>jb_subscribers := jset_add t (jb_subscribers r)\<rparr>) m)"
    using f t unfolding follows_def by (auto split: if_splits)
  then have "follows False s j k
      ((heap_upd i (\<lambda>r. r\<lparr>jb_subscribers := jset_add t (jb_subscribers r)\<rparr>) m)
         \<lparr>jm_out := jm_out m @ map (Deliver t) es\<rparr>)" for es
    using t by (simp add: follows_def)
  moreover have "heap_upd i g (m\<lparr>jm_out := x\<rparr>) = (heap_upd i g m)\<lparr>jm_out := x\<rparr>" for g x
    by (simp add: heap_upd_def)
  ultimately show ?thesis using f t
    by (auto simp: subscribe_def Let_def follows_out split: sum.split)
qed

lemma follows_unsubscribe_other:
  assumes "follows False s j k m" "t \<noteq> s"
  shows "follows False s j k (unsubscribe i t m)"
  using assms unfolding follows_def unsubscribe_def by (auto split: if_splits)

lemma follows_workspace_done:
  assumes "follows False s j k m"
  shows "follows False s j k (workspace_done tk i w m)"
proof -
  have "follows False s j k ((set_phase i Executing m)\<lparr>jm_out := jm_out m @ [Launch i p d e]\<rparr>)" for p d e
    using follows_out [of s "[Launch i p d e]" False j k "set_phase i Executing m"] follows_set_phase [OF assms]
    by simp
  with assms show ?thesis
    by (auto simp: workspace_done_def follows_finish_then split: option.split ws_outcome.split)
qed

lemma follows_exec_done: "follows False s j k m \<Longrightarrow> follows False s j k (exec_done tk i x m)"
  by (simp add: exec_done_def follows_finish_then split: option.split)

lemma follows_release_done: "follows False s j k m \<Longrightarrow> follows False s j k (release_done i m)"
  by (simp add: release_done_def follows_set_phase split: run_phase.split)

lemma follows_run_ended: "follows False s j k m \<Longrightarrow> follows False s j k (run_ended tk i m)"
  by (auto simp: run_ended_def Let_def follows_set_phase follows_finish_job
      intro!: follows_pump split: option.split run_phase.split)

lemma follows_emit:
  assumes "follows False s j k m"
  shows "follows False s j k (executor_emits tk i p m)"
proof -
  have "follows False s j k n"
    if "append_event t i b m = Some n" "jm_heap m i = Some r" "\<not> is_terminal (jb_status r)" for t b n r
  proof (cases "i = j")
    case True
    then have "follows True s j k m" using follows_nonterminal [OF assms] that by simp
    then show ?thesis using follows_append [OF _ that(1)] follows_weaken by blast
  next
    case False
    then show ?thesis using follows_append [OF assms that(1)] by simp
  qed
  with assms show ?thesis
    by (auto simp: executor_emits_def emit_executor_event_def split: option.split exec_payload.split)
qed

lemma follows_stop_queued:
  "follows False s j k m \<Longrightarrow> follows False s j k (snd (stop_queued now is m))"
proof (induction "is" arbitrary: m)
  case (Cons i "is")
  show ?case
  proof (cases "records_get m i")
    case (Some r)
    obtain b n where f: "finish_job now i (canceled_result now r) m = (b, n)" by force
    then have "follows False s j k n"
      using follows_finish_job [OF Cons.prems, of now i "canceled_result now r"] by simp
    with Cons Some f show ?thesis by (cases b) simp_all
  qed (use Cons in simp)
qed simp

lemma follows_abort_each: "follows False s j k m \<Longrightarrow> follows False s j k (abort_each is m)"
proof (induction "is" arbitrary: m)
  case (Cons i "is")
  have "follows False s j k (heap_upd i (\<lambda>r. r\<lparr>jb_aborted := True\<rparr>) m)"
    by (rule follows_heap_upd [OF Cons.prems]) simp_all
  with Cons show ?case by (simp split: option.split)
qed simp

lemma follows_stop_begin: 
  assumes "follows False s j k m"
  shows "follows False s j k (snd (stop_begin now m))"
proof -
  obtain b n where q: "stop_queued now (jm_queue m) (m\<lparr>jm_stopped := True, jm_queue := []\<rparr>) = (b, n)" by force
  have "follows False s j k (m\<lparr>jm_stopped := True, jm_queue := []\<rparr>)" using assms by (simp add: follows_def)
  from follows_stop_queued [OF this, of now "jm_queue m"] q have "follows False s j k n" by simp
  with assms q show ?thesis by (cases b) (simp_all add: stop_begin_def follows_abort_each)
qed

text \<open>The steps that leave the subscription of \<open>s\<close> alone.\<close>

fun leaves_alone :: "nat \<Rightarrow> jm_action \<Rightarrow> bool" where
  "leaves_alone s (Subscribe j owner n t) = (t \<noteq> s)"
| "leaves_alone s (Unsubscribe j t) = (t \<noteq> s)"
| "leaves_alone s StopFinish = False"
| "leaves_alone s _ = True"

lemma follows_step:
  assumes "follows False s j k m" "step_ok tk a m" "leaves_alone s a"
  shows "follows False s j k (jm_step resolve tk a m)"
proof (cases a)
  case (Submit p owner i)
  with assms show ?thesis by (simp add: step_ok_def follows_submit)
qed (use assms in \<open>simp_all add: follows_cancel cancel_owned_by_def follows_cancel_each
    follows_subscribe_other follows_unsubscribe_other follows_workspace_done follows_emit
    follows_exec_done follows_release_done follows_run_ended follows_stop_begin\<close>)

text \<open>A fresh subscriber: nothing was delivered to it and no job knows it.\<close>

definition fresh_sub :: "nat \<Rightarrow> manager \<Rightarrow> bool" where
  "fresh_sub s m = (delivered s (jm_out m) = [] \<and>
     (\<forall>i r. jm_heap m i = Some r \<longrightarrow> distinct (jb_subscribers r) \<and> s \<notin> set (jb_subscribers r)))"

lemma log_suffix:
  assumes "log_ok r"
  shows "filter (\<lambda>e. k \<le> ev_seq e) (jb_events r) = drop k (jb_events r)"
proof -
  have "map ev_seq (jb_events r) = [0..<length (jb_events r)]"
    using assms by (intro nth_equalityI) (simp_all add: log_ok_def)
  then show ?thesis
  proof (induction "jb_events r" arbitrary: r rule: rev_induct)
    case (snoc e es)
    let ?r = "r\<lparr>jb_events := es\<rparr>"
    have e: "jb_events r = es @ [e]" using snoc.hyps(2) by simp
    with snoc.prems have "map ev_seq es = [0..<length es]" "ev_seq e = length es" by simp_all
    with snoc.hyps(1) [of ?r] e show ?case by auto
  qed simp
qed

lemma follows_subscribe:
  assumes m: "jm_inv m" and s: "fresh_sub s m" and r: "jm_heap m j = Some r"
    and sub: "subscribe j owner n s m = (Inr b, m')"
  shows "follows False s j (min (replay_start n) (length (jb_events r))) m' \<and>
    (b \<longleftrightarrow> is_terminal (jb_status r))"
proof -
  have l: "log_ok r" using running_rec(1) [OF m r] by (simp add: rec_ok_def)
  have g: "get_owned m j owner = Inr r"
    using sub r by (auto simp: subscribe_def get_owned_def records_get_def split: option.splits if_splits sum.splits)
  let ?es = "drop (replay_start n) (jb_events r)"
  let ?k = "min (replay_start n) (length (jb_events r))"
  have d: "drop ?k (jb_events r) = ?es" by (simp add: min_def)
  show ?thesis
  proof (cases "is_terminal (jb_status r)")
    case True
    then have "m' = m\<lparr>jm_out := jm_out m @ map (Deliver s) ?es\<rparr>" "b"
      using sub g by (auto simp: subscribe_def Let_def log_suffix [OF l])
    with True r s d show ?thesis by (auto simp: follows_def fresh_sub_def)
  next
    case False
    then have "m' = heap_upd j (\<lambda>r. r\<lparr>jb_subscribers := jset_add s (jb_subscribers r)\<rparr>)
        (m\<lparr>jm_out := jm_out m @ map (Deliver s) ?es\<rparr>)" "\<not> b"
      using sub g by (auto simp: subscribe_def Let_def log_suffix [OF l])
    with False r s d show ?thesis by (auto simp: follows_def fresh_sub_def)
  qed
qed

inductive steps_leaving :: "nat \<Rightarrow> (job_type \<Rightarrow> string option \<Rightarrow> model_resolution) \<Rightarrow> manager \<Rightarrow> manager \<Rightarrow> bool"
  for s resolve where
  leaving_none: "steps_leaving s resolve m m"
| leaving_step: "steps_leaving s resolve m n \<Longrightarrow> step_ok tk a n \<Longrightarrow> leaves_alone s a \<Longrightarrow>
     steps_leaving s resolve m (jm_step resolve tk a n)"

lemma follows_steps: "steps_leaving s resolve m n \<Longrightarrow> follows False s j k m \<Longrightarrow> follows False s j k n"
  by (induction rule: steps_leaving.induct) (simp_all add: follows_step)

end
