(* ===== verification/JobTheorems.thy ===== *)
theory JobTheorems imports JobStream begin

text \<open>
  The properties of the job manager, each over the states its operations can reach, with a
  concrete instance.
\<close>

section \<open>Completion\<close>

lemma pump_loop_other:
  "stat m j \<noteq> Some Queued \<Longrightarrow> jm_heap (pump_loop tk js m) j = jm_heap m j"
proof (induction tk js m rule: pump_loop.induct)
  case (2 tk i js m)
  show ?case
  proof (cases "records_get m i")
    case (Some r)
    then have r: "jm_heap m i = Some r" by (simp add: records_get_def split: if_splits)
    have "jm_heap (start_job tk i m) j = jm_heap m j" if "jb_status r = Queued"
    proof -
      have "i \<noteq> j" using r that 2(4) by (auto simp: stat_def)
      then show ?thesis
        by (auto simp: start_job_def Let_def append_event_def set_phase_def split: option.split)
    qed
    with 2 Some show ?thesis by (simp add: stat_def)
  qed (use 2 in simp)
qed simp

lemma pump_other: "stat m j \<noteq> Some Queued \<Longrightarrow> jm_heap (pump tk m) j = jm_heap m j"
  by (simp add: pump_def pump_loop_other)

lemma pump_loop_frame:
  "jm_stopped (pump_loop tk js m) = jm_stopped m \<and> jm_maxConcurrent (pump_loop tk js m) = jm_maxConcurrent m"
proof (induction tk js m rule: pump_loop.induct)
  case (2 tk i js m)
  have "jm_stopped (start_job tk i m) = jm_stopped m \<and> jm_maxConcurrent (start_job tk i m) = jm_maxConcurrent m"
    by (auto simp: start_job_def Let_def append_event_def split: option.split)
  with 2 show ?case by (auto split: option.split)
qed simp

text \<open>What is left of a run, in the order its awaits settle; each call is the identity outside
  its own phase.\<close>

definition finish_run :: "tick \<Rightarrow> ws_outcome \<Rightarrow> exec_outcome \<Rightarrow> string \<Rightarrow> manager \<Rightarrow> manager" where
  "finish_run tk w x j m = run_ended tk j (release_done j (exec_done tk j x (workspace_done tk j w m)))"

lemma finish_then_phase:
  assumes "jm_inv m" "jm_heap m j = Some r" "jb_status r = Running"
    "conforms (params_type (jb_params r)) j res"
  shows "\<exists>s. jm_heap (finish_then ph tk j res m) j = Some s \<and> jb_phase s = ph None \<and>
    jb_status s = res_status res \<and> jb_params s = jb_params r"
proof -
  have nt: "\<not> is_terminal (jb_status r)" using assms(3) by simp
  let ?w = "with_finished (tk_now tk) j res r m"
  have e: "finish_then ph tk j res m = set_phase j (ph None) (evict_if_needed ?w)"
    by (simp add: finish_then_def finish_job_conforming [OF assms(2) running_rec(1) [OF assms(1,2)] nt assms(4)])
  have "map_option core (jm_heap (evict_if_needed ?w) j) = Some (core (finished (tk_now tk) j res r))"
    using same_jobs_evict [of ?w] by (simp add: same_jobs_def)
  then obtain s where s: "jm_heap (evict_if_needed ?w) j = Some s" "core s = core (finished (tk_now tk) j res r)"
    by (cases "jm_heap (evict_if_needed ?w) j") auto
  then show ?thesis using core_eq_fields [OF s(2)] by (simp add: e set_phase_def)
qed

lemma workspace_done_phase:
  assumes "jm_inv m" "clock_ok (tk_now tk) m" "jm_heap m j = Some r"
  shows "\<exists>s. jm_heap (workspace_done tk j w m) j = Some s \<and> jb_params s = jb_params r \<and> jb_phase s \<noteq> Resolving \<and>
    (jb_phase r \<noteq> Resolving \<longrightarrow> s = r) \<and> (live_phase (jb_phase r) \<longrightarrow> live_phase (jb_phase s))"
proof (cases "jb_phase r = Resolving")
  case True
  then have run: "jb_status r = Running" using running_rec(2) [OF assms(1,3)] by simp
  note pc = plain_conforms [OF assms]
  have f: "\<exists>s. jm_heap (finish_then ph tk j (plain_result (tk_now tk) r st e) m) j = Some s \<and>
      jb_params s = jb_params r \<and> jb_phase s \<noteq> Resolving \<and> live_phase (jb_phase s)"
    if "st = Failed \<or> st = Canceled" "ph = Ended \<or> ph = Releasing" for ph st e
  proof -
    have "conforms (params_type (jb_params r)) j (plain_result (tk_now tk) r st e)" by (rule pc [OF that(1)])
    from finish_then_phase [OF assms(1,3) run this, of ph tk] that(2) show ?thesis
      by (fastforce simp: live_phase_def)
  qed
  show ?thesis
    using True assms(3) f
    by (auto simp: workspace_done_def workspace_unavailable_result_def canceled_result_def error_result_def
        set_phase_def live_phase_def split: ws_outcome.split)
next
  case False
  with assms(3) show ?thesis by (simp add: workspace_done_def)
qed

lemma exec_done_phase:
  assumes "jm_inv m" "clock_ok (tk_now tk) m" "jm_heap m j = Some r"
    "\<And>res. x = Returned res \<Longrightarrow> conforms (params_type (jb_params r)) j res" "jb_phase r \<noteq> Resolving"
  shows "\<exists>s. jm_heap (exec_done tk j x m) j = Some s \<and> jb_phase s \<notin> {Resolving, Executing} \<and>
    (live_phase (jb_phase r) \<longrightarrow> live_phase (jb_phase s))"
proof (cases "jb_phase r = Executing")
  case True
  then have run: "jb_status r = Running" using running_rec(2) [OF assms(1,3)] by simp
  let ?res = "case x of Returned res \<Rightarrow> res
             | Threw msg \<Rightarrow> error_result (tk_now tk) r INTERNAL (''executor threw: '' @ msg)"
  have "conforms (params_type (jb_params r)) j ?res"
    using assms(4) plain_conforms [OF assms(1-3)] by (auto simp: error_result_def split: exec_outcome.split)
  from finish_then_phase [OF assms(1,3) run this, of Releasing tk] True assms(3) show ?thesis
    by (auto simp: exec_done_def live_phase_def)
next
  case False
  with assms(3,5) show ?thesis by (simp add: exec_done_def)
qed

lemma finish_run_done:
  assumes m: "jm_inv m" and clock: "clock_ok (tk_now tk) m" and j: "j \<in> set (jm_running m)"
    and x: "\<And>r res. jm_heap m j = Some r \<Longrightarrow> x = Returned res \<Longrightarrow> conforms (params_type (jb_params r)) j res"
  shows "phase_of (finish_run tk w x j m) j = Done \<and> j \<notin> set (jm_running (finish_run tk w x j m)) \<and>
    (\<exists>s. stat (finish_run tk w x j m) j = Some s \<and> is_terminal s)"
proof -
  have "live_phase (phase_of m j)" using m j by (simp add: jm_inv_def sched_ok_def)
  then obtain r where r: "jm_heap m j = Some r" "live_phase (jb_phase r)" by (auto simp: phase_of_simps)
  let ?a = "workspace_done tk j w m"
  from workspace_done_phase [OF m clock r(1)] r(2) obtain ra where
    ra: "jm_heap ?a j = Some ra" "jb_params ra = jb_params r" "jb_phase ra \<noteq> Resolving" "live_phase (jb_phase ra)"
    by blast
  have ia: "jm_inv ?a" "clock_ok (tk_now tk) ?a"
    using workspace_done_inv [OF m clock] clock by (simp_all add: clock_ok_started_at)
  let ?b = "exec_done tk j x ?a"
  have xc: "\<And>res. x = Returned res \<Longrightarrow> conforms (params_type (jb_params ra)) j res" using x [OF r(1)] ra(2) by simp
  from exec_done_phase [OF ia ra(1) xc ra(3)] ra(4) obtain rb where
    rb: "jm_heap ?b j = Some rb" "jb_phase rb \<notin> {Resolving, Executing}" "live_phase (jb_phase rb)" by blast
  have ib: "jm_inv ?b" by (rule exec_done_inv [OF ia]) (use xc ra(1) in simp)
  let ?c = "release_done j ?b"
  have ic: "jm_inv ?c" by (rule release_done_inv [OF ib])
  obtain e where e: "jb_phase rb = Releasing e \<or> jb_phase rb = Ended e"
    using rb(2,3) by (cases "jb_phase rb") (auto simp: live_phase_def)
  then have te: "is_terminal (jb_status rb)" "e = None" using running_rec(3) [OF ib rb(1)] by blast+
  have rc: "jm_heap ?c j = Some (rb\<lparr>jb_phase := Ended e\<rparr>)"
    using e rb(1) by (auto simp: release_done_def phase_of_def set_phase_def)
  let ?n = "(set_phase j Done ?c)\<lparr>jm_running := remove1 j (jm_running ?c)\<rparr>"
  have d: "run_ended tk j ?c = pump tk ?n" using rc te(2) by (simp add: run_ended_def Let_def)
  have hn: "jm_heap ?n j = Some (rb\<lparr>jb_phase := Done\<rparr>)" using rc by (simp add: set_phase_def)
  then have "stat ?n j \<noteq> Some Queued" using te(1) by (auto simp: stat_def)
  from pump_other [OF this] hn have h: "jm_heap (run_ended tk j ?c) j = Some (rb\<lparr>jb_phase := Done\<rparr>)"
    by (simp add: d)
  have "jm_inv (run_ended tk j ?c)" by (rule run_ended_inv [OF ic])
  with h te(1) show ?thesis
    by (auto simp: finish_run_def phase_of_def stat_def jm_inv_def sched_ok_def live_phase_def)
qed


section \<open>Submission, cancellation, snapshots\<close>

lemma submit_accepted:
  assumes "jm_inv m" "jm_heap m j = None" "job_id_ok j" "job_params_ok p" "\<not> jm_stopped m"
    "params_type p \<in> set (jm_executors m)"
    "resolve (params_type p) (requested_model p) = Resolved ep"
    "length (jm_running m) < jm_maxConcurrent m \<or> length (jm_queue m) < jm_maxQueued m"
  shows "fst (submit resolve tk p owner j m) = Inr j \<and>
    (\<exists>r. jm_heap (snd (submit resolve tk p owner j m)) j = Some r \<and> jb_owner r = owner \<and> jb_params r = p \<and>
       jb_endpoint r = ep \<and>
       jb_status r = (if length (jm_running m) < jm_maxConcurrent m then Running else Queued))"
proof -
  let ?q = "\<lparr>jb_jobId = j, jb_owner = owner, jb_params = p, jb_status = Queued,
     jb_endpoint = ep, jb_result = None, jb_events = [], jb_subscribers = [],
     jb_aborted = False, jb_createdAt = tk_now tk, jb_startedAt = None,
     jb_terminalAt = None, jb_phase = NotStarted\<rparr>"
  let ?n = "m\<lparr>jm_heap := (jm_heap m)(j \<mapsto> ?q), jm_records := jset_add j (jm_records m),
     jm_queue := jm_queue m @ [j]\<rparr>"
  have s: "submit resolve tk p owner j m = (Inr j, pump tk ?n)"
    using assms(5-8) by (auto simp: submit_def)
  have i: "jm_inv (pump tk ?n)" using submit_inv [OF assms(1-4), of resolve tk owner] s by simp
  have ns: "\<not> jm_stopped (pump tk ?n)" and mx: "jm_maxConcurrent (pump tk ?n) = jm_maxConcurrent m"
    and h: "\<exists>r. jm_heap (pump tk ?n) j = Some r \<and> jb_owner r = owner \<and> jb_params r = p \<and> jb_endpoint r = ep"
  proof -
    have rk: "rec_ok j ?q" using assms(3,4) by (simp add: rec_ok_def log_ok_def life_ok_def)
    have "jm_heap ?n j = Some ?q" by simp
    from advancesD [OF advances_pump this, of tk] obtain r where "jm_heap (pump tk ?n) j = Some r" "grows ?q r"
      by blast
    then show "\<exists>r. jm_heap (pump tk ?n) j = Some r \<and> jb_owner r = owner \<and> jb_params r = p \<and> jb_endpoint r = ep"
      by (auto simp: grows_def)
    have nt: "\<not> jm_tornDown m" "sched_ok (jm_queue m) m" using assms(1,5) by (auto simp: jm_inv_def)
    show "\<not> jm_stopped (pump tk ?n)" "jm_maxConcurrent (pump tk ?n) = jm_maxConcurrent m"
      using assms(5) by (simp_all add: pump_def pump_loop_frame)
  qed
  show ?thesis
  proof (cases "length (jm_running m) < jm_maxConcurrent m")
    case True
    then have q: "jm_queue m = []" using assms(1,5) by (auto simp: jm_inv_def work_conserving_def)
    have "jm_heap (pump tk ?n) = jm_heap (start_job tk j ?n)"
      using True q assms(5) by (simp add: pump_def records_get_def)
    moreover have "\<exists>r. jm_heap (start_job tk j ?n) j = Some r \<and> jb_status r = Running"
      using start_job_heap(1) [of ?n j ?q tk] assms(3,4)
      by (simp add: rec_ok_def log_ok_def life_ok_def started_def)
    ultimately show ?thesis using s h True by auto
  next
    case False
    then have "length (jm_running m) = jm_maxConcurrent m" using inv_bounds [OF assms(1)] by simp
    then have "jm_heap (pump tk ?n) = jm_heap ?n"
      using assms(5) by (cases "jm_queue m") (simp_all add: pump_def)
    with s False show ?thesis by simp
  qed
qed

lemma snapshot_owner:
  assumes "jm_inv m" "j \<in> set (jm_records m)" "jm_heap m j = Some r"
  shows "snapshot m j (jb_owner r) =
    Inr \<lparr>snap_jobId = j, snap_status = jb_status r, snap_result = jb_result r\<rparr>"
proof -
  have rk: "rec_ok j r" by (rule running_rec(1) [OF assms(1,3)])
  then have "job_snapshot_ok \<lparr>snap_jobId = j, snap_status = jb_status r, snap_result = jb_result r\<rparr>"
    by (cases "jb_status r") (auto simp: rec_ok_def life_ok_def job_snapshot_ok_def conforms_def)
  then show ?thesis using assms(2,3) rk
    by (simp add: snapshot_def get_owned_def records_get_def rec_ok_def Let_def)
qed

lemma not_owned:
  assumes "\<And>r. records_get m j = Some r \<Longrightarrow> jb_owner r \<noteq> owner"
  shows "get_owned m j owner = Inl (Dispatch (unknown_job j))"
  using assms by (auto simp: get_owned_def split: option.split)


section \<open>Properties\<close>




lemma cap_run_a: "\<exists>r. jm_heap (run_at cap_run (demo_manager 1 0 1)) id_a = Some r \<and> is_terminal (jb_status r)"
proof -
  have "map_option (is_terminal \<circ> jb_status) (jm_heap (run_at cap_run (demo_manager 1 0 1)) id_a) = Some True"
    by code_simp
  then show ?thesis by auto
qed


text \<open>C3 A terminal job is final: no later operation changes its status, its result or its events.\<close>

theorem settled_is_final:
  assumes "step_ok tk a m" "jm_heap m j = Some r" "is_terminal (jb_status r)"
  shows "\<exists>s. jm_heap (jm_step resolve tk a m) j = Some s \<and> jb_status s = jb_status r \<and>
    jb_result s = jb_result r \<and> jb_events s = jb_events r \<and> jb_owner s = jb_owner r"
  using advancesD [OF jm_step_advances [OF assms(1)] assms(2), of resolve] assms(3)
  by (auto simp: grows_def)

lemma run_at_clock_last:
  "clock_ok s m \<Longrightarrow> run_ok s as m \<Longrightarrow> clock_ok (last (s # map fst as)) (run_at as m)"
proof (induction as arbitrary: s m)
  case (Cons x as)
  obtain t a where x: "x = (t, a)" by force
  have "clock_ok t m" using Cons.prems clock_ok_mono by (auto simp: x)
  then have "clock_ok t (jm_step no_models (tick_at t) a m)"
    using jm_step_clock [of "tick_at t"] by (simp add: tick_at_def)
  from Cons.IH [OF this] Cons.prems(2) show ?case by (cases as) (auto simp: x)
qed simp

lemma demo_clock: "0 < c \<Longrightarrow> clock_ok s (demo_manager c q r)"
  by (simp add: clock_ok_def demo_manager_def new_manager_def or_default_def)

theorem settled_is_final_witness:
  "\<exists>s. jm_heap (jm_step no_models (tick_at 9) StopFinish (run_at cap_run (demo_manager 1 0 1))) id_a = Some s \<and>
     is_terminal (jb_status s)"
proof -
  obtain r where r: "jm_heap (run_at cap_run (demo_manager 1 0 1)) id_a = Some r" "is_terminal (jb_status r)"
    using cap_run_a by blast
  have "clock_ok 6 (run_at cap_run (demo_manager 1 0 1))" 
    using run_at_clock_last [OF demo_clock cap_run_ok] by (simp add: cap_run_def run_job_def)
  then have "step_ok (tick_at 9) StopFinish (run_at cap_run (demo_manager 1 0 1))"
    using clock_ok_mono by (simp add: step_ok_def tick_at_def)
  from settled_is_final [OF this r, of no_models] r(2) show ?thesis by auto
qed

text \<open>C6 Ownership is the isolation boundary: for a peer that did not submit the job, every accessor
  answers exactly what it answers for an id that does not exist, and changes nothing.\<close>

theorem foreign_job_hidden:
  assumes "\<And>r. records_get m j = Some r \<Longrightarrow> jb_owner r \<noteq> peer"
  shows "snapshot m j peer = Inl (Dispatch (unknown_job j)) \<and>
    cancel now j peer m = (Inl (Dispatch (unknown_job j)), m) \<and>
    subscribe j peer fromSeq s m = (Inl (Dispatch (unknown_job j)), m) \<and>
    subscriber_count m j peer = Inl (Dispatch (unknown_job j))"
  using not_owned [OF assms]
  by (simp add: snapshot_def cancel_def subscribe_def subscriber_count_def)

theorem foreign_job_hidden_witness:
  "cancel 9 id_b ''other'' (run_at cap_run (demo_manager 1 0 1)) =
     (Inl (Dispatch (unknown_job id_b)), run_at cap_run (demo_manager 1 0 1))"
proof -
  have "map_option jb_owner (records_get (run_at cap_run (demo_manager 1 0 1)) id_b) = Some ''peer''"
    by code_simp
  then have "\<And>r. records_get (run_at cap_run (demo_manager 1 0 1)) id_b = Some r \<Longrightarrow> jb_owner r \<noteq> ''other''"
    by auto
  from foreign_job_hidden [OF this] show ?thesis by blast
qed

text \<open>C5 Every running job can finish, whatever its workspace resolution and its executor answer (a
  conforming result or a throw): when its remaining awaits settle, it is terminal, its run is over
  and its slot is free.\<close>

theorem run_completes:
  assumes "reachable resolve m0 m" "clock_ok (tk_now tk) m" "j \<in> set (jm_running m)"
    "\<And>r res. jm_heap m j = Some r \<Longrightarrow> x = Returned res \<Longrightarrow> conforms (params_type (jb_params r)) j res"
  shows "phase_of (finish_run tk w x j m) j = Done \<and> j \<notin> set (jm_running (finish_run tk w x j m)) \<and>
    (\<exists>s. stat (finish_run tk w x j m) j = Some s \<and> is_terminal s)"
  by (rule finish_run_done [OF reachable_inv [OF assms(1)] assms(2-4)])

theorem run_completes_witness:
  "id_b \<notin> set (jm_running (finish_run (tick_at 9) (WorkspaceReady ''/w'') (Threw ''x'') id_b
      (run_at cap_run (demo_manager 1 0 1))))"
proof -
  have "clock_ok (tk_now (tick_at 9)) (run_at cap_run (demo_manager 1 0 1))"
    using clock_ok_mono [OF run_at_clock_last [OF demo_clock cap_run_ok]] by (simp add: cap_run_def run_job_def tick_at_def)
  moreover have "id_b \<in> set (jm_running (run_at cap_run (demo_manager 1 0 1)))" by code_simp
  ultimately show ?thesis
    using run_completes [OF demo_reachable [OF zero_less_one cap_run_ok], of "tick_at 9" id_b "Threw ''x''"] by blast
qed

text \<open>No slot idles while a job waits: unless the manager is stopped, the queue is empty or every
  slot is taken.\<close>

theorem no_idle_slot:
  assumes "reachable resolve m0 m" "\<not> jm_stopped m"
  shows "jm_queue m = [] \<or> length (jm_running m) = jm_maxConcurrent m"
  using reachable_inv [OF assms(1)] assms(2) by (simp add: jm_inv_def work_conserving_def)

definition full_run :: "(int \<times> jm_action) list" where
  "full_run = [(5, Submit demo_command ''peer'' id_a), (6, Submit demo_command ''peer'' id_b)]"

lemma full_run_ok: "run_ok 0 full_run (demo_manager 1 1 2)"
  by code_simp

theorem no_idle_slot_witness:
  "jm_queue (run_at full_run (demo_manager 1 1 2)) = [id_b] \<and> length (jm_running (run_at full_run (demo_manager 1 1 2))) = 1"
proof -
  have "\<not> jm_stopped (run_at full_run (demo_manager 1 1 2))" "jm_queue (run_at full_run (demo_manager 1 1 2)) = [id_b]"
    "jm_maxConcurrent (run_at full_run (demo_manager 1 1 2)) = 1"
    by code_simp+
  with no_idle_slot [OF demo_reachable [OF zero_less_one full_run_ok]] show ?thesis by auto
qed

text \<open>C8 Admission, while the manager has not been stopped: a supported job whose model resolves is refused with \<open>BUSY\<close> exactly when every slot
  and every queue place is taken; otherwise it is recorded for its owner with the resolved endpoint,
  and it runs at once if a slot was free and waits if not.\<close>

theorem submit_admission:
  assumes "reachable resolve m0 m" "jm_heap m j = None" "job_id_ok j" "job_params_ok p" "\<not> jm_stopped m"
    "params_type p \<in> set (jm_executors m)"
    "resolve (params_type p) (requested_model p) = Resolved ep"
  shows "if length (jm_running m) = jm_maxConcurrent m \<and> length (jm_queue m) = jm_maxQueued m
    then \<exists>e. submit resolve tk p owner j m = (Inl e, m) \<and> err_code e = BUSY
    else fst (submit resolve tk p owner j m) = Inr j \<and>
      (\<exists>r. jm_heap (snd (submit resolve tk p owner j m)) j = Some r \<and> jb_owner r = owner \<and>
         jb_params r = p \<and> jb_endpoint r = ep \<and>
         jb_status r = (if length (jm_running m) < jm_maxConcurrent m then Running else Queued))"
proof (cases "length (jm_running m) = jm_maxConcurrent m \<and> length (jm_queue m) = jm_maxQueued m")
  case True
  with assms(5-7) show ?thesis by (simp add: submit_def hfp_err_def)
next
  case False
  have i: "jm_inv m" by (rule reachable_inv [OF assms(1)])
  from inv_bounds [OF i] False have
    "length (jm_running m) < jm_maxConcurrent m \<or> length (jm_queue m) < jm_maxQueued m" by linarith
  from submit_accepted [where owner = owner and tk = tk and resolve = resolve and p = p and m = m, OF i assms(2-7) this]
  show ?thesis by (simp only: False if_False)
qed

theorem submit_admission_witness:
  "\<exists>e. submit no_models (tick_at 7) demo_command ''peer'' id_c (run_at full_run (demo_manager 1 1 2)) =
     (Inl e, run_at full_run (demo_manager 1 1 2)) \<and> err_code e = BUSY"
proof -
  let ?m = "run_at full_run (demo_manager 1 1 2)"
  have "jm_heap ?m id_c = None" "job_id_ok id_c" "job_params_ok demo_command" "\<not> jm_stopped ?m"
    "params_type demo_command \<in> set (jm_executors ?m)"
    "no_models (params_type demo_command) (requested_model demo_command) = Resolved None"
    "length (jm_running ?m) = jm_maxConcurrent ?m \<and> length (jm_queue ?m) = jm_maxQueued ?m"
    by code_simp+
  with submit_admission [OF demo_reachable [OF zero_less_one full_run_ok] this(1-6), of "tick_at 7" "''peer''"]
  show ?thesis by simp
qed



text \<open>C7 Cancellation tells the truth: a terminal job answers its status and is untouched; a queued job
  leaves the queue and is canceled at once, without ever running; a running job is aborted and the
  answer awaits its unwind.\<close>

theorem cancel_outcome:
  assumes "reachable resolve m0 m" "clock_ok now m" "get_owned m j peer = Inr r"
  shows "case jb_status r of
      Queued \<Rightarrow> fst (cancel now j peer m) = Inr (Answer Canceled) \<and>
        stat (snd (cancel now j peer m)) j = Some Canceled \<and> phase_of (snd (cancel now j peer m)) j = NotStarted \<and>
        j \<notin> set (jm_queue (snd (cancel now j peer m)))
    | Running \<Rightarrow> cancel now j peer m = (Inr AwaitUnwind, heap_upd j (\<lambda>r. r\<lparr>jb_aborted := True\<rparr>) m)
    | s \<Rightarrow> cancel now j peer m = (Inr (Answer s), m)"
proof -
  have i: "jm_inv m" by (rule reachable_inv [OF assms(1)])
  have r: "jm_heap m j = Some r"
    using assms(3) by (auto simp: get_owned_def records_get_def split: option.splits if_splits)
  show ?thesis
  proof (cases "jb_status r = Queued")
    case True
    let ?q = "m\<lparr>jm_queue := remove1 j (jm_queue m)\<rparr>"
    let ?res = "canceled_result now r"
    let ?w = "with_finished now j ?res r ?q"
    have nt: "\<not> is_terminal (jb_status r)" using True by simp
    have c: "conforms (params_type (jb_params r)) j ?res"
      unfolding canceled_result_def by (rule plain_conforms [OF i assms(2) r]) simp
    have f: "finish_job now j ?res ?q = (False, evict_if_needed ?w)"
      by (rule finish_job_conforming [OF _ running_rec(1) [OF i r] nt c]) (simp add: r)
    note v = same_jobs_views [OF same_jobs_evict, of ?w]
    have ns: "jb_phase r = NotStarted"
      using running_rec(1) [OF i r] True by (simp add: rec_ok_def life_ok_def)
    have st: "stat (evict_if_needed ?w) j = Some Canceled"
      by (simp add: v(1)) (simp add: stat_def canceled_result_def plain_result_def)
    moreover have "phase_of (evict_if_needed ?w) j = NotStarted"
      by (simp add: v(2)) (simp add: phase_of_def ns)
    moreover have "distinct (jm_queue m)" using i by (simp add: jm_inv_def sched_ok_def)
    ultimately show ?thesis using True assms(3) f by (auto simp: cancel_def stat_def)
  next
    case False
    then show ?thesis using assms(3) by (cases "jb_status r") (simp_all add: cancel_def)
  qed
qed

theorem cancel_outcome_witness:
  "fst (cancel 9 id_b ''peer'' (run_at full_run (demo_manager 1 1 2))) = Inr (Answer Canceled)"
proof -
  let ?m = "run_at full_run (demo_manager 1 1 2)"
  have m: "map_option (\<lambda>r. (jb_status r, jb_owner r)) (records_get ?m id_b) = Some (Queued, ''peer'')"
    by code_simp
  then obtain r where r: "get_owned ?m id_b ''peer'' = Inr r" "jb_status r = Queued"
    by (auto simp: get_owned_def)
  have "clock_ok 9 ?m"
    using clock_ok_mono [OF run_at_clock_last [OF demo_clock full_run_ok]] by (simp add: full_run_def)
  from cancel_outcome [OF demo_reachable [OF zero_less_one full_run_ok] this r(1)] r(2) show ?thesis by simp
qed

text \<open>C4 A subscriber's stream has no gap and no duplicate: what it has received is exactly the job's log
  from its start position (or from the end of the log, if it asked for later), whatever other
  operations, terminations and evictions happened since it subscribed.  Only its own unsubscribing, a second
  subscription under its identity, and the final teardown, which empties every job's subscriber set, are excluded
  (\<open>leaves_alone\<close>).\<close>

theorem subscriber_stream:
  assumes "reachable resolve m0 m" "fresh_sub s m" "jm_heap m j = Some r"
    "subscribe j owner fromSeq s m = (Inr b, m')" "steps_leaving s resolve m' n" "jm_heap n j = Some q"
  shows "delivered s (jm_out n) = drop (min (replay_start fromSeq) (length (jb_events r))) (jb_events q)"
  using follows_steps [OF assms(5) conjunct1 [OF follows_subscribe [OF reachable_inv [OF assms(1)] assms(2-4)]]]
    assms(6)
  by (auto simp: follows_def)


definition stream_start :: manager where
  "stream_start = run_at [(5, Submit demo_command ''peer'' id_a)] (demo_manager 1 0 1)"

lemma id_a_ok: "job_id_ok id_a"
  by code_simp

lemma stream_start_heap:
  "\<exists>r. jm_heap stream_start = [id_a \<mapsto> r] \<and> jb_subscribers r = [] \<and> jb_owner r = ''peer'' \<and>
     length (jb_events r) = 1 \<and> jb_status r = Running"
  "jm_out stream_start = []" "jm_records stream_start = [id_a]"
  using id_a_ok
  by (auto simp: stream_start_def demo_manager_def new_manager_def or_default_def submit_def demo_command_def
      no_models_def tick_at_def pump_def jset_add_def records_get_def start_job_def append_event_def
      event_ok_plain set_phase_def Let_def heap_upd_def)

lemma stream_start_reachable: "reachable no_models (demo_manager 1 0 1) stream_start"
proof -
  have "run_ok 0 [(5, Submit demo_command ''peer'' id_a)] (demo_manager 1 0 1)" by code_simp
  from demo_reachable [OF zero_less_one this] show ?thesis by (simp add: stream_start_def)
qed

theorem subscriber_stream_witness:
  "\<exists>m' (n :: manager) q. subscribe id_a ''peer'' (Some 0) 7 stream_start = (Inr False, m') \<and>
     jm_heap n id_a = Some q \<and> delivered 7 (jm_out n) = jb_events q"
proof -
  obtain r where r: "jm_heap stream_start = [id_a \<mapsto> r]" "jb_subscribers r = []" "jb_owner r = ''peer''"
    "length (jb_events r) = 1" "jb_status r = Running"
    using stream_start_heap(1) by blast
  have fr: "fresh_sub 7 stream_start" using r by (simp add: fresh_sub_def stream_start_heap)
  obtain m' where m': "subscribe id_a ''peer'' (Some 0) 7 stream_start = (Inr False, m')"
    using r by (simp add: subscribe_def get_owned_def records_get_def stream_start_heap Let_def)
  let ?n = "jm_step no_models (tick_at 9) StopBegin m'"
  have c: "clock_ok 5 stream_start"
  proof -
    have "run_ok 5 [(5, Submit demo_command ''peer'' id_a)] (demo_manager 1 0 1)" by code_simp
    from run_at_clock_last [OF demo_clock this] show ?thesis by (simp add: stream_start_def)
  qed
  have "clock_ok 5 m'" using subscribe_started [of id_a "''peer''" "Some 0" 7 stream_start] c m'
    by (simp add: clock_ok_started_at)
  then have ok: "step_ok (tick_at 9) StopBegin m'" using clock_ok_mono by (simp add: step_ok_def tick_at_def)
  have st: "steps_leaving 7 no_models m' ?n"
    by (rule leaving_step [OF leaving_none ok]) simp
  have "\<exists>q. jm_heap m' id_a = Some q"
    using advancesD [OF advances_subscribe, of stream_start id_a r id_a "''peer''" "Some 0" 7] r m' by auto
  then obtain q where q: "jm_heap ?n id_a = Some q"
    using advancesD [OF jm_step_advances [OF ok]] by blast
  have "delivered 7 (jm_out ?n) = jb_events q"
    using subscriber_stream [OF stream_start_reachable fr _ m' st q] r by (simp add: replay_start_def)
  with m' q show ?thesis by blast
qed

end
