(* ===== verification/Delegation.thy ===== *)
theory Delegation imports Protocol begin

text \<open>
  \<^verbatim>\<open>packages/daemon/src/mcp/delegation-registry.ts\<close> and
  \<^verbatim>\<open>packages/daemon/src/workspace/artifact-store.ts\<close>: where each delegated job runs, its
  last-seen status, the single-flight gate of an artifact apply; and the bundles a worker serves.
\<close>

section \<open>The delegation registry\<close>

definition MAX_TRACKED_DELEGATIONS :: nat where "MAX_TRACKED_DELEGATIONS = 1024"
definition DEFAULT_DELEGATION_LIST_LIMIT :: nat where "DEFAULT_DELEGATION_LIST_LIMIT = 100"

record delegation_route =
  dr_deviceId :: string
  dr_host :: string
  dr_port :: nat
  dr_repoId :: string

record applied_artifact =
  aa_branchName :: string
  aa_baseCommit :: string

record delegation_entry =
  de_route :: delegation_route
  de_type :: job_type
  de_recordedAt :: int
  de_lastStatus :: job_status
  de_lastStatusAt :: int
  de_applied :: "applied_artifact option"

record delegation_listing =
  dl_jobId :: string
  dl_type :: job_type
  dl_deviceId :: string
  dl_repoId :: string
  dl_recordedAt :: int
  dl_lastStatus :: job_status
  dl_lastStatusAt :: int
  dl_appliedBranch :: "string option"

type_synonym delegation_map = "(string, delegation_entry) jmap"

text \<open>\<open>entries.delete(entries.keys().next().value)\<close>.\<close>

definition evict_first :: "('k, 'v) jmap \<Rightarrow> ('k, 'v) jmap" where
  "evict_first m = (case m of [] \<Rightarrow> m | (k, _) # _ \<Rightarrow> jmap_delete m k)"

definition record_delegation :: "int \<Rightarrow> string \<Rightarrow> delegation_route \<Rightarrow> job_type \<Rightarrow> delegation_map \<Rightarrow> delegation_map" where
  "record_delegation now j route ty m =
     shrink length evict_first MAX_TRACKED_DELEGATIONS
       (jmap_set (jmap_delete m j) j
          \<lparr>de_route = route, de_type = ty, de_recordedAt = now, de_lastStatus = Queued,
           de_lastStatusAt = now, de_applied = None\<rparr>)"

definition lookup_route :: "delegation_map \<Rightarrow> string \<Rightarrow> delegation_route option" where
  "lookup_route m j = map_option de_route (jmap_get m j)"

definition record_applied :: "string \<Rightarrow> applied_artifact \<Rightarrow> delegation_map \<Rightarrow> delegation_map" where
  "record_applied j a m =
     (case jmap_get m j of None \<Rightarrow> m | Some e \<Rightarrow> jmap_set m j (e\<lparr>de_applied := Some a\<rparr>))"

definition applied_artifact_of :: "delegation_map \<Rightarrow> string \<Rightarrow> applied_artifact option" where
  "applied_artifact_of m j = (case jmap_get m j of None \<Rightarrow> None | Some e \<Rightarrow> de_applied e)"

definition observe_status :: "int \<Rightarrow> string \<Rightarrow> job_status \<Rightarrow> delegation_map \<Rightarrow> delegation_map" where
  "observe_status now j s m =
     (case jmap_get m j of None \<Rightarrow> m
      | Some e \<Rightarrow> jmap_set m j (e\<lparr>de_lastStatus := s, de_lastStatusAt := now\<rparr>))"

definition delegation_listing :: "string \<times> delegation_entry \<Rightarrow> delegation_listing" where
  "delegation_listing p =
     \<lparr>dl_jobId = fst p, dl_type = de_type (snd p), dl_deviceId = dr_deviceId (de_route (snd p)),
      dl_repoId = dr_repoId (de_route (snd p)), dl_recordedAt = de_recordedAt (snd p),
      dl_lastStatus = de_lastStatus (snd p), dl_lastStatusAt = de_lastStatusAt (snd p),
      dl_appliedBranch = map_option aa_branchName (de_applied (snd p))\<rparr>"

text \<open>The loop of \<open>list\<close>: \<open>i\<close> counts down from the end; the argument is \<open>i + 1\<close>.\<close>

fun list_loop :: "delegation_map \<Rightarrow> nat \<Rightarrow> nat \<Rightarrow> delegation_listing list \<Rightarrow> delegation_listing list" where
  "list_loop m 0 limit out = out"
| "list_loop m (Suc i) limit out =
     (if length out < limit then list_loop m i limit (out @ [delegation_listing (m ! i)]) else out)"

definition list_delegations :: "delegation_map \<Rightarrow> nat \<Rightarrow> delegation_listing list" where
  "list_delegations m limit = list_loop m (length m) limit []"

section \<open>Single flight\<close>

text \<open>The flight of a job is named by the call that started it; \<open>fl_runs\<close> logs each \<open>run()\<close>.\<close>

record flights =
  fl_current :: "(string, nat) jmap"
  fl_runs :: "(nat \<times> string) list"

text \<open>The answer is the flight whose outcome the caller reports.\<close>

definition single_flight :: "nat \<Rightarrow> string \<Rightarrow> flights \<Rightarrow> nat \<times> flights" where
  "single_flight call j f =
     (case jmap_get (fl_current f) j of
        Some c \<Rightarrow> (c, f)
      | None \<Rightarrow> (call, \<lparr>fl_current = jmap_set (fl_current f) j call, fl_runs = fl_runs f @ [(call, j)]\<rparr>))"

definition flight_settled :: "string \<Rightarrow> flights \<Rightarrow> flights" where
  "flight_settled j f = f\<lparr>fl_current := jmap_delete (fl_current f) j\<rparr>"

datatype flight_step = FlightCall nat string | FlightDone string

fun flight_run :: "flight_step list \<Rightarrow> flights \<Rightarrow> flights" where
  "flight_run [] f = f"
| "flight_run (FlightCall c j # xs) f = flight_run xs (snd (single_flight c j f))"
| "flight_run (FlightDone j # xs) f = flight_run xs (flight_settled j f)"

section \<open>The artifact store\<close>

record artifact_entry =
  ae_bundlePath :: string
  ae_headCommit :: string
  ae_byteLength :: nat

record artifact_store =
  as_entries :: "(string, artifact_entry) jmap"
  as_deleted :: "string list"

definition artifact_register :: "string \<Rightarrow> artifact_entry \<Rightarrow> artifact_store \<Rightarrow> artifact_store" where
  "artifact_register j e s = s\<lparr>as_entries := jmap_set (as_entries s) j e\<rparr>"

definition artifact_get :: "artifact_store \<Rightarrow> string \<Rightarrow> artifact_entry option" where
  "artifact_get s j = jmap_get (as_entries s) j"

definition artifact_remove :: "string \<Rightarrow> artifact_store \<Rightarrow> artifact_store" where
  "artifact_remove j s =
     (case jmap_get (as_entries s) j of
        None \<Rightarrow> s\<lparr>as_entries := jmap_delete (as_entries s) j\<rparr>
      | Some e \<Rightarrow> s\<lparr>as_entries := jmap_delete (as_entries s) j, as_deleted := as_deleted s @ [ae_bundlePath e]\<rparr>)"

fun artifact_remove_each :: "string list \<Rightarrow> artifact_store \<Rightarrow> artifact_store" where
  "artifact_remove_each [] s = s"
| "artifact_remove_each (j # js) s = artifact_remove_each js (artifact_remove j s)"

definition artifact_remove_all :: "artifact_store \<Rightarrow> artifact_store" where
  "artifact_remove_all s = artifact_remove_each (jmap_keys (as_entries s)) s"

section \<open>Facts\<close>

interpretation delegations: evicting_store length "evict_first :: ('k, 'v) jmap \<Rightarrow> ('k, 'v) jmap" jmap_ok set
proof
  fix m :: "('k, 'v) jmap"
  assume m: "jmap_ok m" "0 < length m"
  then obtain k v m' where e: "m = (k, v) # m'" "k \<notin> fst ` set m'" by (cases m) auto
  then have "evict_first m = m'" by (simp add: evict_first_def)
  with m e show "Suc (length (evict_first m)) = length m" "jmap_ok (evict_first m)" "set (evict_first m) \<subseteq> set m"
    by auto
qed

lemma shrink_first: 
  "jmap_ok m \<Longrightarrow> shrink length evict_first cap m = drop (length m - cap) m"
proof (induction m)
  case Nil
  then show ?case by (simp add: delegations.shrink_within)
next
  case (Cons p m)
  show ?case
  proof (cases "cap < length (p # m)")
    case True
    have "evict_first (p # m) = m" using Cons.prems by (cases p) (simp add: evict_first_def)
    with True Cons show ?thesis
      by (simp add: shrink_unfold [of length evict_first cap "p # m"] Suc_diff_le less_Suc_eq_le)
  qed (simp add: delegations.shrink_within)
qed

lemma record_delegation_eq:
  assumes "jmap_ok m"
  shows "\<exists>e. record_delegation now j r ty m =
    drop (Suc (length (jmap_delete m j)) - MAX_TRACKED_DELEGATIONS) (jmap_delete m j @ [(j, e)]) \<and>
    de_route e = r \<and> de_applied e = None \<and> de_lastStatus e = Queued"
proof -
  have "j \<notin> fst ` set (jmap_delete m j)" by (simp add: set_jmap_delete image_iff) 
  then show ?thesis using assms
    by (intro exI [of _ "\<lparr>de_route = r, de_type = ty, de_recordedAt = now, de_lastStatus = Queued,
           de_lastStatusAt = now, de_applied = None\<rparr>"])
       (simp add: record_delegation_def shrink_first jmap_set_fresh distinct_delete)
qed

lemma list_loop_eq:
  "i \<le> length m \<Longrightarrow> length out \<le> limit \<Longrightarrow>
   list_loop m i limit out = out @ take (limit - length out) (map delegation_listing (rev (take i m)))"
proof (induction m i limit out rule: list_loop.induct)
  case (2 m i limit out)
  then have "rev (take (Suc i) m) = m ! i # rev (take i m)" by (simp add: take_Suc_conv_app_nth)
  with 2 show ?case by (auto simp: take_Cons' Suc_diff_le)
qed simp

lemma list_delegations_eq: "list_delegations m limit = take limit (map delegation_listing (rev m))"
  by (simp add: list_delegations_def list_loop_eq)

lemma flight_run_ok:
  "jmap_ok (fl_current f) \<Longrightarrow> set (map (\<lambda>(j, c). (c, j)) (fl_current f)) \<subseteq> set (fl_runs f) \<Longrightarrow>
   jmap_ok (fl_current (flight_run xs f)) \<and>
   set (map (\<lambda>(j, c). (c, j)) (fl_current (flight_run xs f))) \<subseteq> set (fl_runs (flight_run xs f))"
proof (induction xs f rule: flight_run.induct)
  case (2 c j xs f)
  show ?case unfolding flight_run.simps
    by (rule "2.IH") (use "2.prems" in \<open>auto simp: single_flight_def set_jmap_set split: option.splits\<close>)
next
  case (3 j xs f)
  show ?case unfolding flight_run.simps
    by (rule "3.IH") (use "3.prems" in \<open>auto simp: flight_settled_def set_jmap_delete distinct_delete\<close>)
qed simp

lemma artifact_removed: "artifact_get (artifact_remove j s) k = (if k = j then None else artifact_get s k)"
  by (simp add: artifact_get_def artifact_remove_def split: option.split)

lemma artifact_remove_each_get:
  "artifact_get (artifact_remove_each js s) k = (if k \<in> set js then None else artifact_get s k)"
  by (induction js arbitrary: s) (auto simp: artifact_removed)

section \<open>Properties\<close>

text \<open>Recording a delegation makes it the newest entry, findable under its route with no applied
  artifact, keeps the registry within its cap, and forgets only the oldest entries.\<close>

theorem delegation_recorded:
  assumes "jmap_ok m" "length m \<le> MAX_TRACKED_DELEGATIONS"
  shows "lookup_route (record_delegation now j r ty m) j = Some r \<and>
    applied_artifact_of (record_delegation now j r ty m) j = None \<and>
    length (record_delegation now j r ty m) \<le> MAX_TRACKED_DELEGATIONS \<and>
    (length m < MAX_TRACKED_DELEGATIONS \<or> j \<in> fst ` set m \<longrightarrow>
       (\<forall>k. k \<noteq> j \<longrightarrow> jmap_get (record_delegation now j r ty m) k = jmap_get m k))"
proof -
  let ?d = "jmap_delete m j"
  obtain e where e: "record_delegation now j r ty m = drop (Suc (length ?d) - MAX_TRACKED_DELEGATIONS) (?d @ [(j, e)])"
    "de_route e = r" "de_applied e = None"
    using record_delegation_eq [OF assms(1)] by blast
  have jd: "j \<notin> fst ` set ?d" by (simp add: set_jmap_delete image_iff)
  have ok: "jmap_ok (?d @ [(j, e)])" using jd assms(1) by (simp add: distinct_delete)
  have le: "length ?d \<le> length m" by (rule length_delete_le)
  let ?n = "Suc (length ?d) - MAX_TRACKED_DELEGATIONS"
  have n: "?n \<le> length ?d" by (simp add: MAX_TRACKED_DELEGATIONS_def)
  then have sp: "record_delegation now j r ty m = drop ?n ?d @ [(j, e)]" using e(1) by simp
  have "jmap_get (record_delegation now j r ty m) j = Some e"
  proof (rule jmap_in_get)
    have "jmap_ok (drop ?n (?d @ [(j, e)]))" using ok by (simp only: drop_map [symmetric] distinct_drop)
    then show "jmap_ok (record_delegation now j r ty m)" using e(1) by simp
  qed (simp add: sp)
  moreover have "\<forall>k. k \<noteq> j \<longrightarrow> jmap_get (record_delegation now j r ty m) k = jmap_get m k"
    if "length m < MAX_TRACKED_DELEGATIONS \<or> j \<in> fst ` set m"
  proof -
    have "Suc (length ?d) \<le> MAX_TRACKED_DELEGATIONS"
      using that assms(2) le length_jmap_delete [OF assms(1), of j] by linarith
    then have "?n = 0" by simp
    then show ?thesis using sp by (auto simp: map_add_def split: option.split)
  qed
  ultimately show ?thesis using e(2,3) sp n assms(2) le
    by (auto simp: lookup_route_def applied_artifact_of_def)
qed

theorem delegation_recorded_witness:
  "lookup_route (record_delegation 5 ''j'' \<lparr>dr_deviceId = ''d'', dr_host = ''h'', dr_port = 1, dr_repoId = ''r''\<rparr> Recon []) ''j'' =
   Some \<lparr>dr_deviceId = ''d'', dr_host = ''h'', dr_port = 1, dr_repoId = ''r''\<rparr>"
  using delegation_recorded [of "[]" 5 "''j''" "\<lparr>dr_deviceId = ''d'', dr_host = ''h'', dr_port = 1, dr_repoId = ''r''\<rparr>" Recon]
  by (simp add: MAX_TRACKED_DELEGATIONS_def)

text \<open>The listing loop returns the newest \<open>limit\<close> delegations, newest first.\<close>

theorem delegation_listing_newest:
  "list_delegations m limit = take limit (map delegation_listing (rev m))"
  by (rule list_delegations_eq)

text \<open>Overlapping applies share one run: whatever calls and completions happened, a call that finds
  a flight for its job starts nothing and reports that flight, which some earlier call really ran; a
  call that finds none starts exactly one run and reports it.\<close>

theorem single_flight_shares:
  "case jmap_get (fl_current (flight_run xs \<lparr>fl_current = [], fl_runs = []\<rparr>)) j of
     Some c \<Rightarrow>
       single_flight call j (flight_run xs \<lparr>fl_current = [], fl_runs = []\<rparr>) =
         (c, flight_run xs \<lparr>fl_current = [], fl_runs = []\<rparr>) \<and>
       (c, j) \<in> set (fl_runs (flight_run xs \<lparr>fl_current = [], fl_runs = []\<rparr>))
   | None \<Rightarrow>
       fst (single_flight call j (flight_run xs \<lparr>fl_current = [], fl_runs = []\<rparr>)) = call \<and>
       fl_runs (snd (single_flight call j (flight_run xs \<lparr>fl_current = [], fl_runs = []\<rparr>))) =
         fl_runs (flight_run xs \<lparr>fl_current = [], fl_runs = []\<rparr>) @ [(call, j)]"
proof -
  have "set (map (\<lambda>(j, c). (c, j)) (fl_current (flight_run xs \<lparr>fl_current = [], fl_runs = []\<rparr>))) \<subseteq>
      set (fl_runs (flight_run xs \<lparr>fl_current = [], fl_runs = []\<rparr>))"
    using flight_run_ok [of "\<lparr>fl_current = [], fl_runs = []\<rparr>" xs] by simp
  then show ?thesis by (auto simp: single_flight_def dest: jmap_get_in split: option.split)
qed

end
