(* ===== verification/Upgrade.thy ===== *)
theory Upgrade imports Protocol "HOL-Library.Sublist" begin

text \<open>
  \<^verbatim>\<open>packages/daemon/src/upgrade\<close>: \<^verbatim>\<open>errors.ts\<close>, \<^verbatim>\<open>guards.ts\<close>, the lock of \<^verbatim>\<open>files.ts\<close>. The lock is
  a file that several processes create, read and remove; its protocol is a program of atomic
  file-system steps, so interleavings of two processes are runs of the model.
\<close>

section \<open>Errors and guards\<close>

datatype upgrade_error_code =
    NotNewer | HfpMajorMismatch | UpBusy | UpLocked | NotInstalled | UpUnsupported
  | FetchFailed | VerifyFailed | UpDisabled | UnknownNode

record upgrade_error =
  ue_code :: upgrade_error_code
  ue_message :: string
  ue_peerMessage :: "string option"

definition upgrade_err :: "upgrade_error_code \<Rightarrow> string \<Rightarrow> upgrade_error" where
  "upgrade_err c m = \<lparr>ue_code = c, ue_message = m, ue_peerMessage = None\<rparr>"

text \<open>\<open>compareSemver\<close> throws on a string that is not a version: that escapes as \<open>Inl\<close>.\<close>

definition check_newer :: "string \<Rightarrow> string \<Rightarrow> semver_error + upgrade_error option" where
  "check_newer current target =
     (case compare_semver target current of
        Inl e \<Rightarrow> Inl e
      | Inr n \<Rightarrow> Inr (if 0 < n then None else
          Some (upgrade_err NotNewer (target @ '' is not newer than the running '' @ current @
                  '' (downgrades are refused)''))))"

definition installed_marker :: string where
  "installed_marker = ''/node_modules/homefleet/dist/bin/''"

definition is_installed_entry :: "string \<Rightarrow> bool" where
  "is_installed_entry entryPath =
     sublist installed_marker (map (\<lambda>c. if c = CHR 0x5C then CHR ''/'' else c) entryPath)"

record guard_input =
  gi_current :: string
  gi_target :: string
  gi_targetHfpVersion :: string
  gi_localHfpVersion :: string
  gi_activeJobs :: nat
  gi_force :: bool
  gi_entryPath :: string

definition check_upgrade_guards :: "guard_input \<Rightarrow> semver_error + upgrade_error option" where
  "check_upgrade_guards i =
     (case check_newer (gi_current i) (gi_target i) of
        Inl e \<Rightarrow> Inl e
      | Inr (Some e) \<Rightarrow> Inr (Some e)
      | Inr None \<Rightarrow>
          (case major_of (gi_targetHfpVersion i) of
             Inl e \<Rightarrow> Inl e
           | Inr t \<Rightarrow>
               (case major_of (gi_localHfpVersion i) of
                  Inl e \<Rightarrow> Inl e
                | Inr l \<Rightarrow> Inr (
                    if t \<noteq> l then
                      Some (upgrade_err HfpMajorMismatch
                        (''release '' @ gi_target i @ '' speaks HFP '' @ gi_targetHfpVersion i @
                         '', this node speaks '' @ gi_localHfpVersion i @
                         ''; a major protocol change needs a manual upgrade''))
                    else if \<not> is_installed_entry (gi_entryPath i) then
                      Some \<lparr>ue_code = NotInstalled,
                        ue_message = ''this daemon runs from '' @ gi_entryPath i @
                          '', not an npm-installed HomeFleet; update a checkout with git + pnpm build instead'',
                        ue_peerMessage = Some (''this node runs HomeFleet from a source checkout, not an npm install; '' @
                          ''update it there with git + pnpm build'')\<rparr>
                    else if 0 < gi_activeJobs i \<and> \<not> gi_force i then
                      Some \<lparr>ue_code = UpBusy,
                        ue_message = show_nat (gi_activeJobs i) @ '' job(s) running; wait for them to finish or pass --force'',
                        ue_peerMessage = Some (show_nat (gi_activeJobs i) @ '' job(s) running on this node; push again once they finish'')\<rparr>
                    else None))))"

section \<open>The upgrade lock\<close>

definition STALE_LOCK_MS :: int where "STALE_LOCK_MS = 10 * 60000"

text \<open>What parsing the file gives: an error (an empty, half-written or corrupt file), \<open>null\<close>, or a
  value whose \<open>pid\<close> and \<open>at\<close> are numbers or not.\<close>

datatype lock_content = Unparsable | JsonNull | Fields "int option" "int option"

definition held_stale :: "(int \<Rightarrow> bool) \<Rightarrow> int \<Rightarrow> int option \<Rightarrow> int option \<Rightarrow> bool" where
  "held_stale alive now pid at' =
     (case (pid, at') of (Some p, Some a) \<Rightarrow> now - a > STALE_LOCK_MS \<and> \<not> alive p | _ \<Rightarrow> True)"

text \<open>The file: absent, or an inode with its content. Writing after the exclusive create goes to the
  inode, wherever the path points by then.\<close>

type_synonym lock_file = "(nat \<times> lock_content) option"

record lock_fs =
  lf_file :: lock_file
  lf_next :: nat

datatype lock_pc = Creating nat | Writing nat | Reading nat | Removing nat | LockDone bool | LockThrew string

text \<open>How the file system serves a step: it works; a create, write or removal fails with an error other than \<open>EEXIST\<close>; or
  a read of a file that is there fails (no descriptor, no permission), which the code does not tell from a corrupt file.\<close>

datatype lock_io = Works | IoFails string | ReadFails

record lock_holder =
  lh_pid :: int
  lh_now :: int

fun lock_step :: "(int \<Rightarrow> bool) \<Rightarrow> lock_holder \<Rightarrow> lock_io \<Rightarrow> lock_pc \<times> lock_fs \<Rightarrow> lock_pc \<times> lock_fs" where
  "lock_step alive h io (Creating n, fs) =
     (if 2 \<le> n then (LockDone False, fs)
      else case io of
        IoFails msg \<Rightarrow> (LockThrew msg, fs)
      | _ \<Rightarrow>
        (case lf_file fs of
           None \<Rightarrow> (Writing (lf_next fs), fs\<lparr>lf_file := Some (lf_next fs, Unparsable), lf_next := Suc (lf_next fs)\<rparr>)
         | Some _ \<Rightarrow> (Reading n, fs)))"
| "lock_step alive h io (Writing i, fs) =
     (case io of
        IoFails msg \<Rightarrow> (LockThrew msg, fs)
      | _ \<Rightarrow>
        (LockDone True,
         (case lf_file fs of
            Some (j, _) \<Rightarrow> if j = i then fs\<lparr>lf_file := Some (i, Fields (Some (lh_pid h)) (Some (lh_now h)))\<rparr> else fs
          | None \<Rightarrow> fs)))"
| "lock_step alive h io (Reading n, fs) =
     (if io = ReadFails then (Removing n, fs)
      else case lf_file fs of
        None \<Rightarrow> (Removing n, fs)
      | Some (_, Unparsable) \<Rightarrow> (Removing n, fs)
      | Some (_, JsonNull) \<Rightarrow> (LockThrew ''Cannot read properties of null (reading 'pid')'', fs)
      | Some (_, Fields p a) \<Rightarrow>
          if held_stale alive (lh_now h) p a then (Removing n, fs) else (LockDone False, fs))"
| "lock_step alive h io (Removing n, fs) =
     (case io of
        IoFails msg \<Rightarrow> (LockThrew msg, fs)
      | _ \<Rightarrow> (Creating (Suc n), fs\<lparr>lf_file := None\<rparr>))"
| "lock_step alive h io (LockDone b, fs) = (LockDone b, fs)"
| "lock_step alive h io (LockThrew msg, fs) = (LockThrew msg, fs)"

text \<open>One process to its end: the steps left at each point bound the recursion.\<close>

fun steps_left :: "lock_pc \<Rightarrow> nat" where
  "steps_left (Creating n) = 4 * (2 - n) + 1"
| "steps_left (Reading n) = 4 * (2 - n)"
| "steps_left (Removing n) = 4 * (2 - n) - 1"
| "steps_left (Writing _) = 1"
| "steps_left _ = 0"

fun acquire_from :: "nat \<Rightarrow> (int \<Rightarrow> bool) \<Rightarrow> lock_holder \<Rightarrow> (nat \<Rightarrow> lock_io) \<Rightarrow> lock_pc \<times> lock_fs \<Rightarrow> lock_pc \<times> lock_fs" where
  "acquire_from 0 alive h io s = s"
| "acquire_from (Suc k) alive h io s = acquire_from k alive h io (lock_step alive h (io k) s)"

definition acquire_lock :: "(int \<Rightarrow> bool) \<Rightarrow> lock_holder \<Rightarrow> (nat \<Rightarrow> lock_io) \<Rightarrow> lock_fs \<Rightarrow> lock_pc \<times> lock_fs" where
  "acquire_lock alive h io fs = acquire_from 9 alive h io (Creating 0, fs)"

text \<open>(\<open>io k\<close> serves the step after which \<open>k\<close> are left.) \<open>isLockHeld\<close> on a file that can be read, and as it is called:\<close>

definition is_lock_held :: "(int \<Rightarrow> bool) \<Rightarrow> int \<Rightarrow> lock_fs \<Rightarrow> bool" where
  "is_lock_held alive now fs =
     (case lf_file fs of
        Some (_, Fields (Some p) (Some a)) \<Rightarrow> \<not> (now - a > STALE_LOCK_MS \<and> \<not> alive p)
      | _ \<Rightarrow> False)"

definition probe_lock :: "lock_io \<Rightarrow> (int \<Rightarrow> bool) \<Rightarrow> int \<Rightarrow> lock_fs \<Rightarrow> bool" where
  "probe_lock io alive now fs = (io \<noteq> ReadFails \<and> is_lock_held alive now fs)"

definition release_lock :: "lock_fs \<Rightarrow> lock_fs" where
  "release_lock fs = fs\<lparr>lf_file := None\<rparr>"

text \<open>Two processes share the file; the schedule says whose atomic step is next and how it is served.\<close>

record lock_world =
  lw_a :: lock_pc
  lw_b :: lock_pc
  lw_fs :: lock_fs

fun lock_run :: "(int \<Rightarrow> bool) \<Rightarrow> lock_holder \<Rightarrow> lock_holder \<Rightarrow> (bool \<times> lock_io) list \<Rightarrow> lock_world \<Rightarrow> lock_world" where
  "lock_run alive ha hb [] w = w"
| "lock_run alive ha hb ((x, io) # xs) w =
     (if x then
        (case lock_step alive ha io (lw_a w, lw_fs w) of (pc, fs) \<Rightarrow> lock_run alive ha hb xs (w\<lparr>lw_a := pc, lw_fs := fs\<rparr>))
      else
        (case lock_step alive hb io (lw_b w, lw_fs w) of (pc, fs) \<Rightarrow> lock_run alive ha hb xs (w\<lparr>lw_b := pc, lw_fs := fs\<rparr>)))"

section \<open>Facts\<close>

lemma check_newer_None:
  "check_newer current target = Inr None \<longleftrightarrow> (\<exists>n. compare_semver target current = Inr n \<and> 0 < n)"
  by (auto simp: check_newer_def split: sum.split)

lemma guards_None:
  "check_upgrade_guards i = Inr None \<longleftrightarrow>
     check_newer (gi_current i) (gi_target i) = Inr None \<and>
     (\<exists>m. major_of (gi_targetHfpVersion i) = Inr m \<and> major_of (gi_localHfpVersion i) = Inr m) \<and>
     is_installed_entry (gi_entryPath i) \<and> (gi_activeJobs i = 0 \<or> gi_force i)"
  by (auto simp: check_upgrade_guards_def split: sum.splits option.splits)

lemma lock_step_decreases:
  "steps_left pc \<noteq> 0 \<Longrightarrow> (\<And>n. pc = Reading n \<or> pc = Removing n \<Longrightarrow> n < 2) \<Longrightarrow>
   steps_left (fst (lock_step alive h io (pc, fs))) < steps_left pc"
  by (cases pc; cases io) (auto split: option.split lock_content.split)

text \<open>Alone, and while the file system works, \<open>acquireLock\<close> succeeds exactly when the file is absent, unparsable or stale.\<close>

lemma acquire_alone:
  "acquire_lock alive h (\<lambda>_. Works) fs =
     (case lf_file fs of
        None \<Rightarrow> (LockDone True, \<lparr>lf_file = Some (lf_next fs, Fields (Some (lh_pid h)) (Some (lh_now h))), lf_next = Suc (lf_next fs)\<rparr>)
      | Some (_, JsonNull) \<Rightarrow> (LockThrew ''Cannot read properties of null (reading 'pid')'', fs)
      | Some (_, Unparsable) \<Rightarrow> (LockDone True, \<lparr>lf_file = Some (lf_next fs, Fields (Some (lh_pid h)) (Some (lh_now h))), lf_next = Suc (lf_next fs)\<rparr>)
      | Some (_, Fields p a) \<Rightarrow>
          if held_stale alive (lh_now h) p a
          then (LockDone True, \<lparr>lf_file = Some (lf_next fs, Fields (Some (lh_pid h)) (Some (lh_now h))), lf_next = Suc (lf_next fs)\<rparr>)
          else (LockDone False, fs))"
  by (cases fs) (auto simp: acquire_lock_def eval_nat_numeral split: option.split lock_content.split)


lemma newer_chain:
  "successively (\<lambda>a b. check_newer a b = Inr None) (v # vs) \<Longrightarrow> w \<in> set vs \<Longrightarrow>
   \<exists>n. compare_semver w v = Inr n \<and> 0 < n"
proof (induction vs arbitrary: v)
  case (Cons x xs)
  from Cons.prems(1) obtain n where n: "compare_semver x v = Inr n" "0 < n"
    and ch: "successively (\<lambda>a b. check_newer a b = Inr None) (x # xs)"
    by (auto simp: check_newer_None)
  show ?case
  proof (cases "w = x")
    case False
    with Cons.IH [OF ch] Cons.prems(2) obtain k where "compare_semver w x = Inr k" "0 < k" by auto
    with n semver.newer_trans [of w x k v n] show ?thesis by auto
  qed (use n in auto)
qed simp

section \<open>The lock under interleaving\<close>

lemma is_lock_held_iff:
  "is_lock_held alive now fs \<longleftrightarrow>
     (\<exists>i p a. lf_file fs = Some (i, Fields (Some p) (Some a)) \<and> (now - a \<le> STALE_LOCK_MS \<or> alive p))"
  by (auto simp: is_lock_held_def not_less split: option.split lock_content.split)

definition trying :: "lock_pc \<Rightarrow> bool" where
  "trying pc = (pc \<in> {Creating 0, Reading 0, LockDone False} \<or> (\<exists>msg. pc = LockThrew msg))"

lemma lock_step_refused:
  "is_lock_held alive (lh_now h) fs \<Longrightarrow> trying pc \<Longrightarrow> io \<noteq> ReadFails \<Longrightarrow>
   trying (fst (lock_step alive h io (pc, fs))) \<and> snd (lock_step alive h io (pc, fs)) = fs"
  by (cases io) (auto simp: is_lock_held_iff trying_def held_stale_def)

lemma lock_run_refused:
  "is_lock_held alive (lh_now ha) (lw_fs w) \<Longrightarrow> is_lock_held alive (lh_now hb) (lw_fs w) \<Longrightarrow> trying (lw_a w) \<Longrightarrow> trying (lw_b w) \<Longrightarrow>
   ReadFails \<notin> snd ` set xs \<Longrightarrow>
   trying (lw_a (lock_run alive ha hb xs w)) \<and> trying (lw_b (lock_run alive ha hb xs w)) \<and>
   lw_fs (lock_run alive ha hb xs w) = lw_fs w"
proof (induction xs arbitrary: w)
  case (Cons x xs)
  obtain b io where x: "x = (b, io)" by force
  with Cons.prems(5) have io: "io \<noteq> ReadFails" "ReadFails \<notin> snd ` set xs" by auto
  from lock_step_refused [OF Cons.prems(1,3) io(1)] lock_step_refused [OF Cons.prems(2,4) io(1)] Cons.prems io(2) x
  show ?case by (auto simp: Cons.IH split: prod.split)
qed simp

text \<open>A read that fails is taken for a corrupt lock: the lock of a living process is removed and taken.\<close>

lemma read_failure_steals:
  "let fs = \<lparr>lf_file = Some (0, Fields (Some 7) (Some 0)), lf_next = 1\<rparr>
   in is_lock_held (\<lambda>_. True) 5 fs \<and>
      fst (acquire_lock (\<lambda>_. True) \<lparr>lh_pid = 8, lh_now = 5\<rparr> (\<lambda>k. if k = 7 then ReadFails else Works) fs) = LockDone True"
  by (simp add: acquire_lock_def is_lock_held_def Let_def eval_nat_numeral)

text \<open>From a free lock two starters can both end up holding it: between the exclusive create and the
  write of its content the file is empty, which the other process takes for a corrupt lock.\<close>

definition race_start :: lock_world where
  "race_start = \<lparr>lw_a = Creating 0, lw_b = Creating 0, lw_fs = \<lparr>lf_file = None, lf_next = 0\<rparr>\<rparr>"

theorem lock_race:
  "\<exists>xs. let w = lock_run (\<lambda>_. True) \<lparr>lh_pid = 1, lh_now = 0\<rparr> \<lparr>lh_pid = 2, lh_now = 0\<rparr> xs race_start
        in lw_a w = LockDone True \<and> lw_b w = LockDone True"
  by (rule exI [of _ "map (\<lambda>x. (x, Works)) [True, False, False, False, False, False, True]"])
     (simp add: race_start_def Let_def)

section \<open>Properties\<close>

text \<open>The pre-flight guards let an upgrade through exactly when the target compares strictly newer, both
  protocol versions have the same major, the daemon runs from an npm install and no job is active (or the
  caller forces it); every refusal names its reason, in that order.\<close>

theorem guards_admit:
  "check_upgrade_guards i = Inr None \<longleftrightarrow>
     (\<exists>n. compare_semver (gi_target i) (gi_current i) = Inr n \<and> 0 < n) \<and>
     (\<exists>m. major_of (gi_targetHfpVersion i) = Inr m \<and> major_of (gi_localHfpVersion i) = Inr m) \<and>
     is_installed_entry (gi_entryPath i) \<and> (gi_activeJobs i = 0 \<or> gi_force i)"
  by (simp only: guards_None check_newer_None)

text \<open>Upgrades never go in circles: along any chain of versions in which each one passed \<open>checkNewer\<close>
  against its predecessor, no version occurs twice and the last one may not be followed by an earlier one.\<close>

theorem upgrade_chain_acyclic:
  assumes "successively (\<lambda>a b. check_newer a b = Inr None) vs"
  shows "distinct vs \<and> (vs \<noteq> [] \<longrightarrow> (\<forall>v \<in> set vs. check_newer (last vs) v \<noteq> Inr None))"
  using assms
proof (induction vs)
  case (Cons v vs)
  have later: "\<And>w. w \<in> set vs \<Longrightarrow> \<exists>n. compare_semver w v = Inr n \<and> 0 < n"
    using newer_chain [OF Cons.prems] by blast
  have self: "check_newer v v \<noteq> Inr None"
  proof
    assume "check_newer v v = Inr None"
    then obtain n where n: "compare_semver v v = Inr n" "0 < n" by (auto simp: check_newer_None)
    show False using semver.newer_asym [OF n n(1)] n(2) by simp
  qed
  have "v \<notin> set vs"
    using later [of v] self by (auto simp: check_newer_None)
  moreover have "vs \<noteq> [] \<Longrightarrow> check_newer (last vs) v \<noteq> Inr None"
  proof -
    assume "vs \<noteq> []"
    then obtain n where n: "compare_semver (last vs) v = Inr n" "0 < n" using later [of "last vs"] by auto
    show "check_newer (last vs) v \<noteq> Inr None"
    proof
      assume "check_newer (last vs) v = Inr None"
      then obtain k where k: "compare_semver v (last vs) = Inr k" "0 < k" by (auto simp: check_newer_None)
      show False using semver.newer_asym [OF n k(1)] k(2) by simp
    qed
  qed
  moreover have "successively (\<lambda>a b. check_newer a b = Inr None) vs"
    using Cons.prems by (cases vs) auto
  ultimately show ?case using Cons.IH self by auto
qed simp

theorem upgrade_chain_acyclic_witness:
  "successively (\<lambda>a b. check_newer a b = Inr None) [''0.5.0'', ''0.6.1'', ''1.0.0''] \<and>
   check_newer ''1.0.0'' ''0.6.1'' \<noteq> Inr None"
proof -
  have "compare_semver ''0.6.1'' ''0.5.0'' = Inr 1" "compare_semver ''1.0.0'' ''0.6.1'' = Inr 1"
    by (simp_all add: semver_eval)
  then have c: "successively (\<lambda>a b. check_newer a b = Inr None) [''0.5.0'', ''0.6.1'', ''1.0.0'']"
    by (simp add: check_newer_None)
  show ?thesis using upgrade_chain_acyclic [OF c] c by (simp only: list.set last.simps) auto
qed

text \<open>The lock and its probe agree: a process that runs \<open>acquireLock\<close> undisturbed is refused exactly when
  \<open>isLockHeld\<close> says the lock is held (a file with JSON \<open>null\<close> apart, on which \<open>acquireLock\<close> throws), and a
  taken lock is seen as held by every later probe until it is both older than ten minutes and its process dead.\<close>

theorem lock_probe_agrees:
  "(case lf_file fs of
      Some (_, JsonNull) \<Rightarrow> \<exists>msg. fst (acquire_lock alive h (\<lambda>_. Works) fs) = LockThrew msg
    | _ \<Rightarrow> fst (acquire_lock alive h (\<lambda>_. Works) fs) = LockDone (\<not> is_lock_held alive (lh_now h) fs)) \<and>
   (if fst (acquire_lock alive h (\<lambda>_. Works) fs) = LockDone True
    then is_lock_held alive' now (snd (acquire_lock alive h (\<lambda>_. Works) fs)) =
      (now - lh_now h \<le> STALE_LOCK_MS \<or> alive' (lh_pid h))
    else snd (acquire_lock alive h (\<lambda>_. Works) fs) = fs)"
proof (cases "lf_file fs")
  case None
  then show ?thesis by (auto simp: acquire_alone is_lock_held_def)
next
  case (Some f)
  obtain i c where f: "f = (i, c)" by force
  show ?thesis
  proof (cases c)
    case (Fields p a)
    then show ?thesis using Some f
      by (cases p; cases a) (auto simp: acquire_alone is_lock_held_def held_stale_def)
  qed (use Some f in \<open>auto simp: acquire_alone is_lock_held_def\<close>)
qed



end
