(* ===== verification/Release.thy ===== *)
theory Release imports Upgrade begin

text \<open>
  \<^verbatim>\<open>packages/daemon/src/upgrade\<close>: \<^verbatim>\<open>manifest.ts\<close>, \<^verbatim>\<open>prepare.ts\<close>, \<^verbatim>\<open>release-source.ts\<close> and
  \<^verbatim>\<open>peer-release-source.ts\<close>. The upgrades directory is a map from (directory, file) to bytes. The
  platform's cryptography, base64 decoding and JSON parsing are the fields of a record, and so are
  the network and the disk; a property holds for every such record. Bytes and texts are lists of codes below 256.
\<close>

section \<open>The platform\<close>

type_synonym bytes = string

record platform =
  px_base64 :: "string \<Rightarrow> bytes"
  px_key_type :: "bytes \<Rightarrow> string option"
  px_verify :: "bytes \<Rightarrow> bytes \<Rightarrow> bytes \<Rightarrow> bool option"
  px_json :: "bytes \<Rightarrow> json option"
  px_sha256 :: "bytes \<Rightarrow> string"

text \<open>\<open>String.trim\<close> on ASCII text.\<close>

definition is_space :: "char \<Rightarrow> bool" where
  "is_space c = ((of_char c :: nat) \<in> {9, 10, 11, 12, 13, 32})"

definition js_trim :: "string \<Rightarrow> string" where
  "js_trim s = rev (dropWhile is_space (rev (dropWhile is_space s)))"

section \<open>The signed manifest\<close>

record release_manifest =
  rm_version :: string
  rm_file :: string
  rm_sha256 :: string
  rm_size :: int
  rm_hfpVersion :: string

definition release_file_name :: "string \<Rightarrow> string" where
  "release_file_name version = ''homefleet-'' @ version @ ''.tgz''"

definition manifest_file_name :: "string \<Rightarrow> string" where
  "manifest_file_name version = ''homefleet-'' @ version @ ''.manifest.json''"

definition signature_file_name :: "string \<Rightarrow> string" where
  "signature_file_name version = ''homefleet-'' @ version @ ''.manifest.sig''"

definition release_file_pattern :: "string \<Rightarrow> bool" where
  "release_file_pattern f =
     (let v = take (length f - 14) (drop 10 f) in is_semver v \<and> f = release_file_name v)"

definition release_manifest_ok :: "release_manifest \<Rightarrow> bool" where
  "release_manifest_ok m = (is_semver (rm_version m) \<and> release_file_pattern (rm_file m) \<and>
     lower_hex 64 (rm_sha256 m) \<and> 0 < rm_size m \<and> rm_size m \<le> 9007199254740991 \<and> is_semver (rm_hfpVersion m))"

text \<open>A strict object: exactly the five keys, each with its type.\<close>

definition parse_release_manifest :: "json \<Rightarrow> release_manifest option" where
  "parse_release_manifest j =
     (case j of
        JObj kvs \<Rightarrow>
          (if list_all (\<lambda>(k, _). k \<in> {''version'', ''file'', ''sha256'', ''size'', ''hfpVersion''}) kvs then
             (case (map_of kvs ''version'', map_of kvs ''file'', map_of kvs ''sha256'', map_of kvs ''size'', map_of kvs ''hfpVersion'') of
                (Some (JStr v), Some (JStr f), Some (JStr h), Some (JNum n), Some (JStr p)) \<Rightarrow>
                  (let m = \<lparr>rm_version = v, rm_file = f, rm_sha256 = h, rm_size = n, rm_hfpVersion = p\<rparr>
                   in if release_manifest_ok m then Some m else None)
              | _ \<Rightarrow> None)
           else None)
      | _ \<Rightarrow> None)"

datatype verify_failure =
  BadSignature | BadManifest | VersionMismatch | FileMismatch | SizeMismatch | HashMismatch | MissingTarball

fun failure_name :: "verify_failure \<Rightarrow> string" where
  "failure_name BadSignature = ''bad-signature''"
| "failure_name BadManifest = ''bad-manifest''"
| "failure_name VersionMismatch = ''version-mismatch''"
| "failure_name FileMismatch = ''file-mismatch''"
| "failure_name SizeMismatch = ''size-mismatch''"
| "failure_name HashMismatch = ''hash-mismatch''"
| "failure_name MissingTarball = ''missing-tarball''"

definition key_verifies :: "platform \<Rightarrow> bytes \<Rightarrow> bytes \<Rightarrow> string \<Rightarrow> bool" where
  "key_verifies px manifest sig key =
     (let der = px_base64 px key
      in px_key_type px der = Some ''ed25519'' \<and> px_verify px der manifest sig = Some True)"

definition signature_valid :: "platform \<Rightarrow> bytes \<Rightarrow> string \<Rightarrow> string list \<Rightarrow> bool" where
  "signature_valid px manifest signature keys =
     (let sig = px_base64 px (js_trim signature)
      in length sig = 64 \<and> list_ex (key_verifies px manifest sig) keys)"

definition verify_manifest_signature :: "platform \<Rightarrow> string list \<Rightarrow> bytes \<Rightarrow> string \<Rightarrow> string \<Rightarrow> (verify_failure \<times> string) + release_manifest" where
  "verify_manifest_signature px keys manifest signature expected =
     (if \<not> signature_valid px manifest signature keys
      then Inl (BadSignature, ''the manifest signature does not match any pinned release key'')
      else case px_json px manifest of
        None \<Rightarrow> Inl (BadManifest, ''the manifest is not valid JSON'')
      | Some j \<Rightarrow>
          (case parse_release_manifest j of
             None \<Rightarrow> Inl (BadManifest, ''the manifest has an unexpected shape'')
           | Some m \<Rightarrow>
               if rm_version m \<noteq> expected
               then Inl (VersionMismatch, ''the manifest is for '' @ rm_version m @ '', expected '' @ expected)
               else Inr m))"

type_synonym path = "string \<times> string"
type_synonym files = "path \<Rightarrow> bytes option"

definition verify_release :: "platform \<Rightarrow> string list \<Rightarrow> files \<Rightarrow> bytes \<Rightarrow> string \<Rightarrow> path \<Rightarrow> string \<Rightarrow> (verify_failure \<times> string) + release_manifest" where
  "verify_release px keys fs manifest signature tarball expected =
     (case verify_manifest_signature px keys manifest signature expected of
        Inl e \<Rightarrow> Inl e
      | Inr m \<Rightarrow>
          if rm_file m \<noteq> release_file_name (rm_version m) \<or> snd tarball \<noteq> rm_file m
          then Inl (FileMismatch, ''the manifest names '' @ rm_file m @ '', got '' @ snd tarball)
          else (case fs tarball of
            None \<Rightarrow> Inl (MissingTarball, ''cannot read '' @ fst tarball @ ''/'' @ snd tarball)
          | Some b \<Rightarrow>
              if int (length b) \<noteq> rm_size m
              then Inl (SizeMismatch, ''the tarball is '' @ show_nat (length b) @ '' bytes, the manifest says '' @ show_int (rm_size m))
              else if px_sha256 px b \<noteq> rm_sha256 m
              then Inl (HashMismatch, ''the tarball's sha256 does not match the manifest'')
              else Inr m))"

section \<open>The verified cache\<close>

record prepared_release =
  pp_version :: string
  pp_tarball :: path
  pp_manifest :: release_manifest

record fetched_release =
  fr_manifest :: bytes
  fr_signature :: string
  fr_tarball :: path

text \<open>The directory of a release is named by its version. A source fetches a version into a directory
  and answers the release or its error message, having changed the files.\<close>

type_synonym fetcher = "string \<Rightarrow> string \<Rightarrow> files \<Rightarrow> (string + fetched_release) \<times> files"

definition rm_dir :: "string \<Rightarrow> files \<Rightarrow> files" where
  "rm_dir d fs = (\<lambda>p. if fst p = d then None else fs p)"

text \<open>A recursive removal succeeds, or fails with its error and leaves the files \<open>kept\<close> of the directory.\<close>

type_synonym rm_outcome = "(string \<times> (string \<Rightarrow> bool)) option"

fun rm_try :: "rm_outcome \<Rightarrow> string \<Rightarrow> files \<Rightarrow> string option \<times> files" where
  "rm_try None d fs = (None, rm_dir d fs)"
| "rm_try (Some (msg, kept)) d fs = (Some msg, \<lambda>p. if fst p = d \<and> \<not> kept (snd p) then None else fs p)"

text \<open>What \<open>prepareRelease\<close> rejects with: a typed error, or a raw one of the file system.\<close>

datatype run_error = Refused upgrade_error | Thrown string

definition rm_then :: "rm_outcome \<Rightarrow> string \<Rightarrow> upgrade_error \<Rightarrow> files \<Rightarrow> (run_error + 'a) \<times> files" where
  "rm_then out d e fs =
     (case rm_try out d fs of
        (None, fs') \<Rightarrow> (Inl (Refused e), fs')
      | (Some msg, fs') \<Rightarrow> (Inl (Thrown msg), fs'))"

definition read_verified_cache :: "platform \<Rightarrow> string list \<Rightarrow> files \<Rightarrow> string \<Rightarrow> prepared_release option" where
  "read_verified_cache px keys fs version =
     (case (fs (version, manifest_file_name version), fs (version, signature_file_name version)) of
        (Some m, Some s) \<Rightarrow>
          (case verify_release px keys fs m s (version, release_file_name version) version of
             Inr mf \<Rightarrow> Some \<lparr>pp_version = version, pp_tarball = (version, release_file_name version), pp_manifest = mf\<rparr>
           | Inl _ \<Rightarrow> None)
      | _ \<Rightarrow> None)"

text \<open>\<open>rms\<close> is how its removals end: the one before the download, and the one after a failure.\<close>

definition prepare_release_once ::
    "platform \<Rightarrow> string list \<Rightarrow> (nat \<Rightarrow> rm_outcome) \<Rightarrow> fetcher \<Rightarrow> string \<Rightarrow> files \<Rightarrow> (run_error + prepared_release) \<times> files" where
  "prepare_release_once px keys rms fetch version fs =
     (case read_verified_cache px keys fs version of
        Some p \<Rightarrow> (Inr p, fs)
      | None \<Rightarrow>
          (case rm_try (rms 0) version fs of
             (Some msg, fs1) \<Rightarrow> (Inl (Thrown msg), fs1)
           | (None, fs1) \<Rightarrow>
               (case fetch version version fs1 of
                  (Inl msg, fs') \<Rightarrow>
                    rm_then (rms 1) version (upgrade_err FetchFailed (''could not download '' @ version @ '': '' @ msg)) fs'
                | (Inr f, fs') \<Rightarrow>
                    (case verify_release px keys fs' (fr_manifest f) (fr_signature f) (fr_tarball f) version of
                       Inl (why, detail) \<Rightarrow>
                         rm_then (rms 1) version (upgrade_err VerifyFailed (''release '' @ version @ '' failed verification ('' @
                           failure_name why @ ''): '' @ detail)) fs'
                     | Inr m \<Rightarrow> (Inr \<lparr>pp_version = version, pp_tarball = fr_tarball f, pp_manifest = m\<rparr>, fs')))))"

section \<open>Release sources\<close>

text \<open>Writing a file: \<open>disk p\<close> is \<open>None\<close> when it succeeds, else the error and what a failed write leaves. Creating the
  directory \<open>d\<close> is \<open>disk (d, [])\<close>.\<close>

type_synonym disk = "path \<Rightarrow> (string \<times> bytes) option"

fun write_files :: "disk \<Rightarrow> (path \<times> bytes) list \<Rightarrow> files \<Rightarrow> string option \<times> files" where
  "write_files disk [] fs = (None, fs)"
| "write_files disk ((p, b) # ws) fs =
     (case disk p of
        None \<Rightarrow> write_files disk ws (fs(p := Some b))
      | Some (msg, part) \<Rightarrow> (Some msg, fs(p := Some part)))"

definition MAX_RELEASE_ASSET_BYTES :: nat where
  "MAX_RELEASE_ASSET_BYTES = 100 * 1024 * 1024"

text \<open>One GET: no answer, a refusing status, or a body with its declared length when that is a number.\<close>

datatype http_answer = NoAnswer string | BadStatus nat | Body "nat option" bytes

definition github_download :: "(string \<Rightarrow> http_answer) \<Rightarrow> string \<Rightarrow> string + bytes" where
  "github_download get url =
     (case get url of
        NoAnswer msg \<Rightarrow> Inl (''could not reach github.com: '' @ msg)
      | BadStatus n \<Rightarrow> Inl (''GET '' @ url @ '' returned HTTP '' @ show_nat n)
      | Body declared b \<Rightarrow>
          if pred_option (\<lambda>n. n \<le> MAX_RELEASE_ASSET_BYTES) declared \<and> length b \<le> MAX_RELEASE_ASSET_BYTES then Inr b
          else Inl (url @ '' is larger than the '' @ show_nat MAX_RELEASE_ASSET_BYTES @ ''-byte cap''))"

definition make_dir :: "disk \<Rightarrow> string \<Rightarrow> string option" where
  "make_dir disk dir = map_option fst (disk (dir, []))"

definition github_fetch :: "string \<Rightarrow> (string \<Rightarrow> http_answer) \<Rightarrow> disk \<Rightarrow> fetcher" where
  "github_fetch repo get disk version dir fs =
     (let base = ''https://github.com/'' @ repo @ ''/releases/download/v'' @ version @ ''/'';
          t = release_file_name version; m = manifest_file_name version; s = signature_file_name version
      in case make_dir disk dir of
           Some e \<Rightarrow> (Inl e, fs)
         | None \<Rightarrow>
         (case github_download get (base @ t) of
           Inl e \<Rightarrow> (Inl e, fs)
         | Inr tb \<Rightarrow>
             (case github_download get (base @ m) of
                Inl e \<Rightarrow> (Inl e, fs)
              | Inr mb \<Rightarrow>
                  (case github_download get (base @ s) of
                     Inl e \<Rightarrow> (Inl e, fs)
                   | Inr sb \<Rightarrow>
                       (case write_files disk [((dir, t), tb), ((dir, m), mb), ((dir, s), sb)] fs of
                          (None, fs') \<Rightarrow> (Inr \<lparr>fr_manifest = mb, fr_signature = sb, fr_tarball = (dir, t)\<rparr>, fs')
                        | (Some e, fs') \<Rightarrow> (Inl e, fs'))))))"

definition pushed_version :: "platform \<Rightarrow> bytes \<Rightarrow> string option" where
  "pushed_version px manifest =
     (case px_json px manifest of
        Some (JObj kvs) \<Rightarrow> (case map_of kvs ''version'' of Some (JStr v) \<Rightarrow> Some v | _ \<Rightarrow> None)
      | _ \<Rightarrow> None)"

text \<open>\<open>download\<close> is the outcome of the peer's tarball download: the file whole, or an error and what its failed removal left.\<close>

definition peer_fetch :: "platform \<Rightarrow> (string \<Rightarrow> (string \<times> bytes option) + bytes) \<Rightarrow> disk \<Rightarrow> bytes \<Rightarrow> string \<Rightarrow> fetcher" where
  "peer_fetch px download disk manifest signature version dir fs =
     (let pv = pushed_version px manifest
      in if Some version \<noteq> pv
         then (Inl (''the requester only serves '' @ (case pv of None \<Rightarrow> ''undefined'' | Some v \<Rightarrow> v) @ '', not '' @ version), fs)
         else case make_dir disk dir of
           Some e \<Rightarrow> (Inl e, fs)
         | None \<Rightarrow>
         (case write_files disk [((dir, manifest_file_name version), manifest),
                        ((dir, signature_file_name version), signature @ [CHR 0x0A])] fs of
           (Some e, fs') \<Rightarrow> (Inl e, fs')
         | (None, fs') \<Rightarrow>
             (case download version of
               Inl (e, left) \<Rightarrow> (Inl e, fs'((dir, release_file_name version) := left))
             | Inr b \<Rightarrow> (Inr \<lparr>fr_manifest = manifest, fr_signature = signature, fr_tarball = (dir, release_file_name version)\<rparr>,
                 fs'((dir, release_file_name version) := Some b)))))"

fun join_errors :: "string list \<Rightarrow> string" where
  "join_errors [] = []"
| "join_errors [e] = e"
| "join_errors (e # es) = e @ ''; then '' @ join_errors es"

text \<open>The directory is emptied before each source and after the last; a removal that fails ends the loop with its error.\<close>

fun fallback_loop :: "(nat \<Rightarrow> rm_outcome) \<Rightarrow> fetcher list \<Rightarrow> string list \<Rightarrow> string \<Rightarrow> string \<Rightarrow> files \<Rightarrow> (string + fetched_release) \<times> files" where
  "fallback_loop rms [] errors version dir fs =
     (case rm_try (rms (length errors)) dir fs of
        (Some msg, fs') \<Rightarrow> (Inl msg, fs')
      | (None, fs') \<Rightarrow> (Inl (join_errors (rev errors)), fs'))"
| "fallback_loop rms (fetch # fetchers) errors version dir fs =
     (case rm_try (rms (length errors)) dir fs of
        (Some msg, fs') \<Rightarrow> (Inl msg, fs')
      | (None, fs1) \<Rightarrow>
          (case fetch version dir fs1 of
             (Inr f, fs') \<Rightarrow> (Inr f, fs')
           | (Inl e, fs') \<Rightarrow> fallback_loop rms fetchers (e # errors) version dir fs'))"

definition fallback_fetch :: "(nat \<Rightarrow> rm_outcome) \<Rightarrow> fetcher list \<Rightarrow> fetcher" where
  "fallback_fetch rms fetchers version dir fs = fallback_loop rms fetchers [] version dir fs"

section \<open>What verification establishes\<close>

lemma js_trim_newline: "js_trim (s @ [CHR 0x0A]) = js_trim s"
proof (cases "\<forall>c \<in> set s. is_space c")
  case True
  then have "dropWhile is_space (s @ [CHR 0x0A]) = dropWhile is_space [CHR 0x0A]" "dropWhile is_space s = []"
    by (simp_all only: dropWhile_append2 dropWhile_eq_Nil_conv)
  then have "dropWhile is_space (s @ [CHR 0x0A]) = []" "dropWhile is_space s = []"
    by (simp_all add: is_space_def)
  then show ?thesis by (simp only: js_trim_def)
next
  case False
  then have "dropWhile is_space (s @ [CHR 0x0A]) = dropWhile is_space s @ [CHR 0x0A]"
    by (auto simp: dropWhile_append1)
  then show ?thesis by (simp add: js_trim_def is_space_def)
qed

lemma verify_release_trim:
  "js_trim s = js_trim s' \<Longrightarrow> verify_release px keys fs m s t v = verify_release px keys fs m s' t v"
  by (simp add: verify_release_def verify_manifest_signature_def signature_valid_def)

lemma verify_manifest_Inr:
  "verify_manifest_signature px keys b s v = Inr m \<Longrightarrow>
     signature_valid px b s keys \<and> (\<exists>j. px_json px b = Some j \<and> parse_release_manifest j = Some m) \<and> rm_version m = v"
  by (auto simp: verify_manifest_signature_def split: if_splits option.splits)

lemma verify_release_Inr:
  "verify_release px keys fs b s t v = Inr m \<Longrightarrow>
     signature_valid px b s keys \<and> (\<exists>j. px_json px b = Some j \<and> parse_release_manifest j = Some m) \<and>
     rm_version m = v \<and> snd t = release_file_name v \<and>
     (\<exists>tb. fs t = Some tb \<and> int (length tb) = rm_size m \<and> px_sha256 px tb = rm_sha256 m)"
  by (auto simp: verify_release_def split: sum.splits if_splits option.splits dest: verify_manifest_Inr)

text \<open>A release in the cache that nothing unsigned or altered can produce.\<close>

definition genuine :: "platform \<Rightarrow> string list \<Rightarrow> files \<Rightarrow> prepared_release \<Rightarrow> bool" where
  "genuine px keys fs p =
     (pp_tarball p = (pp_version p, release_file_name (pp_version p)) \<and> rm_version (pp_manifest p) = pp_version p \<and>
      (case (fs (pp_version p, manifest_file_name (pp_version p)), fs (pp_version p, signature_file_name (pp_version p)),
             fs (pp_tarball p)) of
         (Some b, Some s, Some tb) \<Rightarrow>
           signature_valid px b s keys \<and>
           Option.bind (px_json px b) parse_release_manifest = Some (pp_manifest p) \<and>
           int (length tb) = rm_size (pp_manifest p) \<and> px_sha256 px tb = rm_sha256 (pp_manifest p)
       | _ \<Rightarrow> False))"

lemma cached_genuine: "read_verified_cache px keys fs v = Some p \<Longrightarrow> genuine px keys fs p \<and> pp_version p = v"
  by (auto simp: read_verified_cache_def genuine_def split: option.splits sum.splits dest!: verify_release_Inr)

lemma rm_try_confined: "fst q \<noteq> d \<Longrightarrow> snd (rm_try out d fs) q = fs q"
  by (cases out) (auto simp: rm_dir_def)

lemma rm_then_confined: "fst q \<noteq> d \<Longrightarrow> snd (rm_then out d e fs) q = fs q"
  by (cases out) (auto simp: rm_then_def rm_dir_def)

section \<open>The contract of a release source\<close>

locale release_source =
  fixes fetch :: fetcher
  assumes confined: "fst q \<noteq> dir \<Longrightarrow> snd (fetch v dir fs) q = fs q"
    and complete: "fetch v dir fs = (Inr f, fs') \<Longrightarrow>
      fr_tarball f = (dir, release_file_name v) \<and> fs' (dir, manifest_file_name v) = Some (fr_manifest f) \<and>
      (\<exists>s. fs' (dir, signature_file_name v) = Some s \<and> js_trim s = js_trim (fr_signature f))"
begin

lemma prepare_cached:
  assumes "prepare_release_once px keys rms fetch v fs = (Inr p, fs')"
  shows "read_verified_cache px keys fs' v = Some p"
proof (cases "read_verified_cache px keys fs v")
  case None
  with assms obtain f where f: "fetch v v (rm_dir v fs) = (Inr f, fs')"
    "verify_release px keys fs' (fr_manifest f) (fr_signature f) (fr_tarball f) v = Inr (pp_manifest p)"
    "p = \<lparr>pp_version = v, pp_tarball = fr_tarball f, pp_manifest = pp_manifest p\<rparr>"
    by (cases "rms 0") (auto simp: prepare_release_once_def rm_then_def split: prod.splits sum.splits option.splits)
  from complete [OF f(1)] obtain s where s: "fr_tarball f = (v, release_file_name v)"
    "fs' (v, manifest_file_name v) = Some (fr_manifest f)" "fs' (v, signature_file_name v) = Some s"
    "js_trim s = js_trim (fr_signature f)" by blast
  show ?thesis
    using f(2,3) s verify_release_trim [OF s(4), of px keys fs' "fr_manifest f" "fr_tarball f" v]
    by (simp add: read_verified_cache_def)
qed (use assms in \<open>simp add: prepare_release_once_def\<close>)

lemma prepare_failed:
  assumes "prepare_release_once px keys rms fetch v fs = (Inl e, fs')"
  shows "case e of
      Refused u \<Rightarrow> (ue_code u = FetchFailed \<or> ue_code u = VerifyFailed) \<and> (\<forall>f. fs' (v, f) = None)
    | Thrown msg \<Rightarrow> \<exists>kept. rms 0 = Some (msg, kept) \<or> rms 1 = Some (msg, kept)"
  using assms by (cases "rms 0"; cases "rms 1")
    (auto simp: prepare_release_once_def rm_then_def rm_dir_def upgrade_err_def split: option.splits prod.splits sum.splits)

lemma prepare_confined:
  assumes "fst q \<noteq> v"
  shows "snd (prepare_release_once px keys rms fetch v fs) q = fs q"
proof -
  obtain o1 fs1 where r: "rm_try (rms 0) v fs = (o1, fs1)" by fastforce
  obtain x fs2 where x: "fetch v v fs1 = (x, fs2)" by fastforce
  have "fs1 q = fs q" "fs2 q = fs1 q" using rm_try_confined [OF assms, of "rms 0" fs] confined [OF assms, of v fs1] r x by simp_all
  then show ?thesis using r x by (auto simp: rm_then_confined [OF assms] prepare_release_once_def split: option.split sum.split prod.split)
qed

lemma prepare_keeps_cached:
  assumes "read_verified_cache px keys fs v = Some p"
  shows "read_verified_cache px keys (snd (prepare_release_once px keys rms fetch w fs)) v = Some p"
proof (cases "v = w")
  case True
  with assms show ?thesis by (simp add: prepare_release_once_def)
next
  case False
  then have f: "\<And>f. snd (prepare_release_once px keys rms fetch w fs) (v, f) = fs (v, f)"
    by (simp add: prepare_confined)
  have g: "verify_release px keys (snd (prepare_release_once px keys rms fetch w fs)) m s (v, g) v = verify_release px keys fs m s (v, g) v" for m s g
    unfolding verify_release_def f by (rule refl)
  from assms show ?thesis unfolding read_verified_cache_def f g .
qed

end

lemma file_names_differ [simp]:
  "manifest_file_name v \<noteq> signature_file_name v" "signature_file_name v \<noteq> manifest_file_name v"
  "manifest_file_name v \<noteq> release_file_name v" "release_file_name v \<noteq> manifest_file_name v"
  "signature_file_name v \<noteq> release_file_name v" "release_file_name v \<noteq> signature_file_name v"
  by (simp_all add: manifest_file_name_def signature_file_name_def release_file_name_def)

lemma write_files_other:
  "q \<notin> fst ` set ws \<Longrightarrow> snd (write_files disk ws fs) q = fs q"
  by (induction disk ws fs rule: write_files.induct) (auto split: option.split)

lemma write_files_done: "write_files disk ws fs = (None, fs') \<Longrightarrow> fs' = foldl (\<lambda>g (p, b). g(p := Some b)) fs ws"
  by (induction disk ws fs rule: write_files.induct) (auto split: option.splits)

interpretation github: release_source "github_fetch repo get disk" for repo get disk
proof
  show "\<And>q dir v fs. fst q \<noteq> dir \<Longrightarrow> snd (github_fetch repo get disk v dir fs) q = fs q"
    by (auto simp: github_fetch_def Let_def split: sum.split option.split)
next
  show "\<And>v dir fs f fs'. github_fetch repo get disk v dir fs = (Inr f, fs') \<Longrightarrow>
      fr_tarball f = (dir, release_file_name v) \<and> fs' (dir, manifest_file_name v) = Some (fr_manifest f) \<and>
      (\<exists>s. fs' (dir, signature_file_name v) = Some s \<and> js_trim s = js_trim (fr_signature f))"
    by (auto simp: github_fetch_def Let_def split: sum.splits option.splits prod.splits)
qed

interpretation peer: release_source "peer_fetch px download disk manifest signature" for px download disk manifest signature
proof
  show "\<And>q dir v fs. fst q \<noteq> dir \<Longrightarrow> snd (peer_fetch px download disk manifest signature v dir fs) q = fs q"
    by (auto simp: peer_fetch_def Let_def split: sum.split option.split)
next
  show "\<And>v dir fs f fs'. peer_fetch px download disk manifest signature v dir fs = (Inr f, fs') \<Longrightarrow>
      fr_tarball f = (dir, release_file_name v) \<and> fs' (dir, manifest_file_name v) = Some (fr_manifest f) \<and>
      (\<exists>s. fs' (dir, signature_file_name v) = Some s \<and> js_trim s = js_trim (fr_signature f))"
    by (auto simp: peer_fetch_def Let_def js_trim_newline split: sum.splits option.splits prod.splits if_splits)
qed

lemma fallback_loop_source:
  assumes "\<forall>f \<in> set fetchers. release_source f"
  shows "(fst q \<noteq> dir \<longrightarrow> snd (fallback_loop rms fetchers es v dir fs) q = fs q) \<and>
    (\<forall>f fs'. fallback_loop rms fetchers es v dir fs = (Inr f, fs') \<longrightarrow>
      fr_tarball f = (dir, release_file_name v) \<and> fs' (dir, manifest_file_name v) = Some (fr_manifest f) \<and>
      (\<exists>s. fs' (dir, signature_file_name v) = Some s \<and> js_trim s = js_trim (fr_signature f)))"
  using assms
proof (induction fetchers arbitrary: es fs)
  case Nil
  obtain x fs1 where "rm_try (rms (length es)) dir fs = (x, fs1)" by fastforce
  with rm_try_confined [of q dir "rms (length es)" fs] show ?case by (auto split: option.split)
next
  case (Cons g gs)
  from Cons.prems have g: "release_source g" and gs: "\<forall>f \<in> set gs. release_source f" by auto
  obtain x fs0 where x: "rm_try (rms (length es)) dir fs = (x, fs0)" by fastforce
  obtain r fs1 where r: "g v dir fs0 = (r, fs1)" by force
  have c: "fst q \<noteq> dir \<Longrightarrow> fs0 q = fs q" "fst q \<noteq> dir \<Longrightarrow> fs1 q = fs q"
    using release_source.confined [OF g, of q dir v fs0] rm_try_confined [of q dir "rms (length es)" fs] r x by simp_all
  show ?case
  proof (cases x)
    case (Some msg)
    with x c show ?thesis by simp
  next
    case None
    show ?thesis
    proof (cases r)
      case (Inl e)
      with Cons.IH [OF gs, of "e # es" fs1] r x None c show ?thesis by simp
    next
      case (Inr f)
      with release_source.complete [OF g, of v dir fs0 f fs1] r x None c show ?thesis by simp
    qed
  qed
qed

lemma fallback_source:
  assumes "\<forall>f \<in> set fetchers. release_source f"
  shows "release_source (fallback_fetch rms fetchers)"
proof
  fix q :: path and dir v fs f fs'
  note l = fallback_loop_source [OF assms, of q dir rms "[]" v fs]
  show "fst q \<noteq> dir \<Longrightarrow> snd (fallback_fetch rms fetchers v dir fs) q = fs q"
    using l by (simp add: fallback_fetch_def)
  assume "fallback_fetch rms fetchers v dir fs = (Inr f, fs')"
  with l show "fr_tarball f = (dir, release_file_name v) \<and> fs' (dir, manifest_file_name v) = Some (fr_manifest f) \<and>
      (\<exists>s. fs' (dir, signature_file_name v) = Some s \<and> js_trim s = js_trim (fr_signature f))"
    unfolding fallback_fetch_def by blast
qed

text \<open>The source of a pushed upgrade: the pushing peer when its address is known, then GitHub.\<close>

definition pushed_source :: "(nat \<Rightarrow> rm_outcome) \<Rightarrow> fetcher option \<Rightarrow> fetcher \<Rightarrow> fetcher" where
  "pushed_source rms peer own = fallback_fetch rms (case peer of None \<Rightarrow> [own] | Some p \<Rightarrow> [p, own])"

interpretation pushed: release_source
  "pushed_source rms (map_option (\<lambda>(download, manifest, signature). peer_fetch px download disk manifest signature) push)
     (github_fetch repo get disk)" for rms px push disk repo get
  unfolding pushed_source_def
  by (rule fallback_source)
     (auto split: option.split prod.split intro: github.release_source_axioms peer.release_source_axioms)

section \<open>Properties\<close>


text \<open>A platform and a release for the examples: every 64-byte text is a valid signature.\<close>

definition demo_platform :: platform where
  "demo_platform = \<lparr>px_base64 = (\<lambda>s. s), px_key_type = (\<lambda>_. Some ''ed25519''), px_verify = (\<lambda>_ _ _. Some True),
     px_json = (\<lambda>b. if b = ''manifest'' then Some (JObj [(''version'', JStr ''1.0.0''), (''file'', JStr ''homefleet-1.0.0.tgz''),
        (''sha256'', JStr (replicate 64 (CHR ''0''))), (''size'', JNum 3), (''hfpVersion'', JStr ''0.1.0'')]) else None),
     px_sha256 = (\<lambda>_. replicate 64 (CHR ''0''))\<rparr>"

definition demo_get :: "string \<Rightarrow> http_answer" where
  "demo_get url = (if drop (length url - 4) url = ''.tgz'' then Body (Some 3) ''abc''
     else if drop (length url - 5) url = ''.json'' then Body None ''manifest''
     else Body None (replicate 64 (CHR ''A'')))"


end
