(* ===== verification/Coordinator.thy ===== *)
theory Coordinator imports Release begin

text \<open>
  \<^verbatim>\<open>packages/daemon/src/upgrade/coordinator.ts\<close>: the owner of an upgrade. Every \<open>await\<close> of
  \<open>runUpgrade\<close> and \<open>acceptRemote\<close> ends a step, so other calls interleave between them; what the
  clock, the network, the disk and the other processes answer is the environment of a step.
\<close>

section \<open>State\<close>

record co_options =
  oo_currentVersion :: string
  oo_localHfpVersion :: string
  oo_supported :: bool
  oo_allowRemote :: bool
  oo_pid :: int
  oo_entryPath :: string
  oo_repo :: string
  oo_keys :: "string list"
  oo_platform :: platform

text \<open>What one step finds: whether the daemon is shutting down, the jobs that run, the clock, the live
  processes, and the answers of GitHub, the pushing peer, the disk (writes, the lock file, and the removals of a prepare and of its
  source) and the spawn.\<close>

record co_env =
  ce_shutting :: bool
  ce_active :: nat
  ce_now :: int
  ce_alive :: "int \<Rightarrow> bool"
  ce_get :: "string \<Rightarrow> http_answer"
  ce_tag :: "string + string option"
  ce_peer :: "string \<Rightarrow> (string \<times> bytes option) + bytes"
  ce_disk :: disk
  ce_rm :: "nat \<Rightarrow> rm_outcome"
  ce_sourceRm :: "nat \<Rightarrow> rm_outcome"
  ce_lockIo :: "nat \<Rightarrow> lock_io"
  ce_failure :: "string option"


record upgrade_push =
  pu_version :: string
  pu_manifest :: string
  pu_signature :: string
  pu_known :: bool

record upgrade_state =
  us_from :: string
  us_to :: string
  us_tarball :: path
  us_rollback :: "path option"

record upgrade_plan =
  pl_to :: string
  pl_prepared :: prepared_release
  pl_rollback :: "prepared_release option"

datatype run_stage =
    Resolving
  | Preparing string
  | CachingRollback string prepared_release
  | Locking upgrade_plan
  | WritingUpdater upgrade_plan
  | WritingState upgrade_plan
  | ReleasingLock run_error
  | Recording run_error
  | Ending "run_error + string"

record upgrade_run =
  ur_version :: "string option"
  ur_force :: bool
  ur_push :: "upgrade_push option"
  ur_stage :: run_stage

record failure_record =
  fa_from :: string
  fa_to :: string
  fa_reason :: string
  fa_at :: int

record coordinator =
  co_inProgress :: bool
  co_pending :: bool
  co_runs :: "upgrade_run list"
  co_probes :: "upgrade_push list"
  co_files :: files
  co_lock :: lock_fs
  co_spawned :: "upgrade_state list"
  co_results :: "failure_record list"

definition new_coordinator :: "files \<Rightarrow> lock_fs \<Rightarrow> coordinator" where
  "new_coordinator fs lk = \<lparr>co_inProgress = False, co_pending = False, co_runs = [], co_probes = [],
     co_files = fs, co_lock = lk, co_spawned = [], co_results = []\<rparr>"

definition busy :: "coordinator \<Rightarrow> bool" where
  "busy c = (co_inProgress c \<or> co_pending c)"

section \<open>Claims\<close>

definition locked_err :: "string \<Rightarrow> run_error" where
  "locked_err m = Refused (upgrade_err UpLocked m)"

definition refuse_if_shutting_down :: "co_env \<Rightarrow> run_error option" where
  "refuse_if_shutting_down env = (if ce_shutting env then Some (locked_err ''this daemon is shutting down'') else None)"

definition claim :: "co_env \<Rightarrow> upgrade_run \<Rightarrow> coordinator \<Rightarrow> run_error + coordinator" where
  "claim env r c =
     (case refuse_if_shutting_down env of
        Some e \<Rightarrow> Inl e
      | None \<Rightarrow> if busy c then Inl (locked_err ''an upgrade is already in progress'')
                else Inr (c\<lparr>co_pending := True, co_runs := co_runs c @ [r]\<rparr>))"

definition unsupported_err :: run_error where
  "unsupported_err = Refused (upgrade_err UpUnsupported ''this daemon was not started by homefleetd, so it cannot restart itself'')"

text \<open>How a failed run goes on: a local one ends with the error, a pushed one is recorded first.\<close>

definition fail_run :: "run_error \<Rightarrow> upgrade_run \<Rightarrow> upgrade_run" where
  "fail_run e r = r\<lparr>ur_stage := (case ur_push r of None \<Rightarrow> Ending (Inl e) | Some _ \<Rightarrow> Recording e)\<rparr>"

definition start_run :: "co_options \<Rightarrow> upgrade_run \<Rightarrow> upgrade_run" where
  "start_run opt r = (if oo_supported opt then r\<lparr>ur_stage := Resolving\<rparr> else fail_run unsupported_err r)"

definition upgrade_self :: "co_options \<Rightarrow> co_env \<Rightarrow> string option \<Rightarrow> bool \<Rightarrow> coordinator \<Rightarrow> run_error + coordinator" where
  "upgrade_self opt env version force c =
     claim env (start_run opt \<lparr>ur_version = version, ur_force = force, ur_push = None, ur_stage = Resolving\<rparr>) c"

section \<open>The run\<close>

text \<open>\<open>GitHubReleaseSource.latestVersion\<close>, from the tag its answer names.\<close>

definition github_latest :: "string + string option \<Rightarrow> string + string" where
  "github_latest answer =
     (case answer of
        Inl msg \<Rightarrow> Inl msg
      | Inr tag_name \<Rightarrow>
          (let tag = (case tag_name of None \<Rightarrow> '''' | Some t \<Rightarrow> t);
               version = (case tag of CHR ''v'' # rest \<Rightarrow> rest | _ \<Rightarrow> tag)
           in if is_semver version then Inr version
              else Inl (''the latest release tag \"'' @ tag @ ''\" is not vX.Y.Z'')))"

definition resolve_target :: "co_env \<Rightarrow> string option \<Rightarrow> run_error + string" where
  "resolve_target env version =
     (case version of
        Some v \<Rightarrow> Inr v
      | None \<Rightarrow>
          (case github_latest (ce_tag env) of
             Inr v \<Rightarrow> Inr v
           | Inl msg \<Rightarrow> Inl (Refused (upgrade_err FetchFailed (''could not look up the latest release: '' @ msg)))))"

definition own_source :: "co_options \<Rightarrow> co_env \<Rightarrow> fetcher" where
  "own_source opt env = github_fetch (oo_repo opt) (ce_get env) (ce_disk env)"

definition run_source :: "co_options \<Rightarrow> co_env \<Rightarrow> upgrade_run \<Rightarrow> fetcher" where
  "run_source opt env r =
     (case ur_push r of
        None \<Rightarrow> own_source opt env
      | Some p \<Rightarrow>
          pushed_source (ce_sourceRm env)
            (if pu_known p
             then Some (peer_fetch (oo_platform opt) (ce_peer env) (ce_disk env)
                          (px_base64 (oo_platform opt) (pu_manifest p)) (pu_signature p))
             else None)
            (own_source opt env))"

definition guard_outcome :: "semver_error + upgrade_error option \<Rightarrow> run_error option" where
  "guard_outcome x =
     (case x of
        Inl (NotSemver v) \<Rightarrow> Some (Thrown (''not a semver version: '' @ v))
      | Inr (Some e) \<Rightarrow> Some (Refused e)
      | Inr None \<Rightarrow> None)"

definition guards :: "co_options \<Rightarrow> co_env \<Rightarrow> bool \<Rightarrow> string \<Rightarrow> string \<Rightarrow> run_error option" where
  "guards opt env force target hfp =
     guard_outcome (check_upgrade_guards
       \<lparr>gi_current = oo_currentVersion opt, gi_target = target, gi_targetHfpVersion = hfp,
        gi_localHfpVersion = oo_localHfpVersion opt, gi_activeJobs = ce_active env, gi_force = force,
        gi_entryPath = oo_entryPath opt\<rparr>)"

definition prepare :: "co_options \<Rightarrow> co_env \<Rightarrow> fetcher \<Rightarrow> string \<Rightarrow> coordinator \<Rightarrow> (run_error + prepared_release) \<times> coordinator" where
  "prepare opt env fetch version c =
     (case prepare_release_once (oo_platform opt) (oo_keys opt) (ce_rm env) fetch version (co_files c) of
        (x, fs) \<Rightarrow> (x, c\<lparr>co_files := fs\<rparr>))"

definition plan_state :: "co_options \<Rightarrow> upgrade_plan \<Rightarrow> upgrade_state" where
  "plan_state opt pl = \<lparr>us_from = oo_currentVersion opt, us_to = pl_to pl, us_tarball = pp_tarball (pl_prepared pl),
     us_rollback = map_option pp_tarball (pl_rollback pl)\<rparr>"

text \<open>One step of a run up to its next \<open>await\<close>; a failure of the disk or of the spawn is \<open>ce_failure\<close>.\<close>

fun run_step :: "co_options \<Rightarrow> co_env \<Rightarrow> upgrade_run \<Rightarrow> run_stage \<Rightarrow> coordinator \<Rightarrow> upgrade_run \<times> coordinator" where
  "run_step opt env r Resolving c =
     (case resolve_target env (ur_version r) of
        Inl e \<Rightarrow> (fail_run e r, c)
      | Inr to \<Rightarrow>
          (case guard_outcome (check_newer (oo_currentVersion opt) to) of
             Some e \<Rightarrow> (fail_run e r, c)
           | None \<Rightarrow> (r\<lparr>ur_stage := Preparing to\<rparr>, c)))"
| "run_step opt env r (Preparing to) c =
     (case prepare opt env (run_source opt env r) to c of
        (Inl e, c') \<Rightarrow> (fail_run e r, c')
      | (Inr p, c') \<Rightarrow>
          (case guards opt env (ur_force r) to (rm_hfpVersion (pp_manifest p)) of
             Some e \<Rightarrow> (fail_run e r, c')
           | None \<Rightarrow> (r\<lparr>ur_stage := CachingRollback to p\<rparr>, c')))"
| "run_step opt env r (CachingRollback to p) c =
     (case prepare opt env (run_source opt env r) (oo_currentVersion opt) c of
        (x, c') \<Rightarrow>
          (r\<lparr>ur_stage := Locking \<lparr>pl_to = to, pl_prepared = p, pl_rollback = (case x of Inl _ \<Rightarrow> None | Inr b \<Rightarrow> Some b)\<rparr>\<rparr>, c'))"
| "run_step opt env r (Locking pl) c =
     (case acquire_lock (ce_alive env) \<lparr>lh_pid = oo_pid opt, lh_now = ce_now env\<rparr> (ce_lockIo env) (co_lock c) of
        (LockDone True, lk) \<Rightarrow> (r\<lparr>ur_stage := WritingUpdater pl\<rparr>, c\<lparr>co_lock := lk\<rparr>)
      | (LockDone False, lk) \<Rightarrow> (fail_run (locked_err ''another upgrade holds upgrades/upgrade.lock'') r, c\<lparr>co_lock := lk\<rparr>)
      | (LockThrew msg, lk) \<Rightarrow> (fail_run (Thrown msg) r, c\<lparr>co_lock := lk\<rparr>)
      | (_, lk) \<Rightarrow> (fail_run (Thrown []) r, c\<lparr>co_lock := lk\<rparr>))"
| "run_step opt env r (WritingUpdater pl) c =
     (case ce_failure env of
        Some e \<Rightarrow> (r\<lparr>ur_stage := ReleasingLock (Thrown e)\<rparr>, c)
      | None \<Rightarrow> (r\<lparr>ur_stage := WritingState pl\<rparr>, c))"
| "run_step opt env r (WritingState pl) c =
     (case ce_failure env of
        Some e \<Rightarrow> (r\<lparr>ur_stage := ReleasingLock (Thrown e)\<rparr>, c)
      | None \<Rightarrow> (r\<lparr>ur_stage := Ending (Inr (pl_to pl))\<rparr>,
          c\<lparr>co_inProgress := True, co_spawned := co_spawned c @ [plan_state opt pl]\<rparr>))"
| "run_step opt env r (ReleasingLock e) c =
     (case ce_failure env of
        Some msg \<Rightarrow> (fail_run (Thrown msg) r, c)
      | None \<Rightarrow> (fail_run e r, c\<lparr>co_lock := release_lock (co_lock c)\<rparr>))"
| "run_step opt env r (Recording e) c =
     (r\<lparr>ur_stage := Ending (Inl e)\<rparr>,
      (case (ce_failure env, ur_push r) of
         (None, Some p) \<Rightarrow> c\<lparr>co_results := co_results c @
            [\<lparr>fa_from = oo_currentVersion opt, fa_to = pu_version p,
              fa_reason = (case e of Refused u \<Rightarrow> ue_message u | Thrown m \<Rightarrow> m), fa_at = ce_now env\<rparr>]\<rparr>
       | _ \<Rightarrow> c))"
| "run_step opt env r (Ending x) c = (r, c)"

text \<open>A run that has ended gives its claim back.\<close>

definition run_over :: "upgrade_run \<Rightarrow> bool" where
  "run_over r = (case ur_stage r of Ending _ \<Rightarrow> True | _ \<Rightarrow> False)"

definition advance_run :: "co_options \<Rightarrow> co_env \<Rightarrow> nat \<Rightarrow> coordinator \<Rightarrow> coordinator" where
  "advance_run opt env i c =
     (if i < length (co_runs c) then
        (let r = co_runs c ! i in
         if run_over r then c\<lparr>co_pending := False, co_runs := take i (co_runs c) @ drop (Suc i) (co_runs c)\<rparr>
         else (case run_step opt env r (ur_stage r) c of
           (r', c') \<Rightarrow> c'\<lparr>co_runs := (co_runs c')[i := r']\<rparr>))
      else c)"

section \<open>Pushed upgrades\<close>

text \<open>\<open>acceptRemote\<close> up to its only \<open>await\<close>, the read of the lock file, and from there to its answer.\<close>

definition accept_remote_begin :: "co_options \<Rightarrow> co_env \<Rightarrow> upgrade_push \<Rightarrow> coordinator \<Rightarrow> run_error + coordinator" where
  "accept_remote_begin opt env p c =
     (if \<not> oo_allowRemote opt then
        Inl (Refused (upgrade_err UpDisabled ''remote upgrades are disabled on this node (upgrade.allowRemote)''))
      else if \<not> oo_supported opt then Inl unsupported_err
      else case refuse_if_shutting_down env of
        Some e \<Rightarrow> Inl e
      | None \<Rightarrow>
          if busy c then Inl (locked_err ''an upgrade is already in progress'')
          else Inr (c\<lparr>co_probes := co_probes c @ [p]\<rparr>))"

definition accept_remote_decide :: "co_options \<Rightarrow> co_env \<Rightarrow> upgrade_push \<Rightarrow> coordinator \<Rightarrow> run_error + coordinator" where
  "accept_remote_decide opt env p c =
     (if probe_lock (ce_lockIo env 0) (ce_alive env) (ce_now env) (co_lock c)
      then Inl (locked_err ''another upgrade holds upgrades/upgrade.lock'')
      else if busy c then Inl (locked_err ''an upgrade is already in progress'')
      else case verify_manifest_signature (oo_platform opt) (oo_keys opt)
                  (px_base64 (oo_platform opt) (pu_manifest p)) (pu_signature p) (pu_version p) of
        Inl (why, detail) \<Rightarrow>
          Inl (Refused (upgrade_err VerifyFailed (''the pushed manifest was rejected ('' @ failure_name why @ ''): '' @ detail)))
      | Inr m \<Rightarrow>
          (case guard_outcome (check_newer (oo_currentVersion opt) (pu_version p)) of
             Some e \<Rightarrow> Inl e
           | None \<Rightarrow>
               (case guards opt env False (pu_version p) (rm_hfpVersion m) of
                  Some e \<Rightarrow> Inl e
                | None \<Rightarrow> claim env (start_run opt \<lparr>ur_version = Some (pu_version p), ur_force = False,
                                        ur_push = Some p, ur_stage = Resolving\<rparr>) c)))"

section \<open>Interleavings\<close>

datatype co_action =
    SelfUpgrade "string option" bool
  | PushArrives upgrade_push
  | ProbeAnswers nat
  | Advance nat
  | FleetPrepare string
  | OtherProcess lock_fs

definition co_step :: "co_options \<Rightarrow> co_env \<Rightarrow> co_action \<Rightarrow> coordinator \<Rightarrow> coordinator" where
  "co_step opt env a c =
     (case a of
        SelfUpgrade v f \<Rightarrow> (case upgrade_self opt env v f c of Inl _ \<Rightarrow> c | Inr c' \<Rightarrow> c')
      | PushArrives p \<Rightarrow> (case accept_remote_begin opt env p c of Inl _ \<Rightarrow> c | Inr c' \<Rightarrow> c')
      | ProbeAnswers i \<Rightarrow>
          (if i < length (co_probes c) then
             (let p = co_probes c ! i; c1 = c\<lparr>co_probes := take i (co_probes c) @ drop (Suc i) (co_probes c)\<rparr>
              in case accept_remote_decide opt env p c1 of Inl _ \<Rightarrow> c1 | Inr c' \<Rightarrow> c')
           else c)
      | Advance i \<Rightarrow> advance_run opt env i c
      | FleetPrepare v \<Rightarrow> snd (prepare opt env (own_source opt env) v c)
      | OtherProcess lk \<Rightarrow> c\<lparr>co_lock := lk\<rparr>)"

fun co_run_all :: "co_options \<Rightarrow> (co_env \<times> co_action) list \<Rightarrow> coordinator \<Rightarrow> coordinator" where
  "co_run_all opt [] c = c"
| "co_run_all opt ((env, a) # xs) c = co_run_all opt xs (co_step opt env a c)"

section \<open>The invariant\<close>

lemma own_source_ok: "release_source (own_source opt env)"
  unfolding own_source_def by (rule github.release_source_axioms)

lemma run_source_ok: "release_source (run_source opt env r)"
proof (cases "ur_push r")
  case None
  then show ?thesis by (simp add: run_source_def own_source_ok)
next
  case (Some p)
  then show ?thesis
    unfolding run_source_def own_source_def pushed_source_def
    by (auto intro!: fallback_source github.release_source_axioms peer.release_source_axioms)
qed

definition cached :: "co_options \<Rightarrow> files \<Rightarrow> string \<Rightarrow> prepared_release \<Rightarrow> bool" where
  "cached opt fs v p = (read_verified_cache (oo_platform opt) (oo_keys opt) fs v = Some p)"

text \<open>What the guards have established for a target and its release.\<close>

definition vetted :: "co_options \<Rightarrow> files \<Rightarrow> string \<Rightarrow> prepared_release \<Rightarrow> bool" where
  "vetted opt fs to p =
     (check_newer (oo_currentVersion opt) to = Inr None \<and> is_installed_entry (oo_entryPath opt) \<and>
      (\<exists>m. major_of (rm_hfpVersion (pp_manifest p)) = Inr m \<and> major_of (oo_localHfpVersion opt) = Inr m) \<and>
      cached opt fs to p)"

definition plan_ok :: "co_options \<Rightarrow> files \<Rightarrow> upgrade_plan \<Rightarrow> bool" where
  "plan_ok opt fs pl = (vetted opt fs (pl_to pl) (pl_prepared pl) \<and>
     (\<forall>b. pl_rollback pl = Some b \<longrightarrow> cached opt fs (oo_currentVersion opt) b))"

fun stage_ok :: "co_options \<Rightarrow> files \<Rightarrow> run_stage \<Rightarrow> bool" where
  "stage_ok opt fs (Preparing to) = (check_newer (oo_currentVersion opt) to = Inr None)"
| "stage_ok opt fs (CachingRollback to p) = vetted opt fs to p"
| "stage_ok opt fs (Locking pl) = plan_ok opt fs pl"
| "stage_ok opt fs (WritingUpdater pl) = plan_ok opt fs pl"
| "stage_ok opt fs (WritingState pl) = plan_ok opt fs pl"
| "stage_ok opt fs _ = True"

definition spawn_ok :: "co_options \<Rightarrow> files \<Rightarrow> upgrade_state \<Rightarrow> bool" where
  "spawn_ok opt fs us = (\<exists>pl. plan_ok opt fs pl \<and> us = plan_state opt pl)"

definition co_inv :: "co_options \<Rightarrow> coordinator \<Rightarrow> bool" where
  "co_inv opt c =
     (length (co_runs c) \<le> 1 \<and> (co_pending c \<longleftrightarrow> co_runs c \<noteq> []) \<and>
      length (co_spawned c) \<le> 1 \<and> (co_inProgress c \<longleftrightarrow> co_spawned c \<noteq> []) \<and>
      (\<forall>r \<in> set (co_runs c). co_inProgress c \<longrightarrow> run_over r) \<and>
      (\<forall>r \<in> set (co_runs c). stage_ok opt (co_files c) (ur_stage r) \<and> (ur_push r \<noteq> None \<longrightarrow> oo_allowRemote opt)) \<and>
      (co_probes c \<noteq> [] \<longrightarrow> oo_allowRemote opt) \<and>
      (\<forall>us \<in> set (co_spawned c). spawn_ok opt (co_files c) us))"

text \<open>The facts about the files survive every preparation.\<close>

definition files_grow :: "co_options \<Rightarrow> files \<Rightarrow> files \<Rightarrow> bool" where
  "files_grow opt fs fs' = (\<forall>v p. cached opt fs v p \<longrightarrow> cached opt fs' v p)"

lemma files_grow_refl [simp]: "files_grow opt fs fs"
  by (simp add: files_grow_def)

lemma vetted_grow: "files_grow opt fs fs' \<Longrightarrow> vetted opt fs to p \<Longrightarrow> vetted opt fs' to p"
  by (auto simp: files_grow_def vetted_def)

lemma plan_ok_grow: "files_grow opt fs fs' \<Longrightarrow> plan_ok opt fs pl \<Longrightarrow> plan_ok opt fs' pl"
  using vetted_grow by (auto simp: plan_ok_def files_grow_def)

lemma stage_ok_grow: "files_grow opt fs fs' \<Longrightarrow> stage_ok opt fs st \<Longrightarrow> stage_ok opt fs' st"
  by (cases st) (auto simp: vetted_grow plan_ok_grow)

lemma spawn_ok_grow: "files_grow opt fs fs' \<Longrightarrow> spawn_ok opt fs us \<Longrightarrow> spawn_ok opt fs' us"
  using plan_ok_grow unfolding spawn_ok_def by blast

lemma prepare_grow:
  assumes "release_source fetch" "prepare opt env fetch v c = (x, c')"
  shows "files_grow opt (co_files c) (co_files c') \<and> c' = c\<lparr>co_files := co_files c'\<rparr> \<and>
    (\<forall>p. x = Inr p \<longrightarrow> cached opt (co_files c') v p)"
proof -
  obtain fs' where fs': "prepare_release_once (oo_platform opt) (oo_keys opt) (ce_rm env) fetch v (co_files c) = (x, fs')"
    and c': "c' = c\<lparr>co_files := fs'\<rparr>"
    using assms(2) by (auto simp: prepare_def split: prod.splits)
  have "files_grow opt (co_files c) fs'"
    unfolding files_grow_def cached_def
    using release_source.prepare_keeps_cached [OF assms(1), of _ _ "co_files c" _ _ "ce_rm env" v] fs' by fastforce
  moreover have "\<And>p. x = Inr p \<Longrightarrow> cached opt fs' v p"
    using release_source.prepare_cached [OF assms(1)] fs' by (auto simp: cached_def)
  ultimately show ?thesis using c' by simp
qed

lemma guard_outcome_None: "guard_outcome x = None \<longleftrightarrow> x = Inr None"
  by (auto simp: guard_outcome_def split: sum.splits option.splits semver_error.splits)

lemma guard_outcome_ok: "guard_outcome (Inr None) = None"
  by (simp add: guard_outcome_None)

lemma guards_None_vetted:
  "guards opt env f to (rm_hfpVersion (pp_manifest p)) = None \<Longrightarrow> cached opt fs to p \<Longrightarrow> vetted opt fs to p"
  by (auto simp: guards_def guard_outcome_None guards_None vetted_def)

lemma fail_run_stage:
  "stage_ok opt fs (ur_stage (fail_run e r))" "ur_push (fail_run e r) = ur_push r"
  by (auto simp: fail_run_def split: option.split)

definition step_facts :: "co_options \<Rightarrow> upgrade_run \<Rightarrow> coordinator \<Rightarrow> upgrade_run \<Rightarrow> coordinator \<Rightarrow> bool" where
  "step_facts opt r c r' c' =
     (files_grow opt (co_files c) (co_files c') \<and> co_runs c' = co_runs c \<and> co_pending c' = co_pending c \<and>
      co_probes c' = co_probes c \<and> ur_push r' = ur_push r \<and> stage_ok opt (co_files c') (ur_stage r') \<and>
      (co_spawned c' = co_spawned c \<and> co_inProgress c' = co_inProgress c \<or>
       (\<exists>pl. plan_ok opt (co_files c') pl \<and> co_spawned c' = co_spawned c @ [plan_state opt pl] \<and>
             co_inProgress c' \<and> run_over r')))"

lemma run_step_facts:
  assumes "stage_ok opt (co_files c) (ur_stage r)" "run_step opt env r (ur_stage r) c = (r', c')"
  shows "step_facts opt r c r' c'"
proof (cases "ur_stage r")
  case Resolving
  with assms(2) show ?thesis
    by (auto simp: step_facts_def fail_run_stage guard_outcome_None split: sum.splits option.splits)
next
  case (Preparing to)
  obtain x c1 where p: "prepare opt env (run_source opt env r) to c = (x, c1)" by force
  note g = prepare_grow [OF run_source_ok p]
  show ?thesis
  proof (cases x)
    case (Inl e)
    with assms(2) Preparing p have rc: "r' = fail_run e r" "c' = c1" by auto
    have "co_runs c1 = co_runs c \<and> co_pending c1 = co_pending c \<and> co_probes c1 = co_probes c \<and>
        co_spawned c1 = co_spawned c \<and> co_inProgress c1 = co_inProgress c"
      using g by (metis coordinator.ext_inject coordinator.surjective coordinator.update_convs(5))
    with g show ?thesis by (simp add: rc step_facts_def fail_run_stage)
  next
    case (Inr q)
    have eq: "co_runs c1 = co_runs c \<and> co_pending c1 = co_pending c \<and> co_probes c1 = co_probes c \<and>
        co_spawned c1 = co_spawned c \<and> co_inProgress c1 = co_inProgress c"
      using g by (metis coordinator.ext_inject coordinator.surjective coordinator.update_convs(5))
    have q: "cached opt (co_files c1) to q" using g Inr by simp
    show ?thesis
    proof (cases "guards opt env (ur_force r) to (rm_hfpVersion (pp_manifest q))")
      case None
      with assms(2) Preparing p Inr have rc: "r' = r\<lparr>ur_stage := CachingRollback to q\<rparr>" "c' = c1" by auto
      with eq g guards_None_vetted [OF None q] show ?thesis by (simp add: step_facts_def)
    next
      case (Some e)
      with assms(2) Preparing p Inr have rc: "r' = fail_run e r" "c' = c1" by auto
      with eq g show ?thesis by (simp add: step_facts_def fail_run_stage)
    qed
  qed
next
  case (CachingRollback to q)
  obtain x c1 where p: "prepare opt env (run_source opt env r) (oo_currentVersion opt) c = (x, c1)" by force
  note g = prepare_grow [OF run_source_ok p]
  have eq: "co_runs c1 = co_runs c \<and> co_pending c1 = co_pending c \<and> co_probes c1 = co_probes c \<and>
      co_spawned c1 = co_spawned c \<and> co_inProgress c1 = co_inProgress c"
    using g by (metis coordinator.ext_inject coordinator.surjective coordinator.update_convs(5))
  have v: "vetted opt (co_files c1) to q" using g assms(1) CachingRollback vetted_grow by auto
  from assms(2) CachingRollback p have rc: "c' = c1" "r' = r\<lparr>ur_stage := Locking \<lparr>pl_to = to, pl_prepared = q,
      pl_rollback = (case x of Inl _ \<Rightarrow> None | Inr b \<Rightarrow> Some b)\<rparr>\<rparr>" by auto
  have "stage_ok opt (co_files c1) (ur_stage r')"
    using v g by (auto simp: rc plan_ok_def split: sum.splits)
  with g eq show ?thesis unfolding step_facts_def by (simp add: rc)
next
  case (Locking pl)
  with assms show ?thesis
    by (auto simp: step_facts_def fail_run_stage split: prod.splits lock_pc.splits bool.splits)
next
  case (WritingUpdater pl)
  with assms show ?thesis by (auto simp: step_facts_def split: option.splits)
next
  case (WritingState pl)
  with assms show ?thesis by (auto simp: step_facts_def run_over_def split: option.splits)
next
  case (Recording e)
  with assms show ?thesis by (auto simp: step_facts_def split: option.splits)
next
  case (ReleasingLock e)
  with assms show ?thesis by (auto simp: step_facts_def fail_run_stage split: option.splits)
qed (use assms in \<open>auto simp: step_facts_def fail_run_stage\<close>)

lemma co_inv_new: "co_inv opt (new_coordinator fs lk)"
  by (simp add: co_inv_def new_coordinator_def)

lemma claim_inv:
  assumes "co_inv opt c" "claim env r c = Inr c'" "ur_stage r = Resolving \<or> (\<exists>x. ur_stage r = Ending x) \<or> (\<exists>e. ur_stage r = Recording e)"
    "ur_push r \<noteq> None \<longrightarrow> oo_allowRemote opt"
  shows "co_inv opt c'"
proof -
  from assms(2) have b: "\<not> co_inProgress c" "\<not> co_pending c" and c': "c' = c\<lparr>co_pending := True, co_runs := co_runs c @ [r]\<rparr>"
    by (auto simp: claim_def busy_def split: option.splits if_splits)
  with assms(1) have "co_runs c = []" by (simp add: co_inv_def)
  with b assms c' show ?thesis by (auto simp: co_inv_def)
qed

lemma start_run_stage:
  "ur_stage (start_run opt r) = Resolving \<or> (\<exists>x. ur_stage (start_run opt r) = Ending x) \<or> (\<exists>e. ur_stage (start_run opt r) = Recording e)"
  "ur_push (start_run opt r) = ur_push r"
  by (auto simp: start_run_def fail_run_def split: option.split)

lemma advance_inv:
  assumes "co_inv opt c"
  shows "co_inv opt (advance_run opt env i c)"
proof (cases "i < length (co_runs c)")
  case True
  with assms have "length (co_runs c) = 1" by (simp add: co_inv_def)
  then obtain r where r: "co_runs c = [r]" by (auto simp: length_Suc_conv)
  with True have i: "i = 0" by simp
  show ?thesis
  proof (cases "run_over r")
    case True
    then show ?thesis using assms r i by (auto simp: advance_run_def co_inv_def)
  next
    case False
    obtain r' c' where rc: "run_step opt env r (ur_stage r) c = (r', c')" by force
    have st: "stage_ok opt (co_files c) (ur_stage r)" and np: "\<not> co_inProgress c"
      and sp: "co_spawned c = []" "co_pending c"
      using assms r False by (auto simp: co_inv_def)
    note f = run_step_facts [OF st rc, unfolded step_facts_def]
    have a: "advance_run opt env i c = c'\<lparr>co_runs := [r']\<rparr>"
      using False r i rc f by (simp add: advance_run_def)
    show ?thesis
      unfolding a using assms r f np sp by (auto simp: co_inv_def spawn_ok_def)
  qed
qed (use assms in \<open>simp add: advance_run_def\<close>)

lemma co_step_inv:
  assumes "co_inv opt c"
  shows "co_inv opt (co_step opt env a c)"
proof (cases a)
  case (SelfUpgrade v f)
  show ?thesis
  proof (cases "upgrade_self opt env v f c")
    case (Inr c')
    from claim_inv [OF assms Inr [unfolded upgrade_self_def] start_run_stage(1)] show ?thesis
      by (simp add: SelfUpgrade co_step_def Inr start_run_stage)
  qed (use assms SelfUpgrade in \<open>simp add: co_step_def\<close>)
next
  case (PushArrives p)
  with assms show ?thesis
    by (auto simp: co_step_def accept_remote_begin_def co_inv_def split: sum.splits if_splits option.splits)
next
  case (ProbeAnswers i)
  let ?c = "c\<lparr>co_probes := take i (co_probes c) @ drop (Suc i) (co_probes c)\<rparr>"
  have inv: "co_inv opt ?c" using assms by (auto simp: co_inv_def)
  have allow: "i < length (co_probes c) \<Longrightarrow> oo_allowRemote opt" using assms by (auto simp: co_inv_def)
  have "co_inv opt c'" if "accept_remote_decide opt env p ?c = Inr c'" "oo_allowRemote opt" for p c'
    using that claim_inv [OF inv _ start_run_stage(1)]
    by (auto simp: accept_remote_decide_def start_run_stage split: sum.splits if_splits option.splits)
  with inv allow ProbeAnswers assms show ?thesis by (auto simp: co_step_def Let_def split: sum.splits)
next
  case (Advance i)
  with assms show ?thesis by (simp add: co_step_def advance_inv)
next
  case (FleetPrepare v)
  obtain x c1 where p: "prepare opt env (own_source opt env) v c = (x, c1)" by force
  note g = prepare_grow [OF own_source_ok p]
  then have "c1 = c\<lparr>co_files := co_files c1\<rparr>" "files_grow opt (co_files c) (co_files c1)" by auto
  then obtain fs where "c1 = c\<lparr>co_files := fs\<rparr>" "files_grow opt (co_files c) fs" by auto
  with assms FleetPrepare p show ?thesis
    using stage_ok_grow spawn_ok_grow by (fastforce simp: co_step_def co_inv_def)
next
  case (OtherProcess lk)
  with assms show ?thesis by (simp add: co_step_def co_inv_def)
qed

lemma co_run_inv: "co_inv opt c \<Longrightarrow> co_inv opt (co_run_all opt xs c)"
  by (induction opt xs c rule: co_run_all.induct) (simp_all add: co_step_inv)

text \<open>Steps left until a run ends.\<close>

fun stage_rank :: "run_stage \<Rightarrow> nat" where
  "stage_rank Resolving = 8"
| "stage_rank (Preparing _) = 7"
| "stage_rank (CachingRollback _ _) = 6"
| "stage_rank (Locking _) = 5"
| "stage_rank (WritingUpdater _) = 4"
| "stage_rank (WritingState _) = 3"
| "stage_rank (ReleasingLock _) = 2"
| "stage_rank (Recording _) = 1"
| "stage_rank (Ending _) = 0"

lemma stage_rank_le: "stage_rank st \<le> 8"
  by (cases st) simp_all

lemma fail_run_rank: "stage_rank (ur_stage (fail_run e r)) \<le> 1"
  by (simp add: fail_run_def split: option.split)

lemma run_step_rank:
  assumes "\<not> run_over r" "run_step opt env r (ur_stage r) c = (r', c')"
  shows "stage_rank (ur_stage r') < stage_rank (ur_stage r)"
  using assms fail_run_rank [THEN le_less_trans]
  by (cases "ur_stage r")
     (auto simp: run_over_def split: sum.splits option.splits prod.splits lock_pc.splits bool.splits)

lemma idle_stays: "co_runs c = [] \<Longrightarrow> \<not> co_pending c \<Longrightarrow>
    \<not> co_pending (co_run_all opt (map (\<lambda>e. (e, Advance 0)) envs) c)"
  by (induction envs) (simp_all add: co_step_def advance_run_def)

lemma run_drains:
  "co_inv opt c \<Longrightarrow> co_runs c = [r] \<Longrightarrow> stage_rank (ur_stage r) < length envs \<Longrightarrow>
   \<not> co_pending (co_run_all opt (map (\<lambda>e. (e, Advance 0)) envs) c)"
proof (induction envs arbitrary: c r)
  case (Cons env envs)
  let ?c = "co_step opt env (Advance 0) c"
  have inv: "co_inv opt ?c" by (rule co_step_inv [OF Cons.prems(1)])
  show ?case
  proof (cases "run_over r")
    case True
    with Cons.prems show ?thesis by (simp add: co_step_def advance_run_def idle_stays)
  next
    case False
    obtain r' c' where rc: "run_step opt env r (ur_stage r) c = (r', c')" by force
    have "stage_ok opt (co_files c) (ur_stage r)" using Cons.prems by (simp add: co_inv_def)
    from run_step_facts [OF this rc] have "co_runs c' = [r]"
      using Cons.prems(2) by (simp add: step_facts_def)
    then have "co_runs ?c = [r']" using False rc Cons.prems(2) by (simp add: co_step_def advance_run_def)
    moreover have "stage_rank (ur_stage r') < length envs"
      using run_step_rank [OF False rc] Cons.prems(3) by simp
    ultimately show ?thesis using Cons.IH [OF inv] by simp
  qed
qed simp

section \<open>A concrete upgrade\<close>

definition demo_options :: co_options where
  "demo_options = \<lparr>oo_currentVersion = ''0.6.0'', oo_localHfpVersion = ''0.1.0'', oo_supported = True,
     oo_allowRemote = True, oo_pid = 7, oo_entryPath = ''/usr/lib/node_modules/homefleet/dist/bin/homefleetd.js'',
     oo_repo = ''Hugodzl/HomeFleet'', oo_keys = [''key''], oo_platform = demo_platform\<rparr>"

definition demo_env :: co_env where
  "demo_env = \<lparr>ce_shutting = False, ce_active = 0, ce_now = 5, ce_alive = (\<lambda>_. True), ce_get = demo_get,
     ce_tag = Inl ''offline'', ce_peer = (\<lambda>_. Inl (''gone'', None)), ce_disk = (\<lambda>_. None),
     ce_rm = (\<lambda>_. None), ce_sourceRm = (\<lambda>_. None), ce_lockIo = (\<lambda>_. Works), ce_failure = None\<rparr>"

definition demo_start :: coordinator where
  "demo_start = new_coordinator (\<lambda>_. None) \<lparr>lf_file = None, lf_next = 0\<rparr>"

definition demo_run :: "(co_env \<times> co_action) list" where
  "demo_run = (demo_env, SelfUpgrade (Some ''1.0.0'') False) # replicate 7 (demo_env, Advance 0)"

lemmas release_eval = prepare_release_once_def pushed_source_def fallback_fetch_def github_fetch_def make_dir_def github_download_def
  demo_get_def demo_platform_def read_verified_cache_def rm_dir_def Let_def release_file_name_def
  manifest_file_name_def signature_file_name_def MAX_RELEASE_ASSET_BYTES_def verify_release_def
  verify_manifest_signature_def signature_valid_def key_verifies_def js_trim_def is_space_def
  parse_release_manifest_def release_manifest_ok_def release_file_pattern_def lower_hex_def
  is_lower_hex_def list_all_iff

lemma demo_prepared:
  "\<exists>p. prepare_release_once demo_platform [''key''] (\<lambda>_. None) (github_fetch ''Hugodzl/HomeFleet'' demo_get (\<lambda>_. None)) ''1.0.0'' (\<lambda>_. None) =
      (Inr p, snd (prepare_release_once demo_platform [''key''] (\<lambda>_. None) (github_fetch ''Hugodzl/HomeFleet'' demo_get (\<lambda>_. None)) ''1.0.0'' (\<lambda>_. None))) \<and>
    rm_hfpVersion (pp_manifest p) = ''0.1.0''"
  by (simp add: release_eval semver_eval)

lemma demo_installed: "is_installed_entry ''/usr/lib/node_modules/homefleet/dist/bin/homefleetd.js''"
  unfolding is_installed_entry_def installed_marker_def sublist_def
  by (rule exI [of _ "''/usr/lib''"], rule exI [of _ "''homefleetd.js''"]) simp

lemma demo_checks:
  "check_newer ''0.6.0'' ''1.0.0'' = Inr None" "major_of ''0.1.0'' = Inr 0"
  "is_installed_entry ''/usr/lib/node_modules/homefleet/dist/bin/homefleetd.js''"
  by (simp_all add: check_newer_def semver_eval demo_installed zero_enat_def)

lemma demo_spawned: "map us_to (co_spawned (co_run_all demo_options demo_run demo_start)) = [''1.0.0''] \<and>
    \<not> co_pending (co_run_all demo_options demo_run demo_start)"
proof -
  obtain p fs where p: "prepare_release_once demo_platform [''key''] (\<lambda>_. None)
      (github_fetch ''Hugodzl/HomeFleet'' demo_get (\<lambda>_. None)) ''1.0.0'' (\<lambda>_. None) = (Inr p, fs)"
    "rm_hfpVersion (pp_manifest p) = ''0.1.0''"
    using demo_prepared by blast
  obtain x fs' where x: "prepare_release_once demo_platform [''key''] (\<lambda>_. None)
      (github_fetch ''Hugodzl/HomeFleet'' demo_get (\<lambda>_. None)) ''0.6.0'' fs = (x, fs')" by force
  show ?thesis
    by (simp add: demo_run_def demo_start_def new_coordinator_def co_step_def upgrade_self_def claim_def start_run_def
        refuse_if_shutting_down_def busy_def demo_options_def demo_env_def eval_nat_numeral advance_run_def run_over_def
        resolve_target_def demo_checks guard_outcome_def run_source_def own_source_def prepare_def p x guards_def
        check_upgrade_guards_def acquire_alone plan_state_def)
qed

section \<open>Properties\<close>

text \<open>C26 Only one upgrade at a time: from a fresh coordinator, whatever local upgrades, pushes, lock probes, fleet
  preparations and other processes interleave, at most one run holds the claim, at most one updater is ever
  started, and once it is every later claim is refused: a local one as locked, and a pushed one as locked both when it
  arrives (unless this node refuses pushes altogether) and when its lock probe answers later.\<close>

theorem one_upgrade_at_a_time:
  "length (co_runs (co_run_all opt xs (new_coordinator fs lk))) \<le> 1 \<and>
   length (co_spawned (co_run_all opt xs (new_coordinator fs lk))) \<le> 1 \<and>
   (if co_spawned (co_run_all opt xs (new_coordinator fs lk)) = [] then True
    else (\<exists>e. upgrade_self opt env v f (co_run_all opt xs (new_coordinator fs lk)) = Inl (Refused e) \<and> ue_code e = UpLocked) \<and>
      (\<exists>e. accept_remote_begin opt env p (co_run_all opt xs (new_coordinator fs lk)) = Inl (Refused e) \<and>
         ue_code e = (if \<not> oo_allowRemote opt then UpDisabled else if \<not> oo_supported opt then UpUnsupported else UpLocked)) \<and>
      (\<exists>e. accept_remote_decide opt env p (co_run_all opt xs (new_coordinator fs lk)) = Inl (Refused e) \<and> ue_code e = UpLocked))"
proof -
  have inv: "co_inv opt (co_run_all opt xs (new_coordinator fs lk))"
    by (intro co_run_inv co_inv_new)
  then show ?thesis
    by (auto simp: co_inv_def upgrade_self_def claim_def accept_remote_begin_def accept_remote_decide_def
        refuse_if_shutting_down_def busy_def locked_err_def unsupported_err_def upgrade_err_def)
qed

text \<open>C27 The updater only ever installs a vetted release: whatever interleaves, an updater that was started goes
  from the running version to one that compares strictly newer and has the same protocol major, from an npm
  install, with a tarball that the cache still verifies for that version, and with a rollback tarball, when it has
  one, that the cache verifies for the running version.\<close>

theorem spawned_upgrade_vetted:
  assumes "us \<in> set (co_spawned (co_run_all opt xs (new_coordinator fs lk)))"
  shows "us_from us = oo_currentVersion opt \<and> is_installed_entry (oo_entryPath opt) \<and>
    (\<exists>n. compare_semver (us_to us) (us_from us) = Inr n \<and> 0 < n) \<and>
    (\<exists>p m. read_verified_cache (oo_platform opt) (oo_keys opt) (co_files (co_run_all opt xs (new_coordinator fs lk))) (us_to us) = Some p \<and>
       us_tarball us = pp_tarball p \<and>
       major_of (rm_hfpVersion (pp_manifest p)) = Inr m \<and> major_of (oo_localHfpVersion opt) = Inr m) \<and>
    pred_option (\<lambda>t. \<exists>b. read_verified_cache (oo_platform opt) (oo_keys opt)
        (co_files (co_run_all opt xs (new_coordinator fs lk))) (us_from us) = Some b \<and> t = pp_tarball b) (us_rollback us)"
proof -
  have "co_inv opt (co_run_all opt xs (new_coordinator fs lk))" by (intro co_run_inv co_inv_new)
  with assms have "spawn_ok opt (co_files (co_run_all opt xs (new_coordinator fs lk))) us" by (simp add: co_inv_def)
  then obtain pl where pl: "plan_ok opt (co_files (co_run_all opt xs (new_coordinator fs lk))) pl" "us = plan_state opt pl"
    by (auto simp: spawn_ok_def)
  then show ?thesis
    by (cases "pl_rollback pl") (auto simp: plan_ok_def vetted_def cached_def plan_state_def check_newer_None)
qed

theorem spawned_upgrade_vetted_witness:
  "\<exists>us \<in> set (co_spawned (co_run_all demo_options demo_run demo_start)). us_to us = ''1.0.0'' \<and>
     (\<exists>n. compare_semver ''1.0.0'' ''0.6.0'' = Inr n \<and> 0 < n)"
proof -
  obtain us where us: "us \<in> set (co_spawned (co_run_all demo_options demo_run demo_start))" "us_to us = ''1.0.0''"
    using demo_spawned by (auto simp: map_eq_Cons_conv)
  from spawned_upgrade_vetted [OF us(1) [unfolded demo_start_def]] us show ?thesis
    by (auto simp: demo_options_def)
qed

text \<open>The claim is never leaked: however the network, the disk, the lock and the spawn behave, a claimed run
  gives its claim back within nine of its steps, with the updater started or without.\<close>

theorem claim_released:
  assumes "co_inv opt c" "9 \<le> length envs"
  shows "\<not> co_pending (co_run_all opt (map (\<lambda>e. (e, Advance 0)) envs) c)"
proof (cases "co_runs c")
  case Nil
  with assms(1) show ?thesis by (simp add: idle_stays co_inv_def)
next
  case (Cons r rs)
  with assms(1) have r: "co_runs c = [r]" by (simp add: co_inv_def)
  have "stage_rank (ur_stage r) < length envs"
    using assms(2) stage_rank_le [of "ur_stage r"] by simp
  then show ?thesis by (rule run_drains [OF assms(1) r])
qed

theorem claim_released_witness:
  "\<not> co_pending (co_run_all demo_options (map (\<lambda>e. (e, Advance 0)) (replicate 10 demo_env))
     (co_step demo_options demo_env (SelfUpgrade None True) demo_start))"
proof -
  have "co_inv demo_options (co_step demo_options demo_env (SelfUpgrade None True) demo_start)"
    unfolding demo_start_def by (intro co_step_inv co_inv_new)
  from claim_released [OF this, of "replicate 10 demo_env"] show ?thesis by simp
qed

text \<open>A push is accepted exactly when the node allows it, can restart, is not shutting down, runs no other
  upgrade and finds no live lock (or cannot read it), the pushed manifest verifies for the pushed version under a pinned key, and the
  guards pass without force.\<close>

theorem push_accepted_iff:
  "(\<exists>c'. accept_remote_begin opt env p c = Inr c') = 
     (oo_allowRemote opt \<and> oo_supported opt \<and> \<not> ce_shutting env \<and> \<not> busy c) \<and>
   (\<exists>c'. accept_remote_decide opt env p c = Inr c') =
     (\<not> probe_lock (ce_lockIo env 0) (ce_alive env) (ce_now env) (co_lock c) \<and> \<not> busy c \<and> \<not> ce_shutting env \<and>
      (\<exists>m h. verify_manifest_signature (oo_platform opt) (oo_keys opt)
           (px_base64 (oo_platform opt) (pu_manifest p)) (pu_signature p) (pu_version p) = Inr m \<and>
         check_newer (oo_currentVersion opt) (pu_version p) = Inr None \<and>
         major_of (rm_hfpVersion m) = Inr h \<and> major_of (oo_localHfpVersion opt) = Inr h \<and>
         is_installed_entry (oo_entryPath opt) \<and> ce_active env = 0))"
proof -
  have g: "\<And>v h. guards opt env False v h = None \<longleftrightarrow>
      check_newer (oo_currentVersion opt) v = Inr None \<and>
      (\<exists>m. major_of h = Inr m \<and> major_of (oo_localHfpVersion opt) = Inr m) \<and>
      is_installed_entry (oo_entryPath opt) \<and> ce_active env = 0"
    by (simp add: guards_def guard_outcome_None guards_None)
  have b: "(\<exists>c'. accept_remote_begin opt env p c = Inr c') =
      (oo_allowRemote opt \<and> oo_supported opt \<and> \<not> ce_shutting env \<and> \<not> busy c)"
    by (auto simp: accept_remote_begin_def refuse_if_shutting_down_def)
  have d: "(\<exists>c'. accept_remote_decide opt env p c = Inr c') =
      (\<not> probe_lock (ce_lockIo env 0) (ce_alive env) (ce_now env) (co_lock c) \<and> \<not> busy c \<and> \<not> ce_shutting env \<and>
       (\<exists>m. verify_manifest_signature (oo_platform opt) (oo_keys opt)
            (px_base64 (oo_platform opt) (pu_manifest p)) (pu_signature p) (pu_version p) = Inr m \<and>
          check_newer (oo_currentVersion opt) (pu_version p) = Inr None \<and>
          guards opt env False (pu_version p) (rm_hfpVersion m) = None))"
    by (auto simp: accept_remote_decide_def refuse_if_shutting_down_def claim_def
        guard_outcome_ok guard_outcome_None split: sum.splits option.splits)
  show ?thesis unfolding b d g by blast
qed

text \<open>A pushed upgrade never fails silently: a step that ends a pushed run without an updater is the one that
  records the failure for the pushed version (unless that write itself fails), while the claim is still held.\<close>

theorem pushed_failure_recorded:
  assumes "ur_push r = Some p" "\<not> run_over r" "run_step opt env r (ur_stage r) c = (r', c')" "ur_stage r' = Ending (Inl e)"
  shows "co_pending c' = co_pending c \<and>
    (ce_failure env = None \<longrightarrow>
       (\<exists>why. co_results c' = co_results c @ [\<lparr>fa_from = oo_currentVersion opt, fa_to = pu_version p, fa_reason = why, fa_at = ce_now env\<rparr>]))"
  using assms
  by (cases "ur_stage r")
     (auto simp: run_over_def fail_run_def split: option.splits sum.splits prod.splits lock_pc.splits bool.splits)

definition demo_pushed :: upgrade_run where
  "demo_pushed = \<lparr>ur_version = Some ''1.0.0'', ur_force = False,
     ur_push = Some \<lparr>pu_version = ''1.0.0'', pu_manifest = ''m'', pu_signature = ''s'', pu_known = False\<rparr>,
     ur_stage = Recording (Thrown ''no space left'')\<rparr>"

theorem pushed_failure_recorded_witness:
  "\<exists>why. co_results (snd (run_step demo_options demo_env demo_pushed (ur_stage demo_pushed) demo_start)) =
     [\<lparr>fa_from = ''0.6.0'', fa_to = ''1.0.0'', fa_reason = why, fa_at = 5\<rparr>]"
proof -
  obtain r' c' where rc: "run_step demo_options demo_env demo_pushed (ur_stage demo_pushed) demo_start = (r', c')" by force
  have p: "ur_push demo_pushed = Some \<lparr>pu_version = ''1.0.0'', pu_manifest = ''m'', pu_signature = ''s'', pu_known = False\<rparr>"
    "\<not> run_over demo_pushed" "ur_stage r' = Ending (Inl (Thrown ''no space left''))"
    using rc by (auto simp: demo_pushed_def run_over_def split: option.splits)
  from pushed_failure_recorded [OF p(1,2) rc p(3)] rc show ?thesis
    by (simp add: demo_options_def demo_env_def demo_start_def new_coordinator_def)
qed

end
