(* ===== verification/Rollout.thy ===== *)
theory Rollout imports Release begin

text \<open>
  \<^verbatim>\<open>packages/daemon/src/upgrade/rollout.ts\<close> and \<^verbatim>\<open>available-upgrade.ts\<close>: the fleet rollout and the
  release hint. The peers, the clock, the aborts and the local upgrade answer through a script of what one
  peer's rollout meets; a script that ends before the wait loop does gives \<open>None\<close>.
\<close>

section \<open>Status\<close>

datatype peer_rollout_state =
    PPending | Pushing | PRestarting | PSucceeded | PRefused | PTooOld | PUnreachable | PRolledBack | PFailed | PTimeout

record peer_rollout_status =
  ps_deviceId :: string
  ps_name :: string
  ps_from :: "string option"
  ps_state :: peer_rollout_state
  ps_reason :: "string option"

datatype rollout_state = RoRunning | RoStopped | RoDone

datatype self_state = SPending | SSkipped | SRestarting | SRefused | SSucceeded | SRolledBack | SFailed

record rollout_status =
  ro_target :: string
  ro_startedAt :: int
  ro_state :: rollout_state
  ro_peers :: "peer_rollout_status list"
  ro_self :: self_state
  ro_selfReason :: "string option"

record directory_entry =
  de_deviceId :: string
  de_name :: string
  de_host :: "string option"
  de_reachable :: bool
  de_nodeInfo :: "node_info option"

definition UPGRADE_WAIT_MS :: int where "UPGRADE_WAIT_MS = 180000"

section \<open>Records of earlier upgrades\<close>

definition same_record :: "last_upgrade \<Rightarrow> last_upgrade option \<Rightarrow> bool" where
  "same_record a b =
     (case b of
        None \<Rightarrow> False
      | Some b \<Rightarrow> lu_at a = lu_at b \<and> lu_outcome a = lu_outcome b \<and> lu_version a = lu_version b \<and> lu_reason a = lu_reason b)"

record upgrade_result =
  rr_to :: string
  rr_outcome :: upgrade_outcome
  rr_reason :: "string option"
  rr_at :: int

fun failed_self :: "upgrade_outcome \<Rightarrow> self_state" where
  "failed_self UpSucceeded = SSucceeded"
| "failed_self UpRolledBack = SRolledBack"
| "failed_self UpFailed = SFailed"

definition restore_rollout_status :: "rollout_status \<Rightarrow> string \<Rightarrow> upgrade_result option \<Rightarrow> semver_error + rollout_status" where
  "restore_rollout_status saved daemonVersion result =
     (let status = (if ro_state saved = RoRunning then saved\<lparr>ro_state := RoDone\<rparr> else saved)
      in if ro_self status \<noteq> SRestarting then Inr status
         else
           (let failure =
              (case result of
                 Some l \<Rightarrow>
                   if rr_to l = ro_target status \<and> rr_outcome l \<noteq> UpSucceeded \<and> ro_startedAt status \<le> rr_at l
                   then status\<lparr>ro_self := failed_self (rr_outcome l), ro_selfReason := rr_reason l\<rparr> else status
               | None \<Rightarrow> status)
            in if is_semver daemonVersion then
                 (case compare_semver daemonVersion (ro_target status) of
                    Inl e \<Rightarrow> Inl e
                  | Inr n \<Rightarrow> if 0 \<le> n then Inr (status\<lparr>ro_self := SSucceeded, ro_selfReason := None\<rparr>) else Inr failure)
               else Inr failure))"

section \<open>Selection\<close>

text \<open>A peer whose version does not parse makes \<open>compareSemver\<close> throw out of \<open>start\<close>.\<close>

fun older_peers :: "string \<Rightarrow> directory_entry list \<Rightarrow> semver_error + directory_entry list" where
  "older_peers target [] = Inr []"
| "older_peers target (e # es) =
     (case (de_reachable e, de_nodeInfo e) of
        (True, Some ni) \<Rightarrow>
          (case compare_semver (ni_daemonVersion ni) target of
             Inl x \<Rightarrow> Inl x
           | Inr n \<Rightarrow> map_sum id (\<lambda>r. if n < 0 then e # r else r) (older_peers target es))
      | _ \<Rightarrow> older_peers target es)"

definition select_peers :: "directory_entry list \<Rightarrow> string \<Rightarrow> string list option \<Rightarrow> semver_error + directory_entry list" where
  "select_peers entries target nodes =
     (case nodes of
        Some ids \<Rightarrow> Inr (filter (\<lambda>e. de_deviceId e \<in> set ids) entries)
      | None \<Rightarrow> older_peers target entries)"

definition initial_peer :: "bool \<Rightarrow> directory_entry \<Rightarrow> peer_rollout_status" where
  "initial_peer explicit e =
     (let unreachable = explicit \<and> de_host e = None
      in \<lparr>ps_deviceId = de_deviceId e, ps_name = de_name e, ps_from = map_option ni_daemonVersion (de_nodeInfo e),
          ps_state = (if unreachable then PUnreachable else PPending),
          ps_reason = (if unreachable then Some ''no known address for this node'' else None)\<rparr>)"

definition start_rollout :: "string \<Rightarrow> int \<Rightarrow> directory_entry list \<Rightarrow> string \<Rightarrow> string list option \<Rightarrow> bool \<Rightarrow> semver_error + (directory_entry list \<times> rollout_status)" where
  "start_rollout current now entries target nodes includeSelf =
     (case select_peers entries target nodes of
        Inl e \<Rightarrow> Inl e
      | Inr sel \<Rightarrow>
          (case (if includeSelf then map_sum id (\<lambda>n. n < 0) (compare_semver current target) else Inr False) of
             Inl e \<Rightarrow> Inl e
           | Inr older \<Rightarrow>
               Inr (sel, \<lparr>ro_target = target, ro_startedAt = now, ro_state = RoRunning,
                  ro_peers = map (initial_peer (nodes \<noteq> None)) sel,
                  ro_self = (if older then SPending else SSkipped), ro_selfReason = None\<rparr>)))"

section \<open>One peer\<close>

datatype push_answer = PushAccepted | HttpRefusal nat "string option" string | PushError string

text \<open>One turn of the wait loop: the clock at its test, whether the rollout was aborted after the sleep, and
  what \<open>hello\<close> answered. (The dash of the timeout reason is ASCII here.)\<close>

record poll =
  po_now :: int
  po_aborted :: bool
  po_hello :: "node_info option"

record peer_script =
  sc_abortedBefore :: bool
  sc_hello :: "node_info option"
  sc_pushedAt :: int
  sc_push :: push_answer
  sc_polls :: "poll list"
  sc_abortedAfter :: bool

datatype peer_verdict = Proceed | Halt | Aborted | Crash string

definition too_old_reason :: string where
  "too_old_reason = ''too old for remote upgrade; run \"homefleet upgrade\" there (npm i -g on v0.4 or older)''"

fun rolled_state :: "upgrade_outcome \<Rightarrow> peer_rollout_state" where
  "rolled_state UpRolledBack = PRolledBack"
| "rolled_state _ = PFailed"

definition fresh_failure :: "string \<Rightarrow> last_upgrade option \<Rightarrow> node_info option \<Rightarrow> last_upgrade option" where
  "fresh_failure target before info =
     (case Option.bind info ni_lastUpgrade of
        Some l \<Rightarrow>
          if lu_version l = target \<and> (lu_outcome l = UpRolledBack \<or> lu_outcome l = UpFailed) \<and> \<not> same_record l before
          then Some l else None
      | None \<Rightarrow> None)"

definition reached :: "string \<Rightarrow> node_info option \<Rightarrow> semver_error + bool" where
  "reached target info =
     (case map_option ni_daemonVersion info of
        None \<Rightarrow> Inr False
      | Some v \<Rightarrow> if is_semver v then map_sum id (\<lambda>n. 0 \<le> n) (compare_semver v target) else Inr False)"

fun wait_loop :: "string \<Rightarrow> int \<Rightarrow> int \<Rightarrow> last_upgrade option \<Rightarrow> peer_rollout_status \<Rightarrow> poll list \<Rightarrow> (peer_verdict \<times> peer_rollout_status) option" where
  "wait_loop target waitMs pushedAt before p [] = None"
| "wait_loop target waitMs pushedAt before p (x # xs) =
     (if \<not> po_now x - pushedAt < waitMs then
        Some (Halt, p\<lparr>ps_state := PTimeout, ps_reason := Some ''unknown - check the node''\<rparr>)
      else if po_aborted x then Some (Aborted, p)
      else
        (case reached target (po_hello x) of
              Inl (NotSemver v) \<Rightarrow> Some (Crash (v @ '' is not a semver string (X.Y.Z)''), p)
            | Inr True \<Rightarrow> Some (Proceed, p\<lparr>ps_state := PSucceeded\<rparr>)
            | Inr False \<Rightarrow>
                (case fresh_failure target before (po_hello x) of
                   Some l \<Rightarrow>
                     Some (Halt, p\<lparr>ps_state := rolled_state (lu_outcome l),
                       ps_reason := (case lu_reason l of None \<Rightarrow> ps_reason p | Some r \<Rightarrow> Some r)\<rparr>)
                 | None \<Rightarrow> wait_loop target waitMs pushedAt before p xs)))"

definition record_before :: "directory_entry \<Rightarrow> peer_script \<Rightarrow> last_upgrade option" where
  "record_before e s =
     (case de_nodeInfo e of
        Some ni \<Rightarrow> ni_lastUpgrade ni
      | None \<Rightarrow> Option.bind (sc_hello s) ni_lastUpgrade)"

definition rollout_peer :: "int \<Rightarrow> string \<Rightarrow> directory_entry \<Rightarrow> peer_script \<Rightarrow> peer_rollout_status \<Rightarrow> (peer_verdict \<times> peer_rollout_status) option" where
  "rollout_peer waitMs target e s p =
     (case sc_push s of
        HttpRefusal n hfp msg \<Rightarrow>
          Some (Proceed, if n = 404 then p\<lparr>ps_state := PTooOld, ps_reason := Some too_old_reason\<rparr>
                         else p\<lparr>ps_state := PRefused, ps_reason := Some (case hfp of Some m \<Rightarrow> m | None \<Rightarrow> msg)\<rparr>)
      | PushError msg \<Rightarrow> Some (Proceed, p\<lparr>ps_state := PUnreachable, ps_reason := Some msg\<rparr>)
      | PushAccepted \<Rightarrow>
          wait_loop target waitMs (sc_pushedAt s) (record_before e s) (p\<lparr>ps_state := PRestarting\<rparr>) (sc_polls s))"

section \<open>The rollout\<close>

definition aborted_reason :: string where
  "aborted_reason = ''the daemon stopped during the rollout''"

definition stop_aborted :: "rollout_status \<Rightarrow> rollout_status" where
  "stop_aborted st = st\<lparr>ro_state := RoStopped, ro_selfReason := Some aborted_reason\<rparr>"

text \<open>The handler of an escaped error: the peer in flight fails.\<close>

definition crash_peer :: "string \<Rightarrow> peer_rollout_status \<Rightarrow> peer_rollout_status" where
  "crash_peer msg p = p\<lparr>ps_state := PFailed, ps_reason := Some msg\<rparr>"

record self_script =
  se_aborted :: bool
  se_upgrade :: "string + unit"

definition finish_rollout :: "self_script \<Rightarrow> rollout_status \<Rightarrow> rollout_status" where
  "finish_rollout s st =
     (if se_aborted s then stop_aborted st
      else if ro_self st \<noteq> SPending then st\<lparr>ro_state := RoDone\<rparr>
      else case se_upgrade s of
        Inr _ \<Rightarrow> st\<lparr>ro_self := SRestarting\<rparr>
      | Inl msg \<Rightarrow> st\<lparr>ro_state := RoDone, ro_self := SRefused, ro_selfReason := Some msg\<rparr>)"

text \<open>\<open>i\<close> is the index of the next peer; a script is used up by each peer that is not skipped.\<close>

fun run_rollout :: "int \<Rightarrow> self_script \<Rightarrow> nat \<Rightarrow> (directory_entry \<times> peer_script) list \<Rightarrow> rollout_status \<Rightarrow> rollout_status option" where
  "run_rollout waitMs self i [] st = Some (finish_rollout self st)"
| "run_rollout waitMs self i ((e, s) # es) st =
     (if ps_state (ro_peers st ! i) = PUnreachable then run_rollout waitMs self (Suc i) es st
      else if sc_abortedBefore s then Some (stop_aborted st)
      else case rollout_peer waitMs (ro_target st) e s (ro_peers st ! i) of
        None \<Rightarrow> None
      | Some (v, p) \<Rightarrow>
          (let st' = st\<lparr>ro_peers := (ro_peers st)[i := p]\<rparr>
           in case v of
                Proceed \<Rightarrow> run_rollout waitMs self (Suc i) es st'
              | Halt \<Rightarrow> Some (if sc_abortedAfter s then stop_aborted (st'\<lparr>ro_state := RoStopped\<rparr>) else st'\<lparr>ro_state := RoStopped\<rparr>)
              | Aborted \<Rightarrow> Some (stop_aborted (st'\<lparr>ro_state := RoStopped\<rparr>))
              | Crash msg \<Rightarrow> Some (st'\<lparr>ro_state := RoStopped, ro_peers := (ro_peers st')[i := crash_peer msg p]\<rparr>)))"

section \<open>The release hint\<close>

definition AVAILABLE_UPGRADE_TTL_MS :: int where "AVAILABLE_UPGRADE_TTL_MS = 6 * 60 * 60000"
definition AVAILABLE_UPGRADE_FAILURE_TTL_MS :: int where "AVAILABLE_UPGRADE_FAILURE_TTL_MS = 15 * 60000"

record available_upgrade =
  av_value :: "string option"
  av_staleAt :: int
  av_inFlight :: bool

definition new_available :: available_upgrade where
  "new_available = \<lparr>av_value = None, av_staleAt = 0, av_inFlight = False\<rparr>"

definition store_latest :: "string \<Rightarrow> string \<Rightarrow> int \<Rightarrow> available_upgrade \<Rightarrow> semver_error + available_upgrade" where
  "store_latest current latest now a =
     (case compare_semver latest current of
        Inl e \<Rightarrow> Inl e
      | Inr n \<Rightarrow> Inr (a\<lparr>av_value := (if 0 < n then Some latest else None), av_staleAt := now + AVAILABLE_UPGRADE_TTL_MS\<rparr>))"

definition refresh_if_stale :: "int \<Rightarrow> available_upgrade \<Rightarrow> bool \<times> available_upgrade" where
  "refresh_if_stale now a =
     (if av_inFlight a \<or> now < av_staleAt a then (False, a) else (True, a\<lparr>av_inFlight := True\<rparr>))"

definition refresh_done :: "string \<Rightarrow> string option \<Rightarrow> int \<Rightarrow> available_upgrade \<Rightarrow> available_upgrade" where
  "refresh_done current answer now a =
     (let failed = a\<lparr>av_value := None, av_staleAt := now + AVAILABLE_UPGRADE_FAILURE_TTL_MS\<rparr>;
          b = (case answer of
                 None \<Rightarrow> failed
               | Some latest \<Rightarrow>
                   if is_semver latest then (case store_latest current latest now a of Inl _ \<Rightarrow> failed | Inr b \<Rightarrow> b)
                   else failed)
      in b\<lparr>av_inFlight := False\<rparr>)"

definition record_latest :: "string \<Rightarrow> string \<Rightarrow> int \<Rightarrow> available_upgrade \<Rightarrow> semver_error + available_upgrade" where
  "record_latest current latest now a = (if is_semver latest then store_latest current latest now a else Inr a)"

section \<open>One peer's outcome\<close>

definition settled :: "peer_rollout_state \<Rightarrow> bool" where
  "settled x = (x \<in> {PSucceeded, PRefused, PTooOld, PUnreachable})"

lemma same_record_iff: "same_record a b \<longleftrightarrow> b = Some a"
  by (auto simp: same_record_def split: option.splits)

lemma fresh_failure_Some:
  "fresh_failure target before info = Some l \<Longrightarrow>
     \<exists>ni. info = Some ni \<and> ni_lastUpgrade ni = Some l \<and> lu_version l = target \<and> lu_outcome l \<noteq> UpSucceeded \<and> before \<noteq> Some l"
  by (auto simp: fresh_failure_def same_record_iff split: option.splits if_splits) (metis bind_eq_Some_conv)+

lemma reached_defined: "is_semver target \<Longrightarrow> reached target info = Inr True \<or> reached target info = Inr False"
  using semver.cmp_defined [of "ni_daemonVersion (the info)" target]
  by (cases info) (auto simp: reached_def)

lemma reached_True:
  "reached target info = Inr True \<Longrightarrow>
     \<exists>ni n. info = Some ni \<and> compare_semver (ni_daemonVersion ni) target = Inr n \<and> 0 \<le> n"
  by (cases info; cases "compare_semver (ni_daemonVersion (the info)) target") (auto simp: reached_def split: if_splits)

lemma rolled_failed: "o' \<noteq> UpSucceeded \<Longrightarrow> rolled_state o' = PRolledBack \<or> rolled_state o' = PFailed"
  by (cases o') simp_all

text \<open>An answer that carries a failure record for the target other than the one known before.\<close>

definition failed_in :: "string \<Rightarrow> last_upgrade option \<Rightarrow> peer_rollout_state \<Rightarrow> node_info option \<Rightarrow> bool" where
  "failed_in target before st info =
     (\<exists>ni l. info = Some ni \<and> ni_lastUpgrade ni = Some l \<and> lu_version l = target \<and> before \<noteq> Some l \<and>
        lu_outcome l \<noteq> UpSucceeded \<and> st = rolled_state (lu_outcome l))"

lemma failed_in_state: "failed_in target before st info \<Longrightarrow> st = PRolledBack \<or> st = PFailed"
  using rolled_failed by (auto simp: failed_in_def)

lemma wait_loop_outcome:
  assumes "is_semver target" "wait_loop target waitMs pushedAt before p xs = Some (v, q)"
  shows "(v = Proceed \<and> ps_state q = PSucceeded \<and>
      (\<exists>x \<in> set xs. reached target (po_hello x) = Inr True)) \<or>
    (v = Halt \<and> ps_state q = PTimeout) \<or>
    (v = Halt \<and> (\<exists>x \<in> set xs. failed_in target before (ps_state q) (po_hello x))) \<or>
    (v = Aborted \<and> q = p)"
  using assms(2)
proof (induction xs)
  case (Cons x xs)
  let ?newer = "reached target (po_hello x)"
  show ?case
  proof (cases "\<not> po_now x - pushedAt < waitMs \<or> po_aborted x")
    case True
    with Cons.prems show ?thesis by (auto split: if_splits)
  next
    case False
    show ?thesis
    proof (cases "?newer = Inr True")
      case True
      with False Cons.prems show ?thesis by auto
    next
      case nF: False
      with reached_defined [OF assms(1), of "po_hello x"] have f: "?newer = Inr False" by auto
      show ?thesis
      proof (cases "fresh_failure target before (po_hello x)")
        case None
        with f False Cons.prems have "wait_loop target waitMs pushedAt before p xs = Some (v, q)" by simp
        from Cons.IH [OF this] show ?thesis by auto
      next
        case (Some l)
        with f False Cons.prems have "v = Halt" "ps_state q = rolled_state (lu_outcome l)" by auto
        with fresh_failure_Some [OF Some] have "failed_in target before (ps_state q) (po_hello x)"
          by (auto simp: failed_in_def)
        with \<open>v = Halt\<close> show ?thesis by simp
      qed
    qed
  qed
qed simp

lemma rollout_peer_outcome:
  assumes "is_semver target" "rollout_peer waitMs target e s p = Some (v, q)"
  shows "(v = Proceed \<and> settled (ps_state q)) \<or> (v = Halt \<and> ps_state q \<in> {PTimeout, PRolledBack, PFailed}) \<or>
    (v = Aborted \<and> ps_state q = PRestarting)"
proof (cases "sc_push s")
  case PushAccepted
  with assms(2) have "wait_loop target waitMs (sc_pushedAt s) (record_before e s) (p\<lparr>ps_state := PRestarting\<rparr>) (sc_polls s) = Some (v, q)"
    by (simp add: rollout_peer_def)
  from wait_loop_outcome [OF assms(1) this] show ?thesis
    by (auto simp: settled_def dest: failed_in_state)
qed (use assms in \<open>auto simp: rollout_peer_def settled_def split: if_splits\<close>)

lemma rollout_peer_id:
  assumes "rollout_peer waitMs target e s p = Some (v, q)"
  shows "ps_deviceId q = ps_deviceId p"
proof -
  have "wait_loop target waitMs t b p' xs = Some (v, q) \<Longrightarrow> ps_deviceId q = ps_deviceId p'" for t b p' xs
    by (induction xs) (auto split: if_splits option.splits sum.splits semver_error.splits bool.splits)
  from this [of "sc_pushedAt s" "record_before e s" "p\<lparr>ps_state := PRestarting\<rparr>" "sc_polls s"] assms show ?thesis
    by (auto simp: rollout_peer_def split: push_answer.splits if_splits)
qed

section \<open>The whole rollout\<close>

text \<open>Where a rollout from peer \<open>i\<close> ends: the index of the peer it stopped at, or the number of peers.\<close>

definition ends_at :: "nat \<Rightarrow> nat \<Rightarrow> rollout_status \<Rightarrow> rollout_status \<Rightarrow> bool" where
  "ends_at i k st fin =
     (i \<le> k \<and> k \<le> length (ro_peers st) \<and> length (ro_peers fin) = length (ro_peers st) \<and>
      (\<forall>j < length (ro_peers st). j < i \<or> k < j \<longrightarrow> ro_peers fin ! j = ro_peers st ! j) \<and>
      (\<forall>j. i \<le> j \<and> j < k \<longrightarrow> settled (ps_state (ro_peers fin ! j))) \<and>
      (k < length (ro_peers st) \<longrightarrow> ro_self fin = ro_self st \<and> ro_state fin = RoStopped))"

lemma finish_rollout_peers [simp]: "ro_peers (finish_rollout self st) = ro_peers st"
  by (auto simp: finish_rollout_def stop_aborted_def split: sum.split)

lemma stop_aborted_simps [simp]:
  "ro_peers (stop_aborted st) = ro_peers st" "ro_self (stop_aborted st) = ro_self st"
  "ro_state (stop_aborted st) = RoStopped"
  by (simp_all add: stop_aborted_def)

lemma ends_at_step:
  assumes "ends_at (Suc i) k (st\<lparr>ro_peers := (ro_peers st)[i := p]\<rparr>) fin" "settled (ps_state p)" "i < length (ro_peers st)"
  shows "ends_at i k st fin"
proof -
  have "ro_peers fin ! i = p"
    using assms by (auto simp: ends_at_def)
  then have "settled (ps_state (ro_peers fin ! j))" if "i \<le> j" "j < k" for j
    using that assms by (cases "j = i") (auto simp: ends_at_def)
  then show ?thesis using assms by (auto simp: ends_at_def)
qed

lemma ends_here:
  assumes "i < length (ro_peers st)" "ro_peers fin = (ro_peers st)[i := p]" "ro_self fin = ro_self st" "ro_state fin = RoStopped"
  shows "ends_at i i st fin"
  using assms by (auto simp: ends_at_def)

lemma run_rollout_ends:
  assumes "is_semver (ro_target st)" "run_rollout waitMs self i es st = Some fin" "length (ro_peers st) = i + length es"
  shows "\<exists>k. ends_at i k st fin"
  using assms
proof (induction es arbitrary: i st)
  case Nil
  then have "fin = finish_rollout self st" "length (ro_peers st) = i" by auto
  then have "ends_at i i st fin" by (auto simp: ends_at_def)
  then show ?case by blast
next
  case (Cons x es)
  obtain e s where x: "x = (e, s)" by force
  have i: "i < length (ro_peers st)" using Cons.prems(3) by simp
  show ?case
  proof (cases "ps_state (ro_peers st ! i) = PUnreachable")
    case True
    with Cons.prems x obtain k where k: "ends_at (Suc i) k st fin"
      using Cons.IH [of st "Suc i"] by auto
    have "st\<lparr>ro_peers := (ro_peers st)[i := ro_peers st ! i]\<rparr> = st" by simp
    then have "ends_at i k st fin"
      using ends_at_step [of i k st "ro_peers st ! i" fin] k True i by (simp add: settled_def)
    then show ?thesis by blast
  next
    case reach: False
    show ?thesis
    proof (cases "sc_abortedBefore s")
      case True
      with reach Cons.prems(2) x have "fin = stop_aborted st" by simp
      then have "ends_at i i st fin" using i by (intro ends_here [where p = "ro_peers st ! i"]) simp_all
      then show ?thesis by blast
    next
      case False
      with reach Cons.prems(2) x obtain v p where vp: "rollout_peer waitMs (ro_target st) e s (ro_peers st ! i) = Some (v, p)"
        by (auto split: option.splits)
      let ?st = "st\<lparr>ro_peers := (ro_peers st)[i := p]\<rparr>"
      from rollout_peer_outcome [OF Cons.prems(1) vp] consider
        "v = Proceed" "settled (ps_state p)" | "v = Halt" | "v = Aborted" by blast
      then show ?thesis
      proof cases
        case 1
        with reach False Cons.prems x vp have "run_rollout waitMs self (Suc i) es ?st = Some fin" by simp
        with Cons.IH [of ?st "Suc i"] Cons.prems obtain k where "ends_at (Suc i) k ?st fin" by auto
        from ends_at_step [OF this 1(2) i] show ?thesis by blast
      next
        case 2
        with reach False Cons.prems(2) x vp have "ends_at i i st fin"
          using i by (intro ends_here [where p = p]) (auto simp: Let_def split: if_splits)
        then show ?thesis by blast
      next
        case 3
        with reach False Cons.prems(2) x vp have "ends_at i i st fin"
          using i by (intro ends_here [where p = p]) (auto simp: Let_def)
        then show ?thesis by blast
      qed
    qed
  qed
qed

lemma wait_loop_ends:
  "x \<in> set xs \<Longrightarrow> \<not> po_now x - pushedAt < waitMs \<Longrightarrow> \<exists>r. wait_loop target waitMs pushedAt before p xs = Some r"
  by (induction xs) (auto split: sum.split bool.split option.split semver_error.split)

lemma run_rollout_returns:
  assumes "\<forall>(e, s) \<in> set es. \<exists>x \<in> set (sc_polls s). \<not> po_now x - sc_pushedAt s < waitMs"
  shows "\<exists>fin. run_rollout waitMs self i es st = Some fin"
  using assms
proof (induction es arbitrary: i st)
  case (Cons x es)
  obtain e s where x: "x = (e, s)" by force
  from Cons.prems x have "\<exists>r. rollout_peer waitMs (ro_target st) e s (ro_peers st ! i) = Some r"
    using wait_loop_ends [of _ "sc_polls s"] by (fastforce simp: rollout_peer_def split: push_answer.split)
  then obtain v p where r: "rollout_peer waitMs (ro_target st) e s (ro_peers st ! i) = Some (v, p)" by auto
  have "\<exists>fin. run_rollout waitMs self (Suc i) es st' = Some fin" for st'
    using Cons.IH Cons.prems by auto
  then show ?case by (cases v) (simp_all add: x r Let_def)
qed simp

section \<open>Properties of the rollout\<close>

text \<open>C28 One at a time, and never past a failure: a finished rollout stopped at some peer, or got to the end; every peer
  before that point settled (upgraded, refused, too old or unreachable), every peer after it is untouched, and if it is a peer
  the rollout is stopped and this node's own step is untouched. So a peer that rolled back, failed or timed out is followed
  by no other push, and this node's own step changes only when every peer settled.\<close>

theorem rollout_stops_at_failure:
  assumes "is_semver (ro_target st)" "run_rollout waitMs self 0 es st = Some fin" "length (ro_peers st) = length es"
  shows "(\<exists>k \<le> length es. (\<forall>j < k. settled (ps_state (ro_peers fin ! j))) \<and>
      (\<forall>j < length es. k < j \<longrightarrow> ro_peers fin ! j = ro_peers st ! j) \<and>
      (k < length es \<longrightarrow> ro_self fin = ro_self st \<and> ro_state fin = RoStopped)) \<and>
    (\<forall>i j. i < j \<and> j < length es \<and> ps_state (ro_peers fin ! i) \<in> {PTimeout, PRolledBack, PFailed} \<longrightarrow>
      ro_peers fin ! j = ro_peers st ! j \<and> ro_self fin = ro_self st \<and> ro_state fin = RoStopped) \<and>
    (ro_self fin \<noteq> ro_self st \<longrightarrow> (\<forall>p \<in> set (ro_peers fin). settled (ps_state p)))"
proof -
  from run_rollout_ends [of st waitMs self 0 es fin] assms obtain k where k: "ends_at 0 k st fin" by auto
  have "\<exists>k \<le> length es. (\<forall>j < k. settled (ps_state (ro_peers fin ! j))) \<and>
      (\<forall>j < length es. k < j \<longrightarrow> ro_peers fin ! j = ro_peers st ! j) \<and>
      (k < length es \<longrightarrow> ro_self fin = ro_self st \<and> ro_state fin = RoStopped)"
    using k assms(3) by (intro exI [of _ k]) (auto simp: ends_at_def)
  moreover have "ro_peers fin ! j = ro_peers st ! j \<and> ro_self fin = ro_self st \<and> ro_state fin = RoStopped"
    if "i < j" "j < length es" "ps_state (ro_peers fin ! i) \<in> {PTimeout, PRolledBack, PFailed}" for i j
  proof -
    have "\<not> i < k" using k that by (auto simp: ends_at_def settled_def)
    with k that assms(3) show ?thesis by (auto simp: ends_at_def)
  qed
  moreover have "\<forall>p \<in> set (ro_peers fin). settled (ps_state p)" if "ro_self fin \<noteq> ro_self st"
    using k that by (auto simp: ends_at_def in_set_conv_nth)
  ultimately show ?thesis by blast
qed

text \<open>A rollout always ends: when every peer's clock readings advance by at least \<open>pollMs\<close> per turn of the wait
  loop, one more turn than \<open>waitMs div pollMs + 1\<close> per peer is enough for a final status.\<close>

theorem rollout_ends:
  assumes "0 < pollMs" "0 \<le> waitMs"
    "\<forall>(e, s) \<in> set es. nat (waitMs div pollMs) + 1 < length (sc_polls s) \<and>
       (\<forall>i < length (sc_polls s). sc_pushedAt s + int i * pollMs \<le> po_now (sc_polls s ! i))"
  shows "\<exists>fin. run_rollout waitMs self 0 es st = Some fin"
proof (rule run_rollout_returns, safe)
  fix e s assume "(e, s) \<in> set es"
  let ?i = "nat (waitMs div pollMs) + 1"
  from \<open>(e, s) \<in> set es\<close> assms(3) have len: "?i < length (sc_polls s)"
    and all: "\<forall>i < length (sc_polls s). sc_pushedAt s + int i * pollMs \<le> po_now (sc_polls s ! i)" by auto
  have i: "?i < length (sc_polls s)" "sc_pushedAt s + int ?i * pollMs \<le> po_now (sc_polls s ! ?i)"
    using len all [rule_format, OF len] by blast+
  have "int ?i = waitMs div pollMs + 1" using assms(1,2) by (simp add: pos_imp_zdiv_nonneg_iff)
  then have "int ?i * pollMs = (waitMs div pollMs) * pollMs + pollMs" by (simp only: distrib_right mult_1)
  moreover have "waitMs < (waitMs div pollMs) * pollMs + pollMs"
    using assms(1) pos_mod_bound [of pollMs waitMs] by (simp add: minus_mod_eq_div_mult [symmetric])
  ultimately have "\<not> po_now (sc_polls s ! ?i) - sc_pushedAt s < waitMs" using i(2) by linarith
  with i(1) show "\<exists>x \<in> set (sc_polls s). \<not> po_now x - sc_pushedAt s < waitMs" by (meson nth_mem)
qed

text \<open>Only news stops a rollout: a peer is reported rolled back or failed only when, after the push, it answered
  with a failure record for the target that differs from the record known before the push, and it counts as upgraded
  only when it answered with a version that compares at least the target.\<close>

theorem peer_verdict_sound:
  assumes "is_semver target" "rollout_peer waitMs target e s p = Some (v, q)"
  shows "(ps_state q \<in> {PRolledBack, PFailed} \<longrightarrow>
      (\<exists>x \<in> set (sc_polls s). \<exists>ni l. po_hello x = Some ni \<and> ni_lastUpgrade ni = Some l \<and> lu_version l = target \<and>
         lu_outcome l \<noteq> UpSucceeded \<and> record_before e s \<noteq> Some l)) \<and>
    (ps_state q = PSucceeded \<longrightarrow>
      (\<exists>x \<in> set (sc_polls s). \<exists>ni n. po_hello x = Some ni \<and> compare_semver (ni_daemonVersion ni) target = Inr n \<and> 0 \<le> n)) \<and>
    (ps_state q = PTimeout \<longrightarrow> v = Halt)"
proof (cases "sc_push s")
  case PushAccepted
  with assms(2) have "wait_loop target waitMs (sc_pushedAt s) (record_before e s) (p\<lparr>ps_state := PRestarting\<rparr>) (sc_polls s) = Some (v, q)"
    by (simp add: rollout_peer_def)
  from wait_loop_outcome [OF assms(1) this] show ?thesis
    by (auto dest!: reached_True simp: failed_in_def dest: rolled_failed)
qed (use assms in \<open>auto simp: rollout_peer_def split: if_splits\<close>)

section \<open>Concrete rollouts\<close>

definition demo_info :: "string \<Rightarrow> last_upgrade option \<Rightarrow> node_info" where
  "demo_info v l = \<lparr>ni_deviceId = ''a'', ni_name = ''n'', ni_daemonVersion = v, ni_protocolVersion = ''0.1.0'',
     ni_platform = Linux, ni_roles = [], ni_executors = [], ni_hardware = \<lparr>hw_cpu = ''c'', hw_ramBytes = 1, hw_gpus = []\<rparr>,
     ni_models = [], ni_maxConcurrentJobs = 1, ni_activeJobs = 0, ni_allowRemote = None, ni_lastUpgrade = l\<rparr>"

definition demo_entry :: "string \<Rightarrow> directory_entry" where
  "demo_entry d = \<lparr>de_deviceId = d, de_name = d, de_host = Some ''h'', de_reachable = True,
     de_nodeInfo = Some (demo_info ''0.6.0'' None)\<rparr>"

definition demo_failure :: last_upgrade where
  "demo_failure = \<lparr>lu_version = ''1.0.0'', lu_outcome = UpFailed, lu_reason = None, lu_at = 3\<rparr>"

definition demo_script :: "node_info option \<Rightarrow> peer_script" where
  "demo_script info = \<lparr>sc_abortedBefore = False, sc_hello = None, sc_pushedAt = 0, sc_push = PushAccepted,
     sc_polls = [\<lparr>po_now = 0, po_aborted = False, po_hello = info\<rparr>,
       \<lparr>po_now = 2000, po_aborted = False, po_hello = None\<rparr>, \<lparr>po_now = 4000, po_aborted = False, po_hello = None\<rparr>],
     sc_abortedAfter = False\<rparr>"

definition demo_status :: rollout_status where
  "demo_status = \<lparr>ro_target = ''1.0.0'', ro_startedAt = 0, ro_state = RoRunning,
     ro_peers = map (initial_peer False) [demo_entry ''a'', demo_entry ''b''], ro_self = SPending, ro_selfReason = None\<rparr>"

definition demo_es :: "(directory_entry \<times> peer_script) list" where
  "demo_es = [(demo_entry ''a'', demo_script (Some (demo_info ''0.6.0'' (Some demo_failure)))),
     (demo_entry ''b'', demo_script (Some (demo_info ''1.0.0'' None)))]"

definition demo_self :: self_script where
  "demo_self = \<lparr>se_aborted = False, se_upgrade = Inr ()\<rparr>"

lemmas rollout_eval = demo_es_def demo_status_def demo_self_def demo_entry_def demo_script_def demo_info_def
  demo_failure_def initial_peer_def rollout_peer_def record_before_def reached_def fresh_failure_def same_record_def
  Let_def semver_eval

theorem rollout_stops_at_failure_witness:
  "\<exists>fin. run_rollout UPGRADE_WAIT_MS demo_self 0 demo_es demo_status = Some fin \<and>
     ps_state (ro_peers fin ! 0) = PFailed \<and> ps_state (ro_peers fin ! 1) = PPending \<and> ro_self fin = SPending"
proof -
  obtain fin where f: "run_rollout UPGRADE_WAIT_MS demo_self 0 demo_es demo_status = Some fin"
    "ps_state (ro_peers fin ! 0) = PFailed"
    by (simp add: rollout_eval UPGRADE_WAIT_MS_def)
  have h: "is_semver (ro_target demo_status)" "length (ro_peers demo_status) = length demo_es" "length demo_es = 2"
    by (simp_all add: demo_status_def demo_es_def semver_eval)
  have "ro_peers fin ! 1 = ro_peers demo_status ! 1 \<and> ro_self fin = ro_self demo_status"
    using rollout_stops_at_failure [OF h(1) f(1) h(2)] f(2) h(3) by (metis insert_iff less_numeral_extra(1) one_less_numeral_iff semiring_norm(76))
  with f show ?thesis by (simp add: demo_status_def initial_peer_def demo_entry_def)
qed

theorem rollout_ends_witness:
  "\<exists>fin. run_rollout 2000 demo_self 0 demo_es demo_status = Some fin"
  by (rule rollout_ends [of 2000]) (auto simp: demo_es_def demo_script_def less_Suc_eq)

theorem peer_verdict_sound_witness:
  "\<exists>x \<in> set (sc_polls (demo_script (Some (demo_info ''1.0.0'' None)))). \<exists>ni n. po_hello x = Some ni \<and>
     compare_semver (ni_daemonVersion ni) ''1.0.0'' = Inr n \<and> 0 \<le> n"
proof -
  obtain v q where "rollout_peer UPGRADE_WAIT_MS ''1.0.0'' (demo_entry ''b'') (demo_script (Some (demo_info ''1.0.0'' None)))
      (initial_peer False (demo_entry ''b'')) = Some (v, q)" "ps_state q = PSucceeded"
    by (simp add: rollout_eval UPGRADE_WAIT_MS_def)
  moreover have "is_semver ''1.0.0''" by (simp add: semver_eval)
  ultimately show ?thesis using peer_verdict_sound by blast
qed

text \<open>A peer chosen by id whose \<open>hello\<close> fails before the push has no known record: the failure it recorded
  long before this rollout then counts as fresh and stops it.\<close>

theorem stale_record_stops:
  "\<exists>q. rollout_peer UPGRADE_WAIT_MS ''1.0.0'' ((demo_entry ''a'')\<lparr>de_nodeInfo := None\<rparr>)
      ((demo_script (Some (demo_info ''0.6.0'' (Some demo_failure))))\<lparr>sc_pushedAt := 1000000\<rparr>)
      (initial_peer True (demo_entry ''a'')) = Some (Halt, q) \<and> ps_state q = PFailed"
  by (simp add: rollout_eval UPGRADE_WAIT_MS_def)

text \<open>A restored rollout never claims to run, leaves the peers as saved, and settles this node's own step: it is
  upgraded exactly when the running version reaches the target, and failed only by a record for that target written
  since the rollout began.\<close>

theorem restored_rollout_settled:
  assumes "restore_rollout_status saved v result = Inr st"
  shows "ro_state st \<noteq> RoRunning \<and> ro_peers st = ro_peers saved \<and>
    (if ro_self saved \<noteq> SRestarting then ro_self st = ro_self saved
     else if is_semver v \<and> (\<exists>n. compare_semver v (ro_target saved) = Inr n \<and> 0 \<le> n) then ro_self st = SSucceeded
     else case result of
       Some l \<Rightarrow> ro_self st = (if rr_to l = ro_target saved \<and> rr_outcome l \<noteq> UpSucceeded \<and> ro_startedAt saved \<le> rr_at l
                            then failed_self (rr_outcome l) else SRestarting)
     | None \<Rightarrow> ro_self st = SRestarting)"
  using assms
  by (cases "ro_state saved")
     (auto simp: restore_rollout_status_def Let_def split: if_splits option.splits sum.splits)

theorem restored_rollout_settled_witness:
  "\<exists>st. restore_rollout_status (demo_status\<lparr>ro_self := SRestarting\<rparr>) ''1.0.0'' None = Inr st \<and> ro_self st = SSucceeded"
proof -
  obtain st where st: "restore_rollout_status (demo_status\<lparr>ro_self := SRestarting\<rparr>) ''1.0.0'' None = Inr st"
    by (simp add: restore_rollout_status_def demo_status_def Let_def semver_eval)
  have "is_semver ''1.0.0'' \<and> (\<exists>n. compare_semver ''1.0.0'' ''1.0.0'' = Inr n \<and> 0 \<le> n)"
    by (simp add: semver_eval)
  with restored_rollout_settled [OF st] st show ?thesis by (simp add: demo_status_def)
qed

section \<open>Properties of the hint\<close>

datatype hint_step = Poll int | Answered "string option" int | RecordLatest string int

definition hint_step :: "string \<Rightarrow> hint_step \<Rightarrow> available_upgrade \<Rightarrow> available_upgrade" where
  "hint_step current x a =
     (case x of
        Poll now \<Rightarrow> snd (refresh_if_stale now a)
      | Answered answer now \<Rightarrow> refresh_done current answer now a
      | RecordLatest latest now \<Rightarrow> (case record_latest current latest now a of Inl _ \<Rightarrow> a | Inr b \<Rightarrow> b))"

definition hint_ok :: "string \<Rightarrow> available_upgrade \<Rightarrow> bool" where
  "hint_ok current a = pred_option (\<lambda>v. \<exists>n. compare_semver v current = Inr n \<and> 0 < n) (av_value a)"

lemma store_latest_ok: "store_latest current v now a = Inr b \<Longrightarrow> hint_ok current b"
  by (auto simp: store_latest_def hint_ok_def split: sum.splits)

lemma hint_step_ok: "hint_ok current a \<Longrightarrow> hint_ok current (hint_step current x a)"
proof (cases x)
  case (Answered answer now)
  have "hint_ok current (b\<lparr>av_inFlight := False\<rparr>) = hint_ok current b" for b by (simp add: hint_ok_def)
  then show ?thesis using store_latest_ok
    by (auto simp: Answered hint_step_def refresh_done_def Let_def hint_ok_def split: option.splits sum.splits)
next
  case (RecordLatest v now)
  assume "hint_ok current a"
  then show ?thesis using store_latest_ok
    by (auto simp: RecordLatest hint_step_def record_latest_def split: sum.splits)
qed (auto simp: hint_step_def refresh_if_stale_def hint_ok_def)

text \<open>The hint is always an upgrade and never a storm: whatever polls, answers and recorded versions arrive, the
  cached version compares newer than the running one, no poll starts a lookup while one is in flight, and after an
  answer none starts for fifteen minutes.\<close>

theorem hint_newer_and_rate_bounded:
  "pred_option (\<lambda>v. \<exists>n. compare_semver v current = Inr n \<and> 0 < n) (av_value (fold (hint_step current) xs new_available)) \<and>
   \<not> (fst (refresh_if_stale now (fold (hint_step current) xs new_available)) \<and>
      fst (refresh_if_stale later (snd (refresh_if_stale now (fold (hint_step current) xs new_available))))) \<and>
   (if now + AVAILABLE_UPGRADE_FAILURE_TTL_MS \<le> later then True
    else \<not> fst (refresh_if_stale later (refresh_done current answer now (fold (hint_step current) xs new_available))))"
proof -
  have "hint_ok current (fold (hint_step current) xs a)" if "hint_ok current a" for a
    using that by (induction xs arbitrary: a) (simp_all add: hint_step_ok)
  from this [of new_available] have "hint_ok current (fold (hint_step current) xs new_available)"
    by (simp add: new_available_def hint_ok_def)
  moreover have "if now + AVAILABLE_UPGRADE_FAILURE_TTL_MS \<le> later then True
    else \<not> fst (refresh_if_stale later (refresh_done current answer now a))" for a
    by (auto simp: refresh_if_stale_def refresh_done_def store_latest_def Let_def AVAILABLE_UPGRADE_FAILURE_TTL_MS_def
        AVAILABLE_UPGRADE_TTL_MS_def split: option.splits sum.splits)
  moreover have "\<not> (fst (refresh_if_stale now a) \<and> fst (refresh_if_stale later (snd (refresh_if_stale now a))))" for a
    by (simp add: refresh_if_stale_def)
  ultimately show ?thesis unfolding hint_ok_def by blast
qed

end
