(* ===== verification/Wire.thy ===== *)
theory Wire imports Protocol "HOL-Library.Monad_Syntax" begin

text \<open>
  \<^verbatim>\<open>packages/protocol/src\<close>: the request bodies of the HFP routes as JSON values, and their zod schemas as
  decoders. A decoder answers \<open>None\<close> where \<open>safeParse\<close> fails; unknown keys are dropped, an optional key may be
  absent but not \<open>null\<close>, a default replaces an absent key. \<open>encode_params\<close> is the value \<open>JSON.stringify\<close> writes
  for parsed parameters: absent optionals leave no key.
\<close>

section \<open>Schema combinators\<close>

fun as_str :: "json \<Rightarrow> string option" where
  "as_str (JStr s) = Some s"
| "as_str _ = None"

fun as_int :: "json \<Rightarrow> int option" where
  "as_int (JNum n) = (if - 9007199254740991 \<le> n \<and> n \<le> 9007199254740991 then Some n else None)"
| "as_int _ = None"

fun as_obj :: "json \<Rightarrow> (string \<times> json) list option" where
  "as_obj (JObj kvs) = Some kvs"
| "as_obj _ = None"

definition checked :: "('a \<Rightarrow> bool) \<Rightarrow> 'a \<Rightarrow> 'a option" where
  "checked P x = (if P x then Some x else None)"

definition req_key :: "(json \<Rightarrow> 'a option) \<Rightarrow> string \<Rightarrow> (string \<times> json) list \<Rightarrow> 'a option" where
  "req_key d k o1 = Option.bind (jmap_get o1 k) d"

definition opt_key :: "(json \<Rightarrow> 'a option) \<Rightarrow> string \<Rightarrow> (string \<times> json) list \<Rightarrow> 'a option option" where
  "opt_key d k o1 = (case jmap_get o1 k of None \<Rightarrow> Some None | Some v \<Rightarrow> map_option Some (d v))"

text \<open>\<open>default(x)\<close>, and \<open>prefault({})\<close> with the parse of the empty object as \<open>x\<close>.\<close>

definition key_or :: "'a option \<Rightarrow> (json \<Rightarrow> 'a option) \<Rightarrow> string \<Rightarrow> (string \<times> json) list \<Rightarrow> 'a option" where
  "key_or x d k o1 = (case jmap_get o1 k of None \<Rightarrow> x | Some v \<Rightarrow> d v)"

fun all_some :: "'a option list \<Rightarrow> 'a list option" where
  "all_some [] = Some []"
| "all_some (None # xs) = None"
| "all_some (Some x # xs) = map_option ((#) x) (all_some xs)"

fun as_list :: "(json \<Rightarrow> 'a option) \<Rightarrow> json \<Rightarrow> 'a list option" where
  "as_list d (JArr xs) = all_some (map d xs)"
| "as_list d _ = None"

section \<open>Job parameters\<close>

definition decode_workspace_ref :: "json \<Rightarrow> workspace_ref option" where
  "decode_workspace_ref j = do {
     kvs \<leftarrow> as_obj j;
     r \<leftarrow> req_key as_str ''repoId'' kvs;
     h \<leftarrow> req_key as_str ''headCommit'' kvs;
     checked workspace_ref_ok \<lparr>ws_repoId = r, ws_headCommit = h\<rparr>
   }"

definition decode_budgets :: "(int option \<Rightarrow> int option \<Rightarrow> budgets option) \<Rightarrow> json \<Rightarrow> budgets option" where
  "decode_budgets parse j = do {
     kvs \<leftarrow> as_obj j;
     calls \<leftarrow> opt_key as_int ''maxToolCalls'' kvs;
     wall \<leftarrow> opt_key as_int ''maxWallMs'' kvs;
     parse calls wall
   }"

definition decode_recon :: "(string \<times> json) list \<Rightarrow> recon_params option" where
  "decode_recon kvs = do {
     w \<leftarrow> req_key decode_workspace_ref ''workspace'' kvs;
     p \<leftarrow> req_key as_str ''prompt'' kvs;
     m \<leftarrow> opt_key as_str ''model'' kvs;
     b \<leftarrow> key_or (parse_job_budgets None None) (decode_budgets parse_job_budgets) ''budgets'' kvs;
     checked recon_params_ok \<lparr>rp_workspace = w, rp_prompt = p, rp_model = m, rp_budgets = b\<rparr>
   }"

definition decode_command :: "(string \<times> json) list \<Rightarrow> command_params option" where
  "decode_command kvs = do {
     w \<leftarrow> req_key decode_workspace_ref ''workspace'' kvs;
     c \<leftarrow> req_key as_str ''command'' kvs;
     a \<leftarrow> key_or (Some []) (as_list as_str) ''args'' kvs;
     t \<leftarrow> key_or (Some 600000) as_int ''timeoutMs'' kvs;
     checked command_params_ok \<lparr>cp_workspace = w, cp_command = c, cp_args = a, cp_timeoutMs = t\<rparr>
   }"

definition decode_verify :: "json \<Rightarrow> verify_command option" where
  "decode_verify j = do {
     kvs \<leftarrow> as_obj j;
     n \<leftarrow> req_key as_str ''name'' kvs;
     a \<leftarrow> key_or (Some []) (as_list as_str) ''args'' kvs;
     checked (\<lambda>v. 1 \<le> length (vc_name v)) \<lparr>vc_name = n, vc_args = a\<rparr>
   }"

definition decode_write :: "(string \<times> json) list \<Rightarrow> write_params option" where
  "decode_write kvs = do {
     w \<leftarrow> req_key decode_workspace_ref ''workspace'' kvs;
     m \<leftarrow> opt_key as_str ''model'' kvs;
     i \<leftarrow> req_key as_str ''instructions'' kvs;
     h \<leftarrow> opt_key (as_list as_str) ''pathHints'' kvs;
     v \<leftarrow> opt_key decode_verify ''verifyCommand'' kvs;
     b \<leftarrow> key_or (parse_write_budgets None None) (decode_budgets parse_write_budgets) ''budgets'' kvs;
     checked write_params_ok \<lparr>wp_workspace = w, wp_model = m, wp_instructions = i, wp_pathHints = h,
       wp_verifyCommand = v, wp_budgets = b\<rparr>
   }"

definition decode_params :: "json \<Rightarrow> job_params option" where
  "decode_params j = do {
     kvs \<leftarrow> as_obj j;
     t \<leftarrow> req_key as_str ''type'' kvs;
     if t = ''recon'' then map_option ReconParams (decode_recon kvs)
     else if t = ''command'' then map_option CommandParams (decode_command kvs)
     else if t = ''write'' then map_option WriteParams (decode_write kvs)
     else None
   }"

definition decode_delegate :: "json \<Rightarrow> job_params option" where
  "decode_delegate j = do { kvs \<leftarrow> as_obj j; req_key decode_params ''params'' kvs }"

definition decode_have :: "json \<Rightarrow> string option" where
  "decode_have j = do { kvs \<leftarrow> as_obj j; r \<leftarrow> req_key as_str ''repoId'' kvs; checked repo_id_ok r }"

section \<open>The encoder\<close>

definition opt_pair :: "string \<Rightarrow> ('a \<Rightarrow> json) \<Rightarrow> 'a option \<Rightarrow> (string \<times> json) list" where
  "opt_pair k e x = (case x of None \<Rightarrow> [] | Some v \<Rightarrow> [(k, e v)])"

definition encode_workspace_ref :: "workspace_ref \<Rightarrow> json" where
  "encode_workspace_ref w = JObj [(''repoId'', JStr (ws_repoId w)), (''headCommit'', JStr (ws_headCommit w))]"

definition encode_budgets :: "budgets \<Rightarrow> json" where
  "encode_budgets b = JObj [(''maxToolCalls'', JNum (maxToolCalls b)), (''maxWallMs'', JNum (maxWallMs b))]"

definition encode_strings :: "string list \<Rightarrow> json" where
  "encode_strings xs = JArr (map JStr xs)"

definition encode_verify :: "verify_command \<Rightarrow> json" where
  "encode_verify v = JObj [(''name'', JStr (vc_name v)), (''args'', encode_strings (vc_args v))]"

fun encode_params :: "job_params \<Rightarrow> json" where
  "encode_params (ReconParams p) = JObj ([(''type'', JStr ''recon''),
     (''workspace'', encode_workspace_ref (rp_workspace p)), (''prompt'', JStr (rp_prompt p))] @
     opt_pair ''model'' JStr (rp_model p) @ [(''budgets'', encode_budgets (rp_budgets p))])"
| "encode_params (CommandParams p) = JObj [(''type'', JStr ''command''),
     (''workspace'', encode_workspace_ref (cp_workspace p)), (''command'', JStr (cp_command p)),
     (''args'', encode_strings (cp_args p)), (''timeoutMs'', JNum (cp_timeoutMs p))]"
| "encode_params (WriteParams p) = JObj ([(''type'', JStr ''write''),
     (''workspace'', encode_workspace_ref (wp_workspace p))] @ opt_pair ''model'' JStr (wp_model p) @
     [(''instructions'', JStr (wp_instructions p))] @ opt_pair ''pathHints'' encode_strings (wp_pathHints p) @
     opt_pair ''verifyCommand'' encode_verify (wp_verifyCommand p) @ [(''budgets'', encode_budgets (wp_budgets p))])"

definition encode_delegate :: "job_params \<Rightarrow> json" where
  "encode_delegate p = JObj [(''params'', encode_params p)]"

section \<open>Facts\<close>

lemma req_key_Some: "req_key d k kvs = Some x \<longleftrightarrow> (\<exists>v. jmap_get kvs k = Some v \<and> d v = Some x)"
  by (cases "jmap_get kvs k") (simp_all add: req_key_def)

lemma checked_Some [simp]: "checked P x = Some y \<longleftrightarrow> P x \<and> y = x"
  by (auto simp: checked_def)

lemma all_some_map [simp]: "all_some (map (\<lambda>x. Some (f x)) xs) = Some (map f xs)"
  by (induction xs) simp_all

lemma as_list_strings [simp]: "as_list as_str (encode_strings xs) = Some xs"
  using all_some_map [of id xs] by (simp add: encode_strings_def comp_def)

lemma decode_workspace_ref_encode: "workspace_ref_ok w \<Longrightarrow> decode_workspace_ref (encode_workspace_ref w) = Some w"
  by (cases w) (simp add: decode_workspace_ref_def encode_workspace_ref_def req_key_def)

lemma decode_budgets_encode:
  "budgets_ok b \<Longrightarrow> decode_budgets (parse_budgets n) (encode_budgets b) = Some b"
  by (simp add: decode_budgets_def encode_budgets_def opt_key_def parse_budgets_def budgets_ok_def)

lemma decode_verify_encode: "1 \<le> length (vc_name v) \<Longrightarrow> decode_verify (encode_verify v) = Some v"
  by (simp add: decode_verify_def encode_verify_def req_key_def key_or_def)

lemmas wire_defs = req_key_def opt_key_def key_or_def opt_pair_def decode_params_def

lemma decode_recon_encode: "recon_params_ok p \<Longrightarrow> decode_params (encode_params (ReconParams p)) = Some (ReconParams p)"
  by (cases "rp_model p")
     (simp_all add: wire_defs decode_recon_def decode_workspace_ref_encode parse_job_budgets_def
       decode_budgets_encode recon_params_ok_def)

lemma decode_command_encode: "command_params_ok p \<Longrightarrow> decode_params (encode_params (CommandParams p)) = Some (CommandParams p)"
  by (simp add: wire_defs decode_command_def decode_workspace_ref_encode command_params_ok_def)

lemma decode_write_encode:
  assumes "write_params_ok p"
  shows "decode_params (encode_params (WriteParams p)) = Some (WriteParams p)"
proof -
  have v: "wp_verifyCommand p = Some v \<Longrightarrow> decode_verify (encode_verify v) = Some v" for v
    using assms by (simp add: write_params_ok_def decode_verify_encode)
  have w: "decode_workspace_ref (encode_workspace_ref (wp_workspace p)) = Some (wp_workspace p)"
    "decode_budgets parse_write_budgets (encode_budgets (wp_budgets p)) = Some (wp_budgets p)"
    using assms by (simp_all add: write_params_ok_def decode_workspace_ref_encode parse_write_budgets_def decode_budgets_encode)
  show ?thesis
    using assms v w
    by (cases p; cases "wp_model p"; cases "wp_pathHints p"; cases "wp_verifyCommand p")
       (simp_all add: wire_defs decode_write_def)
qed

lemma decode_params_encode: "job_params_ok p \<Longrightarrow> decode_params (encode_params p) = Some p"
  by (cases p) (simp_all del: encode_params.simps add: decode_recon_encode decode_command_encode decode_write_encode)

lemma decode_params_ok: "decode_params j = Some p \<Longrightarrow> job_params_ok p"
  by (auto simp: decode_params_def decode_recon_def decode_command_def decode_write_def bind_eq_Some_conv split: if_splits)

lemma decode_have_ok: "decode_have j = Some r \<Longrightarrow> repo_id_ok r"
  by (auto simp: decode_have_def bind_eq_Some_conv)

section \<open>Properties\<close>

text \<open>C20 The job request survives the wire: the JSON value a delegating node sends for valid parameters is
  decoded by the worker's schema to exactly those parameters, and whatever body the schema accepts decodes to
  valid ones, with the defaults filled in, so the job manager only ever sees valid parameters.\<close>

theorem delegate_roundtrip:
  "job_params_ok p = (decode_delegate (encode_delegate p) = Some p) \<and>
   pred_option job_params_ok (decode_delegate j)"
proof -
  have "decode_delegate (encode_delegate p) = decode_params (encode_params p)"
    by (simp add: decode_delegate_def encode_delegate_def req_key_def)
  moreover have "pred_option job_params_ok (decode_delegate j)"
  proof -
    have "job_params_ok q" if "decode_delegate j = Some q" for q
      using that by (auto simp: decode_delegate_def bind_eq_Some_conv req_key_Some dest: decode_params_ok)
    then show ?thesis by (cases "decode_delegate j") simp_all
  qed
  ultimately show ?thesis using decode_params_encode decode_params_ok by auto
qed

lemma delegate_defaults:
  "decode_delegate (JObj [(''params'', JObj [(''type'', JStr ''recon''), (''prompt'', JStr ''find it''),
     (''workspace'', JObj [(''repoId'', JStr ''r''), (''headCommit'', JStr (replicate 40 (CHR ''a'')))])])]) =
   Some (ReconParams \<lparr>rp_workspace = \<lparr>ws_repoId = ''r'', ws_headCommit = replicate 40 (CHR ''a'')\<rparr>,
     rp_prompt = ''find it'', rp_model = None, rp_budgets = \<lparr>maxToolCalls = 50, maxWallMs = 600000\<rparr>\<rparr>)"
  by code_simp

end
