(* ===== verification/Sse.thy ===== *)
theory Sse imports Protocol begin

text \<open>
  The event stream on the wire: the server's records (\<^verbatim>\<open>packages/daemon/src/jobs/routes.ts\<close>) and the client's
  incremental parser (\<open>parseSseEvents\<close> of \<^verbatim>\<open>packages/daemon/src/transport/client.ts\<close>). Strings are their UTF-8
  bytes, so the \<open>StringDecoder\<close>, which only holds back the bytes of an incomplete character, is the identity.
  \<open>JSON.stringify\<close> of an event and \<open>JobEventSchema.parse(JSON.parse(..))\<close> are parameters.
\<close>

abbreviation LF :: char where "LF \<equiv> CHR 0x0A"
abbreviation CR :: char where "CR \<equiv> CHR 0x0D"

section \<open>The server's records\<close>

definition sse_record :: "(job_event \<Rightarrow> string) \<Rightarrow> job_event \<Rightarrow> string" where
  "sse_record enc e = ''id: '' @ show_nat (ev_seq e) @ [LF] @ ''data: '' @ enc e @ [LF, LF]"

definition keepalive_record :: string where
  "keepalive_record = '': keepalive'' @ [LF, LF]"

datatype sse_item = Record job_event | Keepalive

fun item_text :: "(job_event \<Rightarrow> string) \<Rightarrow> sse_item \<Rightarrow> string" where
  "item_text enc (Record e) = sse_record enc e"
| "item_text enc Keepalive = keepalive_record"

text \<open>\<open>parseLastEventId\<close>: \<open>Number.parseInt\<close> skips white space, takes an optional sign and the digits that follow, and
  is \<open>NaN\<close> without any. A digit string that rounds beyond
  the doubles is \<open>Infinity\<close>, no integer; below that the exact integer stands for its double.\<close>

definition is_js_space :: "char \<Rightarrow> bool" where
  "is_js_space c = ((9 \<le> (of_char c :: nat) \<and> (of_char c :: nat) \<le> 13) \<or> c = CHR '' '' \<or> (of_char c :: nat) = 160)"

definition DOUBLE_OVERFLOW :: nat where "DOUBLE_OVERFLOW = 2 ^ 1024 - 2 ^ 970"

definition parse_int_text :: "string \<Rightarrow> int option" where
  "parse_int_text s =
     (let t = dropWhile is_js_space s;
          neg = (case t of c # _ \<Rightarrow> c = CHR ''-'' | [] \<Rightarrow> False);
          u = (case t of c # r \<Rightarrow> if c = CHR ''-'' \<or> c = CHR ''+'' then r else t | [] \<Rightarrow> t);
          ds = takeWhile is_digit u
      in if ds = [] then None
         else if DOUBLE_OVERFLOW \<le> nat_of_text ds then None
         else Some (if neg then - int (nat_of_text ds) else int (nat_of_text ds)))"

definition parse_last_event_id :: "string option \<Rightarrow> int" where
  "parse_last_event_id header =
     (case header of None \<Rightarrow> 0
      | Some s \<Rightarrow> (case parse_int_text s of None \<Rightarrow> 0 | Some n \<Rightarrow> if n < 0 then 0 else n + 1))"

text \<open>The header \<open>streamJobEvents\<close> sends for \<open>fromSeq\<close>.\<close>

definition last_event_id_header :: "int option \<Rightarrow> string option" where
  "last_event_id_header fromSeq =
     (case fromSeq of None \<Rightarrow> None | Some n \<Rightarrow> if 0 < n then Some (show_int (n - 1)) else None)"

section \<open>The client's parser\<close>

definition MAX_SSE_EVENT_BYTES :: nat where "MAX_SSE_EVENT_BYTES = 2 * (1024 * 1024)"
definition MAX_SSE_TOTAL_BYTES :: nat where "MAX_SSE_TOTAL_BYTES = 16 * 1024 * 1024"

datatype flush_result = NoEvent | Event job_event | Malformed

definition flush_sse_event :: "(string \<Rightarrow> job_event option) \<Rightarrow> string list \<Rightarrow> flush_result" where
  "flush_sse_event dec dataLines =
     (if dataLines = [] then NoEvent
      else case dec (join_with LF dataLines) of None \<Rightarrow> Malformed | Some e \<Rightarrow> Event e)"

datatype sse_status = SseOpen | SseDone | SseTooLarge | SseBad

definition next_line :: "string \<Rightarrow> (string \<times> string) option" where
  "next_line b = (if LF \<in> set b then Some (takeWhile (\<lambda>c. c \<noteq> LF) b, tl (dropWhile (\<lambda>c. c \<noteq> LF) b)) else None)"

definition strip_cr :: "string \<Rightarrow> string" where
  "strip_cr l = (if l \<noteq> [] \<and> last l = CR then butlast l else l)"

fun strip_space :: "string \<Rightarrow> string" where
  "strip_space (c # s) = (if c = CHR '' '' then s else c # s)"
| "strip_space [] = []"

lemma next_line_shorter: "next_line b = Some (l, r) \<Longrightarrow> length l + length r < length b"
proof -
  assume a: "next_line b = Some (l, r)"
  then have "b = l @ dropWhile (\<lambda>c. c \<noteq> LF) b" "dropWhile (\<lambda>c. c \<noteq> LF) b \<noteq> []"
    "r = tl (dropWhile (\<lambda>c. c \<noteq> LF) b)"
    by (auto simp: next_line_def split: if_splits)
  then have "length b = length l + length (dropWhile (\<lambda>c. c \<noteq> LF) b)"
    "length r < length (dropWhile (\<lambda>c. c \<noteq> LF) b)" by (metis length_append, simp)
  then show ?thesis by simp
qed

text \<open>The inner loop over the complete lines of the buffer: how it leaves, the events it yields, and the buffer,
  data lines and data bytes that remain.\<close>

function sse_drain :: "(string \<Rightarrow> job_event option) \<Rightarrow> string \<Rightarrow> string list \<Rightarrow> nat \<Rightarrow>
    sse_status \<times> job_event list \<times> string \<times> string list \<times> nat" where
  "sse_drain dec buffer dataLines dataBytes =
     (case next_line buffer of
        None \<Rightarrow> (SseOpen, [], buffer, dataLines, dataBytes)
      | Some (raw, rest) \<Rightarrow>
          (let line = strip_cr raw
           in if line = [] then
                (case flush_sse_event dec dataLines of
                   Malformed \<Rightarrow> (SseBad, [], rest, dataLines, dataBytes)
                 | NoEvent \<Rightarrow> sse_drain dec rest [] 0
                 | Event e \<Rightarrow>
                     if is_result_ev (ev_body e) then (SseDone, [e], rest, [], 0)
                     else (case sse_drain dec rest [] 0 of (x, es, t) \<Rightarrow> (x, e # es, t)))
              else if take 5 line = ''data:'' then
                (let content = strip_space (drop 5 line)
                 in sse_drain dec rest (dataLines @ [content]) (dataBytes + length content))
              else sse_drain dec rest dataLines dataBytes))"
  by pat_completeness auto
termination
  by (relation "measure (\<lambda>(dec, b, l, n). length b)") (auto dest: next_line_shorter)

declare sse_drain.simps [simp del]

fun sse_feed :: "(string \<Rightarrow> job_event option) \<Rightarrow> string list \<Rightarrow> nat \<Rightarrow> string \<Rightarrow> string list \<Rightarrow> nat \<Rightarrow> sse_status \<times> job_event list" where
  "sse_feed dec [] got buffer dataLines dataBytes = (SseOpen, [])"
| "sse_feed dec (c # cs) got buffer dataLines dataBytes =
     (let got' = got + length c
      in if MAX_SSE_TOTAL_BYTES < got' then (SseTooLarge, [])
         else case sse_drain dec (buffer @ c) dataLines dataBytes of
           (x, es, b, ls, n) \<Rightarrow>
             if x \<noteq> SseOpen then (x, es)
             else if MAX_SSE_EVENT_BYTES < n + length b then (SseTooLarge, es)
             else (case sse_feed dec cs got' b ls n of (y, fs) \<Rightarrow> (y, es @ fs)))"

definition parse_sse_events :: "(string \<Rightarrow> job_event option) \<Rightarrow> string list \<Rightarrow> sse_status \<times> job_event list" where
  "parse_sse_events dec chunks = sse_feed dec chunks 0 [] [] 0"

section \<open>Lines\<close>

lemma next_line_none [simp]: "LF \<notin> set b \<Longrightarrow> next_line b = None"
  by (simp add: next_line_def)

lemma next_line_cons [simp]: "LF \<notin> set l \<Longrightarrow> next_line (l @ LF # r) = Some (l, r)"
  by (auto simp: next_line_def takeWhile_append dropWhile_append)

lemma next_line_append: "next_line b = Some (l, r) \<Longrightarrow> next_line (b @ y) = Some (l, r @ y)"
  by (auto simp: next_line_def takeWhile_append dropWhile_append split: if_splits)

lemma next_line_NoneD: "next_line b = None \<Longrightarrow> LF \<notin> set b"
  by (simp add: next_line_def split: if_splits)

lemma length_strip_space: "length (strip_space s) \<le> length s"
  by (cases s) simp_all

lemma length_strip_cr: "length (strip_cr s) \<le> length s"
  by (simp add: strip_cr_def)

text \<open>What arrives later does not change what was read before.\<close>

lemma sse_drain_append:
  "sse_drain dec (b @ y) ls n =
     (case sse_drain dec b ls n of (x, es, b', ls', n') \<Rightarrow>
        if x = SseOpen then (case sse_drain dec (b' @ y) ls' n' of (x', fs, t) \<Rightarrow> (x', es @ fs, t))
        else (x, es, b' @ y, ls', n'))"
proof (induction dec b ls n rule: sse_drain.induct)
  case (1 dec b ls n)
  show ?case
  proof (cases "next_line b")
    case None
    then show ?thesis by (simp add: sse_drain.simps [of dec b])
  next
    case (Some p)
    obtain l r where p: "next_line b = Some (l, r)" using Some by (cases p) simp
    show ?thesis
    proof (cases "strip_cr l = []")
      case True
      show ?thesis
        using 1(1,2) [OF p refl refl True]
        by (auto simp: sse_drain.simps [of dec b] sse_drain.simps [of dec "b @ y"] p next_line_append [OF p] True
            split: flush_result.split prod.split)
    next
      case False
      show ?thesis
        using 1(3,4) [OF p refl refl False]
        by (auto simp: sse_drain.simps [of dec b] sse_drain.simps [of dec "b @ y"] p next_line_append [OF p] False
            Let_def split: prod.split)
    qed
  qed
qed

lemma sse_drain_bytes:
  "sse_drain dec b ls n = (SseOpen, es, b', ls', n') \<Longrightarrow> n' + length b' \<le> n + length b"
proof (induction dec b ls n arbitrary: es rule: sse_drain.induct)
  case (1 dec b ls n)
  show ?case
  proof (cases "next_line b")
    case None
    then show ?thesis using "1.prems" by (simp add: sse_drain.simps [of dec b])
  next
    case (Some p)
    obtain l r where p: "next_line b = Some (l, r)" using Some by (cases p) simp
    note IH = "1.IH" [OF p refl refl]
    have s: "length l + length r < length b" by (rule next_line_shorter [OF p])
    have c: "length (strip_space (drop 5 (strip_cr l))) \<le> length l"
      using length_strip_space [of "drop 5 (strip_cr l)"] length_strip_cr [of l] by simp
    show ?thesis
      using "1.prems" IH s c
      unfolding sse_drain.simps [of dec b] p
      by (fastforce simp: Let_def split: flush_result.splits prod.splits if_splits)
  qed
qed

section \<open>The stream\<close>

text \<open>What the parser relies on in the two JSON functions: an event is written on one line that does not start with a
  space or end with a carriage return, and reads back as itself.\<close>

definition codec_for :: "(job_event \<Rightarrow> string) \<Rightarrow> (string \<Rightarrow> job_event option) \<Rightarrow> job_event \<Rightarrow> bool" where
  "codec_for enc dec e = (LF \<notin> set (enc e) \<and> enc e \<noteq> [] \<and> hd (enc e) \<noteq> CHR '' '' \<and> last (enc e) \<noteq> CR \<and>
     dec (enc e) = Some e)"

fun item_event :: "sse_item \<Rightarrow> job_event option" where
  "item_event (Record e) = Some e"
| "item_event Keepalive = None"

definition item_events :: "sse_item list \<Rightarrow> job_event list" where
  "item_events items = List.map_filter item_event items"

fun up_to_result :: "job_event list \<Rightarrow> job_event list" where
  "up_to_result [] = []"
| "up_to_result (e # es) = (if is_result_ev (ev_body e) then [e] else e # up_to_result es)"

definition stream_status :: "job_event list \<Rightarrow> sse_status" where
  "stream_status es = (if list_ex (\<lambda>e. is_result_ev (ev_body e)) es then SseDone else SseOpen)"

lemma item_events_simps [simp]:
  "item_events [] = []" "item_events (Record e # xs) = e # item_events xs" "item_events (Keepalive # xs) = item_events xs"
  by (simp_all add: item_events_def map_filter_def)

lemma item_events_append [simp]: "item_events (xs @ ys) = item_events xs @ item_events ys"
proof (induction xs)
  case (Cons x xs)
  then show ?case by (cases x) simp_all
qed simp

lemma strip_cr_keep: "l \<noteq> [] \<Longrightarrow> last l \<noteq> CR \<Longrightarrow> strip_cr l = l"
  by (simp add: strip_cr_def)

lemma digit_not: "is_digit c \<Longrightarrow> c \<noteq> LF \<and> c \<noteq> CR"
  by (auto simp: is_digit_def)

lemma show_nat_plain: "LF \<notin> set (show_nat n)" "last (show_nat n) \<noteq> CR"
proof -
  have d: "is_digit c" if "c \<in> set (show_nat n)" for c
    using show_nat_digits [of n] that by (simp add: list_all_iff)
  show "LF \<notin> set (show_nat n)" using d digit_not by blast
  show "last (show_nat n) \<noteq> CR" using d [of "last (show_nat n)"] digit_not by auto
qed

lemma strip_space_keep: "s \<noteq> [] \<Longrightarrow> hd s \<noteq> CHR '' '' \<Longrightarrow> strip_space s = s"
  by (cases s) simp_all

text \<open>One line, one step.\<close>

lemma drain_line:
  assumes "LF \<notin> set l"
  shows "sse_drain dec (l @ LF # r) ls n =
     (if strip_cr l = [] then
        (case flush_sse_event dec ls of
           Malformed \<Rightarrow> (SseBad, [], r, ls, n)
         | NoEvent \<Rightarrow> sse_drain dec r [] 0
         | Event e \<Rightarrow> if is_result_ev (ev_body e) then (SseDone, [e], r, [], 0)
                     else (case sse_drain dec r [] 0 of (x, es, t) \<Rightarrow> (x, e # es, t)))
      else if take 5 (strip_cr l) = ''data:'' then
        sse_drain dec r (ls @ [strip_space (drop 5 (strip_cr l))]) (n + length (strip_space (drop 5 (strip_cr l))))
      else sse_drain dec r ls n)"
  using assms by (simp add: sse_drain.simps [of dec "l @ LF # r"] Let_def)

lemma drain_keepalive: "sse_drain dec (keepalive_record @ r) [] 0 = sse_drain dec r [] 0"
proof -
  have k: "keepalive_record @ r = '': keepalive'' @ LF # ([] @ LF # r)" by (simp add: keepalive_record_def)
  show ?thesis unfolding k by (subst drain_line, simp, subst drain_line) (simp_all add: strip_cr_def flush_sse_event_def)
qed

lemma drain_record:
  assumes "codec_for enc dec e"
  shows "sse_drain dec (sse_record enc e @ r) [] 0 =
    (if is_result_ev (ev_body e) then (SseDone, [e], r, [], 0)
     else (case sse_drain dec r [] 0 of (x, es, t) \<Rightarrow> (x, e # es, t)))"
proof -
  let ?id = "''id: '' @ show_nat (ev_seq e)" and ?data = "''data: '' @ enc e"
  have k: "sse_record enc e @ r = ?id @ LF # (?data @ LF # ([] @ LF # r))" by (simp add: sse_record_def)
  have i: "LF \<notin> set ?id" "strip_cr ?id = ?id"
    using show_nat_plain [of "ev_seq e"] by (simp, simp add: strip_cr_def)
  have d: "LF \<notin> set ?data" "strip_cr ?data = ?data" "strip_space (drop 5 ?data) = enc e" "dec (enc e) = Some e"
    using assms by (simp_all add: codec_for_def strip_cr_def)
  show ?thesis
    unfolding k drain_line [OF i(1)] i(2)
    by (simp add: drain_line [OF d(1), simplified] d(2) [simplified] d(3) [simplified]
        drain_line [of "[]", simplified] strip_cr_def [of "[]"] flush_sse_event_def d(4))
qed

lemma up_to_result_simps: "\<not> list_ex (\<lambda>e. is_result_ev (ev_body e)) es \<Longrightarrow> up_to_result es = es"
  by (induction es) auto

lemma drain_items:
  assumes "\<And>e. Record e \<in> set items \<Longrightarrow> codec_for enc dec e"
  shows "\<exists>b. sse_drain dec (concat (map (item_text enc) items) @ r) [] 0 =
    (if list_ex (\<lambda>e. is_result_ev (ev_body e)) (item_events items) then (SseDone, up_to_result (item_events items), b, [], 0)
     else (case sse_drain dec r [] 0 of (x, es, t) \<Rightarrow> (x, item_events items @ es, t)))"
  using assms
proof (induction items)
  case Nil
  show ?case by (simp split: prod.split)
next
  case (Cons i items)
  then obtain b where b: "sse_drain dec (concat (map (item_text enc) items) @ r) [] 0 =
    (if list_ex (\<lambda>e. is_result_ev (ev_body e)) (item_events items) then (SseDone, up_to_result (item_events items), b, [], 0)
     else (case sse_drain dec r [] 0 of (x, es, t) \<Rightarrow> (x, item_events items @ es, t)))"
    by auto
  show ?case
  proof (cases i)
    case (Record e)
    then have "codec_for enc dec e" using Cons.prems by simp
    from drain_record [OF this] show ?thesis
      using b Record by (simp split: prod.split)
  next
    case Keepalive
    with b show ?thesis by (simp add: drain_keepalive)
  qed
qed

lemma prefix_of_items:
  assumes "p @ q = concat (map f items)" "\<And>i. i \<in> set items \<Longrightarrow> length (f i) \<le> k"
  shows "\<exists>done' p'. set done' \<subseteq> set items \<and> p = concat (map f done') @ p' \<and> length p' \<le> k"
  using assms
proof (induction items arbitrary: p)
  case Nil
  then show ?case by (intro exI [of _ "[]"]) simp
next
  case (Cons i items)
  then have "p @ q = f i @ concat (map f items)" by simp
  then consider u where "p @ u = f i" | u where "p = f i @ u" "u @ q = concat (map f items)"
    unfolding append_eq_append_conv2 by blast
  then show ?case
  proof cases
    case 1
    then have "length p \<le> length (f i)" by (metis length_append le_add1)
    with Cons.prems(2) [of i] show ?thesis by (intro exI [of _ "[]"] exI [of _ p]) simp
  next
    case 2
    then obtain d p' where "set d \<subseteq> set items" "u = concat (map f d) @ p'" "length p' \<le> k"
      using Cons.IH [of u] Cons.prems(2) by auto
    with 2 show ?thesis by (intro exI [of _ "i # d"] exI [of _ p']) auto
  qed
qed

text \<open>Reading in chunks is reading at once, while no cap is hit.\<close>

lemma feed_is_drain:
  assumes "length (p @ concat cs) \<le> MAX_SSE_TOTAL_BYTES"
    "\<And>q r es b ls n. q @ r = p @ concat cs \<Longrightarrow> sse_drain dec q [] 0 = (SseOpen, es, b, ls, n) \<Longrightarrow>
       n + length b \<le> MAX_SSE_EVENT_BYTES"
    "sse_drain dec p [] 0 = (SseOpen, es, b, ls, n)"
  shows "\<exists>t x fs. sse_drain dec (p @ concat cs) [] 0 = (x, es @ fs, t) \<and> sse_feed dec cs (length p) b ls n = (x, fs)"
  using assms
proof (induction cs arbitrary: p es b ls n)
  case Nil
  then show ?case by simp
next
  case (Cons c cs)
  obtain x es' b' ls' n' where d: "sse_drain dec (b @ c) ls n = (x, es', b', ls', n')" by (metis prod_cases5)
  have pc: "sse_drain dec (p @ c) [] 0 = (x, es @ es', b', ls', n')"
    using sse_drain_append [of dec p c "[]" 0] Cons.prems(3) d by simp
  have len: "length p + length c \<le> MAX_SSE_TOTAL_BYTES" using Cons.prems(1) by simp
  show ?case
  proof (cases "x = SseOpen")
    case True
    have "n' + length b' \<le> MAX_SSE_EVENT_BYTES"
      using Cons.prems(2) [of "p @ c" "concat cs"] pc True by simp
    moreover obtain t y fs where "sse_drain dec ((p @ c) @ concat cs) [] 0 = (y, (es @ es') @ fs, t)"
      "sse_feed dec cs (length (p @ c)) b' ls' n' = (y, fs)"
      using Cons.IH [of "p @ c"] Cons.prems(1,2) pc True by (metis append.assoc concat.simps(2))
    ultimately show ?thesis using d True len by (cases t) simp
  next
    case False
    then have "sse_drain dec ((p @ c) @ concat cs) [] 0 = (x, es @ es', b' @ concat cs, ls', n')"
      using sse_drain_append [of dec "p @ c" "concat cs" "[]" 0] pc by simp
    then show ?thesis using d False len by simp
  qed
qed

lemma parse_items:
  assumes "concat chunks = concat (map (item_text enc) items)" "\<And>e. Record e \<in> set items \<Longrightarrow> codec_for enc dec e"
    "\<And>i. i \<in> set items \<Longrightarrow> length (item_text enc i) \<le> MAX_SSE_EVENT_BYTES"
    "length (concat chunks) \<le> MAX_SSE_TOTAL_BYTES"
  shows "parse_sse_events dec chunks = (stream_status (item_events items), up_to_result (item_events items))"
proof -
  have caps: "n + length b \<le> MAX_SSE_EVENT_BYTES"
    if "q @ r = concat chunks" "sse_drain dec q [] 0 = (SseOpen, es, b, ls, n)" for q r es b ls n
  proof -
    have "q @ r = concat (map (item_text enc) items)" using that(1) assms(1) by simp
    from prefix_of_items [OF this assms(3)] obtain d p' where d: "set d \<subseteq> set items" "q = concat (map (item_text enc) d) @ p'" "length p' \<le> MAX_SSE_EVENT_BYTES" by blast
    have cd: "codec_for enc dec e" if "Record e \<in> set d" for e using that d(1) assms(2) by blast
    from drain_items [of d, OF cd, where r = p'] that(2) d(2)
    obtain fs where "sse_drain dec p' [] 0 = (SseOpen, fs, b, ls, n)" by (auto split: if_splits prod.splits)
    from sse_drain_bytes [OF this] d(3) show ?thesis by simp
  qed
  have start: "sse_drain dec [] [] 0 = (SseOpen, [], [], [], 0)" by (simp add: sse_drain.simps [of dec "[]"])
  obtain t x fs where f: "sse_drain dec (concat chunks) [] 0 = (x, fs, t)" "parse_sse_events dec chunks = (x, fs)"
    using feed_is_drain [of "[]" chunks dec "[]" "[]" "[]" 0] caps start assms(4)
    by (auto simp: parse_sse_events_def)
  with drain_items [of items, OF assms(2), where r = "[]"] assms(1) start show ?thesis
    by (auto simp: stream_status_def up_to_result_simps split: if_splits)
qed

section \<open>Properties\<close>

text \<open>C19 However the network cuts the stream into chunks and however many keepalives the server puts between the
  records, the client yields exactly the events written, in order, up to and including the first result, and ends there;
  without a result it keeps reading. The JSON text of each event stays on its line, and no record exceeds the
  client's caps.\<close>

theorem sse_roundtrip:
  assumes "concat chunks = concat (map (item_text enc) items)" "\<And>e. Record e \<in> set items \<Longrightarrow> codec_for enc dec e"
    "\<And>i. i \<in> set items \<Longrightarrow> length (item_text enc i) \<le> MAX_SSE_EVENT_BYTES"
    "length (concat chunks) \<le> MAX_SSE_TOTAL_BYTES"
  shows "parse_sse_events dec chunks = (stream_status (item_events items), up_to_result (item_events items))"
  by (rule parse_items [OF assms])

definition demo_event :: job_event where
  "demo_event = \<lparr>ev_jobId = ''j'', ev_seq = 0, ev_ts = 7, ev_body = StatusEv Queued\<rparr>"

theorem sse_roundtrip_witness:
  "parse_sse_events (\<lambda>_. Some demo_event)
     [''id: 0'' @ [LF] @ ''dat'', ''a: {}'' @ [LF, LF] @ '': kee'', ''palive'' @ [LF], [LF]] = (SseOpen, [demo_event])"
proof -
  have "show_nat 0 = ''0''" by code_simp
  then have "parse_sse_events (\<lambda>_. Some demo_event)
     [''id: 0'' @ [LF] @ ''dat'', ''a: {}'' @ [LF, LF] @ '': kee'', ''palive'' @ [LF], [LF]] =
    (stream_status (item_events [Record demo_event, Keepalive]), up_to_result (item_events [Record demo_event, Keepalive]))"
    by (intro sse_roundtrip [where enc = "\<lambda>_. ''{}''"])
       (auto simp: sse_record_def keepalive_record_def demo_event_def codec_for_def MAX_SSE_EVENT_BYTES_def
         MAX_SSE_TOTAL_BYTES_def)
  then show ?thesis by (simp add: stream_status_def demo_event_def)
qed

section \<open>Resumption\<close>

lemma not_sign: "is_digit c \<Longrightarrow> c \<noteq> CHR ''-'' \<and> c \<noteq> CHR ''+'' \<and> \<not> is_js_space c"
  by (auto simp: is_digit_def is_js_space_def)

lemma parse_int_show_nat:
  assumes "n < DOUBLE_OVERFLOW"
  shows "parse_int_text (show_nat n) = Some (int n)"
proof -
  obtain c r where c: "show_nat n = c # r" "is_digit c" "list_all is_digit r"
    using show_nat_digits [of n] by (cases "show_nat n") auto
  then have tw: "takeWhile is_digit r = r" by (subst takeWhile_eq_all_conv) (simp add: list_all_iff)
  from c not_sign [OF c(2)] have "parse_int_text (c # r) =
      (if DOUBLE_OVERFLOW \<le> nat_of_text (c # r) then None else Some (int (nat_of_text (c # r))))"
    by (simp add: parse_int_text_def Let_def tw)
  with assms show ?thesis unfolding c(1) [symmetric] by simp
qed

text \<open>The client's resume header reaches the server as the sequence number it stands for.\<close>

lemma resume_header:
  assumes "n \<le> 2 ^ 53"
  shows "parse_last_event_id (last_event_id_header (Some n)) = max 0 n"
proof (cases "0 < n")
  case True
  have "nat (n - 1) < 2 ^ 53" using assms True by simp
  also have "(2::nat) ^ 53 \<le> DOUBLE_OVERFLOW"
  proof -
    have "(2::nat) ^ 970 * 2 \<le> 2 ^ 1024" "(2::nat) ^ 53 \<le> 2 ^ 970"
      by (simp flip: power_Suc2 add: power_increasing, simp add: power_increasing)
    then show ?thesis unfolding DOUBLE_OVERFLOW_def by linarith
  qed
  finally show ?thesis
    using True parse_int_show_nat [of "nat (n - 1)"]
    by (simp add: parse_last_event_id_def last_event_id_header_def show_int_def)
qed (simp add: parse_last_event_id_def last_event_id_header_def)

end
