(* ===== verification/NodeServer.thy ===== *)
theory NodeServer imports Wire begin

text \<open>
  \<^verbatim>\<open>packages/daemon/src/transport/server.ts\<close>: the HTTPS server every HFP request goes through. A route's
  handler works on the node's state \<open>'w\<close>; a handler that awaits answers later, from the state it then finds. The
  stream and upload handlers own the raw response. \<open>JSON.parse\<close>, the certificate fingerprint and the trust
  lookup are arguments.
\<close>

section \<open>Peers, results, routes\<close>

record peer_info =
  pi_deviceId :: "string option"
  pi_paired :: bool

datatype route_auth = Paired | UnpairedOk

datatype reply_body =
    ErrorBody hfp_error
  | HelloBody node_info
  | PairBody pair_response
  | DelegateBody string
  | SnapshotBody job_snapshot
  | CancelBody string job_status
  | HaveBody "string option"
  | UploadedBody string
  | AcceptedBody string

record route_result =
  rr_status :: nat
  rr_body :: reply_body

definition error_reply :: "nat \<Rightarrow> hfp_error_code \<Rightarrow> string \<Rightarrow> route_result" where
  "error_reply status code message = \<lparr>rr_status = status, rr_body = ErrorBody (hfp_err code message)\<rparr>"

text \<open>The parts of a request the code reads: the body comes in chunks, and the connection may fail before its end.\<close>

record request =
  rq_method :: string
  rq_url :: string
  rq_fingerprint :: "string option"
  rq_chunks :: "string list"
  rq_broken :: bool
  rq_headers :: "(string \<times> string) list"

type_synonym params = "(string, string) jmap"

text \<open>A JSON handler replies, awaits, or throws; a raw handler takes the response over or throws, after it wrote the
  headers or before.\<close>

datatype 'w answer = Reply route_result | Await "'w \<Rightarrow> route_result" | Throws

datatype raw_end = Taken | RawThrows bool

datatype 'w route_kind =
    JsonRoute "json option \<Rightarrow> peer_info \<Rightarrow> params \<Rightarrow> 'w \<Rightarrow> 'w answer \<times> 'w"
  | StreamRoute "request \<Rightarrow> peer_info \<Rightarrow> params \<Rightarrow> 'w \<Rightarrow> raw_end \<times> 'w"
  | UploadRoute "request \<Rightarrow> peer_info \<Rightarrow> params \<Rightarrow> 'w \<Rightarrow> raw_end \<times> 'w"

record 'w route =
  rt_method :: string
  rt_segments :: "string list"
  rt_auth :: route_auth
  rt_kind :: "'w route_kind"

record 'w node_server =
  sv_routes :: "'w route list"
  sv_port :: "nat option"

section \<open>Registration and life cycle\<close>

definition HFP_PATH_PREFIX :: string where "HFP_PATH_PREFIX = ''/hfp/v0''"
definition MAX_BODY_BYTES :: nat where "MAX_BODY_BYTES = 1024 * 1024"

definition add_route :: "string \<Rightarrow> string \<Rightarrow> route_auth option \<Rightarrow> 'w route_kind \<Rightarrow> 'w node_server \<Rightarrow> 'w node_server" where
  "add_route method path auth kind sv =
     sv\<lparr>sv_routes := sv_routes sv @
       [\<lparr>rt_method = method, rt_segments = split_on (CHR ''/'') (HFP_PATH_PREFIX @ path),
         rt_auth = (case auth of None \<Rightarrow> Paired | Some a \<Rightarrow> a), rt_kind = kind\<rparr>]\<rparr>"

text \<open>\<open>route\<close>: the body only reaches the handler once the schema has accepted it.\<close>

definition validated :: "(json option \<Rightarrow> 'b option) \<Rightarrow> ('b \<Rightarrow> peer_info \<Rightarrow> params \<Rightarrow> 'w \<Rightarrow> 'w answer \<times> 'w) \<Rightarrow>
    json option \<Rightarrow> peer_info \<Rightarrow> params \<Rightarrow> 'w \<Rightarrow> 'w answer \<times> 'w" where
  "validated schema handler raw peer ps w =
     (case schema raw of
        None \<Rightarrow> (Reply (error_reply 400 INVALID_REQUEST ''request body failed validation''), w)
      | Some b \<Rightarrow> handler b peer ps w)"

definition server_start :: "string + nat \<Rightarrow> 'w node_server \<Rightarrow> (string + nat) \<times> 'w node_server" where
  "server_start listen sv =
     (if sv_port sv \<noteq> None then (Inl ''NodeServer is already started'', sv)
      else case listen of Inl e \<Rightarrow> (Inl e, sv) | Inr port \<Rightarrow> (Inr port, sv\<lparr>sv_port := Some port\<rparr>))"

definition server_stop :: "'w node_server \<Rightarrow> 'w node_server" where
  "server_stop sv = sv\<lparr>sv_port := None\<rparr>"

section \<open>Matching\<close>

fun match_segments :: "string list \<Rightarrow> string list \<Rightarrow> params \<Rightarrow> params option" where
  "match_segments [] actual ps = Some ps"
| "match_segments (e # es) actual ps =
     (let a = (case actual of [] \<Rightarrow> [] | x # _ \<Rightarrow> x); rest = tl actual
      in case e of
           CHR '':'' # name \<Rightarrow> match_segments es rest (jmap_set ps name a)
         | _ \<Rightarrow> if e = a then match_segments es rest ps else None)"

definition route_params :: "string \<Rightarrow> string list \<Rightarrow> 'w route \<Rightarrow> params option" where
  "route_params method segments rt =
     (if rt_method rt \<noteq> method then None
      else if length (rt_segments rt) \<noteq> length segments then None
      else match_segments (rt_segments rt) segments [])"

fun first_match :: "string \<Rightarrow> string list \<Rightarrow> 'w route list \<Rightarrow> ('w route \<times> params) option" where
  "first_match method segments [] = None"
| "first_match method segments (rt # rts) =
     (case route_params method segments rt of
        Some ps \<Rightarrow> Some (rt, ps)
      | None \<Rightarrow> first_match method segments rts)"

definition match_route :: "'w node_server \<Rightarrow> string \<Rightarrow> string \<Rightarrow> ('w route \<times> params) option" where
  "match_route sv method pathname = first_match method (split_on (CHR ''/'') pathname) (sv_routes sv)"

definition identify_peer :: "(string \<Rightarrow> bool) \<Rightarrow> request \<Rightarrow> peer_info" where
  "identify_peer trusted rq =
     (case rq_fingerprint rq of
        None \<Rightarrow> \<lparr>pi_deviceId = None, pi_paired = False\<rparr>
      | Some d \<Rightarrow> \<lparr>pi_deviceId = Some d, pi_paired = trusted d\<rparr>)"

section \<open>The body\<close>

datatype body_read = BodyOk "json option" | BodyRefused route_result bool | BodyBroken

fun read_chunks :: "(string \<Rightarrow> json option) \<Rightarrow> bool \<Rightarrow> string list \<Rightarrow> string \<Rightarrow> body_read" where
  "read_chunks parse broken [] got =
     (if broken then BodyBroken
      else if got = [] then BodyOk None
      else case parse got of
        Some j \<Rightarrow> BodyOk (Some j)
      | None \<Rightarrow> BodyRefused (error_reply 400 INVALID_REQUEST ''request body is not valid JSON'') False)"
| "read_chunks parse broken (c # cs) got =
     (if MAX_BODY_BYTES < length got + length c
      then BodyRefused (error_reply 413 INVALID_REQUEST ''request body too large'') True
      else read_chunks parse broken cs (got @ c))"

definition read_json_body :: "(string \<Rightarrow> json option) \<Rightarrow> request \<Rightarrow> body_read" where
  "read_json_body parse rq = read_chunks parse (rq_broken rq) (rq_chunks rq) []"

section \<open>Handling a request\<close>

text \<open>What the client gets: a JSON response, and whether the socket is destroyed once it is flushed; or a response that
  comes when the awaited work is done; or the raw handler's own. \<open>Cut\<close> is a raw response ended by the server.\<close>

datatype 'w outcome =
    Answered route_result bool
  | Later "'w \<Rightarrow> route_result"
  | TakenOver
  | Cut

definition unauthorized :: route_result where
  "unauthorized = error_reply 401 UNAUTHORIZED ''peer is not paired''"

definition internal_error :: route_result where
  "internal_error = error_reply 500 INTERNAL ''internal error''"

definition is_upload :: "'w route_kind \<Rightarrow> bool" where
  "is_upload k = (case k of UploadRoute _ \<Rightarrow> True | _ \<Rightarrow> False)"

fun raw_outcome :: "raw_end \<times> 'w \<Rightarrow> 'w outcome \<times> 'w" where
  "raw_outcome (Taken, w) = (TakenOver, w)"
| "raw_outcome (RawThrows sent, w) = (if sent then Cut else Answered internal_error False, w)"

fun json_outcome :: "'w answer \<times> 'w \<Rightarrow> 'w outcome \<times> 'w" where
  "json_outcome (Reply r, w) = (Answered r False, w)"
| "json_outcome (Await f, w) = (Later f, w)"
| "json_outcome (Throws, w) = (Answered internal_error False, w)"

definition request_path :: "request \<Rightarrow> string" where
  "request_path rq = takeWhile (\<lambda>c. c \<noteq> CHR ''?'') (rq_url rq)"

definition handle_request ::
    "(string \<Rightarrow> json option) \<Rightarrow> (string \<Rightarrow> bool) \<Rightarrow> 'w node_server \<Rightarrow> request \<Rightarrow> 'w \<Rightarrow> 'w outcome \<times> 'w" where
  "handle_request parse trusted sv rq w =
     (let peer = identify_peer trusted rq
      in case match_route sv (rq_method rq) (request_path rq) of
           None \<Rightarrow>
             if \<not> pi_paired peer then (Answered unauthorized False, w)
             else (Answered (error_reply 404 INVALID_REQUEST ''unknown endpoint'') False, w)
         | Some (rt, ps) \<Rightarrow>
             if rt_auth rt = Paired \<and> \<not> pi_paired peer then (Answered unauthorized (is_upload (rt_kind rt)), w)
             else (case rt_kind rt of
               StreamRoute h \<Rightarrow> raw_outcome (h rq peer ps w)
             | UploadRoute h \<Rightarrow> raw_outcome (h rq peer ps w)
             | JsonRoute h \<Rightarrow>
                 (case read_json_body parse rq of
                    BodyBroken \<Rightarrow> (Answered internal_error False, w)
                  | BodyRefused r destroy \<Rightarrow> (Answered r destroy, w)
                  | BodyOk b \<Rightarrow> json_outcome (h b peer ps w))))"

section \<open>Facts\<close>

lemma read_chunks_ok:
  "read_chunks parse broken cs got = BodyOk b \<Longrightarrow> length got \<le> MAX_BODY_BYTES \<Longrightarrow>
     \<not> broken \<and> length (got @ concat cs) \<le> MAX_BODY_BYTES \<and>
     b = (if got @ concat cs = [] then None else parse (got @ concat cs)) \<and> (b = None \<longrightarrow> got @ concat cs = [])"
proof (induction cs arbitrary: got)
  case Nil
  then show ?case by (cases broken; cases "got = []"; cases "parse got") auto
next
  case (Cons c cs)
  then have "read_chunks parse broken cs (got @ c) = BodyOk b" "length (got @ c) \<le> MAX_BODY_BYTES"
    by (auto split: if_splits)
  from Cons.IH [OF this] show ?case by (metis append.assoc concat.simps(2))
qed

lemma read_chunks_large:
  "MAX_BODY_BYTES < length got + length (concat cs) \<Longrightarrow> length got \<le> MAX_BODY_BYTES \<Longrightarrow>
     \<exists>r. read_chunks parse broken cs got = BodyRefused r True \<and> rr_status r = 413"
  by (induction cs arbitrary: got) (auto simp: error_reply_def)

lemma first_match_in:
  "first_match m segs rts = Some (rt, ps) \<Longrightarrow> rt \<in> set rts \<and> route_params m segs rt = Some ps"
  by (induction rts) (auto split: option.splits)

lemma first_match_none:
  "first_match m segs rts = None \<longleftrightarrow> (\<forall>rt \<in> set rts. route_params m segs rt = None)"
  by (induction rts) (auto split: option.splits)

lemma first_match_append:
  "first_match m segs (xs @ ys) =
     (case first_match m segs xs of None \<Rightarrow> first_match m segs ys | Some x \<Rightarrow> Some x)"
  by (induction xs) (auto split: option.splits)

lemma identify_paired: "pi_paired (identify_peer trusted rq) \<Longrightarrow>
    \<exists>d. rq_fingerprint rq = Some d \<and> trusted d \<and> pi_deviceId (identify_peer trusted rq) = Some d"
  by (simp add: identify_peer_def split: option.splits)

text \<open>A request of a peer that is not paired, on anything but an open route, gets the same answer and changes
  nothing.\<close>

lemma unpaired_refused:
  assumes "\<not> pi_paired (identify_peer trusted rq)"
    "\<And>rt ps. match_route sv (rq_method rq) (request_path rq) = Some (rt, ps) \<Longrightarrow> rt_auth rt = Paired"
  shows "\<exists>b. handle_request parse trusted sv rq w = (Answered unauthorized b, w)"
  using assms by (cases "match_route sv (rq_method rq) (request_path rq)") (auto simp: handle_request_def)

end
