(* ===== verification/JobRoutes.thy ===== *)
theory JobRoutes imports JobTheorems Sse NodeServer Delegation begin

text \<open>
  \<^verbatim>\<open>packages/daemon/src/jobs/routes.ts\<close>: the five job routes. An SSE response is a stream record: what was written
  to it, whether it has ended, and whether \<open>unsubscribe\<close> already names the subscription or is still the empty
  function it starts as. The identifier of a submitted job, the clock, the success of a write and the fate of an opened
  file are inputs.
\<close>

section \<open>Status codes\<close>

fun status_for_code :: "hfp_error_code \<Rightarrow> nat" where
  "status_for_code UNAUTHORIZED = 401"
| "status_for_code UNKNOWN_JOB = 404"
| "status_for_code NO_ARTIFACT = 404"
| "status_for_code BUSY = 503"
| "status_for_code UPGRADE_DISABLED = 403"
| "status_for_code UPGRADE_REJECTED = 422"
| "status_for_code UPGRADE_BUSY = 409"
| "status_for_code UNSUPPORTED_JOB_TYPE = 400"
| "status_for_code MODEL_NOT_OFFERED = 400"
| "status_for_code NO_MODEL_SPECIFIED = 400"
| "status_for_code _ = 400"

fun error_result :: "jm_throw \<Rightarrow> route_result" where
  "error_result (Dispatch e) = \<lparr>rr_status = status_for_code (err_code e), rr_body = ErrorBody e\<rparr>"
| "error_result SchemaFailure = internal_error"

definition require_owner :: "string option \<Rightarrow> jm_throw + string" where
  "require_owner deviceId =
     (case deviceId of
        None \<Rightarrow> Inl (Dispatch (hfp_err UNAUTHORIZED ''peer is not identified''))
      | Some d \<Rightarrow> Inr d)"

definition param_id :: "params \<Rightarrow> string" where
  "param_id ps = (case jmap_get ps ''id'' of None \<Rightarrow> [] | Some s \<Rightarrow> s)"

section \<open>JSON routes\<close>

text \<open>Each works on the manager; \<open>requireOwner\<close> stands before the \<open>try\<close>, so there its error escapes.\<close>

definition submit_route ::
    "(job_type \<Rightarrow> string option \<Rightarrow> model_resolution) \<Rightarrow> tick \<Rightarrow> string \<Rightarrow> job_params \<Rightarrow> peer_info \<Rightarrow> params \<Rightarrow>
     manager \<Rightarrow> manager answer \<times> manager" where
  "submit_route resolve tk j p peer ps m =
     (case require_owner (pi_deviceId peer) of
        Inl _ \<Rightarrow> (Throws, m)
      | Inr owner \<Rightarrow>
          (case submit resolve tk p owner j m of
             (Inl e, m') \<Rightarrow> (Reply (error_result (Dispatch e)), m')
           | (Inr jobId, m') \<Rightarrow>
               (Reply (if job_id_ok jobId then \<lparr>rr_status = 200, rr_body = DelegateBody jobId\<rparr>
                       else error_result SchemaFailure), m')))"

definition snapshot_route :: "json option \<Rightarrow> peer_info \<Rightarrow> params \<Rightarrow> manager \<Rightarrow> manager answer \<times> manager" where
  "snapshot_route b peer ps m =
     (case require_owner (pi_deviceId peer) of
        Inl _ \<Rightarrow> (Throws, m)
      | Inr owner \<Rightarrow>
          (case snapshot m (param_id ps) owner of
             Inl e \<Rightarrow> (Reply (error_result e), m)
           | Inr s \<Rightarrow> (Reply \<lparr>rr_status = 200, rr_body = SnapshotBody s\<rparr>, m)))"

definition cancel_result :: "string \<Rightarrow> job_status \<Rightarrow> route_result" where
  "cancel_result j s = \<lparr>rr_status = 200, rr_body = CancelBody j s\<rparr>"

definition cancel_route :: "int \<Rightarrow> json option \<Rightarrow> peer_info \<Rightarrow> params \<Rightarrow> manager \<Rightarrow> manager answer \<times> manager" where
  "cancel_route now b peer ps m =
     (case require_owner (pi_deviceId peer) of
        Inl _ \<Rightarrow> (Throws, m)
      | Inr owner \<Rightarrow>
          (case cancel now (param_id ps) owner m of
             (Inl e, m') \<Rightarrow> (Reply (error_result e), m')
           | (Inr (Answer s), m') \<Rightarrow> (Reply (cancel_result (param_id ps) s), m')
           | (Inr AwaitUnwind, m') \<Rightarrow>
               (Await (\<lambda>w. case cancel_response w (param_id ps) of
                             None \<Rightarrow> internal_error
                           | Some s \<Rightarrow> cancel_result (param_id ps) s), m')))"

section \<open>The artifact download\<close>

text \<open>What the file does once it is asked for: it fails to open, or it opens and is read to the end, or fails on the way
  after \<open>n\<close> bytes.\<close>

datatype file_fate = OpenFails | ReadsAll | FailsAfter nat

text \<open>A response a raw handler produced: plain JSON, or a promised file, complete or cut.\<close>

datatype raw_response =
    RawJson route_result
  | RawFile string string nat
  | RawCut string nat nat

definition no_artifact :: "string \<Rightarrow> route_result" where
  "no_artifact message = error_reply 404 NO_ARTIFACT message"

definition send_file :: "(string \<Rightarrow> file_fate) \<Rightarrow> string \<Rightarrow> string \<Rightarrow> nat \<Rightarrow> route_result \<Rightarrow> raw_response" where
  "send_file fate file head len gone =
     (case fate file of
        OpenFails \<Rightarrow> RawJson gone
      | ReadsAll \<Rightarrow> RawFile file head len
      | FailsAfter n \<Rightarrow> RawCut file len n)"

definition artifact_route ::
    "(string \<Rightarrow> file_fate) \<Rightarrow> manager \<Rightarrow> artifact_store option \<Rightarrow> string option \<Rightarrow> string \<Rightarrow> raw_response" where
  "artifact_route fate m artifacts deviceId jobId =
     (case require_owner deviceId of
        Inl e \<Rightarrow> RawJson (error_result e)
      | Inr owner \<Rightarrow>
          (case snapshot m jobId owner of
             Inl e \<Rightarrow> RawJson (error_result e)
           | Inr _ \<Rightarrow>
               (case Option.bind artifacts (\<lambda>s. artifact_get s jobId) of
                  None \<Rightarrow> RawJson (no_artifact ''job has no downloadable artifact'')
                | Some e \<Rightarrow> send_file fate (ae_bundlePath e) (ae_headCommit e) (ae_byteLength e)
                    (no_artifact ''artifact bundle is no longer available''))))"

section \<open>The event stream\<close>

record event_stream =
  es_job :: string
  es_sub :: nat
  es_attached :: bool
  es_ended :: bool
  es_unsubscribed :: bool
  es_out :: "sse_item list"

definition new_stream :: "string \<Rightarrow> nat \<Rightarrow> event_stream" where
  "new_stream j s = \<lparr>es_job = j, es_sub = s, es_attached = False, es_ended = False, es_unsubscribed = False, es_out = []\<rparr>"

definition stream_end :: "event_stream \<Rightarrow> event_stream" where
  "stream_end c = (if es_ended c then c else c\<lparr>es_ended := True, es_unsubscribed := es_attached c\<rparr>)"

text \<open>\<open>ok\<close> tells whether the \<open>n\<close>-th write of the response succeeds.\<close>

definition stream_write :: "(nat \<Rightarrow> bool) \<Rightarrow> sse_item \<Rightarrow> event_stream \<Rightarrow> event_stream" where
  "stream_write ok i c = (if ok (length (es_out c)) then c\<lparr>es_out := es_out c @ [i]\<rparr> else stream_end c)"

definition stream_event :: "(nat \<Rightarrow> bool) \<Rightarrow> job_event \<Rightarrow> event_stream \<Rightarrow> event_stream" where
  "stream_event ok e c =
     (let c' = stream_write ok (Record e) c in if is_result_ev (ev_body e) then stream_end c' else c')"

definition heartbeat :: "(nat \<Rightarrow> bool) \<Rightarrow> event_stream \<Rightarrow> event_stream" where
  "heartbeat ok c = (if es_ended c then c else stream_write ok Keepalive c)"

text \<open>What the manager's callbacks do to the stream.\<close>

fun stream_react :: "(nat \<Rightarrow> bool) \<Rightarrow> jm_out \<Rightarrow> event_stream \<Rightarrow> event_stream" where
  "stream_react ok (Deliver s e) c = (if s = es_sub c then stream_event ok e c else c)"
| "stream_react ok (CloseSub s) c = (if s = es_sub c then stream_end c else c)"
| "stream_react ok _ c = c"

definition events_route ::
    "(nat \<Rightarrow> bool) \<Rightarrow> string option \<Rightarrow> string \<Rightarrow> string option \<Rightarrow> nat \<Rightarrow> manager \<Rightarrow>
     (route_result + event_stream) \<times> manager" where
  "events_route ok deviceId j lastEventId s m =
     (case require_owner deviceId of
        Inl e \<Rightarrow> (Inl (error_result e), m)
      | Inr owner \<Rightarrow>
          (case snapshot m j owner of
             Inl e \<Rightarrow> (Inl (error_result e), m)
           | Inr _ \<Rightarrow>
               (case subscribe j owner (Some (parse_last_event_id lastEventId)) s m of
                  (Inl e, m') \<Rightarrow> (Inl (error_result e), m')
                | (Inr terminal, m') \<Rightarrow>
                    (let c = fold (stream_react ok) (drop (length (jm_out m)) (jm_out m')) (new_stream j s);
                         c' = c\<lparr>es_attached := True\<rparr>
                     in (Inr (if terminal then stream_end c' else c'), m')))))"

section \<open>Facts\<close>

lemma get_owned_snapshot: "snapshot m j owner = Inr s \<Longrightarrow> \<exists>r. get_owned m j owner = Inr r"
  by (auto simp: snapshot_def split: sum.splits)

lemma subscribe_out:
  assumes "get_owned m j owner = Inr r" "subscribe j owner n s m = (b, m')"
  shows "drop (length (jm_out m)) (jm_out m') = map (Deliver s) (filter (\<lambda>e. replay_start n \<le> ev_seq e) (jb_events r)) \<and>
    b = Inr (is_terminal (jb_status r))"
  using assms by (auto simp: subscribe_def Let_def heap_upd_def split: if_splits)

lemma stream_react_fields [simp]:
  "es_sub (stream_react ok x c) = es_sub c" "es_job (stream_react ok x c) = es_job c"
  "es_attached (stream_react ok x c) = es_attached c"
  by (cases x; simp add: stream_event_def stream_write_def stream_end_def Let_def)+

lemma stream_event_out: "(\<And>k. ok k) \<Longrightarrow> es_out (stream_event ok e c) = es_out c @ [Record e]"
  by (simp add: stream_event_def stream_write_def stream_end_def Let_def)

lemma stream_end_out [simp]: "es_out (stream_end c) = es_out c" "es_ended (stream_end c)"
  by (simp_all add: stream_end_def)

text \<open>While the writes succeed, the events written are exactly the events delivered to the stream's subscriber.\<close>

lemma react_events:
  assumes "\<And>k. ok k"
  shows "item_events (es_out (fold (stream_react ok) outs c)) = item_events (es_out c) @ delivered (es_sub c) outs"
proof (induction outs arbitrary: c)
  case (Cons x outs)
  have "item_events (es_out (stream_react ok x c)) = item_events (es_out c) @ delivered (es_sub c) [x]"
    by (cases x) (auto simp: stream_event_out [OF assms])
  moreover have "delivered k (x # outs) = delivered k [x] @ delivered k outs" for k by (cases x) simp_all
  ultimately show ?case using Cons by simp
qed simp

lemma heartbeat_events: "(\<And>k. ok k) \<Longrightarrow> item_events (es_out (heartbeat ok c)) = item_events (es_out c)"
  by (simp add: heartbeat_def stream_write_def)

section \<open>The output only grows\<close>

definition outgrows :: "manager \<Rightarrow> manager \<Rightarrow> bool" where
  "outgrows m n = (\<exists>xs. jm_out n = jm_out m @ xs)"

lemma outgrows_refl [simp]: "outgrows m m"
  by (simp add: outgrows_def)

lemma outgrows_trans: "outgrows m n \<Longrightarrow> outgrows n p \<Longrightarrow> outgrows m p"
  by (auto simp: outgrows_def)

lemma outgrows_same: "jm_out n = jm_out m \<Longrightarrow> outgrows m n"
  by (simp add: outgrows_def)

lemma outgrows_via: "outgrows m' n \<Longrightarrow> jm_out m' = jm_out m \<Longrightarrow> outgrows m n"
  by (simp add: outgrows_def)

lemma outgrows_heap_upd [simp]: "outgrows m (heap_upd j f m)"
  by (simp add: outgrows_def)

lemma outgrows_set_phase [simp]: "outgrows m (set_phase j ph m)"
  by (simp add: outgrows_def)

lemma outgrows_append: "append_event now j b m = Some n \<Longrightarrow> outgrows m n"
  by (auto simp: append_event_def Let_def outgrows_def split: option.splits if_splits)

lemma outgrows_evict_loop: "outgrows m (evict_loop js m)"
proof (induction js m rule: evict_loop.induct)
  case (2 j js m)
  have "outgrows m (drop_record j m)" by (simp add: outgrows_def drop_record_def)
  with 2 show ?case by (auto intro: outgrows_trans outgrows_same split: option.split)
qed (simp add: outgrows_def)

lemma outgrows_finish_job: "outgrows m (snd (finish_job now j res m))"
proof (cases "jm_heap m j")
  case (Some r)
  define m1 where "m1 = (heap_upd j (\<lambda>r. r\<lparr>jb_status := res_status res, jb_result := Some res,
    jb_terminalAt := Some now\<rparr>) m)\<lparr>jm_terminalOrder := jm_terminalOrder m @ [j]\<rparr>"
  have m1: "outgrows m m1" by (simp add: outgrows_def m1_def)
  have ev: "outgrows n (evict_if_needed n)" for n by (simp add: evict_if_needed_def outgrows_evict_loop)
  have app: "outgrows m n" if "append_event now j b k = Some n" "outgrows m k" for b k n
    using outgrows_trans [OF that(2) outgrows_append [OF that(1)]] .
  show ?thesis
  proof (cases "append_event now j (StatusEv (res_status res)) m1")
    case None
    with Some m1 show ?thesis by (simp add: finish_job_def m1_def [symmetric])
  next
    case (Some m2)
    have m2: "outgrows m m2" by (rule app [OF Some m1])
    show ?thesis
      using Some \<open>jm_heap m j = Some r\<close> m2 app [OF _ m2] outgrows_trans [OF _ ev]
      by (auto simp: finish_job_def m1_def [symmetric] split: option.split)
  qed
qed (simp add: finish_job_def)

lemma outgrows_finish_then: "outgrows m (finish_then ph tk j res m)"
proof -
  obtain b n where f: "finish_job (tk_now tk) j res m = (b, n)" by force
  with outgrows_finish_job [of m "tk_now tk" j res] have "outgrows m n" by simp
  then show ?thesis by (simp add: finish_then_def f outgrows_trans [OF _ outgrows_set_phase])
qed

lemma outgrows_start_job: "outgrows m (start_job tk j m)"
proof -
  define m1 where "m1 = (heap_upd j (\<lambda>r. r\<lparr>jb_status := Running, jb_startedAt := Some (tk_now tk)\<rparr>) m)
    \<lparr>jm_running := jset_add j (jm_running m)\<rparr>"
  have m1: "outgrows m m1" by (simp add: outgrows_def m1_def)
  show ?thesis
    using outgrows_trans [OF m1 outgrows_set_phase] outgrows_trans [OF outgrows_trans [OF m1 outgrows_append] outgrows_set_phase]
    by (simp add: start_job_def m1_def [symmetric] split: option.split)
qed

lemma outgrows_pump: "outgrows m (pump tk m)"
proof -
  have "outgrows n (pump_loop tk js n)" for js n
  proof (induction tk js n rule: pump_loop.induct)
    case (2 tk j js m)
    then show ?case
      by (auto intro: outgrows_trans [OF outgrows_start_job] outgrows_same split: option.split)
  qed (simp add: outgrows_def)
  then show ?thesis by (simp add: pump_def)
qed

lemma outgrows_submit: "outgrows m (snd (submit rm tk p owner j m))"
  by (auto simp: submit_def intro!: outgrows_via [OF outgrows_pump] split: model_resolution.split)

lemma outgrows_cancel: "outgrows m (snd (cancel now j owner m))"
proof (cases "get_owned m j owner")
  case (Inr r)
  let ?q = "m\<lparr>jm_queue := remove1 j (jm_queue m)\<rparr>"
  obtain b n where f: "finish_job now j (canceled_result now r) ?q = (b, n)" by force
  with outgrows_finish_job [of ?q now j "canceled_result now r"] have "outgrows m n" by (simp add: outgrows_def)
  with Inr f show ?thesis by (cases b) (auto simp: cancel_def split: option.split)
qed (simp add: cancel_def)

lemma outgrows_cancel_each: "outgrows m (snd (cancel_each now owner js (k, m)))"
proof (induction js arbitrary: k m)
  case (Cons j js)
  show ?case using Cons outgrows_trans [OF outgrows_cancel Cons] by (auto split: option.split)
qed simp

lemma outgrows_subscribe: "outgrows m (snd (subscribe j owner n s m))"
  by (auto simp: subscribe_def Let_def outgrows_def split: sum.split)

lemma outgrows_stop_queued: "outgrows m (snd (stop_queued now js m))"
proof (induction js arbitrary: m)
  case (Cons j js)
  show ?case
  proof (cases "records_get m j")
    case (Some r)
    obtain b n where f: "finish_job now j (canceled_result now r) m = (b, n)" by force
    then have "outgrows m n" using outgrows_finish_job [of m now j "canceled_result now r"] by simp
    with Cons Some f show ?thesis by (cases b) (auto intro: outgrows_trans)
  qed (use Cons in simp)
qed simp

lemma outgrows_abort_each: "outgrows m (abort_each js m)"
proof (induction js arbitrary: m)
  case (Cons j js)
  then show ?case by (auto intro: outgrows_trans [OF outgrows_heap_upd] split: option.split)
qed simp

lemma outgrows_stop_begin: "outgrows m (snd (stop_begin now m))"
proof -
  obtain b n where q: "stop_queued now (jm_queue m) (m\<lparr>jm_stopped := True, jm_queue := []\<rparr>) = (b, n)" by force
  then have "outgrows m n"
    using outgrows_stop_queued [of "m\<lparr>jm_stopped := True, jm_queue := []\<rparr>" now "jm_queue m"] by (simp add: outgrows_def)
  then show ?thesis using q by (cases b) (auto simp: stop_begin_def intro: outgrows_trans [OF _ outgrows_abort_each])
qed

lemma outgrows_close_all: "outgrows m (close_all js m)"
proof (induction js arbitrary: m)
  case (Cons j js)
  show ?case by (simp, rule outgrows_trans [OF _ Cons]) (simp add: outgrows_def)
qed simp

lemma outgrows_workspace_done: "outgrows m (workspace_done tk j w m)"
proof -
  have "outgrows m ((set_phase j Executing m)\<lparr>jm_out := jm_out m @ [x]\<rparr>)" for x by (simp add: outgrows_def)
  then show ?thesis by (simp add: workspace_done_def outgrows_finish_then split: option.split ws_outcome.split)
qed

lemma outgrows_run_ended: "outgrows m (run_ended tk j m)"
proof -
  have p: "outgrows m (pump tk ((set_phase j Done n)\<lparr>jm_running := x\<rparr>))" if "outgrows m n" for n x
    by (rule outgrows_trans [OF that outgrows_via [OF outgrows_pump]]) simp
  show ?thesis
    by (auto simp: run_ended_def Let_def outgrows_finish_job intro!: p split: option.split run_phase.split)
qed

lemma outgrows_step: "outgrows m (jm_step resolve tk a m)"
proof (cases a)
  case (CancelOwned owner)
  then show ?thesis by (simp add: cancel_owned_by_def outgrows_cancel_each)
next
  case (Emit j p)
  then show ?thesis
    by (auto simp: executor_emits_def emit_executor_event_def outgrows_append split: option.split exec_payload.split)
next
  case StopFinish
  have "outgrows m ((close_all (jm_records m) m)\<lparr>jm_records := [], jm_terminalOrder := [], jm_tornDown := True\<rparr>)"
    using outgrows_close_all [of m "jm_records m"] by (simp add: outgrows_def)
  with StopFinish show ?thesis by (simp add: stop_finish_def)
qed (auto simp: outgrows_submit outgrows_cancel outgrows_subscribe outgrows_workspace_done outgrows_run_ended
    unsubscribe_def exec_done_def release_done_def outgrows_finish_then outgrows_stop_begin
    split: option.split run_phase.split)

section \<open>A stream through the life of its job\<close>

text \<open>The manager's steps, with the stream reacting to what each of them puts out, and heartbeats.\<close>

inductive stream_life ::
    "(nat \<Rightarrow> bool) \<Rightarrow> (job_type \<Rightarrow> string option \<Rightarrow> model_resolution) \<Rightarrow> manager \<Rightarrow> event_stream \<Rightarrow> manager \<Rightarrow>
     event_stream \<Rightarrow> bool"
  for ok resolve m c where
  life_start: "stream_life ok resolve m c m c"
| life_step: "stream_life ok resolve m c n d \<Longrightarrow> step_ok tk a n \<Longrightarrow> leaves_alone (es_sub c) a \<Longrightarrow>
     stream_life ok resolve m c (jm_step resolve tk a n)
       (fold (stream_react ok) (drop (length (jm_out n)) (jm_out (jm_step resolve tk a n))) d)"
| life_beat: "stream_life ok resolve m c n d \<Longrightarrow> stream_life ok resolve m c n (heartbeat ok d)"

lemma fold_react_sub [simp]: "es_sub (fold (stream_react ok) outs c) = es_sub c"
  by (induction outs arbitrary: c) simp_all

lemma heartbeat_sub [simp]: "es_sub (heartbeat ok c) = es_sub c"
  by (simp add: heartbeat_def stream_write_def stream_end_def)

lemma stream_life_events:
  assumes "stream_life ok resolve m c n d" "\<And>k. ok k" "item_events (es_out c) = delivered (es_sub c) (jm_out m)"
  shows "steps_leaving (es_sub c) resolve m n \<and> es_sub d = es_sub c \<and>
    item_events (es_out d) = delivered (es_sub c) (jm_out n)"
  using assms
proof (induction rule: stream_life.induct)
  case life_start
  then show ?case by (simp add: leaving_none)
next
  case (life_step n d tk a)
  obtain xs where "jm_out (jm_step resolve tk a n) = jm_out n @ xs"
    using outgrows_step [of n resolve tk a] by (auto simp: outgrows_def)
  with life_step show ?case by (simp add: react_events leaving_step)
next
  case (life_beat n d)
  then show ?case by (simp add: heartbeat_events)
qed

lemma events_route_start:
  assumes "events_route ok dev j h s m = (Inr c, m')" "\<And>k. ok k" "delivered s (jm_out m) = []"
  shows "\<exists>owner b. subscribe j owner (Some (parse_last_event_id h)) s m = (Inr b, m') \<and> es_sub c = s \<and>
    item_events (es_out c) = delivered s (jm_out m')"
proof -
  obtain owner sn b m'' where r: "require_owner dev = Inr owner" "snapshot m j owner = Inr sn"
    "subscribe j owner (Some (parse_last_event_id h)) s m = (b, m'')"
    using assms(1) by (auto simp: events_route_def split: sum.splits) (metis prod.collapse)+
  obtain q where q: "get_owned m j owner = Inr q" using get_owned_snapshot [OF r(2)] by blast
  let ?new = "map (Deliver s) (filter (\<lambda>e. replay_start (Some (parse_last_event_id h)) \<le> ev_seq e) (jb_events q))"
  have so: "drop (length (jm_out m)) (jm_out m'') = ?new" "b = Inr (is_terminal (jb_status q))"
    using subscribe_out [OF q r(3)] by simp_all
  have og: "jm_out m'' = jm_out m @ ?new"
    using outgrows_subscribe [of m j owner "Some (parse_last_event_id h)" s] r(3) so(1) by (auto simp: outgrows_def)
  let ?c = "fold (stream_react ok) ?new (new_stream j s)"
  have "m' = m''" "es_out c = es_out ?c" "es_sub c = es_sub ?c"
    using assms(1) r so by (auto simp: events_route_def Let_def stream_end_def split: if_splits)
  moreover have "item_events (es_out ?c) = delivered s ?new"
    using react_events [OF assms(2), where outs = ?new and c = "new_stream j s"] by (simp add: new_stream_def)
  ultimately have "subscribe j owner (Some (parse_last_event_id h)) s m = (Inr (is_terminal (jb_status q)), m') \<and>
      es_sub c = s \<and> item_events (es_out c) = delivered s (jm_out m')"
    using r(3) so(2) og assms(3) by (simp add: new_stream_def)
  then show ?thesis by blast
qed

text \<open>The result, when there is one, is the last event of a log.\<close>

lemma log_result_last:
  assumes "rec_ok j q"
  shows "up_to_result (drop k (jb_events q)) = drop k (jb_events q) \<and>
    stream_status (drop k (jb_events q)) =
      (if is_terminal (jb_status q) \<and> k < length (jb_events q) then SseDone else SseOpen)"
proof -
  have plain: "up_to_result xs = xs \<and> stream_status xs = SseOpen" if "no_result xs" for xs
    using that by (induction xs) (auto simp: no_result_def stream_status_def)
  have last: "up_to_result (xs @ [f]) = xs @ [f] \<and> stream_status (xs @ [f]) = SseDone"
    if "no_result xs" "is_result_ev (ev_body f)" for xs f
    using that by (induction xs) (auto simp: no_result_def stream_status_def)
  show ?thesis
  proof (cases "is_terminal (jb_status q)")
    case True
    then obtain res where "ends_with_result q res"
      using assms by (cases "jb_status q") (auto simp: rec_ok_def life_ok_def)
    then obtain es s f where "jb_events q = (es @ [s]) @ [f]" "no_result (es @ [s])" "is_result_ev (ev_body f)"
      by (auto simp: ends_with_result_def no_result_def)
    then obtain xs where e: "jb_events q = xs @ [f]" "no_result xs" "is_result_ev (ev_body f)" by blast
    show ?thesis
    proof (cases "k \<le> length xs")
      case le: True
      then have "drop k (jb_events q) = drop k xs @ [f]" by (simp add: e(1))
      moreover have "no_result (drop k xs)" using e(2) by (auto simp: no_result_def list_all_iff dest: in_set_dropD)
      ultimately show ?thesis using last [OF _ e(3)] True le e(1) by simp
    qed (use plain [of "[]"] e(1) in \<open>simp add: no_result_def\<close>)
  next
    case False
    then have "no_result (jb_events q)"
      using assms by (auto simp: rec_ok_def life_ok_def not_terminal_iff no_result_def)
    then have "no_result (drop k (jb_events q))" by (auto simp: no_result_def list_all_iff dest: in_set_dropD)
    with plain False show ?thesis by simp
  qed
qed

section \<open>Properties\<close>


lemma stream_start_rec: "\<exists>r e. jm_heap stream_start = [id_a \<mapsto> r] \<and> jb_owner r = ''peer'' \<and> jb_events r = [e] \<and> ev_seq e = 0 \<and>
    \<not> is_result_ev (ev_body e) \<and> jb_status r = Running \<and> jb_result r = None \<and> jb_jobId r = id_a \<and> jb_subscribers r = []"
proof -
  obtain r where r: "jm_heap stream_start = [id_a \<mapsto> r]" "jb_subscribers r = []" "jb_owner r = ''peer''"
    "length (jb_events r) = 1" "jb_status r = Running"
    using stream_start_heap(1) by blast
  then have "rec_ok id_a r" using running_rec(1) [OF reachable_inv [OF stream_start_reachable]] by simp
  with r show ?thesis
    by (cases "jb_events r") (auto simp: rec_ok_def life_ok_def log_ok_def no_result_def)
qed


text \<open>A write-job's bundle leaves this node only for the job's owner: the download sends a file exactly when the
  peer is identified, the job exists and is its own, a bundle is registered for it and the file opens; a job of
  another peer and a job that does not exist get the same answer, whatever is registered.\<close>

theorem artifact_only_to_owner:
  "(\<exists>f h n. artifact_route fate m artifacts dev j = RawFile f h n) =
     (\<exists>owner s st e. dev = Some owner \<and> snapshot m j owner = Inr s \<and> artifacts = Some st \<and> artifact_get st j = Some e \<and>
        fate (ae_bundlePath e) = ReadsAll) \<and>
   pred_option (\<lambda>owner. pred_option (\<lambda>r. jb_owner r \<noteq> owner) (records_get m j) =
      (artifact_route fate m artifacts dev j = RawJson \<lparr>rr_status = 404, rr_body = ErrorBody (unknown_job j)\<rparr>)) dev"
proof -
  have u: "err_code (unknown_job j) = UNKNOWN_JOB" by (simp add: unknown_job_def)
  have n: "error_reply 404 NO_ARTIFACT x \<noteq> \<lparr>rr_status = 404, rr_body = ErrorBody (unknown_job j)\<rparr>" for x
    by (simp add: error_reply_def unknown_job_def hfp_err_def)
  have i: "internal_error \<noteq> \<lparr>rr_status = 404, rr_body = ErrorBody (unknown_job j)\<rparr>"
    by (simp add: internal_error_def error_reply_def)
  show ?thesis
    by (cases dev; cases "records_get m j"; cases artifacts)
       (auto simp: artifact_route_def require_owner_def snapshot_def get_owned_def send_file_def no_artifact_def u n i
         Let_def split: option.splits file_fate.splits sum.splits if_splits)
qed

text \<open>A write that fails while the log is replayed ends the stream before it knows how to unsubscribe: the
  subscription stays with the manager, and the connection's close event no longer removes it.\<close>

lemma replay_failure_leaks:
  assumes "snapshot m j owner = Inr s" "get_owned m j owner = Inr r" "\<not> is_terminal (jb_status r)"
    "jb_events r = [e]" "\<not> is_result_ev (ev_body e)" "ev_seq e = 0" "jm_heap m j = Some r"
  shows "\<exists>c m' q. events_route (\<lambda>_. False) (Some owner) j None k m = (Inr c, m') \<and> jm_heap m' j = Some q \<and>
    k \<in> set (jb_subscribers q) \<and> es_ended c \<and> \<not> es_unsubscribed (stream_end c)"
proof -
  have "subscribe j owner (Some 0) k m = (Inr False,
      heap_upd j (\<lambda>r. r\<lparr>jb_subscribers := jset_add k (jb_subscribers r)\<rparr>) (m\<lparr>jm_out := jm_out m @ [Deliver k e]\<rparr>))"
    using assms by (simp add: subscribe_def Let_def replay_start_def)
  then show ?thesis
    using assms by (simp add: events_route_def require_owner_def parse_last_event_id_def Let_def new_stream_def
        stream_event_def stream_write_def stream_end_def)
qed

end
