(* ===== verification/WorkspaceStore.thy ===== *)
theory WorkspaceStore imports Wire begin

text \<open>
  \<^verbatim>\<open>packages/daemon/src/workspace/workspace-store.ts\<close>: the worker's cache of repositories and checkouts. Work on one
  repository waits in the repository's lock queue; the head of a queue runs, and what runs under the lock is a
  step (two for a checkout: the decision, and the removal and creation it decided on). Outside the locks run the
  synchronous parts: arrivals, releases, the choices of an eviction pass, \<open>stop\<close>. What git and the disk answer is the
  environment of a step; the directories themselves are part of the state.
\<close>

section \<open>Errors\<close>

datatype ws_error_code =
    RepoNotAllowed | BundleInvalid | CommitNotDelivered | NotSynced | GitFailed | WriteInProgress | NoWriteWorkspace

record ws_error =
  we_code :: ws_error_code
  we_message :: string
  we_details :: "(string \<times> string option) list"

definition ws_err :: "ws_error_code \<Rightarrow> string \<Rightarrow> (string \<times> string option) list \<Rightarrow> ws_error" where
  "ws_err c m d = \<lparr>we_code = c, we_message = m, we_details = d\<rparr>"

fun ws_wire_code :: "ws_error_code \<Rightarrow> hfp_error_code" where
  "ws_wire_code RepoNotAllowed = WORKSPACE_UNAVAILABLE"
| "ws_wire_code NotSynced = WORKSPACE_UNAVAILABLE"
| "ws_wire_code GitFailed = INTERNAL"
| "ws_wire_code _ = INVALID_REQUEST"

definition detail_json :: "string option \<Rightarrow> json" where
  "detail_json d = (case d of None \<Rightarrow> JNull | Some s \<Rightarrow> JStr s)"

text \<open>Every error but the shutdown one carries details.\<close>

definition ws_to_hfp :: "ws_error \<Rightarrow> hfp_error" where
  "ws_to_hfp e = \<lparr>err_code = ws_wire_code (we_code e), err_message = we_message e,
     err_details = (if we_details e = [] then None else Some (JObj (map (\<lambda>(k, d). (k, detail_json d)) (we_details e))))\<rparr>"

section \<open>State\<close>

type_synonym co_key = "string \<times> string"

text \<open>A directory holds a worktree with a HEAD (\<open>None\<close>: unreadable), complete or not.\<close>

record worktree =
  wt_head :: "string option"
  wt_complete :: bool

record checkout =
  ck_usedAt :: nat
  ck_refcount :: nat

datatype pass_state = PassReady | PassWaits co_key | PassDone

text \<open>While the eviction pass it started runs, a read handle is not handed to its caller yet.\<close>

datatype read_state = ReadQueued | ReadEvicting pass_state | ReadLive | ReadReleased | ReadFailed ws_error

record read_handle =
  rh_ref :: workspace_ref
  rh_state :: read_state

datatype write_state = WriteQueued | WriteLive | WriteLeaving | WriteReleased | WriteFailed ws_error

record write_handle =
  wh_job :: string
  wh_ref :: workspace_ref
  wh_state :: write_state

text \<open>The registry entry of a write job: the handle that made it stands for the object's identity.\<close>

record write_entry =
  we_owner :: nat
  we_repoKey :: string
  we_base :: string

record bare_repo =
  br_tip :: "string option"
  br_incoming :: "string option"
  br_branches :: "string list"

datatype lock_task =
    ReadTask nat
  | PlaceTask nat bool
  | EvictTask "nat option" co_key
  | WriteTask nat
  | WriteGoneTask nat
  | ApplyTask nat string string
  | HaveTask nat
  | FinalizeTask nat string jtext nat

text \<open>The settled promises of \<open>applyBundle\<close> and \<open>finalizeWriteJob\<close>; a raw file-system error of the first escapes.\<close>

datatype apply_result = Applied | ApplyFailed ws_error | ApplyThrew string

datatype finalize_result =
    FinalizedClean | Finalized write_artifact "string \<times> string" nat | FinalizeAborted | FinalizeFailed ws_error

record ws_options =
  wo_repoKey :: "string \<Rightarrow> string"
  wo_allowed :: "string list"
  wo_maxBundleBytes :: nat
  wo_maxCached :: nat
  wo_gcAfter :: nat

record ws_store =
  wk_stopped :: bool
  wk_locks :: "string \<Rightarrow> lock_task list"
  wk_checkouts :: "(co_key, checkout) jmap"
  wk_writes :: "(string, write_entry) jmap"
  wk_fetches :: "string \<Rightarrow> nat"
  wk_tick :: nat
  wk_reads :: "read_handle list"
  wk_writers :: "write_handle list"
  wk_initPass :: pass_state
  wk_disk :: "co_key \<Rightarrow> worktree option"
  wk_jobDirs :: "string \<times> string \<Rightarrow> worktree option"
  wk_repos :: "string \<Rightarrow> bare_repo option"
  wk_bundles :: "string \<times> string \<Rightarrow> bool"
  wk_applied :: "(nat \<times> apply_result) list"
  wk_tips :: "(nat \<times> string option) list"
  wk_finalized :: "(nat \<times> finalize_result) list"

text \<open>What git and the disk answer while a task runs. A failed command comes with its description; a failed
  removal or \<open>worktree add\<close> also with what it left behind, and a failed \<open>update-ref\<close> with whether the ref moved all the
  same (a git that was killed counts as failed whatever it did). A job's abort may be there when its finalize starts or come
  while it runs.\<close>

record ws_env =
  we_present :: "string \<Rightarrow> bool"
  we_headReadable :: bool
  we_rm :: "(string \<times> worktree option) option"
  we_mkdir :: "string option"
  we_add :: "(string \<times> worktree option) option"
  we_init :: "(string \<times> bool) option"
  we_bundleOk :: bool
  we_advertised :: "string option"
  we_fetch :: "string option"
  we_delivered :: "string option"
  we_update :: "(string \<times> bool) option"
  we_tipReadable :: bool
  we_deletes :: bool
  we_jobAborted :: bool
  we_abortedSince :: bool
  we_commit :: "string + string option"
  we_diffStat :: "string + diff_stat"
  we_bundle :: "(string \<times> bool) option"
  we_stat :: "string + nat"

section \<open>Keys\<close>

definition KEY_HEX_CHARS :: nat where "KEY_HEX_CHARS = 16"

definition commit_key :: "string \<Rightarrow> string" where
  "commit_key headCommit = take KEY_HEX_CHARS headCommit"

definition ref_key :: "ws_options \<Rightarrow> workspace_ref \<Rightarrow> co_key" where
  "ref_key opt r = (wo_repoKey opt (ws_repoId r), commit_key (ws_headCommit r))"

section \<open>Guards\<close>

definition stopped_error :: ws_error where
  "stopped_error = ws_err GitFailed ''workspace store is stopped (daemon shutting down)'' []"

definition is_allowed :: "ws_options \<Rightarrow> string \<Rightarrow> bool" where
  "is_allowed opt repoId = (repoId \<in> set (wo_allowed opt))"

text \<open>\<open>requireNotStopped\<close> and \<open>requireAllowed\<close>, as every entry point calls them.\<close>

definition entry_refused :: "ws_options \<Rightarrow> string \<Rightarrow> ws_store \<Rightarrow> ws_error option" where
  "entry_refused opt repoId s =
     (if wk_stopped s then Some stopped_error
      else if \<not> is_allowed opt repoId then
        Some (ws_err RepoNotAllowed ''repo is not on this worker's allowlist'' [(''repoId'', Some repoId)])
      else None)"

definition ref_details :: "workspace_ref \<Rightarrow> (string \<times> string option) list" where
  "ref_details r = [(''repoId'', Some (ws_repoId r)), (''headCommit'', Some (ws_headCommit r))]"

definition require_synced :: "ws_options \<Rightarrow> ws_env \<Rightarrow> workspace_ref \<Rightarrow> ws_store \<Rightarrow> ws_error option" where
  "require_synced opt env r s =
     (if wk_repos s (wo_repoKey opt (ws_repoId r)) = None then
        Some (ws_err NotSynced ''repo has not been synced to this worker yet'' [(''repoId'', Some (ws_repoId r))])
      else if \<not> we_present env (ws_headCommit r) then
        Some (ws_err NotSynced ''requested commit is not present in the worker cache; sync first'' (ref_details r))
      else None)"

section \<open>The checkout map\<close>

definition touch :: "co_key \<Rightarrow> ws_store \<Rightarrow> ws_store" where
  "touch k s =
     (let t = wk_tick s + 1
      in s\<lparr>wk_tick := t,
           wk_checkouts := jmap_set (wk_checkouts s) k
             (case jmap_get (wk_checkouts s) k of
                Some c \<Rightarrow> c\<lparr>ck_usedAt := t\<rparr>
              | None \<Rightarrow> \<lparr>ck_usedAt = t, ck_refcount = 0\<rparr>)\<rparr>)"

definition pin :: "co_key \<Rightarrow> ws_store \<Rightarrow> ws_store" where
  "pin k s =
     (case jmap_get (wk_checkouts s) k of
        None \<Rightarrow> s
      | Some c \<Rightarrow> s\<lparr>wk_checkouts := jmap_set (wk_checkouts s) k (c\<lparr>ck_refcount := ck_refcount c + 1\<rparr>)\<rparr>)"

definition unpin :: "co_key \<Rightarrow> ws_store \<Rightarrow> ws_store" where
  "unpin k s =
     (case jmap_get (wk_checkouts s) k of
        None \<Rightarrow> s
      | Some c \<Rightarrow> if 0 < ck_refcount c
          then s\<lparr>wk_checkouts := jmap_set (wk_checkouts s) k (c\<lparr>ck_refcount := ck_refcount c - 1\<rparr>)\<rparr> else s)"

definition is_pinned :: "co_key \<Rightarrow> ws_store \<Rightarrow> bool" where
  "is_pinned k s = (case jmap_get (wk_checkouts s) k of None \<Rightarrow> False | Some c \<Rightarrow> 0 < ck_refcount c)"

section \<open>The lock\<close>

definition enqueue :: "string \<Rightarrow> lock_task \<Rightarrow> ws_store \<Rightarrow> ws_store" where
  "enqueue rk t s = s\<lparr>wk_locks := (wk_locks s)(rk := wk_locks s rk @ [t])\<rparr>"

definition leave_lock :: "string \<Rightarrow> ws_store \<Rightarrow> ws_store" where
  "leave_lock rk s = s\<lparr>wk_locks := (wk_locks s)(rk := tl (wk_locks s rk))\<rparr>"

section \<open>Resolving a checkout\<close>

definition set_read :: "nat \<Rightarrow> read_state \<Rightarrow> ws_store \<Rightarrow> ws_store" where
  "set_read i st s = s\<lparr>wk_reads := (wk_reads s)[i := (wk_reads s ! i)\<lparr>rh_state := st\<rparr>]\<rparr>"

definition resolve_read :: "ws_options \<Rightarrow> workspace_ref \<Rightarrow> ws_store \<Rightarrow> ws_error option \<times> ws_store" where
  "resolve_read opt r s =
     (case entry_refused opt (ws_repoId r) s of
        Some e \<Rightarrow> (Some e, s)
      | None \<Rightarrow> (None, enqueue (wo_repoKey opt (ws_repoId r)) (ReadTask (length (wk_reads s)))
                  (s\<lparr>wk_reads := wk_reads s @ [\<lparr>rh_ref = r, rh_state = ReadQueued\<rparr>]\<rparr>)))"

datatype read_plan = PlanFail ws_error | PlanReuse | PlanPlace bool

text \<open>Verify on reuse: what to do with the directory the truncated commit key names.\<close>

definition plan_read :: "ws_options \<Rightarrow> ws_env \<Rightarrow> workspace_ref \<Rightarrow> ws_store \<Rightarrow> read_plan" where
  "plan_read opt env r s =
     (case require_synced opt env r s of
        Some e \<Rightarrow> PlanFail e
      | None \<Rightarrow>
          (case wk_disk s (ref_key opt r) of
             None \<Rightarrow> PlanPlace False
           | Some w \<Rightarrow>
               (let actual = (if we_headReadable env then wt_head w else None)
                in if actual = Some (ws_headCommit r) then PlanReuse
                   else case actual of
                     None \<Rightarrow>
                       if is_pinned (ref_key opt r) s then
                         PlanFail (ws_err GitFailed ''could not read checkout HEAD to verify reuse of a checkout pinned by a running job'' (ref_details r))
                       else if wk_stopped s then
                         PlanFail (ws_err GitFailed ''could not read checkout HEAD (store is stopping)'' (ref_details r))
                       else PlanPlace True
                   | Some c \<Rightarrow>
                       if is_pinned (ref_key opt r) s then
                         PlanFail (ws_err GitFailed ''checkout dir holds a different commit and is pinned by a running job (truncated commit-key conflict); retry later''
                           (ref_details r @ [(''checkedOut'', Some c)]))
                       else PlanPlace True)))"

text \<open>The end of the locked section: the checkout is tracked and pinned, and the eviction pass starts.\<close>

definition hand_out :: "ws_options \<Rightarrow> nat \<Rightarrow> workspace_ref \<Rightarrow> ws_store \<Rightarrow> ws_store" where
  "hand_out opt i r s =
     set_read i (ReadEvicting PassReady) (pin (ref_key opt r) (touch (ref_key opt r) s))"

definition run_read :: "ws_options \<Rightarrow> ws_env \<Rightarrow> nat \<Rightarrow> ws_store \<Rightarrow> ws_store" where
  "run_read opt env i s =
     (let r = rh_ref (wk_reads s ! i); rk = wo_repoKey opt (ws_repoId r)
      in case plan_read opt env r s of
           PlanFail e \<Rightarrow> set_read i (ReadFailed e) (leave_lock rk s)
         | PlanReuse \<Rightarrow> hand_out opt i r (leave_lock rk s)
         | PlanPlace remove \<Rightarrow> s\<lparr>wk_locks := (wk_locks s)(rk := PlaceTask i remove # tl (wk_locks s rk))\<rparr>)"

definition remove_failed :: "workspace_ref \<Rightarrow> string \<Rightarrow> ws_error" where
  "remove_failed r msg = ws_err GitFailed (''could not remove checkout dir: '' @ msg) (ref_details r)"

text \<open>\<open>removeWorktree\<close>, the removal of the directory, \<open>addWorktree\<close>.\<close>

definition run_place :: "ws_options \<Rightarrow> ws_env \<Rightarrow> nat \<Rightarrow> ws_store \<Rightarrow> ws_store" where
  "run_place opt env i s =
     (let r = rh_ref (wk_reads s ! i); k = ref_key opt r; s1 = leave_lock (wo_repoKey opt (ws_repoId r)) s
      in case we_rm env of
           Some (msg, left) \<Rightarrow> set_read i (ReadFailed (remove_failed r msg)) (s1\<lparr>wk_disk := (wk_disk s1)(k := left)\<rparr>)
         | None \<Rightarrow>
             (case we_add env of
                Some (why, left) \<Rightarrow>
                  set_read i (ReadFailed (ws_err GitFailed (''could not materialize checkout: '' @ why) (ref_details r)))
                    (s1\<lparr>wk_disk := (wk_disk s1)(k := left)\<rparr>)
              | None \<Rightarrow>
                  hand_out opt i r
                    (s1\<lparr>wk_disk := (wk_disk s1)(k := Some \<lparr>wt_head = Some (ws_headCommit r), wt_complete = True\<rparr>)\<rparr>)))"

text \<open>\<open>release\<close>: the unpin, once.\<close>

definition release_read :: "ws_options \<Rightarrow> nat \<Rightarrow> ws_store \<Rightarrow> ws_store" where
  "release_read opt i s =
     (if i < length (wk_reads s) \<and> rh_state (wk_reads s ! i) = ReadLive
      then set_read i ReadReleased (unpin (ref_key opt (rh_ref (wk_reads s ! i))) s) else s)"

section \<open>Eviction\<close>

text \<open>The least recently used unpinned entry, the first of equals.\<close>

fun scan_victim :: "(co_key \<times> checkout) option \<Rightarrow> (co_key, checkout) jmap \<Rightarrow> (co_key \<times> checkout) option" where
  "scan_victim best [] = best"
| "scan_victim best ((k, c) # m) =
     (if 0 < ck_refcount c then scan_victim best m
      else case best of
        None \<Rightarrow> scan_victim (Some (k, c)) m
      | Some (_, b) \<Rightarrow> scan_victim (if ck_usedAt c < ck_usedAt b then Some (k, c) else best) m)"

text \<open>A pass runs for a read handle, or (\<open>None\<close>) for \<open>init\<close>.\<close>

definition pass_of :: "nat option \<Rightarrow> ws_store \<Rightarrow> pass_state" where
  "pass_of p s =
     (case p of
        None \<Rightarrow> wk_initPass s
      | Some i \<Rightarrow> if i < length (wk_reads s)
          then (case rh_state (wk_reads s ! i) of ReadEvicting st \<Rightarrow> st | _ \<Rightarrow> PassDone) else PassDone)"

definition set_pass :: "nat option \<Rightarrow> pass_state \<Rightarrow> ws_store \<Rightarrow> ws_store" where
  "set_pass p st s = (case p of None \<Rightarrow> s\<lparr>wk_initPass := st\<rparr> | Some i \<Rightarrow> set_read i (ReadEvicting st) s)"

text \<open>The pass returns: the handle it ran for is handed to its caller.\<close>

definition end_pass :: "nat option \<Rightarrow> ws_store \<Rightarrow> ws_store" where
  "end_pass p s = (case p of None \<Rightarrow> s\<lparr>wk_initPass := PassDone\<rparr> | Some i \<Rightarrow> set_read i ReadLive s)"

definition advance_pass :: "ws_options \<Rightarrow> nat option \<Rightarrow> ws_store \<Rightarrow> ws_store" where
  "advance_pass opt p s =
     (if pass_of p s \<noteq> PassReady then s
      else if \<not> wo_maxCached opt < length (wk_checkouts s) then end_pass p s
      else if wk_stopped s then end_pass p s
      else case scan_victim None (wk_checkouts s) of
        None \<Rightarrow> end_pass p s
      | Some (k, _) \<Rightarrow>
          enqueue (fst k) (EvictTask p k)
            (set_pass p (PassWaits k) (s\<lparr>wk_checkouts := jmap_delete (wk_checkouts s) k\<rparr>)))"

text \<open>The removal, when the lock is its: not after \<open>stop\<close>, and not when a resolve ahead of it reused the directory. A
  failed removal is logged.\<close>

definition run_evict :: "ws_env \<Rightarrow> nat option \<Rightarrow> co_key \<Rightarrow> ws_store \<Rightarrow> ws_store" where
  "run_evict env p k s =
     (let s1 = leave_lock (fst k) s
      in if wk_stopped s then end_pass p s1
         else if jmap_has (wk_checkouts s) k then set_pass p PassReady s1
         else set_pass p PassReady
           (s1\<lparr>wk_disk := (wk_disk s1)(k := (case we_rm env of None \<Rightarrow> None | Some (_, left) \<Rightarrow> left))\<rparr>))"

section \<open>Write worktrees\<close>

definition job_dir :: "ws_options \<Rightarrow> workspace_ref \<Rightarrow> string \<Rightarrow> string \<times> string" where
  "job_dir opt r j = (wo_repoKey opt (ws_repoId r), job_id_12 j)"

definition set_writer :: "nat \<Rightarrow> write_state \<Rightarrow> ws_store \<Rightarrow> ws_store" where
  "set_writer i st s = s\<lparr>wk_writers := (wk_writers s)[i := (wk_writers s ! i)\<lparr>wh_state := st\<rparr>]\<rparr>"

definition resolve_write :: "ws_options \<Rightarrow> workspace_ref \<Rightarrow> string \<Rightarrow> ws_store \<Rightarrow> ws_error option \<times> ws_store" where
  "resolve_write opt r j s =
     (case entry_refused opt (ws_repoId r) s of
        Some e \<Rightarrow> (Some e, s)
      | None \<Rightarrow>
          if jmap_has (wk_writes s) j then
            (Some (ws_err WriteInProgress ''a write worktree for this job is already live (not yet released)''
               [(''repoId'', Some (ws_repoId r)), (''jobId'', Some j)]), s)
          else
            (let i = length (wk_writers s); rk = wo_repoKey opt (ws_repoId r)
             in (None, enqueue rk (WriteTask i)
                  (s\<lparr>wk_writes := jmap_set (wk_writes s) j \<lparr>we_owner = i, we_repoKey = rk, we_base = ws_headCommit r\<rparr>,
                     wk_writers := wk_writers s @ [\<lparr>wh_job = j, wh_ref = r, wh_state = WriteQueued\<rparr>]\<rparr>))))"

definition write_failed :: "nat \<Rightarrow> ws_error \<Rightarrow> ws_store \<Rightarrow> ws_store" where
  "write_failed i e s = set_writer i (WriteFailed e) (s\<lparr>wk_writes := jmap_delete (wk_writes s) (wh_job (wk_writers s ! i))\<rparr>)"

definition run_write :: "ws_options \<Rightarrow> ws_env \<Rightarrow> nat \<Rightarrow> ws_store \<Rightarrow> ws_store" where
  "run_write opt env i s =
     (let h = wk_writers s ! i; r = wh_ref h; d = job_dir opt r (wh_job h); s1 = leave_lock (fst d) s
      in if wk_stopped s then write_failed i stopped_error s1
         else case require_synced opt env r s of
           Some e \<Rightarrow> write_failed i e s1
         | None \<Rightarrow>
             (case we_rm env of
                Some (msg, left) \<Rightarrow>
                  write_failed i (remove_failed r msg) (s1\<lparr>wk_jobDirs := (wk_jobDirs s1)(d := left)\<rparr>)
              | None \<Rightarrow>
                  (let s2 = s1\<lparr>wk_jobDirs := (wk_jobDirs s1)(d := None)\<rparr>
                   in case we_mkdir env of
                        Some msg \<Rightarrow> write_failed i (ws_err GitFailed (''could not create write-job dir: '' @ msg) (ref_details r)) s2
                      | None \<Rightarrow>
                          (case we_add env of
                             Some (why, left) \<Rightarrow>
                               write_failed i (ws_err GitFailed (''could not materialize write worktree: '' @ why) (ref_details r))
                                 (s2\<lparr>wk_jobDirs := (wk_jobDirs s2)(d := left)\<rparr>)
                           | None \<Rightarrow>
                               set_writer i WriteLive
                                 (s2\<lparr>wk_jobDirs := (wk_jobDirs s2)
                                    (d := Some \<lparr>wt_head = Some (ws_headCommit r), wt_complete = True\<rparr>)\<rparr>)))))"

text \<open>The first call of \<open>release\<close>, and the teardown when the lock is its. After \<open>stop\<close> nothing is touched.\<close>

definition release_write :: "ws_options \<Rightarrow> nat \<Rightarrow> ws_store \<Rightarrow> ws_store" where
  "release_write opt i s =
     (if i < length (wk_writers s) \<and> wh_state (wk_writers s ! i) = WriteLive then
        (if wk_stopped s then set_writer i WriteReleased s
         else enqueue (wo_repoKey opt (ws_repoId (wh_ref (wk_writers s ! i)))) (WriteGoneTask i) (set_writer i WriteLeaving s))
      else s)"

definition run_write_gone :: "ws_options \<Rightarrow> ws_env \<Rightarrow> nat \<Rightarrow> ws_store \<Rightarrow> ws_store" where
  "run_write_gone opt env i s =
     (let h = wk_writers s ! i; d = job_dir opt (wh_ref h) (wh_job h); s1 = set_writer i WriteReleased (leave_lock (fst d) s)
      in if wk_stopped s then s1
         else s1\<lparr>wk_jobDirs := (wk_jobDirs s1)(d := (case we_rm env of None \<Rightarrow> None | Some (_, left) \<Rightarrow> left)),
                 wk_writes := jmap_delete (wk_writes s1) (wh_job h)\<rparr>)"

section \<open>Bundles\<close>

definition apply_bundle :: "ws_options \<Rightarrow> nat \<Rightarrow> string \<Rightarrow> string \<Rightarrow> ws_store \<Rightarrow> ws_error option \<times> ws_store" where
  "apply_bundle opt u repoId head s =
     (case entry_refused opt repoId s of
        Some e \<Rightarrow> (Some e, s)
      | None \<Rightarrow>
          if \<not> commit_hash_ok head then
            (Some (ws_err BundleInvalid ''headCommit must be a 40-char lowercase hex commit hash'' [(''headCommit'', Some head)]), s)
          else (None, enqueue (wo_repoKey opt repoId) (ApplyTask u repoId head) s))"

definition put_repo :: "string \<Rightarrow> bare_repo \<Rightarrow> ws_store \<Rightarrow> ws_store" where
  "put_repo rk b s = s\<lparr>wk_repos := (wk_repos s)(rk := Some b)\<rparr>"

text \<open>\<open>ensureRepo\<close>: the repository, or the failure; a failed \<open>git init\<close> may have created the directory.\<close>

definition ensure_repo :: "ws_env \<Rightarrow> string \<Rightarrow> string \<Rightarrow> ws_store \<Rightarrow> (apply_result + bare_repo) \<times> ws_store" where
  "ensure_repo env rk repoId s =
     (let fresh = \<lparr>br_tip = None, br_incoming = None, br_branches = []\<rparr>
      in case wk_repos s rk of
           Some b \<Rightarrow> (Inr b, s)
         | None \<Rightarrow>
             (case we_mkdir env of
                Some msg \<Rightarrow> (Inl (ApplyThrew msg), s)
              | None \<Rightarrow>
                  (case we_init env of
                     Some (msg, left) \<Rightarrow>
                       (Inl (ApplyFailed (ws_err GitFailed (''could not initialize cache: '' @ msg) [(''repoId'', Some repoId)])),
                        if left then put_repo rk fresh s else s)
                   | None \<Rightarrow> (Inr fresh, put_repo rk fresh s))))"

definition maybe_gc :: "ws_options \<Rightarrow> string \<Rightarrow> ws_store \<Rightarrow> ws_store" where
  "maybe_gc opt rk s =
     (let count = wk_fetches s rk + 1
      in s\<lparr>wk_fetches := (wk_fetches s)(rk := if count < wo_gcAfter opt then count else 0)\<rparr>)"

definition drop_incoming :: "ws_env \<Rightarrow> bare_repo \<Rightarrow> bare_repo" where
  "drop_incoming env b = (if we_deletes env then b\<lparr>br_incoming := None\<rparr> else b)"

text \<open>The locked body, from a repository that exists.\<close>

definition apply_locked :: "ws_options \<Rightarrow> ws_env \<Rightarrow> string \<Rightarrow> string \<Rightarrow> bare_repo \<Rightarrow> ws_store \<Rightarrow> apply_result \<times> ws_store" where
  "apply_locked opt env repoId head b s =
     (let rk = wo_repoKey opt repoId; d = (''repoId'', Some repoId); h = (''headCommit'', Some head)
      in if \<not> we_bundleOk env then
           (ApplyFailed (ws_err BundleInvalid
              ''received bundle failed `git bundle verify` (malformed, or its prerequisites are not present)'' [d]), s)
         else if we_advertised env \<noteq> None \<and> we_advertised env \<noteq> Some head then
           (ApplyFailed (ws_err CommitNotDelivered ''bundle advertises a head other than the claimed headCommit''
              [d, h, (''advertised'', we_advertised env)]), s)
         else case we_fetch env of
           Some why \<Rightarrow>
             (ApplyFailed (ws_err BundleInvalid (''could not unbundle received content: '' @ why) [d]),
              put_repo rk (drop_incoming env (b\<lparr>br_incoming := we_delivered env\<rparr>)) s)
         | None \<Rightarrow>
             (let b1 = b\<lparr>br_incoming := we_delivered env\<rparr>
              in if we_delivered env \<noteq> Some head \<or> \<not> we_present env head then
                   (ApplyFailed (ws_err CommitNotDelivered ''bundle did not deliver the claimed headCommit''
                      [d, h, (''delivered'', we_delivered env)]),
                    put_repo rk (drop_incoming env b1) s)
                 else case we_update env of
                   Some (why, moved) \<Rightarrow>
                     (ApplyFailed (ws_err GitFailed (''could not advance workspace tip: '' @ why) [d]),
                      put_repo rk (drop_incoming env (if moved then b1\<lparr>br_tip := Some head\<rparr> else b1)) s)
                 | None \<Rightarrow> (Applied, maybe_gc opt rk (put_repo rk (drop_incoming env (b1\<lparr>br_tip := Some head\<rparr>)) s))))"

definition run_apply :: "ws_options \<Rightarrow> ws_env \<Rightarrow> nat \<Rightarrow> string \<Rightarrow> string \<Rightarrow> ws_store \<Rightarrow> ws_store" where
  "run_apply opt env u repoId head s =
     (case ensure_repo env (wo_repoKey opt repoId) repoId (leave_lock (wo_repoKey opt repoId) s) of
        (Inl e, s1) \<Rightarrow> s1\<lparr>wk_applied := wk_applied s1 @ [(u, e)]\<rparr>
      | (Inr b, s1) \<Rightarrow>
          (case apply_locked opt env repoId head b s1 of
             (e, s2) \<Rightarrow> s2\<lparr>wk_applied := wk_applied s2 @ [(u, e)]\<rparr>))"

definition have_tip :: "ws_options \<Rightarrow> nat \<Rightarrow> string \<Rightarrow> ws_store \<Rightarrow> ws_error option \<times> ws_store" where
  "have_tip opt q repoId s =
     (case entry_refused opt repoId s of
        Some e \<Rightarrow> (Some e, s)
      | None \<Rightarrow> (None, enqueue (wo_repoKey opt repoId) (HaveTask q) s))"

definition run_have :: "ws_env \<Rightarrow> string \<Rightarrow> nat \<Rightarrow> ws_store \<Rightarrow> ws_store" where
  "run_have env rk q s =
     (let s1 = leave_lock rk s
      in s1\<lparr>wk_tips := wk_tips s1 @ [(q, if we_tipReadable env then Option.bind (wk_repos s rk) br_tip else None)]\<rparr>)"

section \<open>Finalizing a write job\<close>

definition no_write_workspace :: "string \<Rightarrow> string \<Rightarrow> ws_error" where
  "no_write_workspace message j = ws_err NoWriteWorkspace message [(''jobId'', Some j)]"

definition finalize_write :: "nat \<Rightarrow> bool \<Rightarrow> string \<Rightarrow> jtext \<Rightarrow> ws_store \<Rightarrow> finalize_result option \<times> ws_store" where
  "finalize_write f aborted j message s =
     (if wk_stopped s then (Some (FinalizeFailed stopped_error), s)
      else if aborted then (Some FinalizeAborted, s)
      else case jmap_get (wk_writes s) j of
        None \<Rightarrow> (Some (FinalizeFailed (no_write_workspace
                   ''no live write worktree for this job (never resolved, or already released)'' j)), s)
      | Some e \<Rightarrow> (None, enqueue (we_repoKey e) (FinalizeTask f j message (we_owner e)) s))"

definition finalize_failure :: "ws_env \<Rightarrow> string \<Rightarrow> string \<Rightarrow> finalize_result" where
  "finalize_failure env j message =
     (if we_abortedSince env then FinalizeAborted else FinalizeFailed (ws_err GitFailed message [(''jobId'', Some j)]))"

text \<open>From the commit on: the branch ref, the diffstat, the bundle, its size; once the ref was created it is deleted
  whatever happened.\<close>

definition deliver_commit :: "ws_env \<Rightarrow> string \<Rightarrow> jtext \<Rightarrow> write_entry \<Rightarrow> string \<Rightarrow> ws_store \<Rightarrow> finalize_result \<times> ws_store" where
  "deliver_commit env j message e head s =
     (let rk = we_repoKey e; path = (rk, job_id_12 j);
          branched = s\<lparr>wk_repos := (wk_repos s)(rk := map_option
            (\<lambda>b. b\<lparr>br_branches := jset_add (write_branch_name j) (br_branches b)\<rparr>) (wk_repos s rk))\<rparr>
      in case we_update env of
           Some (why, moved) \<Rightarrow>
             (finalize_failure env j (''could not create the artifact branch ref: '' @ why), if moved then branched else s)
         | None \<Rightarrow>
             (let s1 = (if we_deletes env then s else branched)
              in case we_diffStat env of
                   Inl msg \<Rightarrow> (finalize_failure env j (''could not measure the artifact diffstat: '' @ msg), s1)
                 | Inr ds \<Rightarrow>
                     (case we_bundle env of
                        Some (why, left) \<Rightarrow>
                          (finalize_failure env j (''could not bundle the artifact: '' @ why),
                           s1\<lparr>wk_bundles := (wk_bundles s1)(path := left)\<rparr>)
                      | None \<Rightarrow>
                          (let s2 = s1\<lparr>wk_bundles := (wk_bundles s1)(path := True)\<rparr>
                           in case we_stat env of
                                Inl msg \<Rightarrow> (finalize_failure env j (''could not stat the artifact bundle: '' @ msg), s2)
                              | Inr n \<Rightarrow>
                                  (Finalized \<lparr>art_branchName = write_branch_name j, art_baseCommit = we_base e,
                                     art_headCommit = head, art_diffStat = ds, art_commitMessage = message\<rparr> path n, s2)))))"

definition run_finalize :: "ws_env \<Rightarrow> string \<Rightarrow> nat \<Rightarrow> string \<Rightarrow> jtext \<Rightarrow> nat \<Rightarrow> ws_store \<Rightarrow> ws_store" where
  "run_finalize env rk f j message owner s =
     (let s1 = leave_lock rk s;
          finish = (\<lambda>(x, t). t\<lparr>wk_finalized := wk_finalized t @ [(f, x)]\<rparr>)
      in if wk_stopped s then finish (FinalizeFailed stopped_error, s1)
         else if we_jobAborted env then finish (FinalizeAborted, s1)
         else case jmap_get (wk_writes s) j of
           None \<Rightarrow> finish (FinalizeFailed (no_write_workspace ''the write worktree for this job was released before finalize ran'' j), s1)
         | Some e \<Rightarrow>
             if we_owner e \<noteq> owner then
               finish (FinalizeFailed (no_write_workspace ''the write worktree for this job was released before finalize ran'' j), s1)
             else (case we_commit env of
               Inl msg \<Rightarrow> finish (finalize_failure env j (''could not commit write-job changes: '' @ msg), s1)
             | Inr None \<Rightarrow> finish (FinalizedClean, s1)
             | Inr (Some head) \<Rightarrow>
                 finish (deliver_commit env j message e head
                   (s1\<lparr>wk_jobDirs := (wk_jobDirs s1)((rk, job_id_12 j) :=
                        Some \<lparr>wt_head = Some head, wt_complete = True\<rparr>)\<rparr>))))"

section \<open>Start, stop, steps\<close>

definition stop_store :: "ws_store \<Rightarrow> ws_store" where
  "stop_store s = s\<lparr>wk_stopped := True\<rparr>"

text \<open>\<open>init\<close>: the job directories are purged and leaked branches swept, the checkouts found are registered oldest first,
  and a pass enforces the cap. \<open>disk\<close> and \<open>repos\<close> are what the previous run left.\<close>

fun register_existing :: "co_key list \<Rightarrow> nat \<Rightarrow> (co_key, checkout) jmap \<Rightarrow> nat \<times> (co_key, checkout) jmap" where
  "register_existing [] t m = (t, m)"
| "register_existing (k # ks) t m = register_existing ks (t + 1) (jmap_set m k \<lparr>ck_usedAt = t + 1, ck_refcount = 0\<rparr>)"

definition opened_store :: "co_key list \<Rightarrow> (co_key \<Rightarrow> worktree option) \<Rightarrow> (string \<Rightarrow> bare_repo option) \<Rightarrow> ws_store" where
  "opened_store found disk repos =
     (case register_existing found 0 [] of
        (t, m) \<Rightarrow>
          \<lparr>wk_stopped = False, wk_locks = (\<lambda>_. []), wk_checkouts = m, wk_writes = [], wk_fetches = (\<lambda>_. 0), wk_tick = t,
           wk_reads = [], wk_writers = [], wk_initPass = PassReady, wk_disk = disk,
           wk_jobDirs = (\<lambda>_. None), wk_repos = (\<lambda>rk. map_option (\<lambda>b. b\<lparr>br_branches := []\<rparr>) (repos rk)),
           wk_bundles = (\<lambda>_. False), wk_applied = [], wk_tips = [], wk_finalized = []\<rparr>)"

text \<open>The head of a queue runs.\<close>

definition run_lock :: "ws_options \<Rightarrow> ws_env \<Rightarrow> string \<Rightarrow> ws_store \<Rightarrow> ws_store" where
  "run_lock opt env rk s =
     (case wk_locks s rk of
        [] \<Rightarrow> s
      | t # _ \<Rightarrow>
          (case t of
             ReadTask i \<Rightarrow> run_read opt env i s
           | PlaceTask i remove \<Rightarrow> run_place opt env i s
           | EvictTask p k \<Rightarrow> run_evict env p k s
           | WriteTask i \<Rightarrow> run_write opt env i s
           | WriteGoneTask i \<Rightarrow> run_write_gone opt env i s
           | ApplyTask u repoId head \<Rightarrow> run_apply opt env u repoId head s
           | HaveTask q \<Rightarrow> run_have env rk q s
           | FinalizeTask f j message owner \<Rightarrow> run_finalize env rk f j message owner s))"

datatype ws_action =
    WsResolve workspace_ref
  | WsResolveWrite workspace_ref string
  | WsApply nat string string
  | WsHave nat string
  | WsFinalize nat bool string jtext
  | WsRun string
  | WsPass "nat option"
  | WsRelease nat
  | WsReleaseWrite nat
  | WsStop

fun ws_step :: "ws_options \<Rightarrow> ws_env \<Rightarrow> ws_action \<Rightarrow> ws_store \<Rightarrow> ws_store" where
  "ws_step opt env (WsResolve r) s = snd (resolve_read opt r s)"
| "ws_step opt env (WsResolveWrite r j) s = snd (resolve_write opt r j s)"
| "ws_step opt env (WsApply u repoId head) s = snd (apply_bundle opt u repoId head s)"
| "ws_step opt env (WsHave q repoId) s = snd (have_tip opt q repoId s)"
| "ws_step opt env (WsFinalize f aborted j message) s = snd (finalize_write f aborted j message s)"
| "ws_step opt env (WsRun rk) s = run_lock opt env rk s"
| "ws_step opt env (WsPass p) s = advance_pass opt p s"
| "ws_step opt env (WsRelease i) s = release_read opt i s"
| "ws_step opt env (WsReleaseWrite i) s = release_write opt i s"
| "ws_step opt env WsStop s = stop_store s"

end
