(* ===== verification/WorkspaceInvariant.thy ===== *)
theory WorkspaceInvariant imports WorkspaceStore begin

text \<open>
  What every state of the workspace store satisfies, whatever the order of resolves, releases, evictions, uploads and
  write jobs: reference counts are the outstanding handles, a directory that is handed out holds the commit asked for,
  and the lock queues only hold work that is still due.
\<close>

section \<open>The invariant\<close>

definition holds :: "read_handle \<Rightarrow> bool" where
  "holds h = (case rh_state h of ReadEvicting _ \<Rightarrow> True | ReadLive \<Rightarrow> True | _ \<Rightarrow> False)"

definition pins :: "ws_options \<Rightarrow> co_key \<Rightarrow> read_handle list \<Rightarrow> nat" where
  "pins opt k hs = length (filter (\<lambda>h. holds h \<and> ref_key opt (rh_ref h) = k) hs)"

definition refs :: "(co_key, checkout) jmap \<Rightarrow> co_key \<Rightarrow> nat" where
  "refs m k = (case jmap_get m k of None \<Rightarrow> 0 | Some c \<Rightarrow> ck_refcount c)"

definition has_commit :: "ws_options \<Rightarrow> (co_key \<Rightarrow> worktree option) \<Rightarrow> read_handle \<Rightarrow> bool" where
  "has_commit opt disk h =
     (\<exists>w. disk (ref_key opt (rh_ref h)) = Some w \<and> wt_head w = Some (ws_headCommit (rh_ref h)))"

fun subject :: "lock_task \<Rightarrow> nat option option" where
  "subject (ReadTask i) = Some (Some i)"
| "subject (PlaceTask i _) = Some (Some i)"
| "subject (EvictTask p _) = Some p"
| "subject _ = None"

fun is_place :: "lock_task \<Rightarrow> bool" where
  "is_place (PlaceTask _ _) = True"
| "is_place _ = False"

fun task_ok :: "ws_options \<Rightarrow> string \<Rightarrow> read_handle list \<Rightarrow> pass_state \<Rightarrow> lock_task \<Rightarrow> bool" where
  "task_ok opt rk hs ip (ReadTask i) =
     (i < length hs \<and> rh_state (hs ! i) = ReadQueued \<and> fst (ref_key opt (rh_ref (hs ! i))) = rk)"
| "task_ok opt rk hs ip (PlaceTask i _) =
     (i < length hs \<and> rh_state (hs ! i) = ReadQueued \<and> fst (ref_key opt (rh_ref (hs ! i))) = rk \<and>
      pins opt (ref_key opt (rh_ref (hs ! i))) hs = 0)"
| "task_ok opt rk hs ip (EvictTask (Some i) k) =
     (i < length hs \<and> rh_state (hs ! i) = ReadEvicting (PassWaits k) \<and> fst k = rk)"
| "task_ok opt rk hs ip (EvictTask None k) = (ip = PassWaits k \<and> fst k = rk)"
| "task_ok opt rk hs ip _ = True"

definition queue_ok :: "ws_options \<Rightarrow> string \<Rightarrow> read_handle list \<Rightarrow> pass_state \<Rightarrow> lock_task list \<Rightarrow> bool" where
  "queue_ok opt rk hs ip q =
     (list_all (task_ok opt rk hs ip) q \<and> distinct (List.map_filter subject q) \<and> \<not> list_ex is_place (tl q))"

definition ws_inv :: "ws_options \<Rightarrow> ws_store \<Rightarrow> bool" where
  "ws_inv opt s =
     (jmap_ok (wk_checkouts s) \<and> (\<forall>k. refs (wk_checkouts s) k = pins opt k (wk_reads s)) \<and>
      (\<forall>h \<in> set (wk_reads s). holds h \<longrightarrow> has_commit opt (wk_disk s) h) \<and>
      (\<forall>rk. queue_ok opt rk (wk_reads s) (wk_initPass s) (wk_locks s rk)))"

section \<open>Counting\<close>

lemma holds_simps [simp]:
  "rh_state h = ReadQueued \<Longrightarrow> \<not> holds h" "rh_state h = ReadLive \<Longrightarrow> holds h" "rh_state h = ReadReleased \<Longrightarrow> \<not> holds h"
  "rh_state h = ReadEvicting p \<Longrightarrow> holds h" "rh_state h = ReadFailed e \<Longrightarrow> \<not> holds h"
  by (simp_all add: holds_def)

lemma filter_update_length:
  "i < length xs \<Longrightarrow> length (filter P (xs[i := y])) + (if P (xs ! i) then 1 else 0) =
     length (filter P xs) + (if P y then 1 else 0)"
proof (induction xs arbitrary: i)
  case (Cons x xs)
  then show ?case by (cases i) auto
qed simp

lemma pins_update:
  assumes "i < length hs"
  shows "pins opt k (hs[i := h]) + (if holds (hs ! i) \<and> ref_key opt (rh_ref (hs ! i)) = k then 1 else 0) =
    pins opt k hs + (if holds h \<and> ref_key opt (rh_ref h) = k then 1 else 0)"
  unfolding pins_def by (rule filter_update_length [OF assms])

lemma pins_append: "pins opt k (hs @ [h]) = pins opt k hs + (if holds h \<and> ref_key opt (rh_ref h) = k then 1 else 0)"
  by (simp add: pins_def)

lemma pins_zero: "pins opt k hs = 0 \<longleftrightarrow> (\<forall>h \<in> set hs. holds h \<longrightarrow> ref_key opt (rh_ref h) \<noteq> k)"
  by (auto simp: pins_def filter_empty_conv)

lemma pins_no_disk:
  assumes "\<forall>h \<in> set hs. holds h \<longrightarrow> has_commit opt disk h" "disk k = None"
  shows "pins opt k hs = 0"
  using assms by (force simp: pins_zero has_commit_def)

lemma refs_set: "refs (jmap_set m k c) k' = (if k' = k then ck_refcount c else refs m k')"
  by (simp add: refs_def)

lemma refs_delete: "refs (jmap_delete m k) k' = (if k' = k then 0 else refs m k')"
  by (simp add: refs_def)

lemma pinned_refs: "is_pinned k s = (0 < refs (wk_checkouts s) k)"
  by (simp add: is_pinned_def refs_def split: option.split)

lemma touch_pin_refs:
  "refs (wk_checkouts (pin k (touch k s))) k' = refs (wk_checkouts s) k' + (if k' = k then 1 else 0)"
  by (auto simp: touch_def pin_def refs_def Let_def split: option.split)

lemma touch_pin_ok: "jmap_ok (wk_checkouts s) \<Longrightarrow> jmap_ok (wk_checkouts (pin k (touch k s)))"
  by (simp add: touch_def pin_def Let_def split: option.split)

lemma touch_pin_frame [simp]:
  "wk_reads (pin k (touch k s)) = wk_reads s" "wk_locks (pin k (touch k s)) = wk_locks s"
  "wk_disk (pin k (touch k s)) = wk_disk s" "wk_initPass (pin k (touch k s)) = wk_initPass s"
  by (simp_all add: touch_def pin_def Let_def split: option.split)

lemma unpin_refs: "refs (wk_checkouts (unpin k s)) k' = refs (wk_checkouts s) k' - (if k' = k then 1 else 0)"
  by (auto simp: unpin_def refs_def split: option.split)

lemma unpin_frame [simp]:
  "wk_reads (unpin k s) = wk_reads s" "wk_locks (unpin k s) = wk_locks s"
  "wk_disk (unpin k s) = wk_disk s" "wk_initPass (unpin k s) = wk_initPass s"
  by (simp_all add: unpin_def split: option.split)

lemma unpin_ok: "jmap_ok (wk_checkouts s) \<Longrightarrow> jmap_ok (wk_checkouts (unpin k s))"
  by (simp add: unpin_def split: option.split)

section \<open>Queues\<close>

definition absent :: "nat option \<Rightarrow> lock_task list \<Rightarrow> bool" where
  "absent p q = (Some p \<notin> subject ` set q)"

lemma absent_filter: "absent p q \<longleftrightarrow> p \<notin> set (List.map_filter subject q)"
  by (induction q) (auto simp: absent_def map_filter_simps split: option.splits)

lemma queue_okD: "queue_ok opt rk hs ip q \<Longrightarrow> t \<in> set q \<Longrightarrow> task_ok opt rk hs ip t"
  by (simp add: queue_ok_def list_all_iff)

lemma absent_tail:
  assumes "queue_ok opt rk hs ip (t # q)" "subject t = Some p"
  shows "absent p q"
  using assms by (simp add: queue_ok_def absent_filter map_filter_simps)

lemma queue_tail: "queue_ok opt rk hs ip q \<Longrightarrow> queue_ok opt rk hs ip (tl q)"
proof (cases q)
  case (Cons t r)
  moreover assume "queue_ok opt rk hs ip q"
  ultimately show ?thesis
    by (cases r) (auto simp: queue_ok_def map_filter_simps split: option.splits)
qed simp

lemma queue_snoc:
  assumes "queue_ok opt rk hs ip q" "task_ok opt rk hs ip t" "pred_option (\<lambda>p. absent p q) (subject t)" "\<not> is_place t"
  shows "queue_ok opt rk hs ip (q @ [t])"
proof -
  have "\<not> list_ex is_place (tl (q @ [t]))" using assms(1,4) by (cases q) (auto simp: queue_ok_def)
  with assms show ?thesis
    by (cases "subject t") (auto simp: queue_ok_def absent_filter map_filter_def)
qed

lemma queue_grow: "queue_ok opt rk hs ip q \<Longrightarrow> \<not> holds h \<Longrightarrow> queue_ok opt rk (hs @ [h]) ip q"
proof -
  assume q: "queue_ok opt rk hs ip q" and h: "\<not> holds h"
  have "task_ok opt rk (hs @ [h]) ip t" if "task_ok opt rk hs ip t" for t
    using that h by (cases "(opt, rk, hs, ip, t)" rule: task_ok.cases) (simp_all add: nth_append pins_append)
  with q show ?thesis by (auto simp: queue_ok_def list_all_iff)
qed

text \<open>Changing a handle no task of the queue is about.\<close>

lemma queue_other:
  assumes q: "queue_ok opt rk hs ip q" and a: "absent (Some i) q"
    and z: "\<And>k. fst k = rk \<Longrightarrow> list_ex is_place q \<Longrightarrow> pins opt k hs = 0 \<Longrightarrow> pins opt k (hs[i := h]) = 0"
  shows "queue_ok opt rk (hs[i := h]) ip q"
proof -
  have "task_ok opt rk (hs[i := h]) ip t" if t: "t \<in> set q" for t
  proof -
    have ok: "task_ok opt rk hs ip t" by (rule queue_okD [OF q t])
    have n: "subject t \<noteq> Some (Some i)" using a t by (force simp: absent_def)
    show ?thesis
    proof (cases t)
      case (PlaceTask j b)
      then have "list_ex is_place q" using t by (force simp: list_ex_iff)
      with PlaceTask ok n z show ?thesis by (auto simp: nth_list_update)
    next
      case (EvictTask p k)
      with ok n show ?thesis by (cases p) (auto simp: nth_list_update)
    qed (use ok n in \<open>auto simp: nth_list_update\<close>)
  qed
  with q show ?thesis by (auto simp: queue_ok_def list_all_iff)
qed

lemma queue_init: "queue_ok opt rk hs ip q \<Longrightarrow> absent None q \<Longrightarrow> queue_ok opt rk hs ip' q"
proof -
  assume q: "queue_ok opt rk hs ip q" and a: "absent None q"
  have "task_ok opt rk hs ip' t" if t: "t \<in> set q" for t
  proof -
    have n: "subject t \<noteq> Some None" using a t by (force simp: absent_def)
    show ?thesis using queue_okD [OF q t] n
      by (cases "(opt, rk, hs, ip, t)" rule: task_ok.cases) simp_all
  qed
  with q show ?thesis by (auto simp: queue_ok_def list_all_iff)
qed

text \<open>Where a handle's task can be, by its state.\<close>

lemma absent_queued:
  assumes "queue_ok opt rk hs ip q" "rh_state (hs ! i) = ReadQueued" "fst (ref_key opt (rh_ref (hs ! i))) \<noteq> rk"
  shows "absent (Some i) q"
proof -
  have "subject t \<noteq> Some (Some i)" if "t \<in> set q" for t
    using queue_okD [OF assms(1) that] assms(2,3) by (cases "(opt, rk, hs, ip, t)" rule: task_ok.cases) auto
  then show ?thesis by (force simp: absent_def)
qed

lemma absent_settled:
  assumes "queue_ok opt rk hs ip q" "rh_state (hs ! i) \<noteq> ReadQueued" "\<And>k. fst k = rk \<Longrightarrow> rh_state (hs ! i) \<noteq> ReadEvicting (PassWaits k)"
  shows "absent (Some i) q"
proof -
  have "subject t \<noteq> Some (Some i)" if "t \<in> set q" for t
    using queue_okD [OF assms(1) that] assms(2,3) by (cases "(opt, rk, hs, ip, t)" rule: task_ok.cases) auto
  then show ?thesis by (force simp: absent_def)
qed

lemma absent_init:
  assumes "queue_ok opt rk hs ip q" "\<And>k. fst k = rk \<Longrightarrow> ip \<noteq> PassWaits k"
  shows "absent None q"
proof -
  have "subject t \<noteq> Some None" if "t \<in> set q" for t
    using queue_okD [OF assms(1) that] assms(2) by (cases "(opt, rk, hs, ip, t)" rule: task_ok.cases) auto
  then show ?thesis by (force simp: absent_def)
qed

section \<open>One handle changes\<close>

lemma set_read_fields [simp]:
  "wk_checkouts (set_read i st s) = wk_checkouts s" "wk_disk (set_read i st s) = wk_disk s"
  "wk_locks (set_read i st s) = wk_locks s" "wk_initPass (set_read i st s) = wk_initPass s"
  "wk_reads (set_read i st s) = (wk_reads s)[i := (wk_reads s ! i)\<lparr>rh_state := st\<rparr>]"
  "wk_stopped (set_read i st s) = wk_stopped s"
  by (simp_all add: set_read_def)

lemma lock_fields [simp]:
  "wk_checkouts (leave_lock rk s) = wk_checkouts s" "wk_disk (leave_lock rk s) = wk_disk s"
  "wk_initPass (leave_lock rk s) = wk_initPass s" "wk_reads (leave_lock rk s) = wk_reads s"
  "wk_locks (leave_lock rk s) rk' = (if rk' = rk then tl (wk_locks s rk) else wk_locks s rk')"
  "wk_checkouts (enqueue rk t s) = wk_checkouts s" "wk_disk (enqueue rk t s) = wk_disk s"
  "wk_initPass (enqueue rk t s) = wk_initPass s" "wk_reads (enqueue rk t s) = wk_reads s"
  "wk_locks (enqueue rk t s) rk' = (if rk' = rk then wk_locks s rk @ [t] else wk_locks s rk')"
  by (simp_all add: leave_lock_def enqueue_def)

lemma ws_invD:
  assumes "ws_inv opt s"
  shows "jmap_ok (wk_checkouts s)" "refs (wk_checkouts s) k = pins opt k (wk_reads s)"
    "h \<in> set (wk_reads s) \<Longrightarrow> holds h \<Longrightarrow> has_commit opt (wk_disk s) h"
    "queue_ok opt rk (wk_reads s) (wk_initPass s) (wk_locks s rk)"
  using assms unfolding ws_inv_def by blast+

definition free_queues :: "ws_options \<Rightarrow> nat \<Rightarrow> ws_store \<Rightarrow> (string \<Rightarrow> lock_task list) \<Rightarrow> bool" where
  "free_queues opt i s L = (\<forall>rk. queue_ok opt rk (wk_reads s) (wk_initPass s) (L rk) \<and> absent (Some i) (L rk) \<and>
     (list_ex is_place (L rk) \<longrightarrow> holds (wk_reads s ! i) \<or> fst (ref_key opt (rh_ref (wk_reads s ! i))) \<noteq> rk))"

text \<open>The queues after a handle moved on.\<close>

lemma free_queues_update:
  assumes "free_queues opt i s L" "i < length (wk_reads s)" "rh_ref h = rh_ref (wk_reads s ! i)"
  shows "queue_ok opt rk ((wk_reads s)[i := h]) (wk_initPass s) (L rk)"
proof (rule queue_other)
  show "queue_ok opt rk (wk_reads s) (wk_initPass s) (L rk)" "absent (Some i) (L rk)"
    using assms(1) by (simp_all add: free_queues_def)
  fix k
  assume "fst k = rk" "list_ex is_place (L rk)" "pins opt k (wk_reads s) = 0"
  with assms show "pins opt k ((wk_reads s)[i := h]) = 0"
    using pins_update [OF assms(2), of opt k h] by (auto simp: free_queues_def split: if_splits)
qed

lemma move_inv:
  assumes inv: "ws_inv opt s" and i: "i < length (wk_reads s)" and q: "free_queues opt i s L"
    and t: "wk_reads t = (wk_reads s)[i := (wk_reads s ! i)\<lparr>rh_state := st\<rparr>]" "wk_locks t = L" "wk_initPass t = wk_initPass s"
    and m: "jmap_ok (wk_checkouts t)"
      "\<And>k. refs (wk_checkouts t) k + (if holds (wk_reads s ! i) \<and> ref_key opt (rh_ref (wk_reads s ! i)) = k then 1 else 0) =
         refs (wk_checkouts s) k + (if holds ((wk_reads s ! i)\<lparr>rh_state := st\<rparr>) \<and> ref_key opt (rh_ref (wk_reads s ! i)) = k then 1 else 0)"
    and d: "\<And>h. h \<in> set (wk_reads t) \<Longrightarrow> holds h \<Longrightarrow> has_commit opt (wk_disk t) h"
  shows "ws_inv opt t"
proof -
  have "refs (wk_checkouts t) k = pins opt k (wk_reads t)" for k
    using m(2) [of k] pins_update [OF i, of opt k "(wk_reads s ! i)\<lparr>rh_state := st\<rparr>"] ws_invD(2) [OF inv, of k] t(1)
    by (auto split: if_splits)
  moreover have "queue_ok opt rk (wk_reads t) (wk_initPass t) (wk_locks t rk)" for rk
    using free_queues_update [OF q i] t by simp
  ultimately show ?thesis using m(1) d by (simp add: ws_inv_def)
qed

lemma moved_commits:
  assumes "ws_inv opt s" "h \<in> set ((wk_reads s)[i := (wk_reads s ! i)\<lparr>rh_state := st\<rparr>])" "holds h"
    "holds (wk_reads s ! i) \<or> \<not> holds ((wk_reads s ! i)\<lparr>rh_state := st\<rparr>)" "i < length (wk_reads s)"
  shows "has_commit opt (wk_disk s) h"
proof (cases "h = (wk_reads s ! i)\<lparr>rh_state := st\<rparr>")
  case True
  then have "holds (wk_reads s ! i)" using assms(3,4) by simp
  then have "has_commit opt (wk_disk s) (wk_reads s ! i)" using ws_invD(3) [OF assms(1)] assms(5) by simp
  then show ?thesis by (simp add: True has_commit_def)
next
  case False
  then have "h \<in> set (wk_reads s)" using assms(2) by (meson insertE set_update_subset_insert subsetD)
  then show ?thesis using ws_invD(3) [OF assms(1)] assms(3) by simp
qed

text \<open>The queues once the task of a handle has left its queue, and while a handle has no task.\<close>

lemma free_leave:
  assumes "ws_inv opt s" "wk_locks s rk = t # ts" "subject t = Some (Some i)"
    "rh_state (wk_reads s ! i) = ReadQueued" "fst (ref_key opt (rh_ref (wk_reads s ! i))) = rk"
  shows "free_queues opt i s (wk_locks (leave_lock rk s))"
  unfolding free_queues_def
proof (intro allI conjI impI)
  fix rk'
  note q = ws_invD(4) [OF assms(1), of rk']
  show "queue_ok opt rk' (wk_reads s) (wk_initPass s) (wk_locks (leave_lock rk s) rk')"
    using queue_tail [OF q] q by auto
  show "absent (Some i) (wk_locks (leave_lock rk s) rk')"
    using q absent_tail [of opt rk "wk_reads s" "wk_initPass s" t ts "Some i"] assms(2,3)
      absent_queued [OF q assms(4)] assms(5) by (cases "rk' = rk") auto
  show "list_ex is_place (wk_locks (leave_lock rk s) rk') \<Longrightarrow>
    holds (wk_reads s ! i) \<or> fst (ref_key opt (rh_ref (wk_reads s ! i))) \<noteq> rk'"
    using q assms(5) by (auto simp: queue_ok_def split: if_splits)
qed

lemma free_idle:
  assumes "ws_inv opt s" "rh_state (wk_reads s ! i) \<noteq> ReadQueued" "\<And>k. rh_state (wk_reads s ! i) \<noteq> ReadEvicting (PassWaits k)"
    "holds (wk_reads s ! i)"
  shows "free_queues opt i s (wk_locks s)"
  unfolding free_queues_def
  using ws_invD(4) [OF assms(1)] absent_settled [OF ws_invD(4) [OF assms(1)] assms(2,3)] assms(4) by simp

lemma free_waiting:
  assumes "ws_inv opt s" "wk_locks s (fst k) = t # ts" "subject t = Some (Some i)"
    "rh_state (wk_reads s ! i) = ReadEvicting (PassWaits k)"
  shows "free_queues opt i s (wk_locks (leave_lock (fst k) s))"
  unfolding free_queues_def
proof (intro allI conjI impI)
  fix rk'
  note q = ws_invD(4) [OF assms(1), of rk']
  show "queue_ok opt rk' (wk_reads s) (wk_initPass s) (wk_locks (leave_lock (fst k) s) rk')"
    using queue_tail [OF q] q by auto
  show "absent (Some i) (wk_locks (leave_lock (fst k) s) rk')"
    using q absent_tail [of opt "fst k" "wk_reads s" "wk_initPass s" t ts "Some i"] assms(2-4)
      absent_settled [OF q, of i] by (cases "rk' = fst k") auto
qed (simp add: assms(4))

section \<open>Every step keeps the invariant\<close>

lemma resolve_read_inv:
  assumes "ws_inv opt s"
  shows "ws_inv opt (snd (resolve_read opt r s))"
proof (cases "entry_refused opt (ws_repoId r) s")
  case None
  let ?h = "\<lparr>rh_ref = r, rh_state = ReadQueued\<rparr>" and ?rk = "wo_repoKey opt (ws_repoId r)"
  have grow: "queue_ok opt rk (wk_reads s @ [?h]) (wk_initPass s) (wk_locks s rk)" for rk
    by (rule queue_grow [OF ws_invD(4) [OF assms]]) simp
  have "absent (Some (length (wk_reads s))) (wk_locks s ?rk)"
  proof -
    have "subject t \<noteq> Some (Some (length (wk_reads s)))" if "t \<in> set (wk_locks s ?rk)" for t
      using queue_okD [OF ws_invD(4) [OF assms] that]
      by (cases "(opt, ?rk, wk_reads s, wk_initPass s, t)" rule: task_ok.cases) auto
    then show ?thesis by (force simp: absent_def)
  qed
  then have snoc: "queue_ok opt ?rk (wk_reads s @ [?h]) (wk_initPass s) (wk_locks s ?rk @ [ReadTask (length (wk_reads s))])"
    by (intro queue_snoc [OF grow]) (simp_all add: ref_key_def)
  show ?thesis
    using assms None grow snoc ws_invD(2,3) [OF assms]
    by (simp add: ws_inv_def resolve_read_def pins_append)
qed (use assms in \<open>simp add: resolve_read_def\<close>)

lemma hand_out_inv:
  assumes inv: "ws_inv opt s" and l: "wk_locks s rk = t # ts" "subject t = Some (Some i)"
    and h: "i < length (wk_reads s)" "rh_state (wk_reads s ! i) = ReadQueued"
      "fst (ref_key opt (rh_ref (wk_reads s ! i))) = rk" "r = rh_ref (wk_reads s ! i)"
    and d: "d (ref_key opt r) = Some w" "wt_head w = Some (ws_headCommit r)"
      "\<And>k. k \<noteq> ref_key opt r \<or> pins opt (ref_key opt r) (wk_reads s) \<noteq> 0 \<Longrightarrow> d k = wk_disk s k"
  shows "ws_inv opt (hand_out opt i r ((leave_lock rk s)\<lparr>wk_disk := d\<rparr>))"
proof (rule move_inv [OF inv h(1) free_leave [OF inv l h(2,3)], where st = "ReadEvicting PassReady"])
  let ?t = "hand_out opt i r ((leave_lock rk s)\<lparr>wk_disk := d\<rparr>)"
  show "wk_reads ?t = (wk_reads s)[i := (wk_reads s ! i)\<lparr>rh_state := ReadEvicting PassReady\<rparr>]"
    "wk_locks ?t = wk_locks (leave_lock rk s)" "wk_initPass ?t = wk_initPass s" "jmap_ok (wk_checkouts ?t)"
    using ws_invD(1) [OF inv] by (simp_all add: hand_out_def touch_pin_ok)
  show "refs (wk_checkouts ?t) k + (if holds (wk_reads s ! i) \<and> ref_key opt (rh_ref (wk_reads s ! i)) = k then 1 else 0) =
      refs (wk_checkouts s) k + (if holds ((wk_reads s ! i)\<lparr>rh_state := ReadEvicting PassReady\<rparr>) \<and>
        ref_key opt (rh_ref (wk_reads s ! i)) = k then 1 else 0)" for k
    using h(2,4) by (simp add: hand_out_def touch_pin_refs)
  fix x
  assume x: "x \<in> set (wk_reads ?t)" "holds x"
  show "has_commit opt (wk_disk ?t) x"
  proof (cases "x = (wk_reads s ! i)\<lparr>rh_state := ReadEvicting PassReady\<rparr>")
    case True
    then show ?thesis using d(1,2) h(4) by (simp add: has_commit_def hand_out_def)
  next
    case False
    then have m: "x \<in> set (wk_reads s)"
      using x(1) by (simp add: hand_out_def) (meson insertE set_update_subset_insert subsetD)
    then have "pins opt (ref_key opt (rh_ref x)) (wk_reads s) \<noteq> 0" using x(2) by (auto simp: pins_zero)
    then have "d (ref_key opt (rh_ref x)) = wk_disk s (ref_key opt (rh_ref x))" using d(3) by metis
    then show ?thesis using ws_invD(3) [OF inv m x(2)] by (simp add: has_commit_def hand_out_def)
  qed
qed

lemma fail_inv:
  assumes inv: "ws_inv opt s" and l: "wk_locks s rk = t # ts" "subject t = Some (Some i)"
    and h: "i < length (wk_reads s)" "rh_state (wk_reads s ! i) = ReadQueued" "fst (ref_key opt (rh_ref (wk_reads s ! i))) = rk"
    and d: "\<And>k. pins opt k (wk_reads s) \<noteq> 0 \<Longrightarrow> d k = wk_disk s k"
  shows "ws_inv opt (set_read i (ReadFailed e) ((leave_lock rk s)\<lparr>wk_disk := d\<rparr>))"
proof (rule move_inv [OF inv h(1) free_leave [OF inv l h(2,3)], where st = "ReadFailed e"])
  fix x
  assume "x \<in> set (wk_reads (set_read i (ReadFailed e) ((leave_lock rk s)\<lparr>wk_disk := d\<rparr>)))" "holds x"
  moreover from this have "x \<noteq> (wk_reads s ! i)\<lparr>rh_state := ReadFailed e\<rparr>" by auto
  ultimately have m: "x \<in> set (wk_reads s)" "holds x"
    by simp_all (meson insertE set_update_subset_insert subsetD)
  then have "pins opt (ref_key opt (rh_ref x)) (wk_reads s) \<noteq> 0" by (auto simp: pins_zero)
  then show "has_commit opt (wk_disk (set_read i (ReadFailed e) ((leave_lock rk s)\<lparr>wk_disk := d\<rparr>))) x"
    using ws_invD(3) [OF inv m] d by (simp add: has_commit_def)
qed (use ws_invD(1) [OF inv] h(2) in simp_all)

lemma same_disk [simp]: "(leave_lock rk s)\<lparr>wk_disk := wk_disk s\<rparr> = leave_lock rk s"
  by (simp add: leave_lock_def)

lemma plan_place_free:
  assumes "ws_inv opt s" "plan_read opt env r s = PlanPlace b"
  shows "pins opt (ref_key opt r) (wk_reads s) = 0"
proof (cases "wk_disk s (ref_key opt r)")
  case None
  have "\<forall>h \<in> set (wk_reads s). holds h \<longrightarrow> has_commit opt (wk_disk s) h" using assms(1) by (simp add: ws_inv_def)
  from pins_no_disk [OF this None] show ?thesis .
next
  case (Some w)
  then have "\<not> is_pinned (ref_key opt r) s"
    using assms(2) by (auto simp: plan_read_def Let_def split: option.splits if_splits)
  then show ?thesis using ws_invD(2) [OF assms(1)] by (simp add: pinned_refs)
qed

lemma plan_reuse_disk:
  "plan_read opt env r s = PlanReuse \<Longrightarrow> \<exists>w. wk_disk s (ref_key opt r) = Some w \<and> wt_head w = Some (ws_headCommit r)"
  by (auto simp: plan_read_def Let_def split: option.splits if_splits)

lemma run_read_inv:
  assumes inv: "ws_inv opt s" and l: "wk_locks s rk = ReadTask i # ts"
  shows "ws_inv opt (run_read opt env i s)"
proof -
  let ?r = "rh_ref (wk_reads s ! i)"
  have h: "i < length (wk_reads s)" "rh_state (wk_reads s ! i) = ReadQueued" "fst (ref_key opt ?r) = rk"
    using queue_okD [OF ws_invD(4) [OF inv], of "ReadTask i" rk] l by simp_all
  have rk: "wo_repoKey opt (ws_repoId ?r) = rk" using h(3) by (simp add: ref_key_def)
  show ?thesis
  proof (cases "plan_read opt env ?r s")
    case (PlanFail e)
    then show ?thesis using fail_inv [OF inv l _ h, where d = "wk_disk s" and e = e] rk
      by (simp add: run_read_def Let_def)
  next
    case PlanReuse
    obtain w where "wk_disk s (ref_key opt ?r) = Some w" "wt_head w = Some (ws_headCommit ?r)"
      using plan_reuse_disk [OF PlanReuse] by blast
    then have "ws_inv opt (hand_out opt i ?r ((leave_lock rk s)\<lparr>wk_disk := wk_disk s\<rparr>))"
      by (intro hand_out_inv [OF inv l _ h refl]) simp_all
    with PlanReuse rk show ?thesis by (simp add: run_read_def Let_def)
  next
    case (PlanPlace b)
    note z = plan_place_free [OF inv PlanPlace]
    have q: "queue_ok opt rk (wk_reads s) (wk_initPass s) (PlaceTask i b # ts)"
      using ws_invD(4) [OF inv, of rk] l h z by (simp add: queue_ok_def map_filter_simps)
    show ?thesis
      using inv q PlanPlace rk l by (simp add: run_read_def Let_def ws_inv_def)
  qed
qed

lemma run_place_inv:
  assumes inv: "ws_inv opt s" and l: "wk_locks s rk = PlaceTask i b # ts"
  shows "ws_inv opt (run_place opt env i s)"
proof -
  let ?r = "rh_ref (wk_reads s ! i)"
  have h: "i < length (wk_reads s)" "rh_state (wk_reads s ! i) = ReadQueued" "fst (ref_key opt ?r) = rk"
    and z: "pins opt (ref_key opt ?r) (wk_reads s) = 0"
    using queue_okD [OF ws_invD(4) [OF inv], of "PlaceTask i b" rk] l by simp_all
  have rk: "wo_repoKey opt (ws_repoId ?r) = rk" using h(3) by (simp add: ref_key_def)
  have f: "ws_inv opt (set_read i (ReadFailed e) ((leave_lock rk s)\<lparr>wk_disk := (wk_disk s)(ref_key opt ?r := x)\<rparr>))" for e x
    by (rule fail_inv [OF inv l _ h]) (use z in auto)
  have g: "ws_inv opt (hand_out opt i ?r ((leave_lock rk s)\<lparr>wk_disk := (wk_disk s)(ref_key opt ?r :=
      Some \<lparr>wt_head = Some (ws_headCommit ?r), wt_complete = True\<rparr>)\<rparr>))"
    by (rule hand_out_inv [OF inv l _ h refl]) (use z in auto)
  show ?thesis using f g rk by (simp add: run_place_def Let_def split: option.split)
qed

lemma release_read_inv:
  assumes inv: "ws_inv opt s"
  shows "ws_inv opt (release_read opt i s)"
proof (cases "i < length (wk_reads s) \<and> rh_state (wk_reads s ! i) = ReadLive")
  case True
  let ?r = "rh_ref (wk_reads s ! i)"
  let ?t = "set_read i ReadReleased (unpin (ref_key opt ?r) s)"
  have i: "i < length (wk_reads s)" and live: "rh_state (wk_reads s ! i) = ReadLive" using True by simp_all
  have "ws_inv opt ?t"
  proof (rule move_inv [OF inv i free_idle [OF inv], where st = ReadReleased])
    show "holds (wk_reads s ! i)" using live by simp
    show "wk_reads ?t = (wk_reads s)[i := (wk_reads s ! i)\<lparr>rh_state := ReadReleased\<rparr>]" by simp
    have "pins opt (ref_key opt ?r) (wk_reads s) \<noteq> 0"
      using i live by (auto simp: pins_zero intro!: bexI [of _ "wk_reads s ! i"])
    then show "refs (wk_checkouts ?t) k + (if holds (wk_reads s ! i) \<and> ref_key opt ?r = k then 1 else 0) =
      refs (wk_checkouts s) k + (if holds ((wk_reads s ! i)\<lparr>rh_state := ReadReleased\<rparr>) \<and> ref_key opt ?r = k then 1 else 0)" for k
      using ws_invD(2) [OF inv] live by (auto simp: unpin_refs)
    fix h
    assume "h \<in> set (wk_reads ?t)" "holds h"
    then show "has_commit opt (wk_disk ?t) h" using moved_commits [OF inv _ _ _ i, of h ReadReleased] by simp
  qed (use live ws_invD(1) [OF inv] in \<open>simp_all add: unpin_ok\<close>)
  with True show ?thesis by (simp add: release_read_def)
qed (use inv in \<open>auto simp: release_read_def\<close>)

lemma scan_victim_unpinned:
  "scan_victim best m = Some (k, c) \<Longrightarrow> \<forall>b \<in> set_option best. ck_refcount (snd b) = 0 \<Longrightarrow>
     (k, c) \<in> set m \<union> set_option best \<and> ck_refcount c = 0"
proof (induction m arbitrary: best)
  case (Cons x m)
  obtain k' c' where x: "x = (k', c')" by (cases x)
  define next' where "next' = (if 0 < ck_refcount c' then best
    else case best of None \<Rightarrow> Some (k', c') | Some (kb, b) \<Rightarrow> if ck_usedAt c' < ck_usedAt b then Some (k', c') else best)"
  have "scan_victim next' m = Some (k, c)" using Cons.prems(1) by (auto simp: x next'_def split: option.splits)
  moreover have n: "set_option next' \<subseteq> {(k', c')} \<union> set_option best"
    by (auto simp: next'_def split: option.splits if_splits)
  moreover have "\<forall>b \<in> set_option next'. ck_refcount (snd b) = 0"
    using Cons.prems(2) by (auto simp: next'_def split: option.splits if_splits)
  ultimately show ?case using Cons.IH [of next'] by (auto simp: x)
qed simp

lemma pass_idle:
  assumes inv: "ws_inv opt s" and p: "pass_of p s = PassReady"
  shows "absent p (wk_locks s rk)" "p = Some i \<Longrightarrow> i < length (wk_reads s) \<and> rh_state (wk_reads s ! i) = ReadEvicting PassReady"
proof -
  show i: "p = Some i \<Longrightarrow> i < length (wk_reads s) \<and> rh_state (wk_reads s ! i) = ReadEvicting PassReady" for i
    using p by (auto simp: pass_of_def split: if_splits read_state.splits)
  show "absent p (wk_locks s rk)"
  proof (cases p)
    case None
    then show ?thesis using absent_init [OF ws_invD(4) [OF inv]] p by (simp add: pass_of_def)
  next
    case (Some j)
    then show ?thesis using absent_settled [OF ws_invD(4) [OF inv], of j] i [OF Some] by simp
  qed
qed

lemma set_pass_inv:
  assumes inv: "ws_inv opt s" and p: "pass_of p s = PassReady"
    and m: "jmap_ok m" "\<And>k. refs m k = refs (wk_checkouts s) k"
  shows "ws_inv opt (end_pass p (s\<lparr>wk_checkouts := m\<rparr>))" "ws_inv opt (set_pass p st (s\<lparr>wk_checkouts := m\<rparr>))"
proof -
  have "ws_inv opt (end_pass p (s\<lparr>wk_checkouts := m\<rparr>)) \<and> ws_inv opt (set_pass p st (s\<lparr>wk_checkouts := m\<rparr>))"
  proof (cases p)
    case None
    have "queue_ok opt rk (wk_reads s) ip (wk_locks s rk)" for rk ip
      using queue_init [OF ws_invD(4) [OF inv]] pass_idle(1) [OF inv p] None by simp
    with inv m None show ?thesis by (simp add: end_pass_def set_pass_def ws_inv_def)
  next
    case (Some i)
    have i: "i < length (wk_reads s)" "rh_state (wk_reads s ! i) = ReadEvicting PassReady"
      using pass_idle(2) [OF inv p Some] by simp_all
    have mv: "ws_inv opt (set_read i x (s\<lparr>wk_checkouts := m\<rparr>))" if x: "holds ((wk_reads s ! i)\<lparr>rh_state := x\<rparr>)" for x
    proof (rule move_inv [OF inv i(1) free_idle [OF inv], where st = x])
      fix h
      assume "h \<in> set (wk_reads (set_read i x (s\<lparr>wk_checkouts := m\<rparr>)))" "holds h"
      then show "has_commit opt (wk_disk (set_read i x (s\<lparr>wk_checkouts := m\<rparr>))) h"
        using moved_commits [OF inv _ _ _ i(1), of h x] i(2) by simp
    qed (use i(2) m x in simp_all)
    show ?thesis using mv [of ReadLive] mv [of "ReadEvicting st"] Some by (simp add: end_pass_def set_pass_def)
  qed
  then show "ws_inv opt (end_pass p (s\<lparr>wk_checkouts := m\<rparr>))" "ws_inv opt (set_pass p st (s\<lparr>wk_checkouts := m\<rparr>))" by simp_all
qed

lemma set_pass_fields [simp]:
  "wk_locks (set_pass p st s) = wk_locks s" "wk_disk (set_pass p st s) = wk_disk s"
  "wk_checkouts (set_pass p st s) = wk_checkouts s" "length (wk_reads (set_pass p st s)) = length (wk_reads s)"
  by (simp_all add: set_pass_def split: option.split)

lemma enqueue_evict_inv:
  assumes inv: "ws_inv opt s" and a: "absent p (wk_locks s (fst k))" and t: "task_ok opt (fst k) (wk_reads s) (wk_initPass s) (EvictTask p k)"
  shows "ws_inv opt (enqueue (fst k) (EvictTask p k) s)"
proof -
  have "queue_ok opt (fst k) (wk_reads s) (wk_initPass s) (wk_locks s (fst k) @ [EvictTask p k])"
    by (rule queue_snoc [OF ws_invD(4) [OF inv] t]) (simp_all add: a)
  with inv show ?thesis by (simp add: ws_inv_def)
qed

lemma advance_pass_inv:
  assumes inv: "ws_inv opt s"
  shows "ws_inv opt (advance_pass opt p s)"
proof (cases "pass_of p s = PassReady")
  case True
  have e: "ws_inv opt (end_pass p s)"
    using set_pass_inv(1) [OF inv True, of "wk_checkouts s"] ws_invD(1) [OF inv] by simp
  have "ws_inv opt (enqueue (fst k) (EvictTask p k) (set_pass p (PassWaits k) (s\<lparr>wk_checkouts := jmap_delete (wk_checkouts s) k\<rparr>)))"
    if v: "scan_victim None (wk_checkouts s) = Some (k, c)" for k c
  proof -
    let ?s = "s\<lparr>wk_checkouts := jmap_delete (wk_checkouts s) k\<rparr>"
    have k: "jmap_get (wk_checkouts s) k = Some c" "ck_refcount c = 0"
      using scan_victim_unpinned [OF v] jmap_in_get [OF ws_invD(1) [OF inv]] by auto
    have "refs (jmap_delete (wk_checkouts s) k) k' = refs (wk_checkouts s) k'" for k'
      using k by (simp add: refs_delete) (simp add: refs_def)
    then have i: "ws_inv opt (set_pass p (PassWaits k) ?s)"
      using set_pass_inv(2) [OF inv True] ws_invD(1) [OF inv] by simp
    have t: "task_ok opt (fst k) (wk_reads (set_pass p (PassWaits k) ?s)) (wk_initPass (set_pass p (PassWaits k) ?s)) (EvictTask p k)"
      using pass_idle(2) [OF inv True] by (cases p) (simp_all add: set_pass_def)
    show ?thesis by (rule enqueue_evict_inv [OF i _ t]) (use pass_idle(1) [OF inv True] in simp)
  qed
  with e True show ?thesis by (auto simp: advance_pass_def split: option.split)
qed (use inv in \<open>simp add: advance_pass_def\<close>)

lemma run_evict_inv:
  assumes inv: "ws_inv opt s" and l: "wk_locks s (fst k) = EvictTask p k # ts"
  shows "ws_inv opt (run_evict env p k s)"
proof -
  define d where "d = (if wk_stopped s \<or> jmap_has (wk_checkouts s) k then wk_disk s
    else (wk_disk s)(k := (case we_rm env of None \<Rightarrow> None | Some (_, left) \<Rightarrow> left)))"
  have d: "d k' = wk_disk s k'" if "pins opt k' (wk_reads s) \<noteq> 0" for k'
  proof -
    have "refs (wk_checkouts s) k' \<noteq> 0" using that ws_invD(2) [OF inv] by simp
    then show ?thesis by (auto simp: d_def refs_def jmap_has_def split: option.splits)
  qed
  let ?u = "(leave_lock (fst k) s)\<lparr>wk_disk := d\<rparr>"
  have e: "run_evict env p k s = (if wk_stopped s then end_pass p ?u else set_pass p PassReady ?u)"
    by (simp add: run_evict_def Let_def d_def leave_lock_def)
  have t: "task_ok opt (fst k) (wk_reads s) (wk_initPass s) (EvictTask p k)"
    using queue_okD [OF ws_invD(4) [OF inv], of "EvictTask p k" "fst k"] l by simp
  have keep: "has_commit opt d h" if "h \<in> set (wk_reads s)" "holds h" for h
  proof -
    have "pins opt (ref_key opt (rh_ref h)) (wk_reads s) \<noteq> 0" using that by (auto simp: pins_zero)
    from d [OF this] ws_invD(3) [OF inv that] show ?thesis by (simp add: has_commit_def)
  qed
  show ?thesis
  proof (cases p)
    case None
    have "queue_ok opt (fst k) (wk_reads s) ip ts" for ip
      using queue_init [OF queue_tail [OF ws_invD(4) [OF inv, of "fst k"]]] l
        absent_tail [of opt "fst k" "wk_reads s" "wk_initPass s" "EvictTask p k" ts None] ws_invD(4) [OF inv, of "fst k"] None
      by simp
    moreover have "queue_ok opt rk (wk_reads s) ip (wk_locks s rk)" if "rk \<noteq> fst k" for rk ip
    proof -
      have "absent None (wk_locks s rk)"
        by (intro absent_init [OF ws_invD(4) [OF inv, of rk]]) (use t None that in auto)
      then show ?thesis using queue_init [OF ws_invD(4) [OF inv, of rk]] by simp
    qed
    ultimately show ?thesis using inv keep l unfolding e by (simp add: None end_pass_def set_pass_def ws_inv_def)
  next
    case (Some i)
    have i: "i < length (wk_reads s)" "rh_state (wk_reads s ! i) = ReadEvicting (PassWaits k)" using t Some by simp_all
    have mv: "ws_inv opt (set_read i x ?u)" if x: "holds ((wk_reads s ! i)\<lparr>rh_state := x\<rparr>)" for x
    proof (rule move_inv [OF inv i(1) free_waiting [OF inv l], where st = x])
      fix h
      assume h: "h \<in> set (wk_reads (set_read i x ?u))" "holds h"
      show "has_commit opt (wk_disk (set_read i x ?u)) h"
      proof (cases "h = (wk_reads s ! i)\<lparr>rh_state := x\<rparr>")
        case True
        then show ?thesis using keep [of "wk_reads s ! i"] i by (simp add: has_commit_def)
      next
        case False
        then show ?thesis using keep h by simp (meson insertE set_update_subset_insert subsetD)
      qed
    qed (use i ws_invD(1) [OF inv] Some x in simp_all)
    show ?thesis using mv [of ReadLive] mv [of "ReadEvicting PassReady"] unfolding e by (simp add: Some end_pass_def set_pass_def)
  qed
qed

text \<open>Work that is not about read handles: it keeps their part of the state and only adds or removes its own tasks.\<close>

definition aside :: "ws_store \<Rightarrow> ws_store \<Rightarrow> bool" where
  "aside s t = (wk_reads t = wk_reads s \<and> wk_checkouts t = wk_checkouts s \<and> wk_disk t = wk_disk s \<and>
     wk_initPass t = wk_initPass s)"

lemma aside_inv:
  assumes "ws_inv opt s" "aside s t" "\<And>rk. queue_ok opt rk (wk_reads s) (wk_initPass s) (wk_locks t rk)"
  shows "ws_inv opt t"
  using assms by (simp add: ws_inv_def aside_def)

lemma aside_enqueue:
  assumes "ws_inv opt s" "aside s t" "wk_locks t = (wk_locks s)(rk := wk_locks s rk @ [x])" "subject x = None" "\<not> is_place x"
    "task_ok opt rk (wk_reads s) (wk_initPass s) x"
  shows "ws_inv opt t"
  by (rule aside_inv [OF assms(1,2)])
     (use assms(3-6) queue_snoc [OF ws_invD(4) [OF assms(1)]] ws_invD(4) [OF assms(1)] in auto)

lemma aside_leave:
  assumes "ws_inv opt s" "aside s t" "wk_locks t = (wk_locks s)(rk := tl (wk_locks s rk))"
  shows "ws_inv opt t"
  by (rule aside_inv [OF assms(1,2)]) (use assms(3) queue_tail ws_invD(4) [OF assms(1)] in auto)

lemma aside_same: "ws_inv opt s \<Longrightarrow> aside s t \<Longrightarrow> wk_locks t = wk_locks s \<Longrightarrow> ws_inv opt t"
  by (simp add: ws_inv_def aside_def)

lemma writer_fields [simp]:
  "wk_checkouts (set_writer i st s) = wk_checkouts s" "wk_disk (set_writer i st s) = wk_disk s"
  "wk_locks (set_writer i st s) = wk_locks s" "wk_initPass (set_writer i st s) = wk_initPass s"
  "wk_reads (set_writer i st s) = wk_reads s"
  by (simp_all add: set_writer_def)

lemma put_repo_fields [simp]:
  "wk_checkouts (put_repo rk b s) = wk_checkouts s" "wk_disk (put_repo rk b s) = wk_disk s"
  "wk_locks (put_repo rk b s) = wk_locks s" "wk_initPass (put_repo rk b s) = wk_initPass s"
  "wk_reads (put_repo rk b s) = wk_reads s"
  by (simp_all add: put_repo_def)

lemma run_write_aside:
  "aside s (run_write opt env i s)"
  "wk_locks (run_write opt env i s) = (let rk = wo_repoKey opt (ws_repoId (wh_ref (wk_writers s ! i))) in (wk_locks s)(rk := tl (wk_locks s rk)))"
  by (auto simp: aside_def run_write_def write_failed_def Let_def job_dir_def fun_eq_iff split: option.split)

lemma run_write_gone_aside:
  "aside s (run_write_gone opt env i s)"
  "wk_locks (run_write_gone opt env i s) = (let rk = wo_repoKey opt (ws_repoId (wh_ref (wk_writers s ! i))) in (wk_locks s)(rk := tl (wk_locks s rk)))"
  by (auto simp: aside_def run_write_gone_def Let_def job_dir_def fun_eq_iff split: option.split)

lemma ensure_repo_aside:
  "ensure_repo env rk r s = (x, t) \<Longrightarrow> aside s t \<and> wk_locks t = wk_locks s"
  by (auto simp: aside_def ensure_repo_def Let_def split: option.splits if_splits)

lemma apply_locked_aside:
  "apply_locked opt env r h b s = (x, t) \<Longrightarrow> aside s t \<and> wk_locks t = wk_locks s"
  by (auto simp: aside_def apply_locked_def maybe_gc_def Let_def split: option.splits if_splits)

lemma aside_trans: "aside s t \<Longrightarrow> aside t u \<Longrightarrow> aside s u"
  by (simp add: aside_def)

lemma run_apply_aside:
  "aside s (run_apply opt env u r h s) \<and>
   wk_locks (run_apply opt env u r h s) = (wk_locks s)(wo_repoKey opt r := tl (wk_locks s (wo_repoKey opt r)))"
proof -
  let ?rk = "wo_repoKey opt r" and ?s = "leave_lock (wo_repoKey opt r) s"
  obtain x t where e: "ensure_repo env ?rk r ?s = (x, t)" by force
  have s: "aside s ?s" "wk_locks ?s = (wk_locks s)(?rk := tl (wk_locks s ?rk))" by (auto simp: aside_def fun_eq_iff)
  show ?thesis
  proof (cases x)
    case (Inl err)
    then show ?thesis using s ensure_repo_aside [OF e] by (simp add: run_apply_def e) (simp add: aside_def)
  next
    case (Inr b)
    obtain y v where a: "apply_locked opt env r h b t = (y, v)" by force
    show ?thesis
      using s ensure_repo_aside [OF e] apply_locked_aside [OF a]
      by (simp add: run_apply_def e Inr a) (simp add: aside_def)
  qed
qed

lemma deliver_commit_aside:
  "deliver_commit env j message e head s = (x, t) \<Longrightarrow> aside s t \<and> wk_locks t = wk_locks s"
  by (auto simp: aside_def deliver_commit_def Let_def split: option.splits sum.splits if_splits)

lemma run_finalize_aside:
  "aside s (run_finalize env rk f j message owner s) \<and>
   wk_locks (run_finalize env rk f j message owner s) = (wk_locks s)(rk := tl (wk_locks s rk))"
proof -
  have "aside s t \<and> wk_locks t = (wk_locks s)(rk := tl (wk_locks s rk))"
    if "deliver_commit env j message e head ((leave_lock rk s)\<lparr>wk_jobDirs := d\<rparr>) = (x, t)" for e head d x t
    using deliver_commit_aside [OF that] by (auto simp: aside_def fun_eq_iff)
  then show ?thesis
    by (auto simp: run_finalize_def Let_def aside_def fun_eq_iff split: option.split sum.split prod.split)
qed

theorem ws_step_inv:
  assumes inv: "ws_inv opt s"
  shows "ws_inv opt (ws_step opt env a s)"
proof (cases a)
  case (WsResolveWrite r j)
  show ?thesis
    using aside_enqueue [OF inv, of "snd (resolve_write opt r j s)" "wo_repoKey opt (ws_repoId r)" "WriteTask (length (wk_writers s))"] inv
    by (auto simp: WsResolveWrite resolve_write_def aside_def Let_def enqueue_def split: option.split)
next
  case (WsApply u repoId head)
  show ?thesis
    using aside_enqueue [OF inv, of "snd (apply_bundle opt u repoId head s)" "wo_repoKey opt repoId" "ApplyTask u repoId head"] inv
    by (auto simp: WsApply apply_bundle_def aside_def Let_def enqueue_def split: option.split)
next
  case (WsHave q repoId)
  show ?thesis
    using aside_enqueue [OF inv, of "snd (have_tip opt q repoId s)" "wo_repoKey opt repoId" "HaveTask q"] inv
    by (auto simp: WsHave have_tip_def aside_def Let_def enqueue_def split: option.split)
next
  case (WsFinalize f aborted j message)
  show ?thesis
  proof (cases "jmap_get (wk_writes s) j")
    case (Some e)
    then show ?thesis
      using aside_enqueue [OF inv, of "snd (finalize_write f aborted j message s)" "we_repoKey e" "FinalizeTask f j message (we_owner e)"] inv
      by (auto simp: WsFinalize finalize_write_def aside_def Let_def enqueue_def)
  qed (use inv in \<open>simp add: WsFinalize finalize_write_def\<close>)
next
  case (WsRun rk)
  show ?thesis
  proof (cases "wk_locks s rk")
    case (Cons t ts)
    have t: "task_ok opt rk (wk_reads s) (wk_initPass s) t" using queue_okD [OF ws_invD(4) [OF inv], of t rk] Cons by simp
    show ?thesis
    proof (cases t)
      case (EvictTask p k)
      then have "fst k = rk" using t by (cases p) simp_all
      with Cons EvictTask run_evict_inv [OF inv, of k p ts] show ?thesis by (simp add: WsRun run_lock_def)
    next
      case (HaveTask q)
      have "ws_inv opt (run_have env rk q s)"
        by (rule aside_leave [OF inv]) (auto simp: aside_def run_have_def Let_def leave_lock_def)
      with Cons HaveTask show ?thesis by (simp add: WsRun run_lock_def)
    qed (use Cons inv run_read_inv [OF inv] run_place_inv [OF inv] aside_leave [OF inv run_write_aside(1)]
        aside_leave [OF inv run_write_gone_aside(1)] run_write_aside(2) run_write_gone_aside(2)
        aside_leave [OF inv conjunct1 [OF run_apply_aside] conjunct2 [OF run_apply_aside]]
        aside_leave [OF inv conjunct1 [OF run_finalize_aside] conjunct2 [OF run_finalize_aside]]
        in \<open>simp_all add: WsRun run_lock_def Let_def\<close>)
  qed (use inv in \<open>simp add: WsRun run_lock_def\<close>)
next
  case (WsReleaseWrite i)
  let ?rk = "wo_repoKey opt (ws_repoId (wh_ref (wk_writers s ! i)))"
  have 1: "ws_inv opt (enqueue ?rk (WriteGoneTask i) (set_writer i WriteLeaving s))"
    by (rule aside_enqueue [OF inv, where x = "WriteGoneTask i" and rk = ?rk]) (auto simp: aside_def enqueue_def)
  have 2: "ws_inv opt (set_writer i WriteReleased s)"
    by (rule aside_same [OF inv]) (simp_all add: aside_def)
  show ?thesis using 1 2 inv by (simp add: WsReleaseWrite release_write_def)
next
  case WsStop
  show ?thesis using aside_same [OF inv, of "stop_store s"] by (simp add: WsStop stop_store_def aside_def)
qed (use inv in \<open>simp_all add: resolve_read_inv advance_pass_inv release_read_inv\<close>)

end
