(* ===== verification/WorkspaceProperties.thy ===== *)
theory WorkspaceProperties imports WorkspaceInvariant begin

text \<open>
  What the workspace store promises to the jobs and the peers: the checkout a job reads is the commit it asked for and
  stays put, the cache shrinks to its cap, the tip only moves to a commit that was delivered, and a write job has its
  worktree for itself.
\<close>

section \<open>Reachable states\<close>

inductive ws_reachable :: "ws_options \<Rightarrow> ws_store \<Rightarrow> ws_store \<Rightarrow> bool" for opt where
  ws_open: "ws_reachable opt (opened_store found disk repos) (opened_store found disk repos)"
| ws_next: "ws_reachable opt s0 s \<Longrightarrow> ws_reachable opt s0 (ws_step opt env a s)"

lemma register_existing_refs:
  "register_existing ks t m = (t', m') \<Longrightarrow> jmap_ok m \<Longrightarrow> (\<And>k. refs m k = 0) \<Longrightarrow> jmap_ok m' \<and> refs m' k = 0"
proof (induction ks t m rule: register_existing.induct)
  case (2 k ks t m)
  then show ?case by (simp add: refs_set)
qed (simp add: refs_def)

lemma opened_inv: "ws_inv opt (opened_store found disk repos)"
proof -
  obtain t m where m: "register_existing found 0 [] = (t, m)" by force
  have "jmap_ok m \<and> refs m k = 0" for k by (rule register_existing_refs [OF m]) (simp_all add: refs_def)
  then show ?thesis by (simp add: ws_inv_def opened_store_def m queue_ok_def pins_def map_filter_simps)
qed

lemma ws_reachable_inv: "ws_reachable opt s0 s \<Longrightarrow> ws_inv opt s"
  by (induction rule: ws_reachable.induct) (simp_all add: opened_inv ws_step_inv)

section \<open>Checkouts\<close>


definition demo_options :: ws_options where
  "demo_options = \<lparr>wo_repoKey = (\<lambda>r. r), wo_allowed = [''r''], wo_maxBundleBytes = 100, wo_maxCached = 0, wo_gcAfter = 5\<rparr>"

definition demo_env :: ws_env where
  "demo_env = \<lparr>we_present = (\<lambda>_. True), we_headReadable = True, we_rm = None, we_mkdir = None, we_add = None, we_init = None,
     we_bundleOk = True, we_advertised = None, we_fetch = None, we_delivered = Some (replicate 40 (CHR ''a'')), we_update = None,
     we_tipReadable = True, we_deletes = True, we_jobAborted = False, we_abortedSince = False, we_commit = Inr None, we_diffStat = Inl [],
     we_bundle = None, we_stat = Inl []\<rparr>"

definition demo_ref :: workspace_ref where
  "demo_ref = \<lparr>ws_repoId = ''r'', ws_headCommit = replicate 40 (CHR ''a'')\<rparr>"

fun ws_run :: "ws_action list \<Rightarrow> ws_store \<Rightarrow> ws_store" where
  "ws_run [] s = s"
| "ws_run (a # as) s = ws_run as (ws_step demo_options demo_env a s)"

lemma ws_run_reachable: "ws_reachable demo_options s0 s \<Longrightarrow> ws_reachable demo_options s0 (ws_run as s)"
  by (induction as arbitrary: s) (simp_all add: ws_next)

text \<open>A bundle arrives, a job resolves its head, and the pass finds every entry pinned.\<close>

definition demo_store :: ws_store where
  "demo_store = ws_run [WsApply 0 ''r'' (replicate 40 (CHR ''a'')), WsRun ''r'', WsResolve demo_ref, WsRun ''r'', WsRun ''r'',
     WsPass (Some 0)] (opened_store [] (\<lambda>_. None) (\<lambda>_. None))"

lemma demo_store_reachable: "ws_reachable demo_options (opened_store [] (\<lambda>_. None) (\<lambda>_. None)) demo_store"
  unfolding demo_store_def by (rule ws_run_reachable [OF ws_open])


section \<open>The cap\<close>

definition least_unpinned :: "co_key \<times> checkout \<Rightarrow> (co_key \<times> checkout) set \<Rightarrow> bool" where
  "least_unpinned v B = (v \<in> B \<and> ck_refcount (snd v) = 0 \<and>
     (\<forall>x \<in> B. ck_refcount (snd x) = 0 \<longrightarrow> ck_usedAt (snd v) \<le> ck_usedAt (snd x)))"

lemma least_unpinned_more:
  "least_unpinned v B \<Longrightarrow> 0 < ck_refcount (snd x) \<or> (\<exists>y \<in> B. ck_refcount (snd y) = 0 \<and> ck_usedAt (snd y) \<le> ck_usedAt (snd x)) \<Longrightarrow>
     least_unpinned v (insert x B)"
  unfolding least_unpinned_def
proof (intro conjI ballI impI)
  fix y
  assume v: "v \<in> B \<and> ck_refcount (snd v) = 0 \<and> (\<forall>x \<in> B. ck_refcount (snd x) = 0 \<longrightarrow> ck_usedAt (snd v) \<le> ck_usedAt (snd x))"
    and x: "0 < ck_refcount (snd x) \<or> (\<exists>y \<in> B. ck_refcount (snd y) = 0 \<and> ck_usedAt (snd y) \<le> ck_usedAt (snd x))"
    and y: "y \<in> insert x B" "ck_refcount (snd y) = 0"
  show "ck_usedAt (snd v) \<le> ck_usedAt (snd y)"
  proof (cases "y \<in> B")
    case False
    with x y obtain z where "z \<in> B" "ck_refcount (snd z) = 0" "ck_usedAt (snd z) \<le> ck_usedAt (snd y)" by auto
    with v show ?thesis using order_trans by blast
  qed (use v y in blast)
qed blast+

lemma scan_victim_spec:
  assumes "\<forall>b \<in> set_option best. ck_refcount (snd b) = 0"
  shows "case scan_victim best m of
      None \<Rightarrow> best = None \<and> (\<forall>x \<in> set m. 0 < ck_refcount (snd x))
    | Some v \<Rightarrow> least_unpinned v (set_option best \<union> set m)"
  using assms
proof (induction m arbitrary: best)
  case Nil
  then show ?case by (cases best) (auto simp: least_unpinned_def)
next
  case (Cons x m)
  define next' where "next' = (if 0 < ck_refcount (snd x) then best
    else case best of None \<Rightarrow> Some x | Some b \<Rightarrow> if ck_usedAt (snd x) < ck_usedAt (snd b) then Some x else best)"
  have e: "scan_victim best (x # m) = scan_victim next' m"
    by (cases x; cases best) (auto simp: next'_def)
  have "\<forall>b \<in> set_option next'. ck_refcount (snd b) = 0"
    using Cons.prems by (auto simp: next'_def split: option.splits if_splits)
  note IH = Cons.IH [OF this]
  show ?case
  proof (cases "scan_victim next' m")
    case None
    then have "next' = None" "\<forall>x \<in> set m. 0 < ck_refcount (snd x)" using IH by simp_all
    moreover from this have "best = None" "0 < ck_refcount (snd x)"
      by (auto simp: next'_def split: if_splits option.splits)
    ultimately show ?thesis using None e by simp
  next
    case (Some v)
    then have v: "least_unpinned v (set_option next' \<union> set m)" using IH by simp
    have "least_unpinned v (set_option best \<union> set (x # m))"
    proof (cases "0 < ck_refcount (snd x)")
      case True
      then show ?thesis using least_unpinned_more [OF v, of x] by (simp add: next'_def)
    next
      case x: False
      show ?thesis
      proof (cases best)
        case None
        then show ?thesis using v x by (simp add: next'_def)
      next
        case b: (Some b)
        then have "ck_refcount (snd b) = 0" using Cons.prems by simp
        then show ?thesis
          using least_unpinned_more [OF v, of x] least_unpinned_more [OF v, of b] x b
          by (cases "ck_usedAt (snd x) < ck_usedAt (snd b)") (auto simp: next'_def insert_commute)
      qed
    qed
    then show ?thesis using Some e by simp
  qed
qed

text \<open>An eviction pass keeps the cache to its cap without disturbing a job: while the store runs it ends only when
  at most the configured number of checkouts is tracked or every one of them is in use; otherwise it takes out exactly
  one, the least recently used of those no job reads, and waits for that repository's lock to remove it.\<close>

theorem eviction_pass_decides:
  assumes "pass_of p s = PassReady" "\<not> wk_stopped s"
  shows "if length (wk_checkouts s) \<le> wo_maxCached opt \<or> list_all (\<lambda>x. 0 < ck_refcount (snd x)) (wk_checkouts s)
    then advance_pass opt p s = end_pass p s
    else \<exists>k c. (k, c) \<in> set (wk_checkouts s) \<and> ck_refcount c = 0 \<and>
      list_all (\<lambda>x. ck_refcount (snd x) = 0 \<longrightarrow> ck_usedAt c \<le> ck_usedAt (snd x)) (wk_checkouts s) \<and>
      advance_pass opt p s = enqueue (fst k) (EvictTask p k)
        (set_pass p (PassWaits k) (s\<lparr>wk_checkouts := jmap_delete (wk_checkouts s) k\<rparr>))"
proof -
  note v = scan_victim_spec [of None "wk_checkouts s", simplified]
  show ?thesis
  proof (cases "length (wk_checkouts s) \<le> wo_maxCached opt")
    case True
    then show ?thesis using assms by (simp add: advance_pass_def)
  next
    case big: False
    show ?thesis
    proof (cases "scan_victim None (wk_checkouts s)")
      case None
      then have "list_all (\<lambda>x. 0 < ck_refcount (snd x)) (wk_checkouts s)" using v by (simp add: list_all_iff)
      with None big assms show ?thesis by (simp add: advance_pass_def)
    next
      case (Some x)
      obtain k c where x: "x = (k, c)" by (cases x)
      then have k: "(k, c) \<in> set (wk_checkouts s)" "ck_refcount c = 0"
        "list_all (\<lambda>x. ck_refcount (snd x) = 0 \<longrightarrow> ck_usedAt c \<le> ck_usedAt (snd x)) (wk_checkouts s)"
        using v Some by (auto simp: list_all_iff least_unpinned_def)
      moreover from this have "\<not> list_all (\<lambda>x. 0 < ck_refcount (snd x)) (wk_checkouts s)" by (force simp: list_all_iff)
      moreover have "advance_pass opt p s = enqueue (fst k) (EvictTask p k)
          (set_pass p (PassWaits k) (s\<lparr>wk_checkouts := jmap_delete (wk_checkouts s) k\<rparr>))"
        using big Some x assms by (simp add: advance_pass_def)
      ultimately show ?thesis using big by (simp only: simp_thms if_False) blast
    qed
  qed
qed

definition demo_cache :: ws_store where
  "demo_cache = opened_store [(''r'', ''a''), (''r'', ''b'')] (\<lambda>_. None) (\<lambda>_. None)"

lemma demo_cache_fields:
  "wk_checkouts demo_cache = [((''r'', ''a''), \<lparr>ck_usedAt = 1, ck_refcount = 0\<rparr>), ((''r'', ''b''), \<lparr>ck_usedAt = 2, ck_refcount = 0\<rparr>)]"
  "pass_of None demo_cache = PassReady" "\<not> wk_stopped demo_cache"
  by code_simp+

theorem eviction_pass_decides_witness:
  "\<exists>k. advance_pass demo_options None demo_cache =
     enqueue (fst k) (EvictTask None k) (set_pass None (PassWaits k)
       (demo_cache\<lparr>wk_checkouts := jmap_delete (wk_checkouts demo_cache) k\<rparr>))"
proof -
  have "\<not> (length (wk_checkouts demo_cache) \<le> wo_maxCached demo_options \<or>
      list_all (\<lambda>x. 0 < ck_refcount (snd x)) (wk_checkouts demo_cache))"
    by (simp add: demo_cache_fields demo_options_def)
  with eviction_pass_decides [OF demo_cache_fields(2,3), of demo_options] show ?thesis by (simp only: simp_thms if_False) blast
qed

section \<open>Bundles\<close>

definition tip_of :: "ws_store \<Rightarrow> string \<Rightarrow> string option" where
  "tip_of s rk = Option.bind (wk_repos s rk) br_tip"

definition delivers :: "ws_env \<Rightarrow> string \<Rightarrow> bool" where
  "delivers env head = (we_bundleOk env \<and> we_delivered env = Some head \<and> we_present env head \<and>
     (we_advertised env = None \<or> we_advertised env = Some head))"

lemma run_apply_tip:
  "(case snd (last (wk_applied (run_apply opt env u repoId head s))) of
      Applied \<Rightarrow> delivers env head \<and> tip_of (run_apply opt env u repoId head s) (wo_repoKey opt repoId) = Some head
    | _ \<Rightarrow> tip_of (run_apply opt env u repoId head s) (wo_repoKey opt repoId) = tip_of s (wo_repoKey opt repoId) \<or>
        (delivers env head \<and> (\<exists>why. we_update env = Some (why, True)) \<and>
         tip_of (run_apply opt env u repoId head s) (wo_repoKey opt repoId) = Some head)) \<and>
   (rk \<noteq> wo_repoKey opt repoId \<longrightarrow> wk_repos (run_apply opt env u repoId head s) rk = wk_repos s rk)"
proof -
  let ?rk = "wo_repoKey opt repoId" and ?s = "leave_lock (wo_repoKey opt repoId) s"
  have repos: "wk_repos ?s = wk_repos s" by (simp add: leave_lock_def)
  obtain x t where e: "ensure_repo env ?rk repoId ?s = (x, t)" by force
  have et: "tip_of t ?rk = tip_of s ?rk" "rk \<noteq> ?rk \<Longrightarrow> wk_repos t rk = wk_repos s rk"
    "\<And>b. x = Inr b \<Longrightarrow> wk_repos t ?rk = Some b" "\<And>f. x = Inl f \<Longrightarrow> f \<noteq> Applied"
    using e repos by (auto simp: ensure_repo_def tip_of_def put_repo_def Let_def split: option.splits if_splits)
  show ?thesis
  proof (cases x)
    case (Inl f)
    have "tip_of (t\<lparr>wk_applied := y\<rparr>) ?rk = tip_of s ?rk" for y using et(1) by (simp add: tip_of_def)
    with Inl et(2) et(4) [OF Inl] show ?thesis by (cases f) (simp_all add: run_apply_def e)
  next
    case (Inr b)
    have b: "tip_of s ?rk = br_tip b" using et(1,3) Inr by (simp add: tip_of_def)
    show ?thesis
      using et(2,3) Inr b
      by (auto simp: run_apply_def e apply_locked_def Let_def delivers_def tip_of_def put_repo_def maybe_gc_def drop_incoming_def
          split: option.splits if_splits)
  qed
qed


text \<open>A partial checkout with its gitlink and HEAD in place, left by a killed \<open>git worktree add\<close>, is handed to the next
  job: only the HEAD is verified on reuse.\<close>

lemma partial_checkout_reused:
  assumes "require_synced opt env r s = None" "we_headReadable env"
    "wk_disk s (ref_key opt r) = Some \<lparr>wt_head = Some (ws_headCommit r), wt_complete = False\<rparr>"
  shows "plan_read opt env r s = PlanReuse"
  using assms by (simp add: plan_read_def)

section \<open>Write jobs\<close>

definition active :: "write_handle \<Rightarrow> bool" where
  "active h = (wh_state h = WriteQueued \<or> wh_state h = WriteLive \<or> wh_state h = WriteLeaving)"

fun write_task :: "lock_task \<Rightarrow> bool" where
  "write_task (WriteTask _) = True"
| "write_task (WriteGoneTask _) = True"
| "write_task _ = False"

fun wtask_ok :: "ws_options \<Rightarrow> string \<Rightarrow> write_handle list \<Rightarrow> lock_task \<Rightarrow> bool" where
  "wtask_ok opt rk ws (WriteTask i) = (i < length ws \<and> wh_state (ws ! i) = WriteQueued \<and> wo_repoKey opt (ws_repoId (wh_ref (ws ! i))) = rk)"
| "wtask_ok opt rk ws (WriteGoneTask i) = (i < length ws \<and> wh_state (ws ! i) = WriteLeaving \<and> wo_repoKey opt (ws_repoId (wh_ref (ws ! i))) = rk)"
| "wtask_ok opt rk ws _ = True"

definition entry_for :: "ws_options \<Rightarrow> nat \<Rightarrow> write_handle \<Rightarrow> write_entry" where
  "entry_for opt i h = \<lparr>we_owner = i, we_repoKey = wo_repoKey opt (ws_repoId (wh_ref h)), we_base = ws_headCommit (wh_ref h)\<rparr>"

definition write_inv :: "ws_options \<Rightarrow> ws_store \<Rightarrow> bool" where
  "write_inv opt s =
     ((\<forall>i < length (wk_writers s). active (wk_writers s ! i) \<longrightarrow>
         jmap_get (wk_writes s) (wh_job (wk_writers s ! i)) = Some (entry_for opt i (wk_writers s ! i))) \<and>
      (\<forall>rk. distinct (filter write_task (wk_locks s rk)) \<and> list_all (wtask_ok opt rk (wk_writers s)) (filter write_task (wk_locks s rk))))"

lemma write_inv_frame:
  assumes "write_inv opt s" "wk_writers t = wk_writers s" "wk_writes t = wk_writes s"
    "\<And>rk. filter write_task (wk_locks t rk) = filter write_task (wk_locks s rk)"
  shows "write_inv opt t"
  using assms by (simp add: write_inv_def)

text \<open>A writer changes its state; what was waiting for it has left its queue.\<close>

lemma writer_moves:
  assumes inv: "write_inv opt s" and i: "i < length (wk_writers s)"
    and w: "wk_writers t = (wk_writers s)[i := (wk_writers s ! i)\<lparr>wh_state := st\<rparr>]"
    and e: "active ((wk_writers s ! i)\<lparr>wh_state := st\<rparr>) \<Longrightarrow> active (wk_writers s ! i)"
      "wk_writes t = wk_writes s \<or> (wk_writes t = jmap_delete (wk_writes s) (wh_job (wk_writers s ! i)) \<and>
         active (wk_writers s ! i) \<and> \<not> active ((wk_writers s ! i)\<lparr>wh_state := st\<rparr>))"
    and q: "\<And>rk. distinct (filter write_task (wk_locks t rk))"
      "\<And>rk x. x \<in> set (wk_locks t rk) \<Longrightarrow> write_task x \<Longrightarrow>
         (x \<in> set (wk_locks s rk) \<and> x \<noteq> WriteTask i \<and> x \<noteq> WriteGoneTask i) \<or> wtask_ok opt rk (wk_writers t) x"
  shows "write_inv opt t"
proof -
  have a: "jmap_get (wk_writes s) (wh_job (wk_writers s ! j)) = Some (entry_for opt j (wk_writers s ! j))"
    if "j < length (wk_writers s)" "active (wk_writers s ! j)" for j
    using inv that by (simp add: write_inv_def)
  have "jmap_get (wk_writes t) (wh_job (wk_writers t ! j)) = Some (entry_for opt j (wk_writers t ! j))"
    if j: "j < length (wk_writers t)" "active (wk_writers t ! j)" for j
  proof (cases "j = i")
    case True
    then have "active (wk_writers s ! i)" "wk_writes t = wk_writes s" using j e w by auto
    then show ?thesis using a [OF i] True i w by (simp add: entry_for_def)
  next
    case False
    then have s: "j < length (wk_writers s)" "active (wk_writers s ! j)" "wk_writers t ! j = wk_writers s ! j" using j w by simp_all
    have "wh_job (wk_writers s ! j) \<noteq> wh_job (wk_writers s ! i)" if "active (wk_writers s ! i)"
      using a [OF s(1,2)] a [OF i that] False by (auto simp: entry_for_def)
    then show ?thesis using a [OF s(1,2)] s(3) e(2) by auto
  qed
  moreover have "wtask_ok opt rk (wk_writers t) x" if x: "x \<in> set (wk_locks t rk)" "write_task x" for rk x
  proof -
    have "wtask_ok opt rk (wk_writers s) x" if "x \<in> set (wk_locks s rk)"
      using inv that x(2) by (auto simp: write_inv_def list_all_iff)
    with q(2) [OF x] show ?thesis by (cases x) (auto simp: w nth_list_update)
  qed
  ultimately show ?thesis using q(1) by (simp add: write_inv_def list_all_iff)
qed

lemma write_invD:
  assumes "write_inv opt s"
  shows "i < length (wk_writers s) \<Longrightarrow> active (wk_writers s ! i) \<Longrightarrow>
      jmap_get (wk_writes s) (wh_job (wk_writers s ! i)) = Some (entry_for opt i (wk_writers s ! i))"
    "distinct (filter write_task (wk_locks s rk))"
    "x \<in> set (wk_locks s rk) \<Longrightarrow> write_task x \<Longrightarrow> wtask_ok opt rk (wk_writers s) x"
  using assms by (auto simp: write_inv_def list_all_iff)

lemma distinct_filter_tl: "distinct (filter P q) \<Longrightarrow> distinct (filter P (tl q))"
  by (cases q) (auto split: if_splits)

text \<open>When the head of a queue is a writer's task, none of its tasks is left elsewhere.\<close>

lemma writer_leaves:
  assumes inv: "write_inv opt s" and l: "wk_locks s rk = x # xs" and x: "x = WriteTask i \<or> x = WriteGoneTask i"
    and t: "wk_locks t = (wk_locks s)(rk := xs)"
  shows "distinct (filter write_task (wk_locks t rk'))"
    "y \<in> set (wk_locks t rk') \<Longrightarrow> write_task y \<Longrightarrow> y \<in> set (wk_locks s rk') \<and> y \<noteq> WriteTask i \<and> y \<noteq> WriteGoneTask i"
proof -
  show "distinct (filter write_task (wk_locks t rk'))"
    using write_invD(2) [OF inv, of rk'] l t by (cases "rk' = rk") (auto split: if_splits)
  have ok: "wtask_ok opt rk (wk_writers s) x" using write_invD(3) [OF inv, of x rk] l x by auto
  show "y \<in> set (wk_locks t rk') \<Longrightarrow> write_task y \<Longrightarrow> y \<in> set (wk_locks s rk') \<and> y \<noteq> WriteTask i \<and> y \<noteq> WriteGoneTask i"
  proof -
    assume y: "y \<in> set (wk_locks t rk')" "write_task y"
    then have y': "y \<in> set (wk_locks s rk')" using l t by (auto split: if_splits)
    then have oky: "wtask_ok opt rk' (wk_writers s) y" using write_invD(3) [OF inv] y(2) by blast
    have "x \<notin> set xs" using write_invD(2) [OF inv, of rk] l x by auto
    then have "rk' = rk \<Longrightarrow> y \<noteq> x" using y(1) t by auto
    with y' ok oky x show ?thesis by auto
  qed
qed

lemma set_writer_parts [simp]:
  "wk_writers (set_writer i st s) = (wk_writers s)[i := (wk_writers s ! i)\<lparr>wh_state := st\<rparr>]"
  "wk_writes (set_writer i st s) = wk_writes s" "wk_stopped (set_writer i st s) = wk_stopped s"
  by (simp_all add: set_writer_def)

lemma lock_parts [simp]:
  "wk_writers (leave_lock rk s) = wk_writers s" "wk_writes (leave_lock rk s) = wk_writes s"
  "wk_writers (enqueue rk t s) = wk_writers s" "wk_writes (enqueue rk t s) = wk_writes s"
  by (simp_all add: leave_lock_def enqueue_def)

lemma run_write_shape:
  "(wk_writers (run_write opt env i s) = (wk_writers s)[i := (wk_writers s ! i)\<lparr>wh_state := WriteLive\<rparr>] \<and>
      wk_writes (run_write opt env i s) = wk_writes s) \<or>
   (\<exists>e. wk_writers (run_write opt env i s) = (wk_writers s)[i := (wk_writers s ! i)\<lparr>wh_state := WriteFailed e\<rparr>] \<and>
      wk_writes (run_write opt env i s) = jmap_delete (wk_writes s) (wh_job (wk_writers s ! i)))"
  by (auto simp: run_write_def write_failed_def Let_def split: option.split)

lemma run_write_locks:
  "wk_locks (run_write opt env i s) = wk_locks (leave_lock (wo_repoKey opt (ws_repoId (wh_ref (wk_writers s ! i)))) s)"
  by (simp add: run_write_def write_failed_def set_writer_def job_dir_def Let_def split: option.split)

lemma run_write_gone_shape:
  "wk_writers (run_write_gone opt env i s) = (wk_writers s)[i := (wk_writers s ! i)\<lparr>wh_state := WriteReleased\<rparr>] \<and>
   (wk_writes (run_write_gone opt env i s) = wk_writes s \<or>
    wk_writes (run_write_gone opt env i s) = jmap_delete (wk_writes s) (wh_job (wk_writers s ! i)))"
  by (simp add: run_write_gone_def Let_def)

lemma run_writer_inv:
  assumes inv: "write_inv opt s" and l: "wk_locks s rk = x # xs" and x: "x = WriteTask i \<or> x = WriteGoneTask i"
    and i: "i < length (wk_writers s)" "active (wk_writers s ! i)"
    and t: "wk_locks t = (wk_locks s)(rk := xs)" "wk_writers t = (wk_writers s)[i := (wk_writers s ! i)\<lparr>wh_state := st\<rparr>]"
      "wk_writes t = wk_writes s \<or> (wk_writes t = jmap_delete (wk_writes s) (wh_job (wk_writers s ! i)) \<and>
        \<not> active ((wk_writers s ! i)\<lparr>wh_state := st\<rparr>))"
  shows "write_inv opt t"
  by (rule writer_moves [OF inv i(1) t(2)])
     (use i(2) t(3) writer_leaves [OF inv l x t(1)] in blast)+

lemma resolve_write_inv:
  assumes inv: "write_inv opt s"
  shows "write_inv opt (snd (resolve_write opt r j s))"
proof (cases "entry_refused opt (ws_repoId r) s = None \<and> \<not> jmap_has (wk_writes s) j")
  case True
  let ?i = "length (wk_writers s)" and ?rk = "wo_repoKey opt (ws_repoId r)"
  let ?h = "\<lparr>wh_job = j, wh_ref = r, wh_state = WriteQueued\<rparr>"
  define t where "t = snd (resolve_write opt r j s)"
  have t: "wk_writers t = wk_writers s @ [?h]" "wk_writes t = jmap_set (wk_writes s) j (entry_for opt ?i ?h)"
    "wk_locks t = (wk_locks s)(?rk := wk_locks s ?rk @ [WriteTask ?i])"
    using True by (auto simp: t_def resolve_write_def Let_def entry_for_def enqueue_def)
  have "wh_job (wk_writers s ! k) \<noteq> j" if "k < ?i" "active (wk_writers s ! k)" for k
    using write_invD(1) [OF inv that] True by (auto simp: jmap_has_def)
  then have old: "wh_job (wk_writers s ! k) \<noteq> j" if "k < ?i" "active (wk_writers s ! k)" for k
    using that by blast
  have "jmap_get (wk_writes t) (wh_job (wk_writers t ! k)) = Some (entry_for opt k (wk_writers t ! k))"
    if k: "k < length (wk_writers t)" "active (wk_writers t ! k)" for k
  proof (cases "k < ?i")
    case True
    then have e: "wk_writers t ! k = wk_writers s ! k" by (simp add: t nth_append)
    with k have a: "active (wk_writers s ! k)" by simp
    show ?thesis using old [OF True a] write_invD(1) [OF inv True a] unfolding e t(2) by simp
  next
    case False
    with k have "k = ?i" by (simp add: t)
    then show ?thesis by (simp add: t entry_for_def)
  qed
  moreover have ok: "wtask_ok opt rk (wk_writers t) x" if "x \<in> set (wk_locks t rk)" "write_task x" for rk x
  proof (cases "x \<in> set (wk_locks s rk)")
    case True
    from write_invD(3) [OF inv this that(2)] show ?thesis by (cases x) (simp_all add: t nth_append)
  qed (use that in \<open>auto simp: t split: if_splits\<close>)
  moreover have fresh: "WriteTask ?i \<notin> set (wk_locks s ?rk)"
    using write_invD(3) [OF inv, of "WriteTask ?i" ?rk] by auto
  have "distinct (filter write_task (wk_locks t rk))" for rk
    using write_invD(2) [OF inv, of rk] fresh by (cases "rk = ?rk") (simp_all add: t)
  ultimately have "write_inv opt t" by (simp add: write_inv_def list_all_iff)
  then show ?thesis by (simp add: t_def)
next
  case False
  then have "snd (resolve_write opt r j s) = s" by (auto simp: resolve_write_def split: option.split)
  with inv show ?thesis by simp
qed

lemma release_write_inv:
  assumes inv: "write_inv opt s"
  shows "write_inv opt (release_write opt i s)"
proof (cases "i < length (wk_writers s) \<and> wh_state (wk_writers s ! i) = WriteLive")
  case True
  then have i: "i < length (wk_writers s)" "active (wk_writers s ! i)" "wh_state (wk_writers s ! i) = WriteLive"
    by (simp_all add: active_def)
  have none: "x \<noteq> WriteTask i \<and> x \<noteq> WriteGoneTask i" if "x \<in> set (wk_locks s rk)" "write_task x" for x rk
    using write_invD(3) [OF inv that] i(3) by auto
  let ?rk = "wo_repoKey opt (ws_repoId (wh_ref (wk_writers s ! i)))"
  have "write_inv opt (set_writer i WriteReleased s)"
    by (rule writer_moves [OF inv i(1), where st = WriteReleased])
       (use i write_invD(2) [OF inv] none in \<open>auto simp: active_def\<close>)
  moreover have "write_inv opt (enqueue ?rk (WriteGoneTask i) (set_writer i WriteLeaving s))"
  proof (rule writer_moves [OF inv i(1), where st = WriteLeaving])
    show "distinct (filter write_task (wk_locks (enqueue ?rk (WriteGoneTask i) (set_writer i WriteLeaving s)) rk))" for rk
      using write_invD(2) [OF inv, of rk] none [of "WriteGoneTask i" rk] by auto
    fix rk x
    assume "x \<in> set (wk_locks (enqueue ?rk (WriteGoneTask i) (set_writer i WriteLeaving s)) rk)" "write_task x"
    then show "(x \<in> set (wk_locks s rk) \<and> x \<noteq> WriteTask i \<and> x \<noteq> WriteGoneTask i) \<or>
        wtask_ok opt rk (wk_writers (enqueue ?rk (WriteGoneTask i) (set_writer i WriteLeaving s))) x"
      using none i(1) by (auto split: if_splits)
  qed (use i in \<open>auto simp: active_def\<close>)
  ultimately show ?thesis using True by (simp add: release_write_def)
next
  case False
  then show ?thesis using inv by (auto simp: release_write_def)
qed

text \<open>The steps that leave the write jobs alone take at most the head of a queue away.\<close>

definition quiet :: "ws_store \<Rightarrow> ws_store \<Rightarrow> bool" where
  "quiet s t = (wk_writers t = wk_writers s \<and> wk_writes t = wk_writes s \<and>
     (\<forall>rk. filter write_task (wk_locks t rk) \<in> {filter write_task (wk_locks s rk), filter write_task (tl (wk_locks s rk))}))"

lemma write_inv_quiet:
  assumes inv: "write_inv opt s" and q: "quiet s t"
  shows "write_inv opt t"
proof -
  have sub: "set (filter write_task (wk_locks t rk)) \<subseteq> set (filter write_task (wk_locks s rk))" for rk
  proof -
    have "filter write_task (wk_locks t rk) \<in> {filter write_task (wk_locks s rk), filter write_task (tl (wk_locks s rk))}"
      using q by (simp add: quiet_def)
    moreover have "set (filter write_task (tl (wk_locks s rk))) \<subseteq> set (filter write_task (wk_locks s rk))"
      by (cases "wk_locks s rk") auto
    ultimately show ?thesis by (elim insertE emptyE) (simp_all del: set_filter)
  qed
  have "distinct (filter write_task (wk_locks t rk))" for rk
  proof -
    have "filter write_task (wk_locks t rk) \<in> {filter write_task (wk_locks s rk), filter write_task (tl (wk_locks s rk))}"
      using q by (simp add: quiet_def)
    then show ?thesis
      using write_invD(2) [OF inv, of rk] distinct_filter_tl [OF write_invD(2) [OF inv, of rk]]
      by (elim insertE emptyE) simp_all
  qed
  moreover have "list_all (wtask_ok opt rk (wk_writers s)) (filter write_task (wk_locks t rk))" for rk
    using inv sub [of rk] by (auto simp: write_inv_def list_all_iff)
  ultimately show ?thesis using inv q by (simp add: write_inv_def quiet_def)
qed

lemma reading_parts [simp]:
  "wk_writers (set_read i st s) = wk_writers s" "wk_writes (set_read i st s) = wk_writes s" "wk_locks (set_read i st s) = wk_locks s"
  "wk_writers (touch k s) = wk_writers s" "wk_writes (touch k s) = wk_writes s" "wk_locks (touch k s) = wk_locks s"
  "wk_writers (pin k s) = wk_writers s" "wk_writes (pin k s) = wk_writes s" "wk_locks (pin k s) = wk_locks s"
  "wk_writers (unpin k s) = wk_writers s" "wk_writes (unpin k s) = wk_writes s" "wk_locks (unpin k s) = wk_locks s"
  "wk_writers (set_pass p ps s) = wk_writers s" "wk_writes (set_pass p ps s) = wk_writes s" "wk_locks (set_pass p ps s) = wk_locks s"
  "wk_writers (end_pass p s) = wk_writers s" "wk_writes (end_pass p s) = wk_writes s" "wk_locks (end_pass p s) = wk_locks s"
  "wk_writers (put_repo rk b s) = wk_writers s" "wk_writes (put_repo rk b s) = wk_writes s" "wk_locks (put_repo rk b s) = wk_locks s"
  "wk_writers (maybe_gc opt rk s) = wk_writers s" "wk_writes (maybe_gc opt rk s) = wk_writes s" "wk_locks (maybe_gc opt rk s) = wk_locks s"
  by (simp_all add: set_read_def touch_def pin_def unpin_def set_pass_def end_pass_def put_repo_def maybe_gc_def Let_def
      split: option.split)

lemma hand_out_parts [simp]:
  "wk_writers (hand_out opt i r s) = wk_writers s" "wk_writes (hand_out opt i r s) = wk_writes s"
  "wk_locks (hand_out opt i r s) = wk_locks s"
  by (simp_all add: hand_out_def)

lemma quiet_leave:
  assumes "wk_writers t = wk_writers s" "wk_writes t = wk_writes s" "wk_locks t = wk_locks (leave_lock rk s)"
  shows "quiet s t"
  using assms by (simp add: quiet_def leave_lock_def)

lemma quiet_enqueue:
  assumes "wk_writers t = wk_writers s" "wk_writes t = wk_writes s" "wk_locks t = wk_locks (enqueue rk x s)" "\<not> write_task x"
  shows "quiet s t"
  using assms by (simp add: quiet_def enqueue_def)

lemma quiet_same:
  assumes "wk_writers t = wk_writers s" "wk_writes t = wk_writes s" "wk_locks t = wk_locks s"
  shows "quiet s t"
  using assms by (simp add: quiet_def)

lemma quiet_run_read: "quiet s (run_read opt env i s)"
proof (cases "plan_read opt env (rh_ref (wk_reads s ! i)) s")
  case (PlanPlace b)
  then show ?thesis by (simp add: quiet_def run_read_def Let_def)
qed (rule quiet_leave [where rk = "wo_repoKey opt (ws_repoId (rh_ref (wk_reads s ! i)))"]; simp add: run_read_def Let_def)+

lemma quiet_run_place: "quiet s (run_place opt env i s)"
  by (rule quiet_leave [where rk = "wo_repoKey opt (ws_repoId (rh_ref (wk_reads s ! i)))"])
     (simp_all add: run_place_def Let_def split: option.split)

lemma quiet_run_evict: "quiet s (run_evict env p k s)"
  by (rule quiet_leave [where rk = "fst k"]) (simp_all add: run_evict_def Let_def)

lemma ensure_repo_parts:
  "wk_writers (snd (ensure_repo env rk repoId s)) = wk_writers s" "wk_writes (snd (ensure_repo env rk repoId s)) = wk_writes s"
  "wk_locks (snd (ensure_repo env rk repoId s)) = wk_locks s"
  by (simp_all add: ensure_repo_def Let_def split: option.split)

lemma apply_locked_parts:
  "wk_writers (snd (apply_locked opt env repoId head b s)) = wk_writers s"
  "wk_writes (snd (apply_locked opt env repoId head b s)) = wk_writes s"
  "wk_locks (snd (apply_locked opt env repoId head b s)) = wk_locks s"
  by (simp_all add: apply_locked_def Let_def split: option.split)

lemma quiet_run_apply: "quiet s (run_apply opt env u repoId head s)"
proof -
  let ?rk = "wo_repoKey opt repoId"
  obtain x t where e: "ensure_repo env ?rk repoId (leave_lock ?rk s) = (x, t)" by force
  note p = ensure_repo_parts [of env ?rk repoId "leave_lock ?rk s", unfolded e snd_conv]
  show ?thesis
  proof (cases x)
    case (Inl f)
    then show ?thesis by (intro quiet_leave [where rk = ?rk]) (simp_all add: run_apply_def e p)
  next
    case (Inr b)
    obtain y u' where a: "apply_locked opt env repoId head b t = (y, u')" by force
    note q = apply_locked_parts [of opt env repoId head b t, unfolded a snd_conv]
    show ?thesis by (rule quiet_leave [where rk = ?rk]) (simp_all add: run_apply_def e Inr a p q)
  qed
qed

lemma deliver_commit_parts:
  "wk_writers (snd (deliver_commit env j m e head s)) = wk_writers s"
  "wk_writes (snd (deliver_commit env j m e head s)) = wk_writes s"
  "wk_locks (snd (deliver_commit env j m e head s)) = wk_locks s"
  by (simp_all add: deliver_commit_def Let_def split: option.split sum.split)

lemma quiet_run_finalize: "quiet s (run_finalize env rk f j m owner s)"
  by (rule quiet_leave [where rk = rk])
     (simp_all add: run_finalize_def Let_def deliver_commit_parts case_prod_unfold split: option.split sum.split)

lemma quiet_advance_pass: "quiet s (advance_pass opt p s)"
proof (cases "\<exists>k c. scan_victim None (wk_checkouts s) = Some (k, c)")
  case True
  then obtain k c where v: "scan_victim None (wk_checkouts s) = Some (k, c)" by blast
  show ?thesis
  proof (cases "pass_of p s = PassReady \<and> wo_maxCached opt < length (wk_checkouts s) \<and> \<not> wk_stopped s")
    case True
    then show ?thesis
      by (intro quiet_enqueue [where rk = "fst k" and x = "EvictTask p k"]) (simp_all add: advance_pass_def v enqueue_def)
  next
    case False
    then show ?thesis by (intro quiet_same) (auto simp: advance_pass_def v)
  qed
next
  case False
  then have "scan_victim None (wk_checkouts s) = None" by (cases "scan_victim None (wk_checkouts s)") auto
  then show ?thesis by (intro quiet_same) (simp_all add: advance_pass_def)
qed

lemma run_lock_write_inv:
  assumes inv: "write_inv opt s"
  shows "write_inv opt (run_lock opt env rk s)"
proof (cases "wk_locks s rk")
  case Nil
  with inv show ?thesis by (simp add: run_lock_def)
next
  case (Cons x xs)
  note ok = write_invD(3) [OF inv, of x rk]
  show ?thesis
  proof (cases x)
    case (WriteTask i)
    with ok Cons have i: "i < length (wk_writers s)" "wh_state (wk_writers s ! i) = WriteQueued"
      "wo_repoKey opt (ws_repoId (wh_ref (wk_writers s ! i))) = rk" by simp_all
    have l: "wk_locks (run_write opt env i s) = (wk_locks s)(rk := xs)"
      using i(3) Cons by (simp add: run_write_locks leave_lock_def)
    have a: "active (wk_writers s ! i)" using i(2) by (simp add: active_def)
    have "write_inv opt (run_write opt env i s)"
      using run_write_shape [of opt env i s]
    proof (elim disjE exE conjE)
      assume "wk_writers (run_write opt env i s) = (wk_writers s)[i := (wk_writers s ! i)\<lparr>wh_state := WriteLive\<rparr>]"
        "wk_writes (run_write opt env i s) = wk_writes s"
      then show ?thesis using run_writer_inv [OF inv Cons _ i(1) a l] WriteTask by blast
    next
      fix e
      assume "wk_writers (run_write opt env i s) = (wk_writers s)[i := (wk_writers s ! i)\<lparr>wh_state := WriteFailed e\<rparr>]"
        "wk_writes (run_write opt env i s) = jmap_delete (wk_writes s) (wh_job (wk_writers s ! i))"
      moreover have "\<not> active ((wk_writers s ! i)\<lparr>wh_state := WriteFailed e\<rparr>)" by (simp add: active_def)
      ultimately show ?thesis using run_writer_inv [OF inv Cons _ i(1) a l] WriteTask by blast
    qed
    with WriteTask Cons show ?thesis by (simp add: run_lock_def)
  next
    case (WriteGoneTask i)
    with ok Cons have i: "i < length (wk_writers s)" "wh_state (wk_writers s ! i) = WriteLeaving"
      "wo_repoKey opt (ws_repoId (wh_ref (wk_writers s ! i))) = rk" by simp_all
    have l: "wk_locks (run_write_gone opt env i s) = (wk_locks s)(rk := xs)"
      using i(3) Cons by (simp add: run_write_gone_def Let_def job_dir_def leave_lock_def set_writer_def)
    have a: "active (wk_writers s ! i)" using i(2) by (simp add: active_def)
    have "\<not> active ((wk_writers s ! i)\<lparr>wh_state := WriteReleased\<rparr>)" by (simp add: active_def)
    then have "write_inv opt (run_write_gone opt env i s)"
      using run_writer_inv [OF inv Cons _ i(1) a l, where st = WriteReleased] run_write_gone_shape [of opt env i s] WriteGoneTask
      by blast
    with WriteGoneTask Cons show ?thesis by (simp add: run_lock_def)
  next
    case (HaveTask q)
    have "quiet s (run_have env rk q s)" by (rule quiet_leave [where rk = rk]) (simp_all add: run_have_def Let_def)
    with write_inv_quiet [OF inv] HaveTask Cons show ?thesis by (simp add: run_lock_def)
  qed (simp_all add: run_lock_def Cons write_inv_quiet [OF inv] quiet_run_read quiet_run_place quiet_run_evict quiet_run_apply
      quiet_run_finalize)
qed

lemma ws_step_write_inv:
  assumes inv: "write_inv opt s"
  shows "write_inv opt (ws_step opt env a s)"
proof (cases a)
  case (WsResolve r)
  have "quiet s (snd (resolve_read opt r s))"
    by (cases "entry_refused opt (ws_repoId r) s") (auto simp: resolve_read_def quiet_def enqueue_def)
  with WsResolve write_inv_quiet [OF inv] show ?thesis by simp
next
  case (WsApply u repoId head)
  have "quiet s (snd (apply_bundle opt u repoId head s))"
    by (cases "entry_refused opt repoId s") (auto simp: apply_bundle_def quiet_def enqueue_def)
  with WsApply write_inv_quiet [OF inv] show ?thesis by simp
next
  case (WsHave q repoId)
  have "quiet s (snd (have_tip opt q repoId s))"
    by (cases "entry_refused opt repoId s") (auto simp: have_tip_def quiet_def enqueue_def)
  with WsHave write_inv_quiet [OF inv] show ?thesis by simp
next
  case (WsFinalize f ab j m)
  have "quiet s (snd (finalize_write f ab j m s))"
    by (cases "jmap_get (wk_writes s) j") (auto simp: finalize_write_def quiet_def enqueue_def)
  with WsFinalize write_inv_quiet [OF inv] show ?thesis by simp
next
  case (WsRelease i)
  have "quiet s (release_read opt i s)" by (rule quiet_same) (simp_all add: release_read_def)
  with WsRelease write_inv_quiet [OF inv] show ?thesis by simp
next
  case WsStop
  have "quiet s (stop_store s)" by (rule quiet_same) (simp_all add: stop_store_def)
  with WsStop write_inv_quiet [OF inv] show ?thesis by simp
qed (simp_all add: run_lock_write_inv resolve_write_inv release_write_inv write_inv_quiet [OF inv] quiet_advance_pass inv)

lemma ws_reachable_write_inv: "ws_reachable opt s0 s \<Longrightarrow> write_inv opt s"
proof (induction rule: ws_reachable.induct)
  case (ws_open found disk repos)
  show ?case by (simp add: write_inv_def opened_store_def split: prod.split)
qed (rule ws_step_write_inv)

text \<open>C10 A write job has its worktree for itself: in every state of the store, of two write handles that wait, work or
  are being torn down no two are for the same job, and the registry names for each of them its own repository and the
  commit it was asked to start from.\<close>

theorem write_worktree_exclusive:
  assumes "ws_reachable opt s0 s" "i < length (wk_writers s)" "k < length (wk_writers s)" "i \<noteq> k"
    "active (wk_writers s ! i)" "active (wk_writers s ! k)"
  shows "wh_job (wk_writers s ! i) \<noteq> wh_job (wk_writers s ! k) \<and>
    jmap_get (wk_writes s) (wh_job (wk_writers s ! i)) =
      Some \<lparr>we_owner = i, we_repoKey = wo_repoKey opt (ws_repoId (wh_ref (wk_writers s ! i))),
            we_base = ws_headCommit (wh_ref (wk_writers s ! i))\<rparr>"
proof -
  note inv = ws_reachable_write_inv [OF assms(1)]
  have "jmap_get (wk_writes s) (wh_job (wk_writers s ! i)) = Some (entry_for opt i (wk_writers s ! i))"
    "jmap_get (wk_writes s) (wh_job (wk_writers s ! k)) = Some (entry_for opt k (wk_writers s ! k))"
    using write_invD(1) [OF inv] assms by blast+
  then show ?thesis using assms(4) by (auto simp: entry_for_def)
qed

definition demo_writing :: ws_store where
  "demo_writing = ws_run [WsResolveWrite demo_ref ''j1'', WsResolveWrite demo_ref ''j2'', WsRun ''r'', WsRun ''r''] demo_store"

theorem write_worktree_exclusive_witness:
  "\<exists>g h. wk_writers demo_writing = [g, h] \<and> wh_state g = WriteLive \<and> wh_state h = WriteLive \<and> wh_job g \<noteq> wh_job h"
proof -
  have "map wh_state (wk_writers demo_writing) = [WriteLive, WriteLive]" by code_simp
  then obtain g h where w: "wk_writers demo_writing = [g, h]" "wh_state g = WriteLive" "wh_state h = WriteLive"
    by (cases "wk_writers demo_writing") (auto simp: Cons_eq_map_conv)
  have r: "ws_reachable demo_options (opened_store [] (\<lambda>_. None) (\<lambda>_. None)) demo_writing"
    unfolding demo_writing_def by (rule ws_run_reachable [OF demo_store_reachable])
  have "wh_job g \<noteq> wh_job h"
    using write_worktree_exclusive [OF r, of 0 1] w by (simp add: active_def)
  with w show ?thesis by blast
qed

end
