(* ===== verification/Spawn.thy ===== *)
theory Spawn imports Protocol begin

text \<open>
  \<^verbatim>\<open>packages/executors/src/spawn.ts\<close>: the one way a job runs a process. Deciding the target, with the quoting for
  \<open>cmd.exe\<close>, is a function; the running process is a state that the events of the child, the timers and the job's
  signal act on. The platform, whether the working directory exists and those events are inputs.
\<close>

section \<open>Deciding the target\<close>

datatype platform = Windows | Posix

definition cmd_unescapable :: "char \<Rightarrow> bool" where
  "cmd_unescapable c = (c = CHR ''%'' \<or> c = CHR 0x0D \<or> c = CHR 0x0A \<or> c = CHR ''!'')"

definition regex_space :: "char \<Rightarrow> bool" where
  "regex_space c = ((9 \<le> (of_char c :: nat) \<and> (of_char c :: nat) \<le> 13) \<or> c = CHR '' '' \<or> (of_char c :: nat) = 160)"

definition cmd_meta :: "char \<Rightarrow> bool" where
  "cmd_meta c = (regex_space c \<or> c \<in> set ''&|<>()^'')"

definition cmd_needs_quoting :: "char \<Rightarrow> bool" where
  "cmd_needs_quoting c = (cmd_meta c \<or> c = CHR 0x22)"

definition double_quotes :: "string \<Rightarrow> string" where
  "double_quotes t = concat (map (\<lambda>c. if c = CHR 0x22 then [CHR 0x22, CHR 0x22] else [c]) t)"

definition quote_cmd_token :: "string \<Rightarrow> string" where
  "quote_cmd_token t =
     (if t \<noteq> [] \<and> \<not> list_ex cmd_needs_quoting t then t else CHR 0x22 # double_quotes t @ [CHR 0x22])"

definition lower :: "char \<Rightarrow> char" where
  "lower c = (if 65 \<le> (of_char c :: nat) \<and> (of_char c :: nat) \<le> 90 then char_of ((of_char c :: nat) + 32) else c)"

definition is_batch :: "string \<Rightarrow> bool" where
  "is_batch executable = (map lower (drop (length executable - 4) executable) \<in> {''.cmd'', ''.bat''})"

record invocation =
  iv_executable :: string
  iv_args :: "string list"
  iv_verbatim :: bool

definition unsafe_argument :: "string \<Rightarrow> hfp_error" where
  "unsafe_argument arg =
     \<lparr>err_code = INVALID_REQUEST,
      err_message = ''argument contains a character that cannot be safely passed to a batch (.cmd/.bat) command on Windows (one of %, CR, LF, !)'',
      err_details = Some (JObj [(''arg'', JStr arg)])\<rparr>"

definition cmd_line :: "string \<Rightarrow> string list \<Rightarrow> string" where
  "cmd_line executable args = join_with (CHR '' '') (quote_cmd_token executable # map quote_cmd_token args)"

definition resolve_spawn_invocation :: "string \<Rightarrow> string list \<Rightarrow> platform \<Rightarrow> hfp_error + invocation" where
  "resolve_spawn_invocation executable args platform =
     (if platform = Windows \<and> is_batch executable then
        (case find (list_ex cmd_unescapable) args of
           Some arg \<Rightarrow> Inl (unsafe_argument arg)
         | None \<Rightarrow> Inr \<lparr>iv_executable = ''cmd.exe'',
             iv_args = [''/d'', ''/s'', ''/c'', CHR 0x22 # cmd_line executable args @ [CHR 0x22]], iv_verbatim = True\<rparr>)
      else Inr \<lparr>iv_executable = executable, iv_args = args, iv_verbatim = False\<rparr>)"

section \<open>Running a command\<close>

datatype spawn_outcome =
    Completed command_output
  | TimedOut command_output
  | SpawnCanceled command_output
  | Refused hfp_error

datatype kill_reason = ByTimeout | ByCancel

fun killed_outcome :: "kill_reason \<Rightarrow> command_output \<Rightarrow> spawn_outcome" where
  "killed_outcome ByTimeout out = TimedOut out"
| "killed_outcome ByCancel out = SpawnCanceled out"

text \<open>The allowlist is a plain object read with \<open>hasOwn\<close>: an entry maps a logical name to its executable, if declared.\<close>

type_synonym allowlist = "(string, string option) jmap"

definition not_allowed :: "string \<Rightarrow> hfp_error" where
  "not_allowed command = \<lparr>err_code = COMMAND_NOT_ALLOWED,
     err_message = ''command '' @ [CHR 0x22] @ command @ [CHR 0x22] @ '' is not on this worker's allowlist'',
     err_details = Some (JObj [(''command'', JStr command)])\<rparr>"

definition no_workspace :: "string \<Rightarrow> hfp_error" where
  "no_workspace cwd = \<lparr>err_code = WORKSPACE_UNAVAILABLE,
     err_message = ''workspace directory is not available on this worker: '' @ cwd,
     err_details = Some (JObj [(''cwd'', JStr cwd)])\<rparr>"

record spawn_request =
  sq_command :: string
  sq_args :: "string list"
  sq_cwd :: string

definition spawn_gate ::
    "platform \<Rightarrow> allowlist \<Rightarrow> bool \<Rightarrow> bool \<Rightarrow> spawn_request \<Rightarrow> spawn_outcome + invocation" where
  "spawn_gate platform allow cwdIsDirectory aborted rq =
     (case jmap_get allow (sq_command rq) of
        None \<Rightarrow> Inl (Refused (not_allowed (sq_command rq)))
      | Some declared \<Rightarrow>
          if \<not> cwdIsDirectory then Inl (Refused (no_workspace (sq_cwd rq)))
          else if aborted then Inl (SpawnCanceled \<lparr>out_stdout = [], out_stderr = [], out_exitCode = None\<rparr>)
          else (case resolve_spawn_invocation (case declared of None \<Rightarrow> sq_command rq | Some e \<Rightarrow> e) (sq_args rq) platform of
                  Inl e \<Rightarrow> Inl (Refused e)
                | Inr iv \<Rightarrow> Inr iv))"

text \<open>The process: whether the child has exited (its pipes may still be open), what killed it, whether the watchdog is
  armed, and the outcome once the promise is settled.\<close>

record running =
  rn_stdout :: "byte list"
  rn_stderr :: "byte list"
  rn_exited :: bool
  rn_killedBy :: "kill_reason option"
  rn_watchdog :: bool
  rn_settled :: "spawn_outcome option"

datatype child_event =
    StdoutData "byte list"
  | StderrData "byte list"
  | Exits
  | Closes "int option"
  | SpawnFails string
  | TimerFires
  | SignalAborts
  | WatchdogFires

definition just_spawned :: running where
  "just_spawned = \<lparr>rn_stdout = [], rn_stderr = [], rn_exited = False, rn_killedBy = None, rn_watchdog = False, rn_settled = None\<rparr>"

definition settle :: "spawn_outcome \<Rightarrow> running \<Rightarrow> running" where
  "settle x r = (if rn_settled r \<noteq> None then r else r\<lparr>rn_settled := Some x, rn_watchdog := False\<rparr>)"

definition captured :: "int option \<Rightarrow> running \<Rightarrow> command_output" where
  "captured code r = \<lparr>out_stdout = collected_text (rn_stdout r), out_stderr = collected_text (rn_stderr r), out_exitCode = code\<rparr>"

definition kill_child :: "kill_reason \<Rightarrow> running \<Rightarrow> running" where
  "kill_child why r =
     (if rn_settled r \<noteq> None \<or> rn_killedBy r \<noteq> None then r
      else if rn_exited r then r
      else r\<lparr>rn_killedBy := Some why, rn_watchdog := True\<rparr>)"

definition spawn_error :: "string \<Rightarrow> string \<Rightarrow> hfp_error" where
  "spawn_error executable msg =
     hfp_err INTERNAL (''failed to spawn '' @ [CHR 0x22] @ executable @ [CHR 0x22] @ '': '' @ msg)"

fun spawn_step :: "string \<Rightarrow> child_event \<Rightarrow> running \<Rightarrow> running" where
  "spawn_step exe (StdoutData bs) r = r\<lparr>rn_stdout := collect (rn_stdout r) bs\<rparr>"
| "spawn_step exe (StderrData bs) r = r\<lparr>rn_stderr := collect (rn_stderr r) bs\<rparr>"
| "spawn_step exe Exits r = r\<lparr>rn_exited := True\<rparr>"
| "spawn_step exe (Closes code) r =
     settle (case rn_killedBy r of
        None \<Rightarrow> Completed (captured code r)
      | Some why \<Rightarrow> killed_outcome why (captured None r)) (r\<lparr>rn_exited := True\<rparr>)"
| "spawn_step exe (SpawnFails msg) r = settle (Refused (spawn_error exe msg)) r"
| "spawn_step exe TimerFires r = kill_child ByTimeout r"
| "spawn_step exe SignalAborts r = kill_child ByCancel r"
| "spawn_step exe WatchdogFires r =
     (case rn_killedBy r of
        None \<Rightarrow> r
      | Some why \<Rightarrow> if rn_watchdog r then settle (killed_outcome why (captured None r)) r else r)"

definition spawn_run :: "string \<Rightarrow> child_event list \<Rightarrow> running" where
  "spawn_run exe evs = fold (spawn_step exe) evs just_spawned"

text \<open>What the started process gives: \<open>child_process.spawn\<close> itself throws (a NUL in an argument, an argument list that is
  too long), or the child lives through its events.  How the promise of \<open>safeSpawn\<close> then stands: a throw inside
  the promise's constructor rejects it, and it is pending as long as nothing has settled it.\<close>

type_synonym child = "string + child_event list"

datatype spawn_promise =
    SpawnPending
  | SpawnSettled spawn_outcome
  | SpawnRejected string

definition child_promise :: "string \<Rightarrow> child \<Rightarrow> spawn_promise" where
  "child_promise exe c =
     (case c of
        Inl msg \<Rightarrow> SpawnRejected msg
      | Inr evs \<Rightarrow> (case rn_settled (spawn_run exe evs) of None \<Rightarrow> SpawnPending | Some x \<Rightarrow> SpawnSettled x))"

definition safe_spawn ::
    "platform \<Rightarrow> allowlist \<Rightarrow> bool \<Rightarrow> bool \<Rightarrow> spawn_request \<Rightarrow> child \<Rightarrow> spawn_promise" where
  "safe_spawn platform allow cwdIsDirectory aborted rq c =
     (case spawn_gate platform allow cwdIsDirectory aborted rq of
        Inl x \<Rightarrow> SpawnSettled x
      | Inr iv \<Rightarrow> child_promise (iv_executable iv) c)"

section \<open>Quoting\<close>

text \<open>The characters of a line that stand outside double quotes, and the quotes dropped.\<close>

fun outside_quotes :: "bool \<Rightarrow> string \<Rightarrow> string" where
  "outside_quotes inq [] = []"
| "outside_quotes inq (c # cs) =
     (if c = CHR 0x22 then outside_quotes (\<not> inq) cs
      else if inq then outside_quotes inq cs else c # outside_quotes inq cs)"

text \<open>The line can be taken apart again: \<open>line_fields\<close> and \<open>bare_token\<close> undo what \<open>cmd_line\<close> does.  They are the left
  inverse the proof that a line determines its arguments needs, and say nothing of how \<open>cmd.exe\<close> reads the line.\<close>

fun line_fields :: "bool \<Rightarrow> string \<Rightarrow> string list" where
  "line_fields inq [] = [[]]"
| "line_fields inq (c # cs) =
     (if c = CHR '' '' \<and> \<not> inq then [] # line_fields inq cs
      else (case line_fields (if c = CHR 0x22 then \<not> inq else inq) cs of
              [] \<Rightarrow> [[c]]
            | t # ts \<Rightarrow> (c # t) # ts))"

fun undouble :: "string \<Rightarrow> string" where
  "undouble (c # d # cs) = (if c = CHR 0x22 \<and> d = CHR 0x22 then c # undouble cs else c # undouble (d # cs))"
| "undouble cs = cs"

fun bare_token :: "string \<Rightarrow> string" where
  "bare_token (c # cs) = (if c = CHR 0x22 then undouble (butlast cs) else c # cs)"
| "bare_token [] = []"

lemma outside_doubled: "outside_quotes True (double_quotes t @ rest) = outside_quotes True rest"
  by (induction t) (simp_all add: double_quotes_def)

lemma outside_bare: "\<not> list_ex cmd_needs_quoting t \<Longrightarrow> outside_quotes False (t @ rest) = t @ outside_quotes False rest"
  by (induction t) (auto simp: cmd_needs_quoting_def)

lemma bare_no_meta: "\<not> list_ex cmd_needs_quoting t \<Longrightarrow> filter cmd_meta t = []"
  by (induction t) (auto simp: cmd_needs_quoting_def)

lemma outside_token:
  "filter cmd_meta (outside_quotes False (quote_cmd_token t @ rest)) = filter cmd_meta (outside_quotes False rest)"
  by (auto simp: quote_cmd_token_def outside_bare bare_no_meta outside_doubled)

lemma outside_line:
  "filter cmd_meta (outside_quotes False (join_with (CHR '' '') (map quote_cmd_token (t # ts)))) =
     replicate (length ts) (CHR '' '')"
proof (induction ts arbitrary: t)
  case Nil
  then show ?case using outside_token [of t "[]"] by simp
next
  case (Cons u us)
  have "cmd_meta (CHR '' '')" by (simp add: cmd_meta_def regex_space_def)
  with Cons [of u] show ?case by (simp add: outside_token)
qed

lemma line_fields_nonempty [simp]: "line_fields q cs \<noteq> []"
  by (induction q cs rule: line_fields.induct) (auto split: list.split)

definition onto_first :: "string \<Rightarrow> string list \<Rightarrow> string list" where
  "onto_first s ts = (case ts of [] \<Rightarrow> [s] | t # us \<Rightarrow> (s @ t) # us)"

lemma onto_first_simps [simp]:
  "onto_first [] (t # ts) = t # ts" "onto_first s (t # ts) = (s @ t) # ts"
  by (simp_all add: onto_first_def)

lemma tokens_doubled: "line_fields True (double_quotes t @ rest) = onto_first (double_quotes t) (line_fields True rest)"
proof (induction t)
  case Nil
  then show ?case by (cases "line_fields True rest") (simp_all add: double_quotes_def)
next
  case (Cons c t)
  then show ?case by (cases "line_fields True rest") (simp_all add: double_quotes_def)
qed

lemma tokens_bare:
  "\<not> list_ex cmd_needs_quoting t \<Longrightarrow> line_fields False (t @ rest) = onto_first t (line_fields False rest)"
proof (induction t)
  case Nil
  then show ?case by (cases "line_fields False rest") simp_all
next
  case (Cons c t)
  then have "c \<noteq> CHR '' ''" "c \<noteq> CHR 0x22" by (auto simp: cmd_needs_quoting_def cmd_meta_def regex_space_def)
  with Cons show ?case by (cases "line_fields False rest") simp_all
qed

lemma tokens_token: "line_fields False (quote_cmd_token t @ rest) = onto_first (quote_cmd_token t) (line_fields False rest)"
proof (cases "t \<noteq> [] \<and> \<not> list_ex cmd_needs_quoting t")
  case True
  then show ?thesis by (simp add: quote_cmd_token_def tokens_bare)
next
  case False
  then have q: "quote_cmd_token t = CHR 0x22 # double_quotes t @ [CHR 0x22]" by (auto simp: quote_cmd_token_def)
  show ?thesis unfolding q
    by (cases "line_fields False rest") (simp_all add: tokens_doubled)
qed

lemma undouble_doubled: "undouble (double_quotes t) = t"
proof (induction t)
  case (Cons c t)
  have "double_quotes (c # t) = (if c = CHR 0x22 then [c, c] else [c]) @ double_quotes t" by (simp add: double_quotes_def)
  moreover have "c \<noteq> CHR 0x22 \<Longrightarrow> undouble (c # u) = c # undouble u" for u by (cases u) simp_all
  ultimately show ?case using Cons by simp
qed (simp add: double_quotes_def)

lemma bare_token_quoted: "bare_token (quote_cmd_token t) = t"
proof (cases "t \<noteq> [] \<and> \<not> list_ex cmd_needs_quoting t")
  case True
  then show ?thesis by (cases t) (auto simp: quote_cmd_token_def cmd_needs_quoting_def)
qed (auto simp: quote_cmd_token_def undouble_doubled)

lemma tokens_line:
  "map bare_token (line_fields False (join_with (CHR '' '') (map quote_cmd_token (t # ts)))) = t # ts"
proof (induction ts arbitrary: t)
  case Nil
  then show ?case using tokens_token [of t "[]"] by (simp add: bare_token_quoted)
next
  case (Cons u us)
  from Cons [of u] show ?case by (simp add: tokens_token bare_token_quoted)
qed

lemma cmd_line_fields: "map bare_token (line_fields False (cmd_line exe args)) = exe # args"
  using tokens_line [of exe args] by (simp add: cmd_line_def)

lemma cmd_line_determines: "(cmd_line e xs = cmd_line exe args) = (e = exe \<and> xs = args)"
  using cmd_line_fields by (metis list.inject)


text \<open>A token with a character at which \<open>cmd.exe\<close> also splits the parameters of a batch file stays bare: the code quotes
  for the metacharacters and white space only.\<close>

lemma comma_stays_bare: "quote_cmd_token ''a,b;c=d'' = ''a,b;c=d''"
  by code_simp

section \<open>Settling\<close>

lemma settled_stays: "rn_settled r = Some x \<Longrightarrow> rn_settled (spawn_step exe e r) = Some x"
  by (cases e) (auto simp: settle_def kill_child_def split: option.split)

lemma settled_stays_fold: "rn_settled r = Some x \<Longrightarrow> rn_settled (fold (spawn_step exe) evs r) = Some x"
  by (induction evs arbitrary: r) (simp_all add: settled_stays)

text \<open>A killed process: the watchdog is armed until it settles, and it settles as killed.\<close>

fun kill_outcome :: "kill_reason \<Rightarrow> spawn_outcome \<Rightarrow> bool" where
  "kill_outcome why (Completed _) = False"
| "kill_outcome why (TimedOut out) = (why = ByTimeout \<and> out_exitCode out = None)"
| "kill_outcome why (SpawnCanceled out) = (why = ByCancel \<and> out_exitCode out = None)"
| "kill_outcome why (Refused _) = True"

definition killed :: "kill_reason \<Rightarrow> running \<Rightarrow> bool" where
  "killed why r = (rn_killedBy r = Some why \<and>
     (case rn_settled r of None \<Rightarrow> rn_watchdog r | Some x \<Rightarrow> kill_outcome why x))"

lemma kill_outcome_killed: "out_exitCode out = None \<Longrightarrow> kill_outcome why (killed_outcome why out)"
  by (cases why) simp_all

lemma killed_step: "killed why r \<Longrightarrow> killed why (spawn_step exe e r)"
  by (cases e) (auto simp: killed_def settle_def kill_child_def captured_def kill_outcome_killed split: option.splits)

lemma killed_fold: "killed why r \<Longrightarrow> killed why (fold (spawn_step exe) evs r)"
  by (induction evs arbitrary: r) (simp_all add: killed_step)

lemma not_exited:
  "Exits \<notin> set evs \<Longrightarrow> rn_settled (fold (spawn_step exe) evs r) = None \<Longrightarrow> \<not> rn_exited r \<Longrightarrow>
     \<not> rn_exited (fold (spawn_step exe) evs r)"
proof (induction evs arbitrary: r)
  case (Cons e evs)
  have "\<not> rn_exited (spawn_step exe e r)"
  proof (cases "\<exists>c. e = Closes c")
    case True
    then have "rn_settled (spawn_step exe e r) \<noteq> None" by (auto simp: settle_def)
    then obtain x where "rn_settled (spawn_step exe e r) = Some x" by blast
    then have "rn_settled (fold (spawn_step exe) (e # evs) r) = Some x" by (simp add: settled_stays_fold)
    with Cons.prems show ?thesis by simp
  next
    case False
    with Cons.prems show ?thesis
      by (cases e) (auto simp: settle_def kill_child_def split: option.split)
  qed
  with Cons show ?case by simp
qed simp

text \<open>A timeout or a cancellation ends the command: once the timer fires or the signal aborts while the child runs, the
  promise is settled by the time the watchdog fires, whatever the child, its pipes and the kill do - never as a completion,
  and with a null exit code for the reason that came first.\<close>

theorem kill_always_settles:
  assumes "rn_settled (spawn_run exe pre) = None" "rn_killedBy (spawn_run exe pre) = None" "Exits \<notin> set pre"
  shows "\<exists>x. rn_settled (spawn_run exe (pre @ [case why of ByTimeout \<Rightarrow> TimerFires | ByCancel \<Rightarrow> SignalAborts] @ evs @ [WatchdogFires])) = Some x \<and>
    kill_outcome why x"
proof -
  let ?r = "spawn_run exe pre" and ?e = "case why of ByTimeout \<Rightarrow> TimerFires | ByCancel \<Rightarrow> SignalAborts"
  have "\<not> rn_exited ?r"
    using not_exited [of pre exe just_spawned] assms by (simp add: spawn_run_def just_spawned_def)
  then have "killed why (spawn_step exe ?e ?r)"
    using assms by (cases why) (simp_all add: killed_def kill_child_def)
  then have k: "killed why (fold (spawn_step exe) evs (spawn_step exe ?e ?r))" by (rule killed_fold)
  let ?s = "fold (spawn_step exe) evs (spawn_step exe ?e ?r)"
  have "\<exists>x. rn_settled (spawn_step exe WatchdogFires ?s) = Some x"
    using k by (cases "rn_settled ?s") (auto simp: killed_def settle_def)
  moreover have "killed why (spawn_step exe WatchdogFires ?s)" by (rule killed_step [OF k])
  ultimately show ?thesis by (auto simp: killed_def spawn_run_def)
qed

theorem kill_always_settles_witness:
  "\<exists>x. rn_settled (spawn_run ''sh'' [StdoutData [], TimerFires, Exits, SignalAborts, WatchdogFires]) = Some x \<and> kill_outcome ByTimeout x"
  using kill_always_settles [of "''sh''" "[StdoutData []]" ByTimeout "[Exits, SignalAborts]"]
  by (simp add: spawn_run_def just_spawned_def)

text \<open>A child that exits while another process still holds its pipes is not killed any more: no timeout and no
  cancellation settles the promise until the pipes close.\<close>

lemma exited_child_hangs:
  assumes "\<And>e. e \<in> set evs \<Longrightarrow> e = TimerFires \<or> e = SignalAborts \<or> e = WatchdogFires \<or> (\<exists>bs. e = StdoutData bs)"
  shows "rn_settled (spawn_run exe (Exits # evs)) = None"
proof -
  have "rn_settled (fold (spawn_step exe) evs r) = None"
    if "rn_exited r" "rn_killedBy r = None" "rn_settled r = None" for r
    using assms that
  proof (induction evs arbitrary: r)
    case (Cons e evs)
    from Cons.prems(1) [of e] have "e = TimerFires \<or> e = SignalAborts \<or> e = WatchdogFires \<or> (\<exists>bs. e = StdoutData bs)" by simp
    then have "rn_exited (spawn_step exe e r)" "rn_killedBy (spawn_step exe e r) = None" "rn_settled (spawn_step exe e r) = None"
      using Cons.prems(2-) by (auto simp: kill_child_def)
    with Cons show ?case by simp
  qed simp
  then show ?thesis by (simp add: spawn_run_def just_spawned_def)
qed

end

