(* ===== verification/ToolLoop.thy ===== *)
theory ToolLoop imports ExecutorContract Spawn begin

text \<open>
  \<^verbatim>\<open>packages/executors/src/agent/loop.ts\<close>: the conversation of the model executors. A turn is one request to the
  model and the tool calls of its answer. What the model answers, the clock and the job's signal are the turn's
  environment; \<open>JSON.parse\<close> and \<open>JSON.stringify\<close> are arguments; the tools work on a workspace of any type \<open>'w\<close>.
\<close>

section \<open>Messages and tools\<close>

record tool_call =
  tc_id :: string
  tc_name :: string
  tc_arguments :: jtext

datatype chat_message =
    SystemMsg jtext
  | UserMsg jtext
  | AssistantMsg "jtext option" "tool_call list"
  | ToolMsg string jtext

record usage =
  us_promptTokens :: nat
  us_completionTokens :: nat

record completion =
  cm_content :: "jtext option"
  cm_toolCalls :: "tool_call list"
  cm_usage :: "usage option"

record tool_payload =
  tp_isError :: bool
  tp_content :: jtext

record tool_context =
  tx_workspaceDir :: string
  tx_aborted :: bool
  tx_commandTimeoutMs :: int

text \<open>The promise of \<open>execute\<close> answers a payload, rejects, or never settles.\<close>

datatype tool_answer = Answers tool_payload | ToolThrows | NeverSettles

record 'w agent_tool =
  at_name :: string
  at_eventArgsKeys :: "string list option"
  at_execute :: "json \<Rightarrow> tool_context \<Rightarrow> 'w \<Rightarrow> tool_answer \<times> 'w"

record 'w loop_options =
  lo_systemPrompt :: jtext
  lo_userPrompt :: jtext
  lo_tools :: "'w agent_tool list"
  lo_budgets :: budgets
  lo_terminalTools :: "string list"
  lo_workspaceDir :: string

datatype loop_outcome =
    ContentEnd jtext
  | TerminalEnd string json
  | BudgetEnd string
  | EndpointEnd string
  | AbortedEnd

text \<open>Where the loop ends: its promise settles with an outcome and its stats, it rejects because a tool threw, or it waits
  for ever for a tool whose promise never settles.\<close>

datatype loop_end = LoopOutcome loop_outcome job_stats | LoopRejects | LoopHangs

record json_text =
  jt_parse :: "jtext \<Rightarrow> json option"
  jt_stringify :: "json \<Rightarrow> jtext"

section \<open>The environment of a turn\<close>

text \<open>For each call: the clock when it starts and the signal before and after it.\<close>

record call_env =
  ce_now :: int
  ce_abortedBefore :: bool
  ce_abortedAfter :: bool

record turn =
  tn_aborted :: bool
  tn_now :: int
  tn_chat :: "string + completion"
  tn_abortedAfterChat :: bool
  tn_nowAfterChat :: int
  tn_call :: "nat \<Rightarrow> call_env"
  tn_end :: int

record 'w loop_state =
  ls_used :: nat
  ls_promptTokens :: "nat option"
  ls_completionTokens :: "nat option"
  ls_messages :: "chat_message list"
  ls_events :: "exec_payload list"
  ls_workspace :: 'w

section \<open>Tool calls\<close>

definition EVENT_SUMMARY_MAX_CHARS :: nat where "EVENT_SUMMARY_MAX_CHARS = 512"

text \<open>A \<open>Map\<close> built from the list: the last tool of a name counts.\<close>

definition tool_named :: "'w agent_tool list \<Rightarrow> string \<Rightarrow> 'w agent_tool option" where
  "tool_named tools n = find (\<lambda>t. at_name t = n) (rev tools)"

definition redact :: "string list \<Rightarrow> (string \<times> json) list \<Rightarrow> (string \<times> json) list" where
  "redact keep kvs = List.map_filter (\<lambda>k. map_option (Pair k) (jmap_get kvs k)) keep"

definition args_summary_for :: "json_text \<Rightarrow> 'w agent_tool option \<Rightarrow> jtext \<Rightarrow> jtext" where
  "args_summary_for jt tool rawArgs =
     (case Option.bind tool at_eventArgsKeys of
        None \<Rightarrow> truncate_chars rawArgs EVENT_SUMMARY_MAX_CHARS
      | Some keep \<Rightarrow>
          (case jt_parse jt rawArgs of
             Some (JObj kvs) \<Rightarrow> truncate_chars (jt_stringify jt (JObj (redact keep kvs))) EVENT_SUMMARY_MAX_CHARS
           | _ \<Rightarrow> jtext_of ''{}''))"

definition invoke_tool ::
    "json_text \<Rightarrow> 'w agent_tool list \<Rightarrow> tool_call \<Rightarrow> tool_context \<Rightarrow> 'w \<Rightarrow> tool_answer \<times> 'w" where
  "invoke_tool jt tools c cx w =
     (case tool_named tools (tc_name c) of
        None \<Rightarrow> (Answers \<lparr>tp_isError = True, tp_content = jtext_of (''unknown tool: '' @ tc_name c)\<rparr>, w)
      | Some t \<Rightarrow>
          (case jt_parse jt (tc_arguments c) of
             None \<Rightarrow> (Answers \<lparr>tp_isError = True,
               tp_content = jtext_of ''tool arguments are not valid JSON: '' @ truncate_chars (tc_arguments c) 256\<rparr>, w)
           | Some args \<Rightarrow> at_execute t args cx w))"

section \<open>The loop\<close>

definition loop_stats :: "int \<Rightarrow> int \<Rightarrow> 'w loop_state \<Rightarrow> job_stats" where
  "loop_stats startedAt now s = \<lparr>st_toolCalls = int (ls_used s), st_wallMs = now - startedAt,
     st_promptTokens = map_option int (ls_promptTokens s), st_completionTokens = map_option int (ls_completionTokens s)\<rparr>"

definition budget_message :: "string \<Rightarrow> int \<Rightarrow> string" where
  "budget_message what n = what @ show_int n @ '')''"

definition add_usage :: "completion \<Rightarrow> 'w loop_state \<Rightarrow> 'w loop_state" where
  "add_usage c s =
     (case cm_usage c of
        None \<Rightarrow> s
      | Some u \<Rightarrow> s\<lparr>ls_promptTokens := Some ((case ls_promptTokens s of None \<Rightarrow> 0 | Some n \<Rightarrow> n) + us_promptTokens u),
          ls_completionTokens := Some ((case ls_completionTokens s of None \<Rightarrow> 0 | Some n \<Rightarrow> n) + us_completionTokens u)\<rparr>)"

definition terminal_args :: "json_text \<Rightarrow> 'w loop_options \<Rightarrow> tool_call \<Rightarrow> json option" where
  "terminal_args jt opt c = (if tc_name c \<in> set (lo_terminalTools opt) then jt_parse jt (tc_arguments c) else None)"

text \<open>The \<open>for\<close> over the calls of one answer, the \<open>i\<close>-th first: it ends the loop, or every call is answered.\<close>

fun run_calls ::
    "json_text \<Rightarrow> 'w loop_options \<Rightarrow> int \<Rightarrow> turn \<Rightarrow> nat \<Rightarrow> tool_call list \<Rightarrow> 'w loop_state \<Rightarrow> loop_end option \<times> 'w loop_state" where
  "run_calls jt opt startedAt tn i [] s = (None, s)"
| "run_calls jt opt startedAt tn i (c # cs) s =
     (case terminal_args jt opt c of
        Some args \<Rightarrow> (Some (LoopOutcome (TerminalEnd (tc_name c) args) (loop_stats startedAt (tn_end tn) s)), s)
      | None \<Rightarrow>
          if maxToolCalls (lo_budgets opt) \<le> int (ls_used s)
          then (Some (LoopOutcome (BudgetEnd (budget_message ''tool-call budget exceeded (maxToolCalls='' (maxToolCalls (lo_budgets opt))))
                  (loop_stats startedAt (tn_end tn) s)), s)
          else
            (let s1 = s\<lparr>ls_used := ls_used s + 1,
                   ls_events := ls_events s @
                     [ToolCallP (tc_name c) (args_summary_for jt (tool_named (lo_tools opt) (tc_name c)) (tc_arguments c))]\<rparr>;
                 ce = tn_call tn i;
                 cx = \<lparr>tx_workspaceDir = lo_workspaceDir opt, tx_aborted = ce_abortedBefore ce,
                   tx_commandTimeoutMs = max 1 (maxWallMs (lo_budgets opt) - (ce_now ce - startedAt))\<rparr>
             in case invoke_tool jt (lo_tools opt) c cx (ls_workspace s1) of
                  (ToolThrows, w) \<Rightarrow> (Some LoopRejects, s1\<lparr>ls_workspace := w\<rparr>)
                | (NeverSettles, w) \<Rightarrow> (Some LoopHangs, s1\<lparr>ls_workspace := w\<rparr>)
                | (Answers r, w) \<Rightarrow>
                    (let s2 = s1\<lparr>ls_workspace := w,
                           ls_events := ls_events s1 @
                             [ToolResultP (tc_name c) (truncate_chars (tp_content r) EVENT_SUMMARY_MAX_CHARS) (tp_isError r)],
                           ls_messages := ls_messages s1 @ [ToolMsg (tc_id c) (tp_content r)]\<rparr>
                     in if ce_abortedAfter ce then (Some (LoopOutcome AbortedEnd (loop_stats startedAt (tn_end tn) s2)), s2)
                        else run_calls jt opt startedAt tn (Suc i) cs s2)))"

definition run_turn ::
    "json_text \<Rightarrow> 'w loop_options \<Rightarrow> int \<Rightarrow> turn \<Rightarrow> 'w loop_state \<Rightarrow> loop_end option \<times> 'w loop_state" where
  "run_turn jt opt startedAt tn s =
     (let finish = (\<lambda>x t. (Some (LoopOutcome x (loop_stats startedAt (tn_end tn) t)), t)); wall = maxWallMs (lo_budgets opt)
      in if tn_aborted tn then finish AbortedEnd s
         else if wall - (tn_now tn - startedAt) \<le> 0 then
           finish (BudgetEnd (budget_message ''wall-time budget exceeded (maxWallMs='' wall)) s
         else case tn_chat tn of
           Inl msg \<Rightarrow>
             if tn_abortedAfterChat tn then finish AbortedEnd s
             else if wall \<le> tn_nowAfterChat tn - startedAt then
               finish (BudgetEnd (budget_message ''wall-time budget exceeded during a model call (maxWallMs='' wall)) s
             else finish (EndpointEnd (''endpoint failure: '' @ msg)) s
         | Inr c \<Rightarrow>
             (let s1 = add_usage c s
              in if cm_toolCalls c = [] then
                   (case cm_content c of
                      None \<Rightarrow> finish (EndpointEnd ''endpoint returned neither content nor tool calls'') s1
                    | Some t \<Rightarrow> finish (ContentEnd t) s1)
                 else run_calls jt opt startedAt tn 0 (cm_toolCalls c)
                   (s1\<lparr>ls_messages := ls_messages s1 @ [AssistantMsg (cm_content c) (cm_toolCalls c)]\<rparr>)))"

text \<open>The \<open>while (true)\<close>, along a list of turns: \<open>None\<close> when the list ends before the loop does.\<close>

fun loop_turns ::
    "json_text \<Rightarrow> 'w loop_options \<Rightarrow> int \<Rightarrow> turn list \<Rightarrow> 'w loop_state \<Rightarrow> loop_end option \<times> 'w loop_state" where
  "loop_turns jt opt startedAt [] s = (None, s)"
| "loop_turns jt opt startedAt (tn # tns) s =
     (case run_turn jt opt startedAt tn s of
        (Some x, t) \<Rightarrow> (Some x, t)
      | (None, t) \<Rightarrow> loop_turns jt opt startedAt tns t)"

definition run_tool_loop ::
    "json_text \<Rightarrow> 'w loop_options \<Rightarrow> int \<Rightarrow> turn list \<Rightarrow> 'w \<Rightarrow> loop_end option \<times> 'w loop_state" where
  "run_tool_loop jt opt startedAt tns w =
     loop_turns jt opt startedAt tns
       \<lparr>ls_used = 0, ls_promptTokens = None, ls_completionTokens = None,
        ls_messages = [SystemMsg (lo_systemPrompt opt), UserMsg (lo_userPrompt opt)], ls_events = [], ls_workspace = w\<rparr>"

section \<open>What a run of calls does\<close>

inductive called :: "string \<Rightarrow> exec_payload list \<Rightarrow> bool" for n where
  "called n [ToolCallP n a, ToolResultP n r b]"

text \<open>The events of answered calls: a \<open>tool_call\<close> and its \<open>tool_result\<close>, call after call.\<close>

fun paired_events :: "exec_payload list \<Rightarrow> bool" where
  "paired_events [] = True"
| "paired_events (ToolCallP n a # ToolResultP m r b # es) = (n = m \<and> paired_events es)"
| "paired_events _ = False"

lemma paired_append: "paired_events es \<Longrightarrow> paired_events (es @ [ToolCallP n a, ToolResultP n r b])"
  by (induction es rule: paired_events.induct) auto

lemma paired_length: "paired_events es \<Longrightarrow> even (length es)"
  by (induction es rule: paired_events.induct) auto

definition loop_inv :: "'w loop_options \<Rightarrow> 'w loop_state \<Rightarrow> bool" where
  "loop_inv opt s = (paired_events (ls_events s) \<and> length (ls_events s) = 2 * ls_used s \<and>
     int (ls_used s) \<le> max 0 (maxToolCalls (lo_budgets opt)))"

lemma loop_inv_messages [simp]:
  "loop_inv opt (s\<lparr>ls_messages := ms\<rparr>) = loop_inv opt s" "loop_inv opt (add_usage c s) = loop_inv opt s"
  by (simp_all add: loop_inv_def add_usage_def split: option.split)

text \<open>One call: how it can end the loop, or the state once it is answered.\<close>

definition answer_call ::
    "json_text \<Rightarrow> 'w loop_options \<Rightarrow> tool_call \<Rightarrow> tool_payload \<Rightarrow> 'w \<Rightarrow> 'w loop_state \<Rightarrow> 'w loop_state" where
  "answer_call jt opt c r w s = s\<lparr>ls_used := ls_used s + 1, ls_workspace := w,
     ls_events := ls_events s @
       [ToolCallP (tc_name c) (args_summary_for jt (tool_named (lo_tools opt) (tc_name c)) (tc_arguments c)),
        ToolResultP (tc_name c) (truncate_chars (tp_content r) EVENT_SUMMARY_MAX_CHARS) (tp_isError r)],
     ls_messages := ls_messages s @ [ToolMsg (tc_id c) (tp_content r)]\<rparr>"

lemma answer_call_inv:
  "loop_inv opt s \<Longrightarrow> int (ls_used s) < maxToolCalls (lo_budgets opt) \<Longrightarrow> loop_inv opt (answer_call jt opt c r w s)"
  by (simp add: loop_inv_def answer_call_def paired_append)

text \<open>A call that is never answered: its \<open>tool_call\<close> is the last event.\<close>

definition cut_call :: "json_text \<Rightarrow> 'w loop_options \<Rightarrow> tool_call \<Rightarrow> 'w \<Rightarrow> 'w loop_state \<Rightarrow> 'w loop_state" where
  "cut_call jt opt c w s = s\<lparr>ls_used := ls_used s + 1, ls_workspace := w,
     ls_events := ls_events s @
       [ToolCallP (tc_name c) (args_summary_for jt (tool_named (lo_tools opt) (tc_name c)) (tc_arguments c))]\<rparr>"

lemma run_calls_cons:
  "run_calls jt opt st tn i (c # cs) s =
     (case terminal_args jt opt c of
        Some args \<Rightarrow> (Some (LoopOutcome (TerminalEnd (tc_name c) args) (loop_stats st (tn_end tn) s)), s)
      | None \<Rightarrow>
          if maxToolCalls (lo_budgets opt) \<le> int (ls_used s)
          then (Some (LoopOutcome (BudgetEnd (budget_message ''tool-call budget exceeded (maxToolCalls='' (maxToolCalls (lo_budgets opt))))
                  (loop_stats st (tn_end tn) s)), s)
          else (case invoke_tool jt (lo_tools opt) c
                  \<lparr>tx_workspaceDir = lo_workspaceDir opt, tx_aborted = ce_abortedBefore (tn_call tn i),
                   tx_commandTimeoutMs = max 1 (maxWallMs (lo_budgets opt) - (ce_now (tn_call tn i) - st))\<rparr> (ls_workspace s) of
                  (ToolThrows, w) \<Rightarrow> (Some LoopRejects, cut_call jt opt c w s)
                | (NeverSettles, w) \<Rightarrow> (Some LoopHangs, cut_call jt opt c w s)
                | (Answers r, w) \<Rightarrow>
                    if ce_abortedAfter (tn_call tn i)
                    then (Some (LoopOutcome AbortedEnd (loop_stats st (tn_end tn) (answer_call jt opt c r w s))), answer_call jt opt c r w s)
                    else run_calls jt opt st tn (Suc i) cs (answer_call jt opt c r w s)))"
proof (cases "terminal_args jt opt c = None \<and> int (ls_used s) < maxToolCalls (lo_budgets opt)")
  case True
  let ?cx = "\<lparr>tx_workspaceDir = lo_workspaceDir opt, tx_aborted = ce_abortedBefore (tn_call tn i),
    tx_commandTimeoutMs = max 1 (maxWallMs (lo_budgets opt) - (ce_now (tn_call tn i) - st))\<rparr>"
  obtain p w where "invoke_tool jt (lo_tools opt) c ?cx (ls_workspace s) = (p, w)" by force
  with True show ?thesis by (cases p) (simp_all add: Let_def answer_call_def cut_call_def)
qed (auto split: option.split)

abbreviation unanswered :: "loop_end option \<Rightarrow> bool" where
  "unanswered x \<equiv> x = Some LoopRejects \<or> x = Some LoopHangs"

text \<open>What holds of every state a run of calls reaches, given what an answered call keeps.\<close>

lemma run_calls_keeps:
  assumes step: "\<And>c r w s. P s \<Longrightarrow> int (ls_used s) < maxToolCalls (lo_budgets opt) \<Longrightarrow> P (answer_call jt opt c r w s)"
    and run: "run_calls jt opt st tn i cs s = (x, t)" "P s"
  shows "if unanswered x then \<exists>c w u. P u \<and> int (ls_used u) < maxToolCalls (lo_budgets opt) \<and> t = cut_call jt opt c w u else P t"
  using run
proof (induction cs arbitrary: i s)
  case (Cons c cs)
  show ?case
  proof (cases "terminal_args jt opt c = None \<and> int (ls_used s) < maxToolCalls (lo_budgets opt)")
    case True
    then show ?thesis
    proof -
      let ?cx = "\<lparr>tx_workspaceDir = lo_workspaceDir opt, tx_aborted = ce_abortedBefore (tn_call tn i),
        tx_commandTimeoutMs = max 1 (maxWallMs (lo_budgets opt) - (ce_now (tn_call tn i) - st))\<rparr>"
      obtain p w where i: "invoke_tool jt (lo_tools opt) c ?cx (ls_workspace s) = (p, w)" by force
      show ?thesis
      proof (cases p)
        case (Answers r)
        have a: "P (answer_call jt opt c r w s)" using step Cons.prems(2) True by simp
        show ?thesis
        proof (cases "ce_abortedAfter (tn_call tn i)")
          case False
          then have "run_calls jt opt st tn (Suc i) cs (answer_call jt opt c r w s) = (x, t)"
            using Cons.prems(1) True i Answers by (simp add: run_calls_cons del: run_calls.simps)
          from Cons.IH [OF this a] show ?thesis .
        qed (use Cons.prems True i Answers a in \<open>auto simp: run_calls_cons simp del: run_calls.simps\<close>)
      next
        case ToolThrows
        then have "x = Some LoopRejects \<and> t = cut_call jt opt c w s" using Cons.prems(1) True i
          by (auto simp: run_calls_cons simp del: run_calls.simps)
        then show ?thesis using Cons.prems(2) True by auto
      next
        case NeverSettles
        then have "x = Some LoopHangs \<and> t = cut_call jt opt c w s" using Cons.prems(1) True i
          by (auto simp: run_calls_cons simp del: run_calls.simps)
        then show ?thesis using Cons.prems(2) True by auto
      qed
    qed
  next
    case False
    then show ?thesis using Cons.prems
      by (auto simp: run_calls_cons simp del: run_calls.simps split: option.splits)
  qed
qed simp

lemma run_calls_all:
  "run_calls jt opt st tn i cs s = (None, t) \<Longrightarrow> cs \<noteq> [] \<Longrightarrow>
     ls_used t = ls_used s + length cs \<and> int (ls_used t) \<le> maxToolCalls (lo_budgets opt)"
proof (induction cs arbitrary: i s)
  case (Cons c cs)
  from Cons.prems obtain r w where u: "int (ls_used s) < maxToolCalls (lo_budgets opt)"
    and t: "run_calls jt opt st tn (Suc i) cs (answer_call jt opt c r w s) = (None, t)"
    by (auto simp: run_calls_cons simp del: run_calls.simps split: option.splits if_splits prod.splits tool_answer.splits)
  have a: "ls_used (answer_call jt opt c r w s) = ls_used s + 1" by (simp add: answer_call_def)
  show ?case
  proof (cases "cs = []")
    case True
    with t u a show ?thesis by auto
  next
    case False
    from Cons.IH [OF t False] a show ?thesis by simp
  qed
qed simp

section \<open>Turns\<close>

definition asked :: "completion \<Rightarrow> 'w loop_state \<Rightarrow> 'w loop_state" where
  "asked c s = (add_usage c s)\<lparr>ls_messages := ls_messages (add_usage c s) @ [AssistantMsg (cm_content c) (cm_toolCalls c)]\<rparr>"

lemma run_turn_cases:
  obtains (calls) c where "cm_toolCalls c \<noteq> []" "run_turn jt opt st tn s = run_calls jt opt st tn 0 (cm_toolCalls c) (asked c s)"
  | (stop) e t where "run_turn jt opt st tn s = (Some (LoopOutcome e (loop_stats st (tn_end tn) t)), t)" "t = s \<or> (\<exists>c. t = add_usage c s)"
proof (cases "tn_aborted tn \<or> maxWallMs (lo_budgets opt) - (tn_now tn - st) \<le> 0")
  case True
  show thesis
  proof (rule stop [of _ s])
    show "run_turn jt opt st tn s = (Some (LoopOutcome (if tn_aborted tn then AbortedEnd
        else BudgetEnd (budget_message ''wall-time budget exceeded (maxWallMs='' (maxWallMs (lo_budgets opt))))
        (loop_stats st (tn_end tn) s)), s)"
      using True by (auto simp: run_turn_def Let_def)
  qed simp
next
  case False
  show thesis
  proof (cases "tn_chat tn")
    case (Inl m)
    show thesis
    proof (rule stop [of _ s])
      show "run_turn jt opt st tn s = (Some (LoopOutcome (if tn_abortedAfterChat tn then AbortedEnd
          else if maxWallMs (lo_budgets opt) \<le> tn_nowAfterChat tn - st
          then BudgetEnd (budget_message ''wall-time budget exceeded during a model call (maxWallMs='' (maxWallMs (lo_budgets opt)))
          else EndpointEnd (''endpoint failure: '' @ m)) (loop_stats st (tn_end tn) s)), s)"
        using False Inl by (simp add: run_turn_def Let_def)
    qed simp
  next
    case (Inr c)
    show thesis
    proof (cases "cm_toolCalls c = []")
      case True
      show thesis
      proof (rule stop [of _ "add_usage c s"])
        show "run_turn jt opt st tn s = (Some (LoopOutcome (case cm_content c of
            None \<Rightarrow> EndpointEnd ''endpoint returned neither content nor tool calls'' | Some t \<Rightarrow> ContentEnd t)
            (loop_stats st (tn_end tn) (add_usage c s))), add_usage c s)"
          using False Inr True by (simp add: run_turn_def Let_def split: option.split)
      qed blast
    next
      case calls': False
      then show thesis using False Inr by (intro calls [of c]) (simp_all add: run_turn_def Let_def asked_def)
    qed
  qed
qed

lemma run_turn_keeps:
  assumes step: "\<And>c r w s. P s \<Longrightarrow> int (ls_used s) < maxToolCalls (lo_budgets opt) \<Longrightarrow> P (answer_call jt opt c r w s)"
    and more: "\<And>c s. P s \<Longrightarrow> P (add_usage c s)" "\<And>c s. P s \<Longrightarrow> P (asked c s)"
    and run: "run_turn jt opt st tn s = (x, t)" "P s"
  shows "if unanswered x then \<exists>c w u. P u \<and> int (ls_used u) < maxToolCalls (lo_budgets opt) \<and> t = cut_call jt opt c w u else P t"
proof (cases rule: run_turn_cases [of jt opt st tn s])
  case (calls c)
  then have "run_calls jt opt st tn 0 (cm_toolCalls c) (asked c s) = (x, t)" using run(1) by simp
  from run_calls_keeps [of P, OF step this more(2) [OF run(2)]] show ?thesis by blast
next
  case (stop e u)
  then show ?thesis using run more(1) [OF run(2)] by auto
qed

lemma run_turn_goes_on:
  assumes "run_turn jt opt st tn s = (None, t)"
  shows "ls_used s < ls_used t" "int (ls_used t) \<le> maxToolCalls (lo_budgets opt)"
proof -
  from assms obtain c where c: "cm_toolCalls c \<noteq> []" "run_calls jt opt st tn 0 (cm_toolCalls c) (asked c s) = (None, t)"
    by (cases rule: run_turn_cases [of jt opt st tn s]) auto
  have u: "ls_used (asked c s) = ls_used s" by (simp add: asked_def add_usage_def split: option.split)
  have "length (cm_toolCalls c) \<noteq> 0" using c(1) by simp
  with run_calls_all [OF c(2,1)] u show "ls_used s < ls_used t" "int (ls_used t) \<le> maxToolCalls (lo_budgets opt)" by simp_all
qed

lemma loop_turns_used:
  "loop_turns jt opt st tns s = (None, t) \<Longrightarrow>
     ls_used s + length tns \<le> ls_used t \<and> (tns \<noteq> [] \<longrightarrow> int (ls_used t) \<le> maxToolCalls (lo_budgets opt))"
proof (induction tns arbitrary: s)
  case (Cons tn tns)
  then obtain u where u: "run_turn jt opt st tn s = (None, u)" "loop_turns jt opt st tns u = (None, t)"
    by (auto split: prod.splits option.splits)
  from Cons.IH [OF u(2)] run_turn_goes_on [OF u(1)] u(2) show ?case by (cases tns) auto
qed simp

lemma loop_turns_keeps:
  assumes step: "\<And>c r w s. P s \<Longrightarrow> int (ls_used s) < maxToolCalls (lo_budgets opt) \<Longrightarrow> P (answer_call jt opt c r w s)"
    and more: "\<And>c s. P s \<Longrightarrow> P (add_usage c s)" "\<And>c s. P s \<Longrightarrow> P (asked c s)"
  shows "loop_turns jt opt st tns s = (x, t) \<Longrightarrow> P s \<Longrightarrow>
    if unanswered x then \<exists>c w u. P u \<and> int (ls_used u) < maxToolCalls (lo_budgets opt) \<and> t = cut_call jt opt c w u else P t"
proof (induction tns arbitrary: s)
  case (Cons tn tns)
  obtain y u where u: "run_turn jt opt st tn s = (y, u)" by force
  show ?case
  proof (cases y)
    case None
    with u Cons.prems have "loop_turns jt opt st tns u = (x, t)" by simp
    moreover have "P u" using run_turn_keeps [of P, OF step more u Cons.prems(2)] None by simp
    ultimately show ?thesis using Cons.IH by blast
  next
    case (Some e)
    with u Cons.prems have "x = y" "u = t" by simp_all
    then have v: "run_turn jt opt st tn s = (x, t)" using u by simp
    show ?thesis by (rule run_turn_keeps [of P, OF step more v Cons.prems(2)])
  qed
qed simp

section \<open>What the loop guarantees\<close>

lemma asked_parts [simp]: "ls_events (asked c s) = ls_events s" "ls_used (asked c s) = ls_used s"
  by (simp_all add: asked_def add_usage_def split: option.split)

lemma run_calls_stats:
  "run_calls jt opt st tn i cs s = (Some (LoopOutcome e stats), t) \<Longrightarrow> stats = loop_stats st (tn_end tn) t"
proof (induction cs arbitrary: i s)
  case (Cons c cs)
  then show ?case
    by (auto simp: run_calls_cons simp del: run_calls.simps split: option.splits if_splits prod.splits tool_answer.splits)
qed simp

text \<open>An outcome's stats are read off the last state, at the clock of the turn that ended the loop.\<close>

lemma loop_turns_stats:
  "loop_turns jt opt st tns s = (Some (LoopOutcome e stats), t) \<Longrightarrow> \<exists>tn \<in> set tns. stats = loop_stats st (tn_end tn) t"
proof (induction tns arbitrary: s)
  case (Cons tn tns)
  obtain y u where u: "run_turn jt opt st tn s = (y, u)" by force
  show ?case
  proof (cases y)
    case None
    with u Cons show ?thesis by simp
  next
    case (Some x)
    with u Cons.prems have x: "x = LoopOutcome e stats" "u = t" by simp_all
    have "stats = loop_stats st (tn_end tn) t"
    proof (cases rule: run_turn_cases [of jt opt st tn s])
      case (calls c)
      then show ?thesis using u Some x run_calls_stats by metis
    next
      case (stop e' t')
      then show ?thesis using u Some x by simp
    qed
    then show ?thesis by simp
  qed
qed simp

text \<open>Only a tool that throws, or never settles, keeps the loop from an outcome.\<close>

lemma run_calls_unanswered:
  assumes "fst (run_calls jt opt st tn i cs s) = Some x"
    "x = LoopRejects \<and> b = ToolThrows \<or> x = LoopHangs \<and> b = NeverSettles"
  shows "\<exists>n t args cx w. n \<notin> set (lo_terminalTools opt) \<and> tool_named (lo_tools opt) n = Some t \<and> fst (at_execute t args cx w) = b"
  using assms(1)
proof (induction cs arbitrary: i s)
  case (Cons c cs)
  let ?cx = "\<lparr>tx_workspaceDir = lo_workspaceDir opt, tx_aborted = ce_abortedBefore (tn_call tn i),
    tx_commandTimeoutMs = max 1 (maxWallMs (lo_budgets opt) - (ce_now (tn_call tn i) - st))\<rparr>"
  obtain p w where i: "invoke_tool jt (lo_tools opt) c ?cx (ls_workspace s) = (p, w)" by force
  have go: "terminal_args jt opt c = None \<and> int (ls_used s) < maxToolCalls (lo_budgets opt)"
    using Cons.prems assms(2) by (auto simp: run_calls_cons simp del: run_calls.simps split: option.splits if_splits)
  show ?case
  proof (cases "\<exists>r. p = Answers r")
    case True
    then obtain r where r: "p = Answers r" by blast
    have "fst (run_calls jt opt st tn (Suc i) cs (answer_call jt opt c r w s)) = Some x"
      using Cons.prems assms(2) go i r by (auto simp: run_calls_cons simp del: run_calls.simps split: if_splits)
    from Cons.IH [OF this] show ?thesis .
  next
    case False
    then have p: "p = b" using Cons.prems assms(2) go i
      by (cases p) (auto simp: run_calls_cons simp del: run_calls.simps)
    then obtain t args where t: "tool_named (lo_tools opt) (tc_name c) = Some t" "jt_parse jt (tc_arguments c) = Some args"
      "at_execute t args ?cx (ls_workspace s) = (p, w)" using i False by (auto simp: invoke_tool_def split: option.splits)
    moreover have "tc_name c \<notin> set (lo_terminalTools opt)" using go t(2) by (auto simp: terminal_args_def split: if_splits)
    ultimately show ?thesis using p by (metis fst_conv)
  qed
qed simp

lemma loop_turns_unanswered:
  assumes "fst (loop_turns jt opt st tns s) = Some x"
    "x = LoopRejects \<and> b = ToolThrows \<or> x = LoopHangs \<and> b = NeverSettles"
  shows "\<exists>n t args cx w. n \<notin> set (lo_terminalTools opt) \<and> tool_named (lo_tools opt) n = Some t \<and> fst (at_execute t args cx w) = b"
  using assms(1)
proof (induction tns arbitrary: s)
  case (Cons tn tns)
  obtain y u where u: "run_turn jt opt st tn s = (y, u)" by force
  show ?case
  proof (cases y)
    case None
    then show ?thesis using Cons u by simp
  next
    case (Some z)
    then have z: "run_turn jt opt st tn s = (Some x, u)" using Cons.prems u by simp
    from run_turn_cases [of jt opt st tn s] show ?thesis
    proof cases
      case (calls c)
      then have "fst (run_calls jt opt st tn 0 (cm_toolCalls c) (asked c s)) = Some x" using z by (metis fst_conv)
      from run_calls_unanswered [OF this assms(2)] show ?thesis .
    qed (use z assms(2) in auto)
  qed
qed simp

text \<open>The history the model is shown: after the two prompts, each answer of the model with calls is followed by one tool
  message for each call, in order.\<close>

inductive history :: "chat_message list \<Rightarrow> bool" where
  prompts: "history [SystemMsg a, UserMsg b]"
| exchange: "history ms \<Longrightarrow> map fst ps = calls \<Longrightarrow>
    history (ms @ AssistantMsg c calls # map (\<lambda>(c, r). ToolMsg (tc_id c) r) ps)"

lemma run_calls_answers:
  "run_calls jt opt st tn i cs s = (None, t) \<Longrightarrow>
     \<exists>ps. map fst ps = cs \<and> ls_messages t = ls_messages s @ map (\<lambda>(c, r). ToolMsg (tc_id c) r) ps"
proof (induction cs arbitrary: i s)
  case (Cons c cs)
  then obtain r w where t: "run_calls jt opt st tn (Suc i) cs (answer_call jt opt c r w s) = (None, t)"
    by (auto simp: run_calls_cons simp del: run_calls.simps split: option.splits if_splits prod.splits tool_answer.splits)
  from Cons.IH [OF t] obtain ps where ps: "map fst ps = cs" "ls_messages t = ls_messages (answer_call jt opt c r w s) @ map (\<lambda>(c, r). ToolMsg (tc_id c) r) ps"
    by blast
  then show ?case by (intro exI [of _ "(c, tp_content r) # ps"]) (simp add: answer_call_def)
qed simp

lemma run_turn_history:
  assumes "run_turn jt opt st tn s = (None, t)" "history (ls_messages s)"
  shows "history (ls_messages t)"
proof -
  from assms(1) obtain c where c: "run_calls jt opt st tn 0 (cm_toolCalls c) (asked c s) = (None, t)"
    by (cases rule: run_turn_cases [of jt opt st tn s]) auto
  have "ls_messages (add_usage c s) = ls_messages s" by (simp add: add_usage_def split: option.split)
  with run_calls_answers [OF c] obtain ps where "map fst ps = cm_toolCalls c"
    "ls_messages t = ls_messages s @ AssistantMsg (cm_content c) (cm_toolCalls c) # map (\<lambda>(c, r). ToolMsg (tc_id c) r) ps"
    by (auto simp: asked_def)
  then show ?thesis using exchange [OF assms(2)] by simp
qed

lemma loop_turns_history:
  "loop_turns jt opt st tns s = (None, t) \<Longrightarrow> history (ls_messages s) \<Longrightarrow> history (ls_messages t)"
proof (induction tns arbitrary: s)
  case (Cons tn tns)
  then obtain u where u: "run_turn jt opt st tn s = (None, u)" "loop_turns jt opt st tns u = (None, t)"
    by (auto split: prod.splits option.splits)
  then show ?case using Cons run_turn_history by blast
qed simp

section \<open>Properties\<close>

lemma tool_named_in: "tool_named tools n = Some t \<Longrightarrow> t \<in> set tools \<and> at_name t = n"
  by (auto simp: tool_named_def find_Some_iff) (metis nth_mem set_rev length_rev)

lemma loop_always_ends:
  assumes "budgets_ok (lo_budgets opt)" "maxToolCalls (lo_budgets opt) < int (length tns)"
  shows "\<exists>x. fst (run_tool_loop jt opt startedAt tns w) = Some x"
proof (cases "fst (run_tool_loop jt opt startedAt tns w)")
  case None
  then obtain t where "run_tool_loop jt opt startedAt tns w = (None, t)" by (metis prod.collapse)
  from loop_turns_used [OF this [unfolded run_tool_loop_def]] assms show ?thesis by (auto simp: budgets_ok_def)
qed simp


definition idle_turn :: turn where
  "idle_turn = \<lparr>tn_aborted = False, tn_now = 0, tn_chat = Inl [], tn_abortedAfterChat = False, tn_nowAfterChat = 0,
     tn_call = (\<lambda>_. \<lparr>ce_now = 0, ce_abortedBefore = False, ce_abortedAfter = False\<rparr>), tn_end = 0\<rparr>"

definition demo_jt :: json_text where
  "demo_jt = \<lparr>jt_parse = (\<lambda>_. None), jt_stringify = (\<lambda>_. [])\<rparr>"

definition demo_options :: "unit loop_options" where
  "demo_options = \<lparr>lo_systemPrompt = [], lo_userPrompt = [], lo_tools = [], lo_budgets = \<lparr>maxToolCalls = 1, maxWallMs = 1000\<rparr>,
     lo_terminalTools = [], lo_workspaceDir = []\<rparr>"


text \<open>C38 The tool-call budget is never exceeded and every call is observable: whatever the model asks, the loop runs at
  most \<open>maxToolCalls\<close> tools and emits exactly one \<open>tool_call\<close> and then one \<open>tool_result\<close> of the same name for each, except
  that the last call has no result when its tool threw or never settles, and an outcome reports that number in its
  stats.\<close>

theorem loop_spends_budget:
  assumes "run_tool_loop jt opt startedAt tns w = (x, t)"
  shows "int (ls_used t) \<le> max 0 (maxToolCalls (lo_budgets opt)) \<and>
    (if x = Some LoopRejects \<or> x = Some LoopHangs
     then \<exists>es n a. ls_events t = es @ [ToolCallP n a] \<and> paired_events es \<and> length es + 2 = 2 * ls_used t
     else paired_events (ls_events t) \<and> length (ls_events t) = 2 * ls_used t) \<and>
    (case x of Some (LoopOutcome e stats) \<Rightarrow> st_toolCalls stats = int (ls_used t) | _ \<Rightarrow> True)"
proof -
  have inv: "if unanswered x then \<exists>c w u. loop_inv opt u \<and> int (ls_used u) < maxToolCalls (lo_budgets opt) \<and> t = cut_call jt opt c w u
    else loop_inv opt t"
    by (rule loop_turns_keeps [of "loop_inv opt", OF _ _ _ assms [unfolded run_tool_loop_def]])
       (rule answer_call_inv, assumption+, simp, simp add: asked_def, simp add: loop_inv_def)
  moreover have "case x of Some (LoopOutcome e stats) \<Rightarrow> st_toolCalls stats = int (ls_used t) | _ \<Rightarrow> True"
    using loop_turns_stats assms by (fastforce simp: run_tool_loop_def loop_stats_def split: option.split loop_end.split)
  ultimately show ?thesis by (auto simp: loop_inv_def cut_call_def split: if_splits)
qed

definition busy_turn :: turn where
  "busy_turn = idle_turn\<lparr>tn_chat := Inr \<lparr>cm_content = None,
     cm_toolCalls = [\<lparr>tc_id = ''1'', tc_name = ''ls'', tc_arguments = []\<rparr>], cm_usage = None\<rparr>\<rparr>"

theorem loop_spends_budget_witness:
  "\<exists>t. run_tool_loop demo_jt demo_options 0 [busy_turn] () = (None, t) \<and> length (ls_events t) = 2 * ls_used t \<and> ls_used t = 1"
proof -
  obtain x t where r: "run_tool_loop demo_jt demo_options 0 [busy_turn] () = (x, t)" by force
  then have x: "x = None \<and> ls_used t = 1"
    by (auto simp: run_tool_loop_def run_turn_def busy_turn_def idle_turn_def demo_options_def add_usage_def terminal_args_def
        Let_def invoke_tool_def tool_named_def)
  then show ?thesis using loop_spends_budget [OF r] r by simp
qed

text \<open>The model never sees a dangling call: whenever it is asked again, the history it is shown consists of the two
  prompts and, for each of its earlier answers, that answer followed by one tool message for each of its calls, in order.\<close>

theorem history_is_answered:
  assumes "run_tool_loop jt opt startedAt tns w = (None, t)"
  shows "history (ls_messages t)"
  using assms unfolding run_tool_loop_def by (rule loop_turns_history) (simp add: prompts)

theorem history_is_answered_witness:
  "\<exists>t. run_tool_loop demo_jt demo_options 0 [busy_turn] () = (None, t) \<and> history (ls_messages t) \<and> length (ls_messages t) = 4"
proof -
  obtain x t where r: "run_tool_loop demo_jt demo_options 0 [busy_turn] () = (x, t)" by force
  then have x: "x = None \<and> length (ls_messages t) = 4"
    by (auto simp: run_tool_loop_def run_turn_def busy_turn_def idle_turn_def demo_options_def add_usage_def terminal_args_def
        Let_def invoke_tool_def tool_named_def)
  with r have "history (ls_messages t)" using history_is_answered [of demo_jt demo_options 0 "[busy_turn]" "()" t] by simp
  then show ?thesis using r x by blast
qed

text \<open>The arguments a tool's event may show: those of its redaction keys, of a JSON object.\<close>

definition visible_args :: "json_text \<Rightarrow> string list \<Rightarrow> jtext \<Rightarrow> (string \<times> json option) list option" where
  "visible_args jt keep raw =
     (case jt_parse jt raw of Some (JObj kvs) \<Rightarrow> Some (map (\<lambda>k. (k, jmap_get kvs k)) keep) | _ \<Rightarrow> None)"

text \<open>File content never reaches the event stream: two calls of a tool with redaction keys whose visible arguments agree
  have the same summary, whatever else their arguments contain.\<close>

theorem summary_hides_content:
  assumes "at_eventArgsKeys tool = Some keep" "visible_args jt keep raw = visible_args jt keep raw'"
  shows "args_summary_for jt (Some tool) raw = args_summary_for jt (Some tool) raw'"
proof -
  have r: "redact keep kvs = redact keep kvs'"
    if "\<forall>k \<in> set keep. jmap_get kvs k = jmap_get kvs' k" for kvs kvs' :: "(string \<times> json) list"
    using that by (induction keep) (simp_all add: redact_def map_filter_simps split: option.split)
  show ?thesis using assms
    by (auto simp: args_summary_for_def visible_args_def split: option.splits json.splits dest!: r)
qed

theorem summary_hides_content_witness:
  "args_summary_for \<lparr>jt_parse = (\<lambda>t. Some (JObj [(''path'', JStr ''a''), (''content'', JNum (int (length t)))])), jt_stringify = (\<lambda>_. [])\<rparr>
     (Some \<lparr>at_name = ''write_file'', at_eventArgsKeys = Some [''path''], at_execute = (\<lambda>_ _ (w :: unit). (ToolThrows, w))\<rparr>) [1] =
   args_summary_for \<lparr>jt_parse = (\<lambda>t. Some (JObj [(''path'', JStr ''a''), (''content'', JNum (int (length t)))])), jt_stringify = (\<lambda>_. [])\<rparr>
     (Some \<lparr>at_name = ''write_file'', at_eventArgsKeys = Some [''path''], at_execute = (\<lambda>_ _ (w :: unit). (ToolThrows, w))\<rparr>) [1, 2]"
  by (rule summary_hides_content [where keep = "[''path'']"]) (simp_all add: visible_args_def)

end
