(* ===== verification/Executors.thy ===== *)
theory Executors imports ToolLoop Wire begin

text \<open>
  \<^verbatim>\<open>packages/executors/src/command/command-executor.ts\<close>, \<^verbatim>\<open>agent/agent-executor.ts\<close> and
  \<^verbatim>\<open>agent/write-executor.ts\<close>: the three executors, from the outcome of the process or the conversation to the
  result the schema checks. The elapsed wall time, the finalize step's answer and the verify run are inputs.
\<close>

section \<open>Settling\<close>

text \<open>\<open>JobResultSchema.parse\<close> as the last step: a result it refuses rejects the promise.\<close>

datatype exec_promise = Pending | Resolved job_result | Rejected

definition parse_result :: "job_result \<Rightarrow> exec_promise" where
  "parse_result r = (if job_result_ok r then Resolved r else Rejected)"

definition plain_result :: "string \<Rightarrow> job_type \<Rightarrow> job_status \<Rightarrow> job_stats \<Rightarrow> job_result" where
  "plain_result j t st stats = \<lparr>res_jobId = j, res_type = t, res_status = st, res_summary = None, res_output = None,
     res_stats = stats, res_error = None, res_artifact = None, res_verify = None\<rparr>"

definition no_calls :: "int \<Rightarrow> job_stats" where
  "no_calls wallMs = \<lparr>st_toolCalls = 0, st_wallMs = wallMs, st_promptTokens = None, st_completionTokens = None\<rparr>"

definition failed_with :: "string \<Rightarrow> job_type \<Rightarrow> hfp_error_code \<Rightarrow> string \<Rightarrow> job_stats \<Rightarrow> job_result" where
  "failed_with j t code msg stats = (plain_result j t Failed stats)\<lparr>res_error := Some (hfp_err code msg)\<rparr>"

definition canceled_with :: "string \<Rightarrow> job_type \<Rightarrow> string \<Rightarrow> job_stats \<Rightarrow> job_result" where
  "canceled_with j t msg stats = (plain_result j t Canceled stats)\<lparr>res_error := Some (hfp_err CANCELED msg)\<rparr>"

section \<open>The command executor\<close>

definition exit_json :: "int option \<Rightarrow> json" where
  "exit_json c = (case c of None \<Rightarrow> JNull | Some n \<Rightarrow> JNum n)"

definition exit_error :: "int option \<Rightarrow> hfp_error" where
  "exit_error c = \<lparr>err_code = INTERNAL,
     err_message = (case c of None \<Rightarrow> ''command was killed before exiting'' | Some n \<Rightarrow> ''command exited with code '' @ show_int n),
     err_details = Some (JObj [(''exitCode'', exit_json c)])\<rparr>"

definition timeout_error :: "int \<Rightarrow> hfp_error" where
  "timeout_error ms = \<lparr>err_code = TIMEOUT, err_message = ''command timed out after '' @ show_int ms @ ''ms'',
     err_details = Some (JObj [(''timeoutMs'', JNum ms)])\<rparr>"

definition command_result :: "string \<Rightarrow> command_params \<Rightarrow> int \<Rightarrow> spawn_outcome \<Rightarrow> job_result" where
  "command_result j p wallMs x =
     (let base = (\<lambda>st. plain_result j Command st (no_calls wallMs))
      in case x of
           Completed out \<Rightarrow>
             if out_exitCode out = Some 0 then (base Succeeded)\<lparr>res_output := Some out\<rparr>
             else (base Failed)\<lparr>res_output := Some out, res_error := Some (exit_error (out_exitCode out))\<rparr>
         | TimedOut out \<Rightarrow> (base Failed)\<lparr>res_output := Some out, res_error := Some (timeout_error (cp_timeoutMs p))\<rparr>
         | SpawnCanceled out \<Rightarrow> (base Canceled)\<lparr>res_output := Some out, res_error := Some (hfp_err CANCELED ''job canceled'')\<rparr>
         | Refused e \<Rightarrow> (base Failed)\<lparr>res_error := Some e\<rparr>)"

text \<open>What the worker is and what happens while the command runs.\<close>

record worker_env =
  wn_platform :: platform
  wn_allowlist :: allowlist
  wn_workspaceDir :: string
  wn_isDirectory :: bool
  wn_signalled :: bool
  wn_child :: child

definition command_execute :: "worker_env \<Rightarrow> int \<Rightarrow> string \<Rightarrow> command_params \<Rightarrow> exec_promise" where
  "command_execute env wallMs j p =
     (case safe_spawn (wn_platform env) (wn_allowlist env) (wn_isDirectory env) (wn_signalled env)
             \<lparr>sq_command = cp_command p, sq_args = cp_args p, sq_cwd = wn_workspaceDir env\<rparr> (wn_child env) of
        SpawnPending \<Rightarrow> Pending
      | SpawnRejected msg \<Rightarrow> Rejected
      | SpawnSettled x \<Rightarrow> parse_result (command_result j p wallMs x))"

section \<open>The agent executor\<close>

definition agent_result :: "string \<Rightarrow> loop_outcome \<Rightarrow> job_stats \<Rightarrow> job_result" where
  "agent_result j x stats =
     (case x of
        ContentEnd t \<Rightarrow> (plain_result j Recon Succeeded stats)\<lparr>res_summary := Some (cap_summary t)\<rparr>
      | BudgetEnd m \<Rightarrow> failed_with j Recon BUDGET_EXCEEDED m stats
      | EndpointEnd m \<Rightarrow> failed_with j Recon INTERNAL m stats
      | AbortedEnd \<Rightarrow> canceled_with j Recon ''job canceled'' stats
      | TerminalEnd n args \<Rightarrow> failed_with j Recon INTERNAL (''unexpected terminal tool call: '' @ n) stats)"

fun comma_separated :: "string list \<Rightarrow> string" where
  "comma_separated [] = []"
| "comma_separated [x] = x"
| "comma_separated (x # xs) = x @ '', '' @ comma_separated xs"

definition agent_prompt :: "string \<Rightarrow> 'w agent_tool list \<Rightarrow> jtext" where
  "agent_prompt dir tools =
     jtext_of (''You are a read-only reconnaissance agent. Investigate the repository checked out at '' @ dir @
       '' and answer the user's request. You cannot modify anything; inspect the workspace with the available tools ('' @
       comma_separated (map at_name tools) @
       ''), using workspace-relative paths. When you have enough information, reply with a plain-text summary '') @
     [0x2014] @ jtext_of '' that reply ends the job.''"

text \<open>Whether the endpoint was resolved, when the job starts, the turns of the conversation.\<close>

record agent_env =
  ae_endpoint :: bool
  ae_workspaceDir :: string
  ae_startedAt :: int
  ae_turns :: "turn list"

definition agent_options :: "'w agent_tool list \<Rightarrow> agent_env \<Rightarrow> recon_params \<Rightarrow> 'w loop_options" where
  "agent_options tools env p = \<lparr>lo_systemPrompt = agent_prompt (ae_workspaceDir env) tools, lo_userPrompt = jtext_of (rp_prompt p),
     lo_tools = tools, lo_budgets = rp_budgets p, lo_terminalTools = [], lo_workspaceDir = ae_workspaceDir env\<rparr>"

definition agent_execute ::
    "json_text \<Rightarrow> 'w agent_tool list \<Rightarrow> agent_env \<Rightarrow> int \<Rightarrow> string \<Rightarrow> recon_params \<Rightarrow> 'w \<Rightarrow> exec_promise" where
  "agent_execute jt tools env wallMs j p w =
     (if \<not> ae_endpoint env
      then parse_result (failed_with j Recon INTERNAL ''no model endpoint was resolved for this job'' (no_calls wallMs))
      else case fst (run_tool_loop jt (agent_options tools env p) (ae_startedAt env) (ae_turns env) w) of
        None \<Rightarrow> Pending
      | Some LoopHangs \<Rightarrow> Pending
      | Some LoopRejects \<Rightarrow> Rejected
      | Some (LoopOutcome x stats) \<Rightarrow> parse_result (agent_result j x stats))"

section \<open>The write executor\<close>

definition FINISH_TASK_TOOL_NAME :: string where "FINISH_TASK_TOOL_NAME = ''finish_task''"
definition VERIFY_OUTPUT_TAIL_CHARS :: nat where "VERIFY_OUTPUT_TAIL_CHARS = 8192"

text \<open>\<open>FinishTaskArgsSchema\<close>: a commit message of another type is caught, a summary is required.\<close>

record finish_args =
  fa_commitMessage :: "jtext option"
  fa_summary :: jtext

fun decode_finish :: "json \<Rightarrow> finish_args option" where
  "decode_finish (JObj kvs) =
     (case jmap_get kvs ''summary'' of
        Some (JStr s) \<Rightarrow> Some \<lparr>fa_commitMessage = (case jmap_get kvs ''commitMessage'' of Some (JStr m) \<Rightarrow> Some (jtext_of m) | _ \<Rightarrow> None),
            fa_summary = jtext_of s\<rparr>
      | _ \<Rightarrow> None)"
| "decode_finish _ = None"

text \<open>\<open>execute\<close> throws: the loop must have intercepted the call.\<close>

definition finish_task_tool :: "'w agent_tool" where
  "finish_task_tool = \<lparr>at_name = FINISH_TASK_TOOL_NAME, at_eventArgsKeys = None, at_execute = (\<lambda>args cx w. (ToolThrows, w))\<rparr>"

definition write_prompt :: "string \<Rightarrow> 'w agent_tool list \<Rightarrow> string list option \<Rightarrow> jtext" where
  "write_prompt dir tools hints = jtext_of
     (''You are a code-writing agent. Make the requested change to the repository checked out at '' @ dir @
      '' using the available tools ('' @ comma_separated (map at_name tools) @ ''), with workspace-relative paths.'' @
      (case hints of None \<Rightarrow> [] | Some hs \<Rightarrow> if hs = [] then [] else '' Start with these paths: '' @ comma_separated hs @ ''.'') @
      '' Read the relevant files first, then apply changes with edit_file (exact-match replace) or write_file (create or replace a whole file). '' @
      ''When the change is complete, call finish_task with a short summary and a one-line commit message describing the change. '' @
      ''If you have made no changes worth keeping, reply with a plain-text explanation instead of calling finish_task.'')"

definition js_space16 :: "unit16 \<Rightarrow> bool" where
  "js_space16 u = ((9 \<le> u \<and> u \<le> 13) \<or> u \<in> {0x20, 0xA0, 0x1680, 0x2028, 0x2029, 0x202F, 0x205F, 0x3000, 0xFEFF} \<or>
     (0x2000 \<le> u \<and> u \<le> 0x200A))"

definition trim16 :: "jtext \<Rightarrow> jtext" where
  "trim16 s = rev (dropWhile js_space16 (rev (dropWhile js_space16 s)))"

text \<open>The first piece of a split at \<open>/\r?\n/\<close>.\<close>

definition first_line :: "jtext \<Rightarrow> jtext" where
  "first_line s =
     (if 0x0A \<in> set s
      then (let l = takeWhile (\<lambda>u. u \<noteq> 0x0A) s in if l \<noteq> [] \<and> last l = 0x0D then butlast l else l)
      else s)"

definition fallback_commit_message :: "string \<Rightarrow> jtext" where
  "fallback_commit_message instructions =
     (let l = first_line (trim16 (jtext_of instructions)) in if l = [] then jtext_of ''homefleet write job'' else l)"

definition commit_message_for :: "string \<Rightarrow> jtext option \<Rightarrow> jtext" where
  "commit_message_for instructions given =
     cap_commit_message (case given of
        Some m \<Rightarrow> if trim16 m \<noteq> [] then m else fallback_commit_message instructions
      | None \<Rightarrow> fallback_commit_message instructions)"

definition combine_output :: "command_output \<Rightarrow> jtext" where
  "combine_output out = join_with 0x0A (filter (\<lambda>s. s \<noteq> []) [out_stderr out, out_stdout out])"

definition verify_report_of :: "verify_command \<Rightarrow> spawn_outcome \<Rightarrow> verify_report" where
  "verify_report_of v x =
     (let ran = (\<lambda>out. \<lparr>vr_name = vc_name v, vr_args = vc_args v, vr_exitCode = out_exitCode out,
                   vr_outputTail = tail_chars (combine_output out) VERIFY_OUTPUT_TAIL_CHARS\<rparr>)
      in case x of
           Refused e \<Rightarrow> \<lparr>vr_name = vc_name v, vr_args = vc_args v, vr_exitCode = None,
             vr_outputTail = jtext_of (''verify did not run: '' @ err_message e)\<rparr>
         | Completed out \<Rightarrow> ran out | TimedOut out \<Rightarrow> ran out | SpawnCanceled out \<Rightarrow> ran out)"

text \<open>The finalize step answers an artifact, none for a clean tree, or rejects; the signal may be aborted by then. The
  elapsed time is read again for the stats. \<open>z.prettifyError\<close> is the library's text.\<close>

record write_env =
  xe_agent :: agent_env
  xe_worker :: worker_env
  xe_finalize :: "jtext \<Rightarrow> string + write_artifact option"
  xe_abortedAtFinalize :: bool
  xe_elapsed :: int
  xe_prettyError :: string

definition with_elapsed :: "int \<Rightarrow> job_stats \<Rightarrow> job_stats" where
  "with_elapsed ms st = st\<lparr>st_wallMs := ms\<rparr>"

definition run_verify :: "write_env \<Rightarrow> verify_command \<Rightarrow> spawn_promise" where
  "run_verify env v =
     safe_spawn (wn_platform (xe_worker env)) (wn_allowlist (xe_worker env)) (wn_isDirectory (xe_worker env))
       (wn_signalled (xe_worker env)) \<lparr>sq_command = vc_name v, sq_args = vc_args v, sq_cwd = wn_workspaceDir (xe_worker env)\<rparr>
       (wn_child (xe_worker env))"

definition finalize_and_verify :: "write_env \<Rightarrow> string \<Rightarrow> write_params \<Rightarrow> jtext \<Rightarrow> jtext option \<Rightarrow> job_stats \<Rightarrow> exec_promise" where
  "finalize_and_verify env j p summary given loopStats =
     (let stats = with_elapsed (xe_elapsed env) loopStats
      in case xe_finalize env (commit_message_for (wp_instructions p) given) of
           Inl msg \<Rightarrow>
             parse_result (if xe_abortedAtFinalize env then canceled_with j Write ''job canceled during finalize'' stats
               else failed_with j Write INTERNAL
                 (''finalize failed after the model declared done: '' @ msg @ ''; the workspace may contain a committed but undelivered change'')
                 stats)
         | Inr artifact \<Rightarrow>
             (let finish = (\<lambda>v. parse_result ((plain_result j Write Succeeded stats)\<lparr>res_summary := Some summary,
                            res_artifact := Some artifact, res_verify := v\<rparr>))
              in case wp_verifyCommand p of
                   None \<Rightarrow> finish None
                 | Some v \<Rightarrow> (case run_verify env v of
                       SpawnPending \<Rightarrow> Pending
                     | SpawnRejected msg \<Rightarrow> Rejected
                     | SpawnSettled x \<Rightarrow> finish (Some (verify_report_of v x)))))"

definition write_options :: "'w agent_tool list \<Rightarrow> agent_env \<Rightarrow> write_params \<Rightarrow> 'w loop_options" where
  "write_options tools env p =
     (let toolset = tools @ [finish_task_tool]
      in \<lparr>lo_systemPrompt = write_prompt (ae_workspaceDir env) toolset (wp_pathHints p), lo_userPrompt = jtext_of (wp_instructions p),
          lo_tools = toolset, lo_budgets = wp_budgets p, lo_terminalTools = [FINISH_TASK_TOOL_NAME],
          lo_workspaceDir = ae_workspaceDir env\<rparr>)"

definition write_outcome :: "write_env \<Rightarrow> string \<Rightarrow> write_params \<Rightarrow> loop_outcome \<Rightarrow> job_stats \<Rightarrow> exec_promise" where
  "write_outcome env j p x st =
     (let stats = with_elapsed (xe_elapsed env) st
      in case x of
           TerminalEnd n args \<Rightarrow>
             (case decode_finish args of
                None \<Rightarrow> parse_result (failed_with j Write INTERNAL (''the model called finish_task with invalid arguments: '' @ xe_prettyError env) stats)
              | Some a \<Rightarrow> finalize_and_verify env j p (cap_summary (fa_summary a)) (fa_commitMessage a) st)
         | ContentEnd t \<Rightarrow> finalize_and_verify env j p (cap_summary t) None st
         | BudgetEnd m \<Rightarrow> parse_result (failed_with j Write BUDGET_EXCEEDED m stats)
         | EndpointEnd m \<Rightarrow> parse_result (failed_with j Write INTERNAL m stats)
         | AbortedEnd \<Rightarrow> parse_result (canceled_with j Write ''job canceled'' stats))"

definition verify_refused :: "worker_env \<Rightarrow> write_params \<Rightarrow> string option" where
  "verify_refused env p =
     (case wp_verifyCommand p of
        Some v \<Rightarrow> if jmap_has (wn_allowlist env) (vc_name v) then None else Some (vc_name v)
      | None \<Rightarrow> None)"

definition write_execute ::
    "json_text \<Rightarrow> 'w agent_tool list \<Rightarrow> write_env \<Rightarrow> string \<Rightarrow> write_params \<Rightarrow> 'w \<Rightarrow> exec_promise" where
  "write_execute jt tools env j p w =
     (case verify_refused (xe_worker env) p of
        Some n \<Rightarrow> parse_result (failed_with j Write COMMAND_NOT_ALLOWED
            (''verifyCommand '' @ [CHR 0x22] @ n @ [CHR 0x22] @ '' is not on this worker's allowlist'') (no_calls (xe_elapsed env)))
      | None \<Rightarrow>
          if \<not> ae_endpoint (xe_agent env)
          then parse_result (failed_with j Write INTERNAL ''no model endpoint was resolved for this job'' (no_calls (xe_elapsed env)))
          else case fst (run_tool_loop jt (write_options tools (xe_agent env) p) (ae_startedAt (xe_agent env)) (ae_turns (xe_agent env)) w) of
            None \<Rightarrow> Pending
          | Some LoopHangs \<Rightarrow> Pending
          | Some LoopRejects \<Rightarrow> Rejected
          | Some (LoopOutcome x stats) \<Rightarrow> write_outcome env j p x stats)"

section \<open>Results that parse\<close>

lemma plain_ok:
  "job_id_ok j \<Longrightarrow> is_terminal st \<Longrightarrow> job_stats_ok stats \<Longrightarrow> st = Succeeded \<Longrightarrow> t \<noteq> Write \<Longrightarrow> job_result_ok (plain_result j t st stats)"
  by (simp add: plain_result_def job_result_ok_def job_result_shape_ok_def job_result_rules_ok_def)

lemma failed_ok: "job_id_ok j \<Longrightarrow> job_stats_ok stats \<Longrightarrow> job_result_ok (failed_with j t c m stats)"
  by (simp add: failed_with_def plain_result_def job_result_ok_def job_result_shape_ok_def job_result_rules_ok_def)

lemma canceled_ok: "job_id_ok j \<Longrightarrow> job_stats_ok stats \<Longrightarrow> job_result_ok (canceled_with j t m stats)"
  by (simp add: canceled_with_def plain_result_def job_result_ok_def job_result_shape_ok_def job_result_rules_ok_def)

lemma no_calls_ok [simp]: "job_stats_ok (no_calls ms) = (0 \<le> ms)"
  by (simp add: no_calls_def job_stats_ok_def)

lemma command_result_ok: "job_id_ok j \<Longrightarrow> 0 \<le> ms \<Longrightarrow> job_result_ok (command_result j p ms x)"
  by (cases x) (simp_all add: command_result_def Let_def plain_result_def job_result_ok_def job_result_shape_ok_def
      job_result_rules_ok_def)

lemma agent_result_ok: "job_id_ok j \<Longrightarrow> job_stats_ok st \<Longrightarrow> job_result_ok (agent_result j x st)"
  by (cases x) (simp_all add: agent_result_def failed_ok canceled_ok, simp add: plain_result_def job_result_ok_def
      job_result_shape_ok_def job_result_rules_ok_def)

lemma with_elapsed_ok: "job_stats_ok st \<Longrightarrow> 0 \<le> ms \<Longrightarrow> job_stats_ok (with_elapsed ms st)"
  by (simp add: with_elapsed_def job_stats_ok_def)

text \<open>Which job a result is for.\<close>

definition for_job :: "job_type \<Rightarrow> string \<Rightarrow> job_result \<Rightarrow> bool" where
  "for_job t j r = (res_jobId r = j \<and> res_type r = t)"

lemma for_job_simps [simp]:
  "for_job t j (plain_result j t st stats)" "for_job t j (failed_with j t c m stats)" "for_job t j (canceled_with j t m stats)"
  "for_job t j (r\<lparr>res_summary := a\<rparr>) = for_job t j r" "for_job t j (r\<lparr>res_output := b\<rparr>) = for_job t j r"
  "for_job t j (r\<lparr>res_error := e\<rparr>) = for_job t j r" "for_job t j (r\<lparr>res_artifact := f\<rparr>) = for_job t j r"
  "for_job t j (r\<lparr>res_verify := v\<rparr>) = for_job t j r"
  by (simp_all add: for_job_def plain_result_def failed_with_def canceled_with_def)

definition settles_for :: "job_type \<Rightarrow> string \<Rightarrow> exec_promise \<Rightarrow> bool" where
  "settles_for t j x = (case x of Resolved r \<Rightarrow> job_result_ok r \<and> for_job t j r | _ \<Rightarrow> True)"

lemma settles_parse [simp]: "for_job t j r \<Longrightarrow> settles_for t j (parse_result r)"
  by (simp add: settles_for_def parse_result_def)

lemma settles_other [simp]: "settles_for t j Pending" "settles_for t j Rejected"
  by (simp_all add: settles_for_def)

lemma command_settles: "settles_for Command j (command_execute env ms j p)"
  by (simp add: command_execute_def command_result_def Let_def split: spawn_promise.split spawn_outcome.split)

lemma agent_settles: "settles_for Recon j (agent_execute jt tools env ms j p w)"
  by (simp add: agent_execute_def agent_result_def split: option.split loop_end.split loop_outcome.split)

lemma finalize_settles: "settles_for Write j (finalize_and_verify env j p summary given st)"
  by (simp add: finalize_and_verify_def Let_def split: option.split sum.split spawn_promise.split)

lemma write_settles: "settles_for Write j (write_execute jt tools env j p w)"
  by (simp add: write_execute_def write_outcome_def Let_def finalize_settles split: option.split loop_end.split loop_outcome.split)

section \<open>The executor contract\<close>

definition command_answers :: "string \<Rightarrow> job_params \<Rightarrow> job_result \<Rightarrow> bool" where
  "command_answers j p r = (\<exists>env ms q. p = CommandParams q \<and> command_execute env ms j q = Resolved r)"

definition agent_answers :: "'w itself \<Rightarrow> string \<Rightarrow> job_params \<Rightarrow> job_result \<Rightarrow> bool" where
  "agent_answers T j p r =
     (\<exists>jt (tools :: 'w agent_tool list) env ms q w. p = ReconParams q \<and> agent_execute jt tools env ms j q w = Resolved r)"

definition write_answers :: "'w itself \<Rightarrow> string \<Rightarrow> job_params \<Rightarrow> job_result \<Rightarrow> bool" where
  "write_answers T j p r =
     (\<exists>jt (tools :: 'w agent_tool list) env q w. p = WriteParams q \<and> write_execute jt tools env j q w = Resolved r)"

lemma settlesD: "settles_for t j (Resolved r) \<Longrightarrow> job_result_ok r \<and> res_jobId r = j \<and> res_type r = t"
  by (simp add: settles_for_def for_job_def)

lemma answers_resolve:
  "command_answers j p r \<Longrightarrow> job_result_ok r \<and> res_jobId r = j \<and> res_type r = Command"
  "agent_answers T j p r \<Longrightarrow> job_result_ok r \<and> res_jobId r = j \<and> res_type r = Recon"
  "write_answers T j p r \<Longrightarrow> job_result_ok r \<and> res_jobId r = j \<and> res_type r = Write"
  unfolding command_answers_def agent_answers_def write_answers_def
  by (metis settlesD command_settles agent_settles write_settles)+

interpretation command_exec: executor_contract Command command_answers
  by unfold_locales (use answers_resolve in blast)+

interpretation agent_exec: executor_contract Recon "agent_answers T"
  by unfold_locales (use answers_resolve in blast)+

interpretation write_exec: executor_contract Write "write_answers T"
  by unfold_locales (use answers_resolve in blast)+

section \<open>Answering always\<close>

definition clock_ok :: "agent_env \<Rightarrow> bool" where
  "clock_ok env = list_all (\<lambda>tn. ae_startedAt env \<le> tn_end tn) (ae_turns env)"

definition tools_total :: "'w agent_tool list \<Rightarrow> bool" where
  "tools_total tools = (\<forall>t args cx w. t \<in> set tools \<longrightarrow> (\<exists>pl. fst (at_execute t args cx w) = Answers pl))"

lemma loop_answers:
  assumes "budgets_ok (lo_budgets opt)" "maxToolCalls (lo_budgets opt) < int (length tns)"
    "list_all (\<lambda>tn. startedAt \<le> tn_end tn) tns"
    "\<And>n t args cx w. n \<notin> set (lo_terminalTools opt) \<Longrightarrow> tool_named (lo_tools opt) n = Some t \<Longrightarrow> \<exists>pl. fst (at_execute t args cx w) = Answers pl"
  shows "\<exists>x st. fst (run_tool_loop jt opt startedAt tns w) = Some (LoopOutcome x st) \<and> job_stats_ok st"
proof -
  obtain x where x: "fst (run_tool_loop jt opt startedAt tns w) = Some x" using loop_always_ends [OF assms(1,2)] by blast
  moreover have "\<not> (n \<notin> set (lo_terminalTools opt) \<and> tool_named (lo_tools opt) n = Some t \<and> fst (at_execute t args cx v) = b)"
    if "b = ToolThrows \<or> b = NeverSettles" for b n t args cx v
    using assms(4) [of n t args cx v] that by auto
  then have "x \<noteq> LoopRejects \<and> x \<noteq> LoopHangs"
    using loop_turns_unanswered [OF x [unfolded run_tool_loop_def], of ToolThrows]
      loop_turns_unanswered [OF x [unfolded run_tool_loop_def], of NeverSettles] by blast
  ultimately obtain e st t where e: "run_tool_loop jt opt startedAt tns w = (Some (LoopOutcome e st), t)"
    by (metis loop_end.exhaust prod.collapse)
  from loop_turns_stats [OF e [unfolded run_tool_loop_def]] assms(3) have "job_stats_ok st"
    by (auto simp: list_all_iff job_stats_ok_def loop_stats_def option.pred_map comp_def option.pred_set)
  with e show ?thesis by simp
qed

section \<open>Properties\<close>

fun outcome_output :: "spawn_outcome \<Rightarrow> command_output option" where
  "outcome_output (Completed out) = Some out"
| "outcome_output (TimedOut out) = Some out"
| "outcome_output (SpawnCanceled out) = Some out"
| "outcome_output (Refused e) = None"


definition demo_job :: string where "demo_job = ''00000000-0000-4000-8000-000000000000''"

lemma demo_job_ok: "job_id_ok demo_job"
  by code_simp

definition demo_worker :: worker_env where
  "demo_worker = \<lparr>wn_platform = Posix, wn_allowlist = [], wn_workspaceDir = ''w'', wn_isDirectory = True, wn_signalled = False, wn_child = Inr []\<rparr>"

definition demo_command :: command_params where
  "demo_command = \<lparr>cp_workspace = \<lparr>ws_repoId = [], ws_headCommit = []\<rparr>, cp_command = ''ls'', cp_args = [], cp_timeoutMs = 1000\<rparr>"


lemma agent_always_answers:
  assumes "job_id_ok j" "0 \<le> ms" "recon_params_ok p" "tools_total tools" "clock_ok env"
    "maxToolCalls (rp_budgets p) < int (length (ae_turns env))"
  shows "\<exists>r. agent_execute jt tools env ms j p w = Resolved r \<and> conforms Recon j r"
proof -
  have a: "\<exists>r. agent_execute jt tools env ms j p w = Resolved r"
  proof (cases "ae_endpoint env")
    case True
    have "\<exists>x st. fst (run_tool_loop jt (agent_options tools env p) (ae_startedAt env) (ae_turns env) w) = Some (LoopOutcome x st) \<and> job_stats_ok st"
    proof (rule loop_answers)
      show "\<exists>pl. fst (at_execute t args cx v) = Answers pl" if "tool_named (lo_tools (agent_options tools env p)) n = Some t" for n t args cx v
        using that assms(4) by (auto simp: agent_options_def tools_total_def dest!: tool_named_in)
    qed (use assms in \<open>simp_all add: agent_options_def recon_params_ok_def clock_ok_def\<close>)
    then show ?thesis using True agent_result_ok [OF assms(1)] by (auto simp: agent_execute_def parse_result_def)
  qed (use assms in \<open>simp add: agent_execute_def parse_result_def failed_ok\<close>)
  then obtain r where r: "agent_execute jt tools env ms j p w = Resolved r" by blast
  then have "settles_for Recon j (Resolved r)" using agent_settles [of j jt tools env ms p w] by simp
  with r show ?thesis by (auto simp: conforms_def dest: settlesD)
qed

definition demo_recon :: recon_params where
  "demo_recon = \<lparr>rp_workspace = \<lparr>ws_repoId = ''r'', ws_headCommit = replicate 40 (CHR ''a'')\<rparr>, rp_prompt = ''why'', rp_model = None,
     rp_budgets = \<lparr>maxToolCalls = 1, maxWallMs = 1000\<rparr>\<rparr>"

definition demo_agent :: agent_env where
  "demo_agent = \<lparr>ae_endpoint = True, ae_workspaceDir = ''w'', ae_startedAt = 0, ae_turns = [idle_turn, idle_turn]\<rparr>"

lemma cap_commit_bounds:
  assumes "m \<noteq> []"
  shows "1 \<le> length (cap_commit_message m) \<and> length (cap_commit_message m) \<le> 4096"
proof -
  have "length (cap_commit_message m) \<le> 4096"
    using length_drop_high [of "take MAX_COMMIT_MESSAGE_CHARS m"] by (auto simp: cap_commit_message_def MAX_COMMIT_MESSAGE_CHARS_def)
  with cap_commit_nonempty [OF assms] show ?thesis by (cases "cap_commit_message m") simp_all
qed

lemma fallback_nonempty: "fallback_commit_message instr \<noteq> []"
  by (simp add: fallback_commit_message_def Let_def jtext_of_def)

lemma trim_nonempty: "trim16 m \<noteq> [] \<Longrightarrow> m \<noteq> []"
  by (auto simp: trim16_def)

lemma commit_message_length: "1 \<le> length (commit_message_for instr given) \<and> length (commit_message_for instr given) \<le> 4096"
  unfolding commit_message_for_def
proof (rule cap_commit_bounds)
  show "(case given of Some m \<Rightarrow> if trim16 m \<noteq> [] then m else fallback_commit_message instr | None \<Rightarrow> fallback_commit_message instr) \<noteq> []"
    using fallback_nonempty trim_nonempty by (cases given) auto
qed

lemma verify_name: "vr_name (verify_report_of v x) = vc_name v"
  by (cases x) (simp_all add: verify_report_of_def Let_def)

text \<open>What the executor relies on in the finalize step: a delivered artifact is valid for any message the schema allows.\<close>

definition finalize_valid :: "write_env \<Rightarrow> bool" where
  "finalize_valid env = (\<forall>m a. 1 \<le> length m \<longrightarrow> length m \<le> 4096 \<longrightarrow> xe_finalize env m = Inr (Some a) \<longrightarrow> write_artifact_ok a)"

lemma finalize_answers:
  assumes "job_id_ok j" "0 \<le> xe_elapsed env" "write_params_ok p" "finalize_valid env" "job_stats_ok st"
    "pred_option (\<lambda>v. \<exists>x. run_verify env v = SpawnSettled x) (wp_verifyCommand p)"
  shows "\<exists>r. finalize_and_verify env j p summary given st = Resolved r"
proof -
  let ?st = "with_elapsed (xe_elapsed env) st"
  have st: "job_stats_ok ?st" by (rule with_elapsed_ok [OF assms(5,2)])
  show ?thesis
  proof (cases "xe_finalize env (commit_message_for (wp_instructions p) given)")
    case (Inl m)
    then show ?thesis using failed_ok [OF assms(1) st] canceled_ok [OF assms(1) st]
      by (simp add: finalize_and_verify_def parse_result_def Let_def)
  next
    case (Inr artifact)
    have a: "pred_option write_artifact_ok artifact"
      using assms(4) commit_message_length Inr unfolding finalize_valid_def by (cases artifact) auto
    have ok: "job_result_ok ((plain_result j Write Succeeded ?st)\<lparr>res_summary := Some summary, res_artifact := Some artifact, res_verify := v\<rparr>)"
      if "pred_option (\<lambda>r. 1 \<le> length (vr_name r)) v" for v
      using that a assms(1) st
      by (cases artifact; cases v) (simp_all add: plain_result_def job_result_ok_def job_result_shape_ok_def job_result_rules_ok_def)
    show ?thesis
    proof (cases "wp_verifyCommand p")
      case None
      then show ?thesis using Inr ok [of None] by (simp add: finalize_and_verify_def parse_result_def Let_def)
    next
      case (Some v)
      with assms(6) obtain x where x: "run_verify env v = SpawnSettled x" by auto
      let ?r = "verify_report_of v x"
      have "1 \<le> length (vr_name ?r)" using assms(3) Some by (simp add: write_params_ok_def verify_name)
      then show ?thesis using Inr Some x ok [of "Some ?r"] by (simp add: finalize_and_verify_def parse_result_def Let_def)
    qed
  qed
qed

lemma write_always_answers:
  assumes "job_id_ok j" "0 \<le> xe_elapsed env" "write_params_ok p" "tools_total tools" "clock_ok (xe_agent env)"
    "maxToolCalls (wp_budgets p) < int (length (ae_turns (xe_agent env)))" "finalize_valid env"
    "pred_option (\<lambda>v. \<exists>x. run_verify env v = SpawnSettled x) (wp_verifyCommand p)"
  shows "\<exists>r. write_execute jt tools env j p w = Resolved r \<and> conforms Write j r"
proof -
  have f: "job_result_ok (failed_with j Write c m st)" "job_result_ok (canceled_with j Write m st)" if "job_stats_ok st" for c m st
    using that by (simp_all add: failed_ok [OF assms(1)] canceled_ok [OF assms(1)])
  have a: "\<exists>r. write_execute jt tools env j p w = Resolved r"
  proof (cases "verify_refused (xe_worker env) p = None \<and> ae_endpoint (xe_agent env)")
    case True
    let ?o = "write_options tools (xe_agent env) p"
    have "\<exists>pl. fst (at_execute t args cx w) = Answers pl"
      if "n \<notin> set (lo_terminalTools ?o)" "tool_named (lo_tools ?o) n = Some t" for n t args cx w
      using that assms(4) by (auto simp: write_options_def Let_def finish_task_tool_def tools_total_def dest!: tool_named_in)
    then obtain x st where x: "fst (run_tool_loop jt ?o (ae_startedAt (xe_agent env)) (ae_turns (xe_agent env)) w) = Some (LoopOutcome x st)"
      and st: "job_stats_ok st"
      using loop_answers [of ?o "ae_turns (xe_agent env)" "ae_startedAt (xe_agent env)" jt w] assms
      by (auto simp: write_options_def Let_def write_params_ok_def clock_ok_def)
    note st' = with_elapsed_ok [OF st assms(2)]
    have "\<exists>r. write_outcome env j p x st = Resolved r"
      using f [OF st'] finalize_answers [OF assms(1,2,3,7) st assms(8)]
      by (cases x) (auto simp: write_outcome_def parse_result_def Let_def split: option.split)
    then show ?thesis using True x by (simp add: write_execute_def)
  next
    case False
    then show ?thesis using f(1) [of "no_calls (xe_elapsed env)"] assms(2)
      by (auto simp: write_execute_def parse_result_def split: option.split)
  qed
  then obtain r where r: "write_execute jt tools env j p w = Resolved r" by blast
  then have "settles_for Write j (Resolved r)" using write_settles [of j jt tools env p w] by simp
  with r show ?thesis by (auto simp: conforms_def dest: settlesD)
qed

definition demo_write :: write_params where
  "demo_write = \<lparr>wp_workspace = \<lparr>ws_repoId = ''r'', ws_headCommit = replicate 40 (CHR ''a'')\<rparr>, wp_model = None,
     wp_instructions = ''fix'', wp_pathHints = None, wp_verifyCommand = None, wp_budgets = \<lparr>maxToolCalls = 1, maxWallMs = 1000\<rparr>\<rparr>"

definition demo_write_env :: write_env where
  "demo_write_env = \<lparr>xe_agent = demo_agent, xe_worker = demo_worker, xe_finalize = (\<lambda>_. Inr None), xe_abortedAtFinalize = False,
     xe_elapsed = 7, xe_prettyError = []\<rparr>"

end
