(* ===== verification/FileSystem.thy ===== *)
theory FileSystem imports Prelude Text "HOL-Library.Sublist" "HOL-Library.List_Lexorder" "HOL-Library.Char_ord" begin

text \<open>
  The file system the agents' tools work on, and the part of \<open>node:path\<close> and \<open>node:fs\<close> they use, on POSIX: an absolute
  path is the list of its components, a file system maps paths to files, directories and symbolic links, and one walk
  along a path, which follows links and counts them, gives \<open>realpath\<close>, \<open>stat\<close> and the target of \<open>writeFile\<close>. The
  Windows separators, permissions and the I/O failures of reads, of \<open>stat\<close> and of \<open>mkdir\<close> are not modelled; how a
  \<open>writeFile\<close> can fail is part of the environment of \<open>WriteTools\<close>.
\<close>

section \<open>Paths\<close>

type_synonym path = "string list"

definition path_fields :: "string \<Rightarrow> string list" where
  "path_fields s = filter (\<lambda>c. c \<noteq> [] \<and> c \<noteq> ''.'') (split_on (CHR ''/'') s)"

definition is_absolute :: "string \<Rightarrow> bool" where
  "is_absolute s = (s \<noteq> [] \<and> hd s = CHR ''/'')"

fun normalize :: "path \<Rightarrow> string list \<Rightarrow> path" where
  "normalize d [] = d"
| "normalize d (c # cs) = normalize (if c = ''..'' then butlast d else d @ [c]) cs"

text \<open>\<open>path.resolve\<close>, with an absolute base.\<close>

definition path_resolve :: "path \<Rightarrow> string \<Rightarrow> path" where
  "path_resolve base s = normalize (if is_absolute s then [] else base) (path_fields s)"

definition show_path :: "path \<Rightarrow> string" where
  "show_path p = CHR ''/'' # join_with (CHR ''/'') p"

text \<open>\<open>path.relative\<close>: up from the first path to the common part, down to the second.\<close>

definition relative_fields :: "path \<Rightarrow> path \<Rightarrow> string list" where
  "relative_fields root target =
     (let k = length (longest_common_prefix root target)
      in replicate (length root - k) ''..'' @ drop k target)"

definition path_relative :: "path \<Rightarrow> path \<Rightarrow> string" where
  "path_relative root target = join_with (CHR ''/'') (relative_fields root target)"

definition name_ok :: "string \<Rightarrow> bool" where
  "name_ok c = (c \<noteq> [] \<and> CHR ''/'' \<notin> set c \<and> c \<noteq> ''.'' \<and> c \<noteq> ''..'')"

abbreviation names_ok :: "path \<Rightarrow> bool" where "names_ok p \<equiv> list_all name_ok p"

lemma path_fields_ok: "c \<in> set (path_fields s) \<Longrightarrow> c \<noteq> ''..'' \<Longrightarrow> name_ok c"
  by (auto simp: path_fields_def name_ok_def dest: split_on_fields)

lemma names_ok_butlast: "names_ok p \<Longrightarrow> names_ok (butlast p)"
  by (auto simp: list_all_iff dest: in_set_butlastD)

lemma normalize_ok: "names_ok d \<Longrightarrow> \<forall>c \<in> set cs. c = ''..'' \<or> name_ok c \<Longrightarrow> names_ok (normalize d cs)"
  by (induction d cs rule: normalize.induct) (auto simp: names_ok_butlast)

lemma path_resolve_ok: "names_ok base \<Longrightarrow> names_ok (path_resolve base s)"
  unfolding path_resolve_def by (rule normalize_ok) (auto dest: path_fields_ok)

lemma join_nonempty: "fs \<noteq> [] \<Longrightarrow> join_with d (f # fs) = f @ d # join_with d fs"
  by (cases fs) auto

lemma join_empty: "\<forall>f \<in> set fs. f \<noteq> [] \<Longrightarrow> join_with d fs = [] \<longleftrightarrow> fs = []"
  by (cases "(d, fs)" rule: join_with.cases) auto

lemma split_join: "fs \<noteq> [] \<Longrightarrow> \<forall>f \<in> set fs. d \<notin> set f \<Longrightarrow> split_on d (join_with d fs) = fs"
  by (induction d fs rule: join_with.induct) (auto simp: split_on_none split_on_append)

lemma common_prefix_append [simp]: "longest_common_prefix xs (xs @ ys) = xs"
  by (induction xs) auto

lemma prefix_common: "length (longest_common_prefix root target) = length root \<Longrightarrow> prefix root target"
  using longest_common_prefix_prefix1 [of root target] longest_common_prefix_prefix2 [of root target]
  by (metis not_equal_is_parallel parallel_def prefix_order.refl)

section \<open>Containment\<close>

definition is_contained :: "path \<Rightarrow> path \<Rightarrow> bool" where
  "is_contained root target =
     (let rel = path_relative root target
      in rel = [] \<or> (rel \<noteq> ''..'' \<and> \<not> prefix ''../'' rel \<and> \<not> is_absolute rel))"

lemma split_dots: "split_on (CHR ''/'') (''../'' @ r) = ''..'' # split_on (CHR ''/'') r"
  using split_on_append [of "CHR ''/''" "''..''" r] by simp

text \<open>The textual test is the prefix order on components.\<close>

lemma is_contained_iff:
  assumes "names_ok target"
  shows "is_contained root target = prefix root target"
proof (cases "prefix root target")
  case True
  then obtain t where t: "target = root @ t" by (auto simp: prefix_def)
  then have rel: "path_relative root target = join_with (CHR ''/'') t" by (simp add: path_relative_def relative_fields_def)
  have ok: "names_ok t" using assms t by simp
  show ?thesis
  proof (cases t)
    case (Cons f fs)
    have "split_on (CHR ''/'') (join_with (CHR ''/'') t) = t"
      by (rule split_join) (use Cons ok in \<open>auto simp: list_all_iff name_ok_def\<close>)
    moreover have f: "name_ok f" using ok Cons by simp
    ultimately have "join_with (CHR ''/'') t \<noteq> ''..''" "\<not> prefix ''../'' (join_with (CHR ''/'') t)"
      using Cons by (auto simp: prefix_def split_dots name_ok_def split_on_none)
    moreover have "\<not> is_absolute (join_with (CHR ''/'') t)"
      using f Cons by (cases fs; cases f) (auto simp: is_absolute_def name_ok_def)
    ultimately show ?thesis using True rel by (simp add: is_contained_def Let_def)
  qed (use True rel in \<open>simp add: is_contained_def\<close>)
next
  case False
  let ?k = "length (longest_common_prefix root target)"
  have "?k \<le> length root" using longest_common_prefix_prefix1 [of root target] by (simp add: prefix_length_le)
  moreover have "?k \<noteq> length root" using prefix_common False by blast
  ultimately obtain n where n: "length root - ?k = Suc n" by (cases "length root - ?k") auto
  let ?m = "replicate n ''..'' @ drop ?k target"
  have rel: "path_relative root target = join_with (CHR ''/'') (''..'' # ?m)" by (simp add: path_relative_def relative_fields_def Let_def n)
  show ?thesis
  proof (cases "?m = []")
    case True
    then have "path_relative root target = ''..''" unfolding rel by (simp only: join_with.simps)
    then show ?thesis using False by (simp add: is_contained_def)
  next
    case ne: False
    have "path_relative root target = ''../'' @ join_with (CHR ''/'') ?m" unfolding rel join_nonempty [OF ne] by simp
    then have "prefix ''../'' (path_relative root target)" "path_relative root target \<noteq> []" by (metis prefixI, simp)
    then show ?thesis using False by (simp add: is_contained_def Let_def)
  qed
qed

section \<open>The file system\<close>

datatype node = FileN "byte list" | DirN | LinkN string

type_synonym fs = "(path, node) jmap"

definition node_at :: "fs \<Rightarrow> path \<Rightarrow> node option" where
  "node_at fs p = (if p = [] then Some DirN else jmap_get fs p)"

datatype fs_code = ENOENT | ENOTDIR | ELOOP | EEXIST | EISDIR

datatype walk_result = Found path | Missing path | LookupFailed fs_code

text \<open>A walk is at a real path \<open>d\<close>, has components to go and may follow \<open>n\<close> more links. \<open>Missing\<close> is the last component
  absent from an existing directory.\<close>

function walk :: "fs \<Rightarrow> nat \<Rightarrow> path \<Rightarrow> string list \<Rightarrow> nat \<times> walk_result" where
  "walk fs n d [] = (n, Found d)"
| "walk fs n d (c # cs) =
     (if node_at fs d \<noteq> Some DirN then (n, LookupFailed ENOTDIR)
      else if c = ''..'' then walk fs n (butlast d) cs
      else case node_at fs (d @ [c]) of
        None \<Rightarrow> (n, if cs = [] then Missing (d @ [c]) else LookupFailed ENOENT)
      | Some (LinkN t) \<Rightarrow>
          (if n = 0 then (n, LookupFailed ELOOP) else walk fs (n - 1) (if is_absolute t then [] else d) (path_fields t @ cs))
      | Some _ \<Rightarrow> walk fs n (d @ [c]) cs)"
  by pat_completeness auto
termination by (relation "measures [\<lambda>(fs, n, d, cs). n, \<lambda>(fs, n, d, cs). length cs]") auto

text \<open>The kernel follows at most this many links in one lookup.\<close>

definition MAX_LINKS :: nat where "MAX_LINKS = 40"

definition lookup_path :: "fs \<Rightarrow> path \<Rightarrow> walk_result" where
  "lookup_path fs p = snd (walk fs MAX_LINKS [] p)"

definition realpath :: "fs \<Rightarrow> path \<Rightarrow> fs_code + path" where
  "realpath fs p = (case lookup_path fs p of Found r \<Rightarrow> Inr r | Missing _ \<Rightarrow> Inl ENOENT | LookupFailed e \<Rightarrow> Inl e)"

definition stat_node :: "fs \<Rightarrow> path \<Rightarrow> fs_code + node" where
  "stat_node fs p =
     (case realpath fs p of Inl e \<Rightarrow> Inl e
      | Inr r \<Rightarrow> (case node_at fs r of None \<Rightarrow> Inl ENOENT | Some n \<Rightarrow> Inr n))"

text \<open>\<open>writeFile\<close> opens the path for writing: links are followed, a dangling one as well, and an absent file is created.\<close>

definition write_file_at :: "fs \<Rightarrow> path \<Rightarrow> byte list \<Rightarrow> fs_code + fs" where
  "write_file_at fs p bs =
     (case lookup_path fs p of
        Found r \<Rightarrow> (case node_at fs r of Some (FileN _) \<Rightarrow> Inr (jmap_set fs r (FileN bs)) | _ \<Rightarrow> Inl EISDIR)
      | Missing r \<Rightarrow> Inr (jmap_set fs r (FileN bs))
      | LookupFailed e \<Rightarrow> Inl e)"

text \<open>\<open>mkdir\<close> with \<open>recursive\<close>: each absent directory on the way is created; a file on the way is \<open>ENOTDIR\<close>, or \<open>EEXIST\<close> as
  the last component, and a dangling link is reported as what \<open>stat\<close> says of it.\<close>

fun mkdir_from :: "fs \<Rightarrow> path \<Rightarrow> string list \<Rightarrow> fs_code + fs" where
  "mkdir_from fs d [] = Inr fs"
| "mkdir_from fs d (c # cs) =
     (case lookup_path fs (d @ [c]) of
        Found r \<Rightarrow> (case node_at fs r of
            Some DirN \<Rightarrow> mkdir_from fs (d @ [c]) cs
          | _ \<Rightarrow> Inl (if cs = [] then EEXIST else ENOTDIR))
      | Missing r \<Rightarrow> (case node_at fs (d @ [c]) of
            None \<Rightarrow> mkdir_from (jmap_set fs r DirN) (d @ [c]) cs
          | Some _ \<Rightarrow> Inl ENOENT)
      | LookupFailed e \<Rightarrow> Inl e)"

definition mkdir_recursive :: "fs \<Rightarrow> path \<Rightarrow> fs_code + fs" where
  "mkdir_recursive fs p = mkdir_from fs [] p"

section \<open>What a walk finds\<close>

text \<open>Every node is in a directory, under a proper name.\<close>

definition fs_ok :: "fs \<Rightarrow> bool" where
  "fs_ok fs = list_all (\<lambda>(p, n). p \<noteq> [] \<and> names_ok p \<and> node_at fs (butlast p) = Some DirN) fs"

definition real_node :: "fs \<Rightarrow> path \<Rightarrow> bool" where
  "real_node fs p = (node_at fs p = Some DirN \<or> (\<exists>bs. node_at fs p = Some (FileN bs)))"

lemma real_root [simp]: "real_node fs []"
  by (simp add: real_node_def node_at_def)

lemma node_parent: "fs_ok fs \<Longrightarrow> node_at fs p = Some n \<Longrightarrow> p \<noteq> [] \<Longrightarrow> names_ok p \<and> node_at fs (butlast p) = Some DirN"
  by (auto simp: fs_ok_def node_at_def list_all_iff dest!: map_of_SomeD)

lemma dir_parent: "fs_ok fs \<Longrightarrow> node_at fs d = Some DirN \<Longrightarrow> node_at fs (butlast d) = Some DirN"
  by (cases "d = []") (auto dest: node_parent)

lemma node_names: "fs_ok fs \<Longrightarrow> node_at fs p = Some n \<Longrightarrow> names_ok p"
  by (cases "p = []") (auto dest: node_parent)

lemma above_dir: "fs_ok fs \<Longrightarrow> node_at fs (d @ c # cs) = Some n \<Longrightarrow> node_at fs d = Some DirN"
proof (induction cs arbitrary: n rule: rev_induct)
  case Nil
  then show ?case using node_parent [of fs "d @ [c]" n] by simp
next
  case (snoc x xs)
  then show ?case using node_parent [of fs "d @ c # xs @ [x]" n] by (simp add: butlast_append)
qed

definition walk_ok :: "fs \<Rightarrow> walk_result \<Rightarrow> bool" where
  "walk_ok fs x = (case x of Found r \<Rightarrow> real_node fs r
     | Missing q \<Rightarrow> q \<noteq> [] \<and> node_at fs q = None \<and> node_at fs (butlast q) = Some DirN \<and> names_ok q | LookupFailed _ \<Rightarrow> True)"

lemma walk_finds:
  "fs_ok fs \<Longrightarrow> real_node fs d \<Longrightarrow> \<forall>c \<in> set cs. c = ''..'' \<or> name_ok c \<Longrightarrow> walk_ok fs (snd (walk fs n d cs))"
proof (induction fs n d cs rule: walk.induct)
  case (2 fs n d c cs)
  note ok = 2(5) and cs = 2(7)
  show ?case
  proof (cases "node_at fs d = Some DirN \<and> c \<noteq> ''..''")
    case True
    show ?thesis
    proof (cases "node_at fs (d @ [c])")
      case None
      then show ?thesis using True cs node_names [OF ok, of d] by (auto simp: walk_ok_def)
    next
      case (Some x)
      show ?thesis
      proof (cases x)
        case (LinkN t)
        have "real_node fs (if is_absolute t then [] else d)" using True by (auto simp: real_node_def node_at_def)
        moreover have "\<forall>c \<in> set (path_fields t @ cs). c = ''..'' \<or> name_ok c" using cs by (auto dest: path_fields_ok)
        ultimately show ?thesis using "2.IH"(4) [OF _ _ Some LinkN] True Some LinkN ok by (auto simp: walk_ok_def)
      qed (use True Some "2.IH"(2,3) ok cs in \<open>auto simp: real_node_def\<close>)
    qed
  next
    case False
    then show ?thesis using "2.IH"(1) ok cs dir_parent [OF ok, of d] by (auto simp: walk_ok_def real_node_def)
  qed
qed (simp add: walk_ok_def)

text \<open>A path without links is its own real path.\<close>

lemma walk_real: "fs_ok fs \<Longrightarrow> real_node fs (d @ cs) \<Longrightarrow> names_ok cs \<Longrightarrow> walk fs n d cs = (n, Found (d @ cs))"
proof (induction cs arbitrary: d)
  case (Cons c cs)
  have d: "node_at fs d = Some DirN" using Cons.prems above_dir by (auto simp: real_node_def)
  have "real_node fs (d @ [c])"
  proof (cases cs)
    case (Cons e es)
    then show ?thesis using Cons.prems(1,2) above_dir [of fs "d @ [c]" e es] by (auto simp: real_node_def)
  qed (use Cons.prems in simp)
  then show ?case using Cons.IH [of "d @ [c]"] Cons.prems d by (auto simp: real_node_def name_ok_def)
qed simp

lemma walk_append:
  "walk fs n d (xs @ ys) = (case walk fs n d xs of
      (k, Found r) \<Rightarrow> walk fs k r ys
    | (k, Missing q) \<Rightarrow> (k, if ys = [] then Missing q else LookupFailed ENOENT)
    | (k, LookupFailed e) \<Rightarrow> (k, LookupFailed e))"
  by (induction fs n d xs rule: walk.induct) (auto split: option.split node.split)

text \<open>A larger allowance of links changes nothing but \<open>ELOOP\<close>.\<close>

lemma walk_allowance:
  "n \<le> m \<Longrightarrow> snd (walk fs n d cs) = LookupFailed ELOOP \<or> snd (walk fs n d cs) = snd (walk fs m d cs)"
proof (induction fs n d cs arbitrary: m rule: walk.induct)
  case (2 fs n d c cs)
  show ?case
  proof (cases "node_at fs d = Some DirN \<and> c \<noteq> ''..'' \<and> (\<exists>t. node_at fs (d @ [c]) = Some (LinkN t))")
    case True
    then obtain t where t: "node_at fs (d @ [c]) = Some (LinkN t)" by blast
    show ?thesis using "2.IH"(4) [OF _ _ t refl, of "m - 1"] "2.prems" True t by (cases "n = 0") auto
  next
    case False
    then show ?thesis using "2.IH"(1,2,3) "2.prems" by (auto split: option.split node.split)
  qed
qed simp

end
