(* ===== verification/FileTools.thy ===== *)
theory FileTools imports FileSystem Spawn ToolLoop Wire begin

text \<open>
  \<^verbatim>\<open>packages/executors/src/agent/tools.ts\<close>: the read-only tools of the agents over \<open>FileSystem\<close>. A tool body answers a
  payload, throws, or (\<open>None\<close>) never settles, and \<open>make_tool\<close> turns the first two, and arguments its schema refuses, into
  a payload. \<open>JSON.stringify\<close> (\<open>te_quote\<close> on a string), zod's messages, the regular expressions of \<open>grep\<close>, its deadline,
  the spawned processes (what becomes of the child, and of the file system meanwhile) and how a \<open>writeFile\<close> goes are the
  environment.
\<close>

section \<open>Failures\<close>

datatype thrown = ThrownSys fs_code string path | Thrown string

fun code_name :: "fs_code \<Rightarrow> string" where
  "code_name ENOENT = ''ENOENT: no such file or directory''"
| "code_name ENOTDIR = ''ENOTDIR: not a directory''"
| "code_name ELOOP = ''ELOOP: too many symbolic links encountered''"
| "code_name EEXIST = ''EEXIST: file already exists''"
| "code_name EISDIR = ''EISDIR: illegal operation on a directory''"

fun thrown_message :: "thrown \<Rightarrow> string" where
  "thrown_message (ThrownSys e call p) = code_name e @ '', '' @ call @ '' '' @ [CHR 0x27] @ show_path p @ [CHR 0x27]"
| "thrown_message (Thrown m) = m"

definition violation :: "string \<Rightarrow> thrown" where
  "violation requested = Thrown (''path escapes the workspace: '' @ requested)"

definition error_payload :: "string \<Rightarrow> tool_payload" where
  "error_payload m = \<lparr>tp_isError = True, tp_content = jtext_of m\<rparr>"

definition ok_payload :: "jtext \<Rightarrow> tool_payload" where
  "ok_payload t = \<lparr>tp_isError = False, tp_content = t\<rparr>"

text \<open>How a \<open>writeFile\<close> goes: it works, the file cannot be opened for writing, or the write or the close fails once the file
  has been truncated and so many bytes have been written.\<close>

datatype write_io = WriteWorks | OpenFails string | WriteStops nat string

record tool_env =
  te_json :: json_text
  te_quote :: "jtext \<Rightarrow> jtext"
  te_zod :: "string \<Rightarrow> json \<Rightarrow> string"
  te_regex :: "string \<Rightarrow> string + (jtext \<Rightarrow> bool)"
  te_grepTimesOut :: "string \<Rightarrow> fs \<Rightarrow> bool"
  te_platform :: platform
  te_allowlist :: allowlist
  te_runs :: "invocation \<Rightarrow> int \<Rightarrow> fs \<Rightarrow> child \<times> fs"
  te_write :: "path \<Rightarrow> fs \<Rightarrow> write_io"

type_synonym 'a tool_body = "'a \<Rightarrow> tool_context \<Rightarrow> fs \<Rightarrow> (thrown + tool_payload) option \<times> fs"
type_synonym 'a settling_body = "'a \<Rightarrow> tool_context \<Rightarrow> fs \<Rightarrow> (thrown + tool_payload) \<times> fs"

definition make_tool ::
    "tool_env \<Rightarrow> string \<Rightarrow> string list option \<Rightarrow> (json \<Rightarrow> 'a option) \<Rightarrow> 'a tool_body \<Rightarrow> fs agent_tool" where
  "make_tool env name keys schema body = \<lparr>at_name = name, at_eventArgsKeys = keys,
     at_execute = (\<lambda>args cx fs.
       case schema args of
         None \<Rightarrow> (Answers (error_payload (''invalid arguments for '' @ name @ '': '' @ te_zod env name args)), fs)
       | Some a \<Rightarrow> (case body a cx fs of
             (None, fs') \<Rightarrow> (NeverSettles, fs')
           | (Some (Inl x), fs') \<Rightarrow> (Answers (error_payload (thrown_message x)), fs')
           | (Some (Inr p), fs') \<Rightarrow> (Answers p, fs')))\<rparr>"

text \<open>A body that always settles, and one that also only reads.\<close>

definition settling :: "'a settling_body \<Rightarrow> 'a tool_body" where
  "settling f a cx fs = (case f a cx fs of (x, fs') \<Rightarrow> (Some x, fs'))"

definition reading :: "('a \<Rightarrow> tool_context \<Rightarrow> fs \<Rightarrow> thrown + tool_payload) \<Rightarrow> 'a tool_body" where
  "reading f a cx fs = (Some (f a cx fs), fs)"

section \<open>The path jail\<close>

definition sys_realpath :: "fs \<Rightarrow> path \<Rightarrow> thrown + path" where
  "sys_realpath fs p = (case realpath fs p of Inl e \<Rightarrow> Inl (ThrownSys e ''realpath'' p) | Inr r \<Rightarrow> Inr r)"

definition workspace_path :: "string \<Rightarrow> path" where
  "workspace_path ws = path_resolve [] ws"

definition resolve_in_workspace :: "fs \<Rightarrow> string \<Rightarrow> string \<Rightarrow> thrown + path" where
  "resolve_in_workspace fs ws requested =
     (if CHR 0x00 \<in> set requested then Inl (violation requested)
      else
        (let resolved = path_resolve (workspace_path ws) requested
         in if \<not> is_contained (workspace_path ws) resolved then Inl (violation requested)
            else (case sys_realpath fs (workspace_path ws) of
                Inl x \<Rightarrow> Inl x
              | Inr realRoot \<Rightarrow> (case sys_realpath fs resolved of
                    Inl x \<Rightarrow> Inl x
                  | Inr found \<Rightarrow> if \<not> is_contained realRoot found then Inl (violation requested) else Inr found))))"

section \<open>read_file and list_dir\<close>

definition MAX_READ_FILE_BYTES :: nat where "MAX_READ_FILE_BYTES = 65536"

definition READ_FILE_TRUNCATION_MARKER :: jtext where
  "READ_FILE_TRUNCATION_MARKER = 0x0A # jtext_of ''[content truncated: file exceeds 65536 bytes]''"

definition path_schema :: "json \<Rightarrow> string option" where
  "path_schema j = Option.bind (as_obj j) (req_key as_str ''path'')"

definition read_file_run :: "string \<Rightarrow> tool_context \<Rightarrow> fs \<Rightarrow> thrown + tool_payload" where
  "read_file_run p cx fs =
     (case resolve_in_workspace fs (tx_workspaceDir cx) p of
        Inl x \<Rightarrow> Inl x
      | Inr found \<Rightarrow> (case node_at fs found of
            Some (FileN bs) \<Rightarrow>
              (case decode_utf8_capped bs MAX_READ_FILE_BYTES of
                 (t, truncated) \<Rightarrow> Inr (ok_payload (if truncated then t @ READ_FILE_TRUNCATION_MARKER else t)))
          | _ \<Rightarrow> Inl (Thrown (''not a file: '' @ p))))"

definition entries_of :: "fs \<Rightarrow> path \<Rightarrow> (string \<times> node) list" where
  "entries_of fs d =
     List.map_filter (\<lambda>c. map_option (Pair c) (node_at fs (d @ [c])))
       (sort (remdups (map (\<lambda>e. last (fst e)) (filter (\<lambda>e. fst e \<noteq> [] \<and> butlast (fst e) = d) fs))))"

fun kind_name :: "node \<Rightarrow> string" where
  "kind_name (LinkN _) = ''symlink''"
| "kind_name DirN = ''dir''"
| "kind_name (FileN _) = ''file''"

definition list_dir_run :: "tool_env \<Rightarrow> string \<Rightarrow> tool_context \<Rightarrow> fs \<Rightarrow> thrown + tool_payload" where
  "list_dir_run env p cx fs =
     (case resolve_in_workspace fs (tx_workspaceDir cx) p of
        Inl x \<Rightarrow> Inl x
      | Inr found \<Rightarrow>
          if node_at fs found \<noteq> Some DirN then Inl (ThrownSys ENOTDIR ''scandir'' found)
          else Inr (ok_payload (jt_stringify (te_json env)
            (JArr (map (\<lambda>(c, n). JObj [(''name'', JStr c), (''kind'', JStr (kind_name n))]) (entries_of fs found))))))"

section \<open>The walk of the workspace\<close>

definition SKIPPED_DIR_NAMES :: "string list" where "SKIPPED_DIR_NAMES = [''.git'', ''node_modules'']"

definition deepest :: "fs \<Rightarrow> nat" where "deepest fs = foldr max (map (\<lambda>e. length (fst e)) fs) 0"

text \<open>The paths of the regular files below a directory, relative to where the walk began. No entry is deeper than the
  deepest path, so the first test answers what the listing would: it is there for the termination.\<close>

function walk_files :: "fs \<Rightarrow> path \<Rightarrow> path \<Rightarrow> path list" where
  "walk_files fs d rel =
     (if deepest fs \<le> length d then []
      else concat (map (\<lambda>(c, n). case n of
          LinkN _ \<Rightarrow> []
        | DirN \<Rightarrow> if c \<in> set SKIPPED_DIR_NAMES then [] else walk_files fs (d @ [c]) (rel @ [c])
        | FileN _ \<Rightarrow> [rel @ [c]]) (entries_of fs d)))"
  by pat_completeness auto
termination by (relation "measure (\<lambda>(fs, d, rel). deepest fs - length d)") auto

declare walk_files.simps [simp del]

definition show_rel :: "path \<Rightarrow> string" where "show_rel p = join_with (CHR ''/'') p"

section \<open>glob\<close>

text \<open>The regular expression a glob compiles to, as the sequence of its parts, and the texts each part matches: \<open>**/\<close>
  is \<open>(?:[^/]*/)*\<close>, other \<open>**\<close> is \<open>.*\<close> (not a line break), \<open>*\<close> is \<open>[^/]*\<close> and \<open>?\<close> is \<open>[^/]\<close>.\<close>

datatype glob_part = WholeSegments | Anything | InSegment | OneChar | Exactly char

fun glob_parts :: "string \<Rightarrow> glob_part list" where
  "glob_parts [] = []"
| "glob_parts (c # r) =
     (if c = CHR ''*'' then
        (case r of
           [] \<Rightarrow> [InSegment]
         | d # r' \<Rightarrow>
             if d = CHR ''*'' then
               (case r' of
                  [] \<Rightarrow> [Anything]
                | e # r'' \<Rightarrow> if e = CHR ''/'' then WholeSegments # glob_parts r'' else Anything # glob_parts (e # r''))
             else InSegment # glob_parts (d # r'))
      else (if c = CHR ''?'' then OneChar else Exactly c) # glob_parts r)"

fun part_matches :: "glob_part \<Rightarrow> string \<Rightarrow> bool" where
  "part_matches WholeSegments t = (t = [] \<or> last t = CHR ''/'')"
| "part_matches Anything t = (CHR 0x0A \<notin> set t \<and> CHR 0x0D \<notin> set t)"
| "part_matches InSegment t = (CHR ''/'' \<notin> set t)"
| "part_matches OneChar t = (length t = 1 \<and> CHR ''/'' \<notin> set t)"
| "part_matches (Exactly c) t = (t = [c])"

fun glob_matches :: "glob_part list \<Rightarrow> string \<Rightarrow> bool" where
  "glob_matches [] t = (t = [])"
| "glob_matches (g # gs) t =
     list_ex (\<lambda>k. part_matches g (take k t) \<and> glob_matches gs (drop k t)) [0..<Suc (length t)]"

definition MAX_GLOB_RESULTS :: nat where "MAX_GLOB_RESULTS = 1000"

definition pattern_schema :: "json \<Rightarrow> string option" where
  "pattern_schema j = Option.bind (as_obj j) (req_key as_str ''pattern'')"

definition glob_found :: "string \<Rightarrow> fs \<Rightarrow> path \<Rightarrow> string list" where
  "glob_found pattern fs realRoot = filter (glob_matches (glob_parts pattern)) (map show_rel (walk_files fs realRoot []))"

definition lines_text :: "jtext list \<Rightarrow> jtext" where
  "lines_text ls = (if ls = [] then jtext_of ''no matches'' else join_with 0x0A ls)"

definition glob_run :: "string \<Rightarrow> tool_context \<Rightarrow> fs \<Rightarrow> thrown + tool_payload" where
  "glob_run pattern cx fs =
     (case sys_realpath fs (workspace_path (tx_workspaceDir cx)) of
        Inl x \<Rightarrow> Inl x
      | Inr realRoot \<Rightarrow>
          (let matched = glob_found pattern fs realRoot;
               lines = take MAX_GLOB_RESULTS matched @
                 (if MAX_GLOB_RESULTS < length matched then [''[result cap reached: first 1000 paths shown]''] else [])
           in Inr (ok_payload (lines_text (map jtext_of lines)))))"

section \<open>grep\<close>

definition MAX_GREP_MATCHES :: nat where "MAX_GREP_MATCHES = 100"
definition MAX_GREP_FILE_BYTES :: nat where "MAX_GREP_FILE_BYTES = 1048576"
definition MAX_GREP_TOTAL_BYTES :: nat where "MAX_GREP_TOTAL_BYTES = 16 * 1048576"

text \<open>\<open>split\<close> at a line feed with an optional carriage return before it.\<close>

definition text_lines :: "jtext \<Rightarrow> jtext list" where
  "text_lines t =
     (let fs = split_on 0x0A t
      in map (\<lambda>l. if l \<noteq> [] \<and> last l = 0x0D then butlast l else l) (butlast fs) @ [last fs])"

definition grep_line :: "string \<Rightarrow> nat \<Rightarrow> jtext \<Rightarrow> jtext" where
  "grep_line rel i l = jtext_of (rel @ '':'' @ show_nat (i + 1) @ '':'') @ l"

record grep_result =
  gr_matches :: "jtext list"
  gr_capped :: bool
  gr_skipped :: "string list"
  gr_bytesCapped :: bool

text \<open>The lines of a file from number \<open>i\<close> on; \<open>True\<close> when the match cap stopped the scan.\<close>

fun grep_lines :: "(jtext \<Rightarrow> bool) \<Rightarrow> string \<Rightarrow> nat \<Rightarrow> jtext list \<Rightarrow> jtext list \<Rightarrow> jtext list \<times> bool" where
  "grep_lines test rel i [] ms = (ms, False)"
| "grep_lines test rel i (l # ls) ms =
     (if \<not> test l then grep_lines test rel (Suc i) ls ms
      else if MAX_GREP_MATCHES \<le> length ms then (ms, True)
      else grep_lines test rel (Suc i) ls (ms @ [grep_line rel i l]))"

fun grep_files :: "(jtext \<Rightarrow> bool) \<Rightarrow> fs \<Rightarrow> path \<Rightarrow> path list \<Rightarrow> nat \<Rightarrow> grep_result \<Rightarrow> grep_result" where
  "grep_files test fs realRoot [] scanned g = g"
| "grep_files test fs realRoot (rel # rels) scanned g =
     (case node_at fs (realRoot @ rel) of
        Some (FileN bs) \<Rightarrow>
          if MAX_GREP_FILE_BYTES < length bs
          then grep_files test fs realRoot rels scanned (g\<lparr>gr_skipped := gr_skipped g @ [show_rel rel]\<rparr>)
          else if MAX_GREP_TOTAL_BYTES < scanned + length bs then g\<lparr>gr_bytesCapped := True\<rparr>
          else (case grep_lines test (show_rel rel) 0 (text_lines (buffer_text bs)) (gr_matches g) of
              (ms, True) \<Rightarrow> g\<lparr>gr_matches := ms, gr_capped := True\<rparr>
            | (ms, False) \<Rightarrow> grep_files test fs realRoot rels (scanned + length bs) (g\<lparr>gr_matches := ms\<rparr>))
      | _ \<Rightarrow> grep_files test fs realRoot rels scanned g)"

definition no_matches :: grep_result where
  "no_matches = \<lparr>gr_matches = [], gr_capped = False, gr_skipped = [], gr_bytesCapped = False\<rparr>"

definition grep_scan :: "(jtext \<Rightarrow> bool) \<Rightarrow> fs \<Rightarrow> path \<Rightarrow> grep_result" where
  "grep_scan test fs realRoot = grep_files test fs realRoot (walk_files fs realRoot []) 0 no_matches"

definition grep_output :: "grep_result \<Rightarrow> jtext list" where
  "grep_output g = gr_matches g
     @ (if gr_capped g then [jtext_of ''[match cap reached: first 100 matches shown]''] else [])
     @ (if gr_bytesCapped g then [jtext_of ''[scan cap reached: stopped after 16777216 bytes]''] else [])
     @ map (\<lambda>rel. jtext_of (''[skipped '' @ rel @ '': file exceeds the 1048576-byte per-file cap]'')) (gr_skipped g)"

definition grep_run :: "tool_env \<Rightarrow> string \<Rightarrow> tool_context \<Rightarrow> fs \<Rightarrow> thrown + tool_payload" where
  "grep_run env pattern cx fs =
     (case sys_realpath fs (workspace_path (tx_workspaceDir cx)) of
        Inl x \<Rightarrow> Inl x
      | Inr realRoot \<Rightarrow>
          if te_grepTimesOut env pattern fs then Inr (error_payload ''grep pattern too expensive or timed out'')
          else (case te_regex env pattern of
              Inl m \<Rightarrow> Inr (error_payload (''invalid pattern: '' @ m))
            | Inr test \<Rightarrow> Inr (ok_payload (lines_text (grep_output (grep_scan test fs realRoot))))))"

section \<open>run_command\<close>

record command_args =
  ca_command :: string
  ca_args :: "string list"

definition command_schema :: "json \<Rightarrow> command_args option" where
  "command_schema j = do {
     kvs \<leftarrow> as_obj j;
     c \<leftarrow> req_key as_str ''command'' kvs;
     xs \<leftarrow> key_or (Some []) (as_list as_str) ''args'' kvs;
     Some \<lparr>ca_command = c, ca_args = xs\<rparr>
   }"

definition quoted_key :: "string \<Rightarrow> jtext" where
  "quoted_key k = jtext_of ([CHR 0x22] @ k @ [CHR 0x22, CHR '':''])"

definition streams_json :: "tool_env \<Rightarrow> jtext \<Rightarrow> command_output \<Rightarrow> jtext" where
  "streams_json env first out =
     jtext_of ''{'' @ first @ jtext_of '','' @ quoted_key ''stdout'' @ te_quote env (out_stdout out) @ jtext_of '','' @
     quoted_key ''stderr'' @ te_quote env (out_stderr out) @ jtext_of ''}''"

fun error_code_text :: "hfp_error_code \<Rightarrow> string" where
  "error_code_text UNAUTHORIZED = ''UNAUTHORIZED''"
| "error_code_text UNKNOWN_JOB = ''UNKNOWN_JOB''"
| "error_code_text NO_ARTIFACT = ''NO_ARTIFACT''"
| "error_code_text UNSUPPORTED_JOB_TYPE = ''UNSUPPORTED_JOB_TYPE''"
| "error_code_text WORKSPACE_UNAVAILABLE = ''WORKSPACE_UNAVAILABLE''"
| "error_code_text BUSY = ''BUSY''"
| "error_code_text INVALID_REQUEST = ''INVALID_REQUEST''"
| "error_code_text CANCELED = ''CANCELED''"
| "error_code_text TIMEOUT = ''TIMEOUT''"
| "error_code_text BUDGET_EXCEEDED = ''BUDGET_EXCEEDED''"
| "error_code_text COMMAND_NOT_ALLOWED = ''COMMAND_NOT_ALLOWED''"
| "error_code_text MODEL_NOT_OFFERED = ''MODEL_NOT_OFFERED''"
| "error_code_text NO_MODEL_SPECIFIED = ''NO_MODEL_SPECIFIED''"
| "error_code_text UPGRADE_DISABLED = ''UPGRADE_DISABLED''"
| "error_code_text UPGRADE_REJECTED = ''UPGRADE_REJECTED''"
| "error_code_text UPGRADE_BUSY = ''UPGRADE_BUSY''"
| "error_code_text INTERNAL = ''INTERNAL''"

definition command_payload :: "tool_env \<Rightarrow> int \<Rightarrow> spawn_outcome \<Rightarrow> tool_payload" where
  "command_payload env timeoutMs x =
     (case x of
        Completed out \<Rightarrow> ok_payload (streams_json env
          (quoted_key ''exitCode'' @ jtext_of (case out_exitCode out of None \<Rightarrow> ''null'' | Some c \<Rightarrow> show_int c)) out)
      | TimedOut out \<Rightarrow> \<lparr>tp_isError = True, tp_content = streams_json env
          (quoted_key ''error'' @ te_quote env (jtext_of (''command timed out after '' @ show_int timeoutMs @ ''ms''))) out\<rparr>
      | SpawnCanceled out \<Rightarrow> error_payload ''command canceled''
      | Refused e \<Rightarrow> error_payload (error_code_text (err_code e) @ '': '' @ err_message e))"

definition run_command_run :: "tool_env \<Rightarrow> command_args tool_body" where
  "run_command_run env a cx fs =
     (let isDir = (stat_node fs (workspace_path (tx_workspaceDir cx)) = Inr DirN)
      in case spawn_gate (te_platform env) (te_allowlist env) isDir (tx_aborted cx)
               \<lparr>sq_command = ca_command a, sq_args = ca_args a, sq_cwd = tx_workspaceDir cx\<rparr> of
           Inl x \<Rightarrow> (Some (Inr (command_payload env (tx_commandTimeoutMs cx) x)), fs)
         | Inr iv \<Rightarrow> (case te_runs env iv (tx_commandTimeoutMs cx) fs of
               (c, fs') \<Rightarrow>
                 ((case child_promise (iv_executable iv) c of
                     SpawnPending \<Rightarrow> None
                   | SpawnRejected msg \<Rightarrow> Some (Inl (Thrown msg))
                   | SpawnSettled x \<Rightarrow> Some (Inr (command_payload env (tx_commandTimeoutMs cx) x))), fs')))"

section \<open>The read-only toolset\<close>

definition read_tools :: "tool_env \<Rightarrow> fs agent_tool list" where
  "read_tools env =
     [make_tool env ''read_file'' None path_schema (reading read_file_run),
      make_tool env ''list_dir'' None path_schema (reading (list_dir_run env)),
      make_tool env ''grep'' None pattern_schema (reading (grep_run env)),
      make_tool env ''glob'' None pattern_schema (reading glob_run)]"

definition run_command_tool :: "tool_env \<Rightarrow> fs agent_tool" where
  "run_command_tool env = make_tool env ''run_command'' None command_schema (run_command_run env)"

end
