(* ===== verification/WriteTools.thy ===== *)
theory WriteTools imports FileTools begin

text \<open>
  \<^verbatim>\<open>packages/executors/src/agent/write-tools.ts\<close> and \<^verbatim>\<open>toolset.ts\<close>: \<open>write_file\<close> and \<open>edit_file\<close> behind the write jail,
  and the toolset an executor offers. A \<open>writeFile\<close> can fail before or after it has truncated the file
  (\<open>te_write\<close>). The steps of one tool run without another process in between.
\<close>

section \<open>The write jail\<close>

definition MAX_WRITE_FILE_BYTES :: nat where "MAX_WRITE_FILE_BYTES = 1048576"
definition MAX_EDIT_TEXT_CHARS :: nat where "MAX_EDIT_TEXT_CHARS = 65536"

text \<open>Up from the path to its deepest existing ancestor; \<open>tail\<close> are the components below it.\<close>

function resolve_missing_tail :: "fs \<Rightarrow> string \<Rightarrow> path \<Rightarrow> path \<Rightarrow> string list \<Rightarrow> thrown + path" where
  "resolve_missing_tail fs requested realRoot existing missing =
     (case realpath fs existing of
        Inr r \<Rightarrow>
          (let full = normalize r missing
           in if \<not> is_contained realRoot full then Inl (violation requested) else Inr full)
      | Inl e \<Rightarrow>
          if e \<noteq> ENOENT \<and> e \<noteq> ENOTDIR then Inl (ThrownSys e ''realpath'' existing)
          else if existing = [] then Inl (violation requested)
          else resolve_missing_tail fs requested realRoot (butlast existing) (last existing # missing))"
  by pat_completeness auto
termination by (relation "measure (\<lambda>(fs, rq, r, existing, missing). length existing)") auto

declare resolve_missing_tail.simps [simp del]

definition is_git_admin_path :: "path \<Rightarrow> path \<Rightarrow> bool" where
  "is_git_admin_path realRoot resolved =
     (map lower (hd (split_on (CHR ''/'') (path_relative realRoot resolved))) = ''.git'')"

definition absent_code :: "fs_code \<Rightarrow> bool" where "absent_code e = (e = ENOENT \<or> e = ENOTDIR)"

definition resolve_writable_path :: "fs \<Rightarrow> string \<Rightarrow> string \<Rightarrow> thrown + path" where
  "resolve_writable_path fs ws requested =
     (case sys_realpath fs (workspace_path ws) of
        Inl x \<Rightarrow> Inl x
      | Inr realRoot \<Rightarrow>
          (let found = (case resolve_in_workspace fs ws requested of
               Inl (ThrownSys e call p) \<Rightarrow>
                 if absent_code e then resolve_missing_tail fs requested realRoot (path_resolve (workspace_path ws) requested) []
                 else Inl (ThrownSys e call p)
             | x \<Rightarrow> x)
           in case found of
                Inl x \<Rightarrow> Inl x
              | Inr resolved \<Rightarrow>
                  if is_git_admin_path realRoot resolved
                  then Inl (Thrown (''path is inside the git admin area (.git), which is never writable: '' @ requested))
                  else Inr resolved))"

function find_blocking_file :: "fs \<Rightarrow> path \<Rightarrow> path option" where
  "find_blocking_file fs current =
     (case stat_node fs current of
        Inr DirN \<Rightarrow> None
      | Inr _ \<Rightarrow> Some current
      | Inl _ \<Rightarrow> if current = [] then None else find_blocking_file fs (butlast current))"
  by pat_completeness auto
termination by (relation "measure (\<lambda>(fs, current). length current)") auto

declare find_blocking_file.simps [simp del]

section \<open>write_file\<close>

record write_args =
  wa_path :: string
  wa_content :: jtext

definition nonempty_str :: "json \<Rightarrow> string option" where
  "nonempty_str j = Option.bind (as_str j) (checked (\<lambda>s. s \<noteq> []))"

definition write_schema :: "json \<Rightarrow> write_args option" where
  "write_schema j = do {
     kvs \<leftarrow> as_obj j;
     p \<leftarrow> req_key nonempty_str ''path'' kvs;
     c \<leftarrow> req_key as_str ''content'' kvs;
     Some \<lparr>wa_path = p, wa_content = jtext_of c\<rparr>
   }"

definition over_write_cap :: "nat \<Rightarrow> string" where
  "over_write_cap n = ''content is '' @ show_nat n @ '' bytes, over the 1048576-byte write cap; file not written''"

text \<open>The parent directories cannot be created: a file on the way is named in the model's terms.\<close>

definition parents_blocked :: "string \<Rightarrow> path \<Rightarrow> fs_code \<Rightarrow> tool_context \<Rightarrow> fs \<Rightarrow> thrown + tool_payload" where
  "parents_blocked p parent e cx fs =
     (if e \<noteq> EEXIST \<and> e \<noteq> ENOTDIR then Inl (ThrownSys e ''mkdir'' parent)
      else
        (let say = (\<lambda>n. Inr (error_payload (''cannot create parent directories for '' @ p @ '': '' @ n @ '' is an existing file, not a directory'')))
         in case find_blocking_file fs parent of
              None \<Rightarrow> say p
            | Some b \<Rightarrow> (case sys_realpath fs (workspace_path (tx_workspaceDir cx)) of
                  Inl x \<Rightarrow> Inl x
                | Inr realRoot \<Rightarrow> say (path_relative realRoot b))))"

text \<open>\<open>writeFile\<close>: what it leaves, and the exception of a write that fails. The file is truncated before it is written.\<close>

definition write_out :: "tool_env \<Rightarrow> path \<Rightarrow> byte list \<Rightarrow> fs \<Rightarrow> thrown option \<times> fs" where
  "write_out env p bs fs =
     (case te_write env p fs of
        OpenFails msg \<Rightarrow> (Some (Thrown msg), fs)
      | WriteWorks \<Rightarrow> (case write_file_at fs p bs of
            Inl e \<Rightarrow> (Some (ThrownSys e ''open'' p), fs)
          | Inr fs' \<Rightarrow> (None, fs'))
      | WriteStops n msg \<Rightarrow> (case write_file_at fs p (take n bs) of
            Inl e \<Rightarrow> (Some (ThrownSys e ''open'' p), fs)
          | Inr fs' \<Rightarrow> (Some (Thrown msg), fs')))"

definition write_file_run :: "tool_env \<Rightarrow> write_args settling_body" where
  "write_file_run env a cx fs =
     (let bytes = length (to_buffer (wa_content a))
      in if MAX_WRITE_FILE_BYTES < bytes then (Inr (error_payload (over_write_cap bytes)), fs)
         else case resolve_writable_path fs (tx_workspaceDir cx) (wa_path a) of
           Inl x \<Rightarrow> (Inl x, fs)
         | Inr resolved \<Rightarrow>
             if stat_node fs resolved = Inr DirN
             then (Inr (error_payload (''cannot write '' @ wa_path a @ '': it is an existing directory, not a file'')), fs)
             else (case mkdir_recursive fs (butlast resolved) of
                 Inl e \<Rightarrow> (parents_blocked (wa_path a) (butlast resolved) e cx fs, fs)
               | Inr fs1 \<Rightarrow> (case write_out env resolved (to_buffer (wa_content a)) fs1 of
                     (Some x, fs2) \<Rightarrow> (Inl x, fs2)
                   | (None, fs2) \<Rightarrow> (Inr (ok_payload (jtext_of (''wrote '' @ show_nat bytes @ '' bytes to '' @ wa_path a))), fs2))))"

section \<open>edit_file\<close>

record edit_args =
  ea_path :: string
  ea_oldText :: jtext
  ea_newText :: jtext

definition edit_schema :: "json \<Rightarrow> edit_args option" where
  "edit_schema j = do {
     kvs \<leftarrow> as_obj j;
     p \<leftarrow> req_key nonempty_str ''path'' kvs;
     t \<leftarrow> req_key as_str ''oldText'' kvs;
     u \<leftarrow> req_key as_str ''newText'' kvs;
     checked (\<lambda>a. 1 \<le> length (ea_oldText a) \<and> length (ea_oldText a) \<le> MAX_EDIT_TEXT_CHARS \<and>
                  length (ea_newText a) \<le> MAX_EDIT_TEXT_CHARS)
       \<lparr>ea_path = p, ea_oldText = jtext_of t, ea_newText = jtext_of u\<rparr>
   }"

text \<open>\<open>indexOf\<close>, and the number of pieces a split at a text leaves, less one: occurrences from the left that do not overlap.\<close>

fun index_of :: "'a list \<Rightarrow> 'a list \<Rightarrow> nat option" where
  "index_of pat [] = (if pat = [] then Some 0 else None)"
| "index_of pat (x # xs) = (if prefix pat (x # xs) then Some 0 else map_option Suc (index_of pat xs))"

lemma index_of_prefix: "index_of pat s = Some i \<Longrightarrow> prefix pat (drop i s) \<and> i \<le> length s"
  by (induction pat s arbitrary: i rule: index_of.induct) (auto split: if_splits)

lemma occurrences_shorter:
  assumes "index_of pat s = Some i" "pat \<noteq> []"
  shows "length (drop (i + length pat) s) < length s"
proof -
  have "prefix pat (drop i s)" using index_of_prefix [OF assms(1)] by simp
  then have "drop i s \<noteq> []" using assms(2) by (auto simp: prefix_def)
  then show ?thesis using assms(2) by (cases pat; cases s) auto
qed

function occurrences :: "'a list \<Rightarrow> 'a list \<Rightarrow> nat" where
  "occurrences pat s =
     (case index_of pat s of
        None \<Rightarrow> 0
      | Some i \<Rightarrow> if pat = [] then 0 else Suc (occurrences pat (drop (i + length pat) s)))"
  by pat_completeness auto
termination by (relation "measure (\<lambda>(pat, s). length s)") (use occurrences_shorter in \<open>simp_all del: length_drop\<close>)

declare occurrences.simps [simp del]

definition splice :: "'a list \<Rightarrow> nat \<Rightarrow> nat \<Rightarrow> 'a list \<Rightarrow> 'a list" where
  "splice t i n u = take i t @ u @ drop (i + n) t"

definition dashed :: "string \<Rightarrow> string \<Rightarrow> jtext" where
  "dashed x y = jtext_of (x @ '' '') @ 0x2014 # jtext_of ('' '' @ y)"

definition edit_text :: "string \<Rightarrow> jtext \<Rightarrow> jtext \<Rightarrow> jtext \<Rightarrow> jtext + jtext" where
  "edit_text p old u t =
     (let count = occurrences old t
      in if count = 0 then Inl (dashed (''oldText occurs 0 times in '' @ p @ ''; it must occur exactly once'')
           ''read the file and copy the text exactly, including whitespace'')
         else if 1 < count then Inl (dashed (''oldText occurs '' @ show_nat count @ '' times in '' @ p @ ''; it must occur exactly once'')
           ''include more surrounding lines to make oldText unique'')
         else (case index_of old t of
             None \<Rightarrow> Inr t
           | Some i \<Rightarrow> Inr (splice t i (length old) u)))"

definition edit_bytes :: "edit_args \<Rightarrow> byte list \<Rightarrow> jtext + byte list" where
  "edit_bytes a raw =
     (if MAX_WRITE_FILE_BYTES < length raw
      then Inl (jtext_of (''file is '' @ show_nat (length raw) @ '' bytes, over the 1048576-byte edit cap: '' @ ea_path a))
      else if to_buffer (buffer_text raw) \<noteq> raw
      then Inl (jtext_of (ea_path a @ '' is not valid UTF-8 text; edit_file only edits UTF-8 text files''))
      else (case edit_text (ea_path a) (ea_oldText a) (ea_newText a) (buffer_text raw) of
          Inl m \<Rightarrow> Inl m
        | Inr t \<Rightarrow>
            (let bs = to_buffer t
             in if MAX_WRITE_FILE_BYTES < length bs
                then Inl (jtext_of (''edit would grow '' @ ea_path a @ '' to '' @ show_nat (length bs) @
                  '' bytes, over the 1048576-byte cap; file unchanged''))
                else Inr bs)))"

definition file_not_found :: "string \<Rightarrow> jtext" where
  "file_not_found p = dashed (''file not found: '' @ p) ''check the path with list_dir or glob; to create a new file use write_file''"

definition edit_file_run :: "tool_env \<Rightarrow> edit_args settling_body" where
  "edit_file_run env a cx fs =
     (case resolve_writable_path fs (tx_workspaceDir cx) (ea_path a) of
        Inl x \<Rightarrow> (Inl x, fs)
      | Inr resolved \<Rightarrow> (case stat_node fs resolved of
            Inl e \<Rightarrow>
              ((if absent_code e then Inr \<lparr>tp_isError = True, tp_content = file_not_found (ea_path a)\<rparr>
                else Inl (ThrownSys e ''stat'' resolved)), fs)
          | Inr (FileN raw) \<Rightarrow> (case edit_bytes a raw of
                Inl m \<Rightarrow> (Inr \<lparr>tp_isError = True, tp_content = m\<rparr>, fs)
              | Inr bs \<Rightarrow> (case write_out env resolved bs fs of
                    (Some x, fs') \<Rightarrow> (Inl x, fs')
                  | (None, fs') \<Rightarrow> (Inr (ok_payload (jtext_of (''edited '' @ ea_path a))), fs')))
          | Inr _ \<Rightarrow> (Inl (Thrown (''not a file: '' @ ea_path a)), fs)))"

section \<open>The toolset\<close>

definition write_tools :: "tool_env \<Rightarrow> fs agent_tool list" where
  "write_tools env =
     [make_tool env ''write_file'' (Some [''path'']) write_schema (settling (write_file_run env)),
      make_tool env ''edit_file'' (Some [''path'']) edit_schema (settling (edit_file_run env))]"

definition build_toolset :: "tool_env \<Rightarrow> bool \<Rightarrow> fs agent_tool list" where
  "build_toolset env includeWriteTools =
     read_tools env @ (if includeWriteTools then write_tools env else []) @
     (if te_allowlist env \<noteq> [] then [run_command_tool env] else [])"

end
