(* ===== verification/ToolSafety.thy ===== *)
theory ToolSafety imports WriteTools begin

text \<open>
  What the agents' file tools do and do not reach: reads stay under the real workspace root, the walk behind \<open>grep\<close> and
  \<open>glob\<close> lists the regular files it should, and writes change nothing outside the root or under \<open>.git\<close> as long as no
  symbolic link dangles.
\<close>

section \<open>Resolved paths\<close>

lemma workspace_names: "names_ok (workspace_path ws)"
  unfolding workspace_path_def by (rule path_resolve_ok) simp

lemma names_walkable: "names_ok cs \<Longrightarrow> \<forall>c \<in> set cs. c = ''..'' \<or> name_ok c"
  by (auto simp: list_all_iff)

lemma realpath_Inr: "realpath fs p = Inr r \<longleftrightarrow> lookup_path fs p = Found r"
  by (auto simp: realpath_def split: walk_result.split)

lemma lookup_ok: "fs_ok fs \<Longrightarrow> names_ok p \<Longrightarrow> walk_ok fs (lookup_path fs p)"
  unfolding lookup_path_def by (rule walk_finds) (auto simp: list_all_iff)

lemma realpath_real: "fs_ok fs \<Longrightarrow> names_ok p \<Longrightarrow> realpath fs p = Inr r \<Longrightarrow> real_node fs r"
  using lookup_ok [of fs p] by (simp add: realpath_Inr walk_ok_def)

lemma real_names: "fs_ok fs \<Longrightarrow> real_node fs r \<Longrightarrow> names_ok r"
  by (auto simp: real_node_def dest: node_names)

lemma sys_realpath_Inr [simp]: "sys_realpath fs p = Inr r \<longleftrightarrow> realpath fs p = Inr r"
  by (simp add: sys_realpath_def split: sum.split)

lemma resolve_confined:
  assumes "fs_ok fs" "resolve_in_workspace fs ws rq = Inr r"
  shows "\<exists>realRoot. realpath fs (workspace_path ws) = Inr realRoot \<and> prefix realRoot r \<and> real_node fs r \<and>
    realpath fs (path_resolve (workspace_path ws) rq) = Inr r"
proof -
  obtain realRoot where r: "realpath fs (workspace_path ws) = Inr realRoot"
    "realpath fs (path_resolve (workspace_path ws) rq) = Inr r" "is_contained realRoot r"
    using assms(2) by (auto simp: resolve_in_workspace_def Let_def split: if_splits sum.splits)
  have "real_node fs r" by (rule realpath_real [OF assms(1) _ r(2)]) (rule path_resolve_ok [OF workspace_names])
  then show ?thesis using r is_contained_iff real_names [OF assms(1)] by blast
qed

section \<open>The walk of the workspace\<close>

lemma map_filter_pairs: "(c, n) \<in> set (List.map_filter (\<lambda>c. map_option (Pair c) (f c)) cs) \<longleftrightarrow> c \<in> set cs \<and> f c = Some n"
  by (induction cs) (auto simp: List.map_filter_simps split: option.split)

lemma entries_iff: "(c, n) \<in> set (entries_of fs d) \<longleftrightarrow> node_at fs (d @ [c]) = Some n"
proof -
  have "c \<in> (\<lambda>e. last (fst e)) ` {e \<in> set fs. fst e \<noteq> [] \<and> butlast (fst e) = d}" if "node_at fs (d @ [c]) = Some n"
  proof -
    have "(d @ [c], n) \<in> set fs" using that by (auto simp: node_at_def dest: map_of_SomeD)
    then show ?thesis by force
  qed
  then show ?thesis by (auto simp: entries_of_def map_filter_pairs)
qed

lemma deepest_bound: "e \<in> set fs \<Longrightarrow> length (fst e) \<le> deepest fs"
  unfolding deepest_def by (induction fs) (auto simp: max_def)


lemma node_depth: "node_at fs p = Some n \<Longrightarrow> p \<noteq> [] \<Longrightarrow> length p \<le> deepest fs"
  using deepest_bound [of "(p, n)" fs] by (auto simp: node_at_def dest: map_of_SomeD)

text \<open>The paths the walk should list: regular files, not below a skipped directory.\<close>

definition listed :: "fs \<Rightarrow> path \<Rightarrow> path \<Rightarrow> bool" where
  "listed fs d q = (q \<noteq> [] \<and> (\<exists>bs. node_at fs (d @ q) = Some (FileN bs)) \<and> set (butlast q) \<inter> set SKIPPED_DIR_NAMES = {})"

lemma listed_cons:
  assumes "fs_ok fs"
  shows "listed fs d (c # m) \<longleftrightarrow> (case node_at fs (d @ [c]) of
      Some (FileN _) \<Rightarrow> m = [] | Some DirN \<Rightarrow> c \<notin> set SKIPPED_DIR_NAMES \<and> listed fs (d @ [c]) m | _ \<Rightarrow> False)"
proof (cases m)
  case Nil
  then show ?thesis by (auto simp: listed_def split: option.split node.split)
next
  case (Cons x xs)
  have "node_at fs (d @ [c]) = Some DirN" if "node_at fs (d @ c # x # xs) = Some n" for n
    using above_dir [OF assms, of "d @ [c]" x xs n] that by simp
  then show ?thesis using Cons by (auto simp: listed_def split: option.split node.split)
qed

lemma listed_depth: "listed fs d q \<Longrightarrow> length d < deepest fs"
  using node_depth [of fs "d @ q"] by (cases q) (auto simp: listed_def)

lemma concat_pairs: "p \<in> set (concat (map f xs)) \<longleftrightarrow> (\<exists>c n. (c, n) \<in> set xs \<and> p \<in> set (f (c, n)))"
  by auto

lemma walk_lists: "fs_ok fs \<Longrightarrow> set (walk_files fs d rel) = (@) rel ` {q. listed fs d q}"
proof (induction fs d rel rule: walk_files.induct)
  case (1 fs d rel)
  let ?below = "\<lambda>(c, n). case n of LinkN _ \<Rightarrow> [] | DirN \<Rightarrow> if c \<in> set SKIPPED_DIR_NAMES then [] else walk_files fs (d @ [c]) (rel @ [c])
    | FileN _ \<Rightarrow> [rel @ [c]]"
  show ?case
  proof (cases "deepest fs \<le> length d")
    case True
    then show ?thesis using listed_depth [of fs d] by (auto simp: walk_files.simps)
  next
    case False
    have below: "p \<in> set (?below (c, n)) \<longleftrightarrow> (\<exists>m. p = rel @ c # m \<and> listed fs d (c # m))" if e: "node_at fs (d @ [c]) = Some n" for p c n
    proof (cases n)
      case DirN
      have "(c, n) \<in> set (entries_of fs d)" using e by (simp add: entries_iff)
      then have "set (walk_files fs (d @ [c]) (rel @ [c])) = (@) (rel @ [c]) ` {q. listed fs (d @ [c]) q}" if "c \<notin> set SKIPPED_DIR_NAMES"
        using "1.IH" [OF False _ refl DirN that "1.prems"] by blast
      then show ?thesis using e DirN by (auto simp: listed_cons [OF "1.prems"])
    qed (use e in \<open>auto simp: listed_cons [OF "1.prems"]\<close>)
    have "walk_files fs d rel = concat (map ?below (entries_of fs d))" using False by (subst walk_files.simps) simp
    then have "p \<in> set (walk_files fs d rel) \<longleftrightarrow> (\<exists>c n. (c, n) \<in> set (entries_of fs d) \<and> p \<in> set (?below (c, n)))" for p
      by (simp only: concat_pairs)
    then have "p \<in> set (walk_files fs d rel) \<longleftrightarrow> (\<exists>c n m. node_at fs (d @ [c]) = Some n \<and> p = rel @ c # m \<and> listed fs d (c # m))" for p
      using below by (simp only: entries_iff) blast
    moreover have "listed fs d q \<longleftrightarrow> (\<exists>c n m. node_at fs (d @ [c]) = Some n \<and> q = c # m \<and> listed fs d (c # m))" for q
      using listed_cons [OF "1.prems"] by (cases q) (auto simp: listed_def split: option.splits)
    ultimately show ?thesis by blast
  qed
qed

text \<open>The listing is in the order of the components, without repetition.\<close>

lemma entries_sorted: "sorted_wrt (<) (map fst (entries_of fs d))"
proof -
  have "map fst (List.map_filter (\<lambda>c. map_option (Pair c) (f c)) cs) = filter (\<lambda>c. f c \<noteq> None) cs" for f :: "string \<Rightarrow> node option" and cs
    by (induction cs) (auto simp: List.map_filter_simps split: option.split)
  moreover have "sorted_wrt (<) (filter P (sort (remdups cs)))" for P and cs :: "string list"
    by (rule sorted_wrt_filter) (simp add: strict_sorted_iff)
  ultimately show ?thesis unfolding entries_of_def by (simp only:)
qed

lemma below_less: "(c :: string) < c' \<Longrightarrow> rel @ c # m < rel @ c' # m'"
  by (simp add: list_less_def lexord_append_leftI)

lemma sorted_concat:
  fixes xs :: "(string \<times> 'n) list"
  assumes "sorted_wrt (<) (map fst xs)" "\<And>e. e \<in> set xs \<Longrightarrow> sorted_wrt (<) (f e)"
    "\<And>e p. e \<in> set xs \<Longrightarrow> p \<in> set (f e) \<Longrightarrow> \<exists>m. p = rel @ fst e # m"
  shows "sorted_wrt (<) (concat (map f xs))"
  using assms
proof (induction xs)
  case (Cons x xs)
  have "p < q" if p: "p \<in> set (f x)" and e: "e \<in> set xs" and q: "q \<in> set (f e)" for p q e
  proof -
    obtain m where m: "p = rel @ fst x # m" using p Cons.prems(3) [of x p] by auto
    obtain m' where m': "q = rel @ fst e # m'" using e q Cons.prems(3) [of e q] by auto
    have "fst x < fst e" using Cons.prems(1) e by simp
    then show "p < q" unfolding m m' by (rule below_less)
  qed
  then show ?case using Cons by (auto simp: sorted_wrt_append)
qed simp

lemma walk_below: "p \<in> set (walk_files fs d rel) \<Longrightarrow> \<exists>m. p = rel @ m"
proof (induction fs d rel rule: walk_files.induct)
  case (1 fs d rel)
  note p = "1.prems" [unfolded walk_files.simps [of fs d rel]]
  then have d: "\<not> deepest fs \<le> length d" by (auto split: if_splits)
  with p obtain c n where e: "(c, n) \<in> set (entries_of fs d)"
    "p \<in> set (case n of LinkN _ \<Rightarrow> [] | DirN \<Rightarrow> if c \<in> set SKIPPED_DIR_NAMES then [] else walk_files fs (d @ [c]) (rel @ [c])
    | FileN _ \<Rightarrow> [rel @ [c]])" by (auto simp: concat_pairs)
  show ?case
  proof (cases n)
    case DirN
    then have c: "c \<notin> set SKIPPED_DIR_NAMES" "p \<in> set (walk_files fs (d @ [c]) (rel @ [c]))" using e(2) by (auto split: if_splits)
    show ?thesis using "1.IH" [OF d e(1) refl DirN c] by auto
  qed (use e(2) in auto)
qed

lemma walk_sorted: "sorted_wrt (<) (walk_files fs d rel)"
proof (induction fs d rel rule: walk_files.induct)
  case (1 fs d rel)
  let ?below = "\<lambda>(c, n). case n of LinkN _ \<Rightarrow> [] | DirN \<Rightarrow> if c \<in> set SKIPPED_DIR_NAMES then [] else walk_files fs (d @ [c]) (rel @ [c])
    | FileN _ \<Rightarrow> [rel @ [c]]"
  show ?case
  proof (cases "deepest fs \<le> length d")
    case False
    have s: "sorted_wrt (<) (?below e)" if "e \<in> set (entries_of fs d)" for e
      using "1.IH" [OF False, of e] that by (cases e; cases "snd e") auto
    have b: "\<exists>m. p = rel @ fst e # m" if "p \<in> set (?below e)" for e p
      using that walk_below [of p fs "d @ [fst e]" "rel @ [fst e]"] by (cases e; cases "snd e") (auto split: if_splits)
    have "sorted_wrt (<) (concat (map ?below (entries_of fs d)))"
      by (rule sorted_concat [OF entries_sorted s b])
    then show ?thesis using False by (subst walk_files.simps) simp
  qed (simp add: walk_files.simps)
qed

section \<open>grep against its reference\<close>

text \<open>Every matching line of a file within the per-file cap, in order.\<close>

definition line_matches :: "(jtext \<Rightarrow> bool) \<Rightarrow> string \<Rightarrow> nat \<Rightarrow> jtext list \<Rightarrow> jtext list" where
  "line_matches test rel i ls = map (\<lambda>(i, l). grep_line rel i l) (filter (\<lambda>(i, l). test l) (List.enumerate i ls))"

definition file_matches :: "(jtext \<Rightarrow> bool) \<Rightarrow> fs \<Rightarrow> path \<Rightarrow> path \<Rightarrow> jtext list" where
  "file_matches test fs d rel =
     (case node_at fs (d @ rel) of
        Some (FileN bs) \<Rightarrow>
          if MAX_GREP_FILE_BYTES < length bs then [] else line_matches test (show_rel rel) 0 (text_lines (buffer_text bs))
      | _ \<Rightarrow> [])"

lemma grep_lines_spec:
  assumes "grep_lines test rel i ls ms = (ms', capped)" "length ms \<le> MAX_GREP_MATCHES"
  shows "length ms' \<le> MAX_GREP_MATCHES \<and> (if capped then length ms' = MAX_GREP_MATCHES \<and> strict_prefix ms' (ms @ line_matches test rel i ls)
    else ms' = ms @ line_matches test rel i ls)"
  using assms
proof (induction test rel i ls ms rule: grep_lines.induct)
  case (2 test rel i l ls ms)
  then show ?case by (auto simp: line_matches_def split: if_splits) (auto simp: strict_prefix_def prefix_def)
qed (simp add: line_matches_def)

text \<open>What a scan may answer for the matches \<open>full\<close>: a prefix of them of at most the cap, all of them unless a cap is
  reported, and the match cap only when it is reached with more to show.\<close>

definition reported :: "jtext list \<Rightarrow> grep_result \<Rightarrow> bool" where
  "reported full g =
     (prefix (gr_matches g) full \<and> length (gr_matches g) \<le> MAX_GREP_MATCHES \<and>
      (if gr_capped g then length (gr_matches g) = MAX_GREP_MATCHES \<and> MAX_GREP_MATCHES < length full \<and> \<not> gr_bytesCapped g
       else gr_bytesCapped g \<or> gr_matches g = full))"

lemma grep_files_spec:
  assumes "length (gr_matches g) \<le> MAX_GREP_MATCHES" "\<not> gr_capped g" "\<not> gr_bytesCapped g"
  shows "reported (gr_matches g @ concat (map (file_matches test fs d) rels)) (grep_files test fs d rels n g)"
  using assms
proof (induction test fs d rels n g rule: grep_files.induct)
  case (2 test fs d rel rels n g)
  let ?rest = "concat (map (file_matches test fs d) rels)"
  show ?case
  proof (cases "\<exists>bs. node_at fs (d @ rel) = Some (FileN bs)")
    case True
    then obtain bs where bs: "node_at fs (d @ rel) = Some (FileN bs)" by blast
    consider (big) "MAX_GREP_FILE_BYTES < length bs"
      | (stop) "\<not> MAX_GREP_FILE_BYTES < length bs" "MAX_GREP_TOTAL_BYTES < n + length bs"
      | (scan) "\<not> MAX_GREP_FILE_BYTES < length bs" "\<not> MAX_GREP_TOTAL_BYTES < n + length bs" by blast
    then show ?thesis
    proof cases
      case big
      show ?thesis using "2.IH"(2) [OF bs refl big] "2.prems" bs big by (simp add: file_matches_def)
    next
      case stop
      then show ?thesis using "2.prems" bs by (simp add: reported_def)
    next
      case scan
      obtain ms capped where l: "grep_lines test (show_rel rel) 0 (text_lines (buffer_text bs)) (gr_matches g) = (ms, capped)"
        by force
      let ?here = "line_matches test (show_rel rel) 0 (text_lines (buffer_text bs))"
      note s = grep_lines_spec [OF l "2.prems"(1)]
      have f: "file_matches test fs d rel = ?here" using bs scan by (simp add: file_matches_def)
      show ?thesis
      proof (cases capped)
        case True
        then have p: "strict_prefix ms (gr_matches g @ ?here)" "length ms = MAX_GREP_MATCHES" using s by auto
        have "length ms < length (gr_matches g @ ?here)" by (rule prefix_length_less [OF p(1)])
        moreover have "prefix ms (gr_matches g @ ?here @ ?rest)"
          using p(1) by (metis append_assoc prefix_prefix strict_prefix_def)
        ultimately show ?thesis using bs scan l True p(2) f "2.prems" by (simp add: reported_def)
      next
        case False
        then have "ms = gr_matches g @ ?here" "length ms \<le> MAX_GREP_MATCHES" using s by auto
        then show ?thesis using "2.IH"(3) [OF bs refl scan l [symmetric]] "2.prems" bs scan l False f by simp
      qed
    qed
  next
    case False
    then have e: "grep_files test fs d (rel # rels) n g = grep_files test fs d rels n g" "file_matches test fs d rel = []"
      by (auto simp: file_matches_def split: option.split node.split)
    have "reported (gr_matches g @ ?rest) (grep_files test fs d rels n g)"
    proof (cases "node_at fs (d @ rel)")
      case None
      then show ?thesis using "2.IH"(1) "2.prems" by blast
    next
      case (Some x)
      then show ?thesis using False "2.IH"(4,5) "2.prems" by (cases x) blast+
    qed
    then show ?thesis using e by simp
  qed
qed (simp add: reported_def)

section \<open>What the jail rests on\<close>

declare walk.simps(2) [simp del]

lemma walk_entry:
  "node_at fs d = Some DirN \<Longrightarrow> name_ok c \<Longrightarrow> node_at fs (d @ [c]) = Some n \<Longrightarrow> n = DirN \<or> (\<exists>b. n = FileN b) \<Longrightarrow>
   walk fs k d (c # cs) = walk fs k (d @ [c]) cs"
  "node_at fs d = Some DirN \<Longrightarrow> name_ok c \<Longrightarrow> node_at fs (d @ [c]) = None \<Longrightarrow>
   walk fs k d [c] = (k, Missing (d @ [c]))"
  "node_at fs d \<noteq> Some DirN \<Longrightarrow> walk fs k d (c # cs) = (k, LookupFailed ENOTDIR)"
  by (auto simp: walk.simps(2) name_ok_def)

text \<open>No symbolic link dangles or runs in a circle.\<close>

definition links_live :: "fs \<Rightarrow> bool" where
  "links_live fs = (\<forall>p t. node_at fs p = Some (LinkN t) \<longrightarrow> (\<exists>n r. snd (walk fs n (butlast p) [last p]) = Found r))"

lemma links_live_code: "list_all (\<lambda>(p, x). case x of LinkN _ \<Rightarrow>
    (case snd (walk fs MAX_LINKS (butlast p) [last p]) of Found _ \<Rightarrow> True | _ \<Rightarrow> False) | _ \<Rightarrow> True) fs \<Longrightarrow> links_live fs"
  unfolding links_live_def
proof (intro allI impI)
  fix p t
  assume l: "list_all (\<lambda>(p, x). case x of LinkN _ \<Rightarrow>
    (case snd (walk fs MAX_LINKS (butlast p) [last p]) of Found _ \<Rightarrow> True | _ \<Rightarrow> False) | _ \<Rightarrow> True) fs"
  assume "node_at fs p = Some (LinkN t)"
  then have "(p, LinkN t) \<in> set fs" by (auto simp: node_at_def split: if_splits dest: map_of_SomeD)
  with l have "case snd (walk fs MAX_LINKS (butlast p) [last p]) of Found _ \<Rightarrow> True | _ \<Rightarrow> False" by (auto simp: list_all_iff)
  then show "\<exists>n r. snd (walk fs n (butlast p) [last p]) = Found r" by (auto split: walk_result.splits)
qed

lemma live_link_outcome:
  assumes "links_live fs" "node_at fs (d @ [c]) = Some (LinkN t)"
  shows "snd (walk fs k d [c]) = LookupFailed ELOOP \<or> (\<exists>r. snd (walk fs k d [c]) = Found r)"
proof -
  have "\<exists>n r. snd (walk fs n (butlast (d @ [c])) [last (d @ [c])]) = Found r" using assms unfolding links_live_def by blast
  then obtain n r where n: "snd (walk fs n d [c]) = Found r" by auto
  show ?thesis
  proof (cases "k \<le> n")
    case True
    then show ?thesis using walk_allowance [of k n fs d "[c]"] n by auto
  next
    case False
    then have "snd (walk fs k d [c]) = Found r" using walk_allowance [of n k fs d "[c]"] n by auto
    then show ?thesis by blast
  qed
qed

text \<open>The lookup of one more component fails for want of an entry only where there is none.\<close>

lemma absent_means_none:
  assumes "links_live fs" "realpath fs e = Inr r" "realpath fs (e @ [c]) = Inl x" "absent_code x" "name_ok c"
  shows "node_at fs r \<noteq> Some DirN \<or> node_at fs (r @ [c]) = None"
proof (rule ccontr)
  assume h: "\<not> ?thesis"
  obtain k where k: "walk fs MAX_LINKS [] e = (k, Found r)"
    using assms(2) by (auto simp: realpath_Inr lookup_path_def) (metis prod.collapse)
  have l: "lookup_path fs (e @ [c]) = snd (walk fs k r [c])" by (simp add: lookup_path_def walk_append k)
  have bad: "snd (walk fs k r [c]) \<noteq> LookupFailed ELOOP" "\<And>q. snd (walk fs k r [c]) \<noteq> Found q"
    using assms(3,4) l by (auto simp: realpath_def absent_code_def)
  obtain n where n: "node_at fs (r @ [c]) = Some n" using h by blast
  show False
  proof (cases "n = DirN \<or> (\<exists>b. n = FileN b)")
    case True
    then have "snd (walk fs k r [c]) = Found (r @ [c])" using walk_entry(1) [of fs r c n k "[]"] h n assms(5) by simp
    then show False using bad(2) by blast
  next
    case False
    then obtain t where "n = LinkN t" by (cases n) auto
    then show False using live_link_outcome [OF assms(1), of r c t k] n bad by blast
  qed
qed

lemma normalize_names: "names_ok m \<Longrightarrow> normalize d m = d @ m"
  by (induction d m rule: normalize.induct) (auto simp: name_ok_def)

lemma missing_tail:
  assumes "resolve_missing_tail fs rq realRoot ex m = Inr p" "names_ok (ex @ m)"
    "m \<noteq> [] \<Longrightarrow> \<exists>x. realpath fs (ex @ [hd m]) = Inl x \<and> absent_code x"
  shows "\<exists>e r m'. ex @ m = e @ m' \<and> realpath fs e = Inr r \<and> p = r @ m' \<and> is_contained realRoot p \<and>
    (m' \<noteq> [] \<longrightarrow> (\<exists>x. realpath fs (e @ [hd m']) = Inl x \<and> absent_code x))"
  using assms
proof (induction fs rq realRoot ex m rule: resolve_missing_tail.induct)
  case (1 fs rq realRoot ex m)
  show ?case
  proof (cases "realpath fs ex")
    case (Inr r)
    have "names_ok m" using "1.prems"(2) by simp
    then have "p = r @ m" "is_contained realRoot p" using "1.prems"(1) Inr normalize_names [of m r]
      by (subst (asm) resolve_missing_tail.simps; auto simp: Let_def split: if_splits)+
    then show ?thesis using "1.prems"(3) Inr by blast
  next
    case (Inl x)
    have x: "absent_code x" "ex \<noteq> []" "resolve_missing_tail fs rq realRoot (butlast ex) (last ex # m) = Inr p"
      using "1.prems"(1) Inl by (subst (asm) resolve_missing_tail.simps; auto simp: absent_code_def split: if_splits)+
    obtain e0 c0 where e0: "ex = e0 @ [c0]" using x(2) by (cases ex rule: rev_cases) auto
    have "\<exists>e r m'. butlast ex @ last ex # m = e @ m' \<and> realpath fs e = Inr r \<and> p = r @ m' \<and> is_contained realRoot p \<and>
        (m' \<noteq> [] \<longrightarrow> (\<exists>x. realpath fs (e @ [hd m']) = Inl x \<and> absent_code x))"
      by (rule "1.IH" [OF Inl _ x(2,3)]) (use x(1) "1.prems"(2) Inl e0 in \<open>auto simp: absent_code_def\<close>)
    then show ?thesis using e0 by simp
  qed
qed

section \<open>Creating directories and files on a path without links\<close>

lemma node_at_set: "p \<noteq> [] \<Longrightarrow> node_at (jmap_set fs p n) q = (if q = p then Some n else node_at fs q)"
  by (auto simp: node_at_def)

lemma set_update_subset: "set (jmap_set m k v) \<subseteq> insert (k, v) (set m)"
  by (induction m) auto

lemma fs_ok_set:
  assumes "fs_ok fs" "p \<noteq> []" "names_ok p" "node_at fs (butlast p) = Some DirN" "node_at fs p = Some DirN \<Longrightarrow> n = DirN"
  shows "fs_ok (jmap_set fs p n)"
proof -
  have "q \<noteq> [] \<and> names_ok q \<and> node_at (jmap_set fs p n) (butlast q) = Some DirN" if q: "(q, x) \<in> set (jmap_set fs p n)" for q x
  proof (cases "q = p")
    case True
    then have "butlast q \<noteq> p" using assms(2) by (cases p rule: rev_cases) auto
    then show ?thesis using True assms(2,3,4) by (simp add: node_at_set)
  next
    case False
    then have "(q, x) \<in> set fs" using q set_update_subset by fastforce
    then show ?thesis using assms(1,2,5) by (auto simp: fs_ok_def list_all_iff node_at_set)
  qed
  then show ?thesis by (auto simp: fs_ok_def list_all_iff)
qed

definition link_free :: "fs \<Rightarrow> path \<Rightarrow> bool" where
  "link_free fs p = (\<forall>xs ys t. p = xs @ ys \<longrightarrow> node_at fs xs \<noteq> Some (LinkN t))"

lemma link_freeD: "link_free fs (d @ cs) \<Longrightarrow> node_at fs d \<noteq> Some (LinkN t)"
  by (auto simp: link_free_def)

lemma lookup_below:
  assumes "fs_ok fs" "node_at fs d = Some DirN" "name_ok c"
  shows "lookup_path fs (d @ [c]) = (case node_at fs (d @ [c]) of
      None \<Rightarrow> Missing (d @ [c]) | Some (LinkN t) \<Rightarrow> snd (walk fs MAX_LINKS d [c]) | Some _ \<Rightarrow> Found (d @ [c]))"
proof -
  have "walk fs n [] d = (n, Found d)" for n using walk_real [OF assms(1), of "[]" d n] assms node_names [OF assms(1,2)] by (simp add: real_node_def)
  then have "lookup_path fs (d @ [c]) = snd (walk fs MAX_LINKS d [c])" by (simp add: lookup_path_def walk_append)
  then show ?thesis using walk_entry(1,2) [OF assms(2,3)] by (auto split: option.split node.split)
qed

text \<open>The directories on the way to \<open>p\<close> that were absent have been created, and nothing else has changed.\<close>

definition dirs_made :: "fs \<Rightarrow> path \<Rightarrow> fs \<Rightarrow> bool" where
  "dirs_made fs p fs1 = (fs_ok fs1 \<and> node_at fs1 p = Some DirN \<and>
    (\<forall>q. node_at fs1 q = (if node_at fs q = None \<and> prefix q p then Some DirN else node_at fs q)))"

lemma dirs_madeI:
  assumes "fs_ok fs1" "node_at fs1 p = Some DirN"
    "\<And>q. node_at fs1 q = (if node_at fs q = None \<and> prefix q p then Some DirN else node_at fs q)"
  shows "dirs_made fs p fs1"
  using assms unfolding dirs_made_def by blast

lemma dirs_madeD:
  assumes "dirs_made fs p fs1"
  shows "fs_ok fs1" "node_at fs1 p = Some DirN"
    "node_at fs1 q = (if node_at fs q = None \<and> prefix q p then Some DirN else node_at fs q)"
  using assms unfolding dirs_made_def by blast+

lemma mkdir_spec:
  assumes "mkdir_from fs d cs = Inr fs1" "fs_ok fs" "node_at fs d = Some DirN" "names_ok cs" "link_free fs (d @ cs)"
  shows "dirs_made fs (d @ cs) fs1"
  using assms
proof (induction fs d cs rule: mkdir_from.induct)
  case (1 fs d)
  have "node_at fs q \<noteq> None" if p: "prefix q d" for q
  proof -
    obtain ys where d: "d = q @ ys" using p by (auto simp: prefix_def)
    show ?thesis using above_dir [OF 1(2), of q] 1(3) d by (cases ys) auto
  qed
  then show ?case using 1 by (intro dirs_madeI) auto
next
  case (2 fs d c cs)
  have c: "name_ok c" "names_ok cs" using "2.prems"(4) by auto
  have nl: "node_at fs (d @ [c]) \<noteq> Some (LinkN t)" for t using link_freeD [of fs "d @ [c]" cs t] "2.prems"(5) by simp
  note l = lookup_below [OF "2.prems"(2,3) c(1)]
  consider (absent) "node_at fs (d @ [c]) = None" | (folder) "node_at fs (d @ [c]) = Some DirN"
    | (plain) bs where "node_at fs (d @ [c]) = Some (FileN bs)"
    using nl by (cases "node_at fs (d @ [c])"; cases "the (node_at fs (d @ [c]))") auto
  then show ?case
  proof cases
    case absent
    let ?fs = "jmap_set fs (d @ [c]) DirN"
    have n: "node_at ?fs q = (if q = d @ [c] then Some DirN else node_at fs q)" for q by (simp add: node_at_set)
    have ok: "fs_ok ?fs" by (rule fs_ok_set) (use "2.prems"(2,3) c node_names [OF "2.prems"(2,3)] in auto)
    have m: "mkdir_from ?fs (d @ [c]) cs = Inr fs1" using "2.prems"(1) l absent by simp
    have free: "link_free ?fs ((d @ [c]) @ cs)" using "2.prems"(5) n by (auto simp: link_free_def)
    have h: "dirs_made ?fs ((d @ [c]) @ cs) fs1"
      by (rule "2.IH"(2) [of "d @ [c]", OF _ _ m ok _ c(2) free]) (use l absent n in simp_all)
    show ?thesis
    proof (rule dirs_madeI)
      show "node_at fs1 q = (if node_at fs q = None \<and> prefix q (d @ c # cs) then Some DirN else node_at fs q)" for q
        using dirs_madeD(3) [OF h, of q] n [of q] absent by (cases "q = d @ [c]") (simp_all add: prefix_def)
    qed (use dirs_madeD(1,2) [OF h] in simp_all)
  next
    case folder
    have "dirs_made fs ((d @ [c]) @ cs) fs1"
      by (rule "2.IH"(1) [of "d @ [c]"]) (use folder "2.prems" l c in simp_all)
    then show ?thesis by simp
  qed (use "2.prems"(1) l in \<open>simp split: if_splits\<close>)
qed

lemma above_none:
  assumes "fs_ok fs" "node_at fs r \<noteq> Some DirN \<or> node_at fs (r @ [c]) = None"
  shows "node_at fs (r @ c # m) = None"
proof (rule ccontr)
  assume "node_at fs (r @ c # m) \<noteq> None"
  then obtain n where n: "node_at fs (r @ c # m) = Some n" by blast
  then have "node_at fs r = Some DirN" by (rule above_dir [OF assms(1)])
  moreover have "node_at fs (r @ [c]) \<noteq> None"
  proof (cases m)
    case (Cons x xs)
    then have "node_at fs ((r @ [c]) @ x # xs) = Some n" using n by simp
    from above_dir [OF assms(1) this] show ?thesis by simp
  qed (use n in simp)
  ultimately show False using assms(2) by simp
qed

definition nothing_below :: "fs \<Rightarrow> path \<Rightarrow> string list \<Rightarrow> bool" where
  "nothing_below fs r m = (real_node fs r \<and> (m \<noteq> [] \<longrightarrow> node_at fs r \<noteq> Some DirN \<or> node_at fs (r @ [hd m]) = None))"

lemma below_none: "fs_ok fs \<Longrightarrow> nothing_below fs r m \<Longrightarrow> m = c # n @ k \<Longrightarrow> node_at fs (r @ c # n) = None"
  by (rule above_none) (auto simp: nothing_below_def)

lemma real_prefix:
  assumes "fs_ok fs" "real_node fs (xs @ zs)"
  shows "real_node fs xs"
proof (cases zs)
  case (Cons c cs)
  then obtain n where "node_at fs (xs @ c # cs) = Some n" using assms(2) by (auto simp: real_node_def)
  from above_dir [OF assms(1) this] show ?thesis by (simp add: real_node_def)
qed (use assms(2) in simp)

lemma prefix_of_append: "r @ m = xs @ ys \<Longrightarrow> (\<exists>zs. r = xs @ zs) \<or> (\<exists>c n. xs = r @ c # n \<and> m = c # n @ ys)"
proof -
  assume "r @ m = xs @ ys"
  then obtain us where "r = xs @ us \<or> (r @ us = xs \<and> m = us @ ys)" by (auto simp: append_eq_append_conv2)
  then show ?thesis by (cases us) auto
qed

lemma below_link_free:
  assumes "fs_ok fs" "nothing_below fs r m"
  shows "link_free fs (r @ m)"
  unfolding link_free_def
proof (intro allI impI)
  fix xs ys t
  assume "r @ m = xs @ ys"
  from prefix_of_append [OF this] show "node_at fs xs \<noteq> Some (LinkN t)"
  proof
    assume "\<exists>zs. r = xs @ zs"
    then obtain zs where "r = xs @ zs" by blast
    then have "real_node fs (xs @ zs)" using assms(2) by (simp add: nothing_below_def)
    then have "real_node fs xs" by (rule real_prefix [OF assms(1)])
    then show ?thesis by (auto simp: real_node_def)
  next
    assume "\<exists>c n. xs = r @ c # n \<and> m = c # n @ ys"
    then obtain c n where x: "xs = r @ c # n" and m: "m = c # n @ ys" by blast
    have "node_at fs xs = None" unfolding x by (rule below_none [OF assms m])
    then show ?thesis by simp
  qed
qed

text \<open>The parent directories of a path below a real node are created, or it is the node's own directory.\<close>

lemma mkdir_parents:
  assumes "fs_ok fs" "nothing_below fs r m" "names_ok (r @ m)" "mkdir_recursive fs (butlast (r @ m)) = Inr fs1" "r @ m \<noteq> []"
  shows "dirs_made fs (butlast (r @ m)) fs1"
proof -
  let ?d = "butlast (r @ m)"
  have "link_free fs (?d @ [last (r @ m)])" using below_link_free [OF assms(1,2)] append_butlast_last_id [OF assms(5)] by simp
  then have "link_free fs ([] @ ?d)" by (simp add: link_free_def)
  moreover have "names_ok ?d" by (rule names_ok_butlast [OF assms(3)])
  moreover have "mkdir_from fs [] ?d = Inr fs1" using assms(4) unfolding mkdir_recursive_def .
  moreover have "node_at fs [] = Some DirN" by (simp add: node_at_def)
  ultimately have "dirs_made fs ([] @ ?d) fs1" using assms(1) mkdir_spec by blast
  then show ?thesis by (simp only: append_Nil)
qed

lemma write_at_real:
  assumes "fs_ok fs" "node_at fs (butlast p) = Some DirN" "p \<noteq> []" "names_ok p" "\<And>t. node_at fs p \<noteq> Some (LinkN t)"
  shows "write_file_at fs p bs = (if node_at fs p = Some DirN then Inl EISDIR else Inr (jmap_set fs p (FileN bs)))"
proof -
  obtain d c where p: "p = d @ [c]" using assms(3) by (cases p rule: rev_cases) auto
  have "lookup_path fs p = (case node_at fs p of None \<Rightarrow> Missing p | Some (LinkN t) \<Rightarrow> snd (walk fs MAX_LINKS d [c]) | Some _ \<Rightarrow> Found p)"
    using lookup_below [OF assms(1), of d c] assms(2,4) by (simp add: p split: option.split node.split)
  then show ?thesis using assms(5) by (auto simp: write_file_at_def split: option.splits node.splits)
qed

section \<open>Where the write jail leads\<close>

lemma writable_path:
  assumes "fs_ok fs" "links_live fs" "resolve_writable_path fs ws rq = Inr p"
  shows "\<exists>realRoot e r m. realpath fs (workspace_path ws) = Inr realRoot \<and> prefix realRoot p \<and> \<not> is_git_admin_path realRoot p \<and>
    p = r @ m \<and> names_ok p \<and> nothing_below fs r m \<and> path_resolve (workspace_path ws) rq = e @ m \<and> realpath fs e = Inr r"
proof -
  let ?w = "workspace_path ws" and ?p = "path_resolve (workspace_path ws) rq"
  have np: "names_ok ?p" by (rule path_resolve_ok [OF workspace_names])
  obtain realRoot where root: "realpath fs ?w = Inr realRoot" "\<not> is_git_admin_path realRoot p"
    and how: "resolve_in_workspace fs ws rq = Inr p \<or> resolve_missing_tail fs rq realRoot ?p [] = Inr p"
    using assms(3) by (auto simp: resolve_writable_path_def Let_def split: sum.splits thrown.splits if_splits)
  from how show ?thesis
  proof
    assume f: "resolve_in_workspace fs ws rq = Inr p"
    have c: "prefix realRoot p" "real_node fs p" "realpath fs ?p = Inr p" using resolve_confined [OF assms(1) f] root(1) by auto
    then have "names_ok p" using real_names [OF assms(1)] by simp
    then show ?thesis using root c by (intro exI [of _ realRoot] exI [of _ ?p] exI [of _ p] exI [of _ "[]"]) (simp add: nothing_below_def)
  next
    assume "resolve_missing_tail fs rq realRoot ?p [] = Inr p"
    then obtain e r m where t: "?p = e @ m" "realpath fs e = Inr r" "p = r @ m" "is_contained realRoot p"
      "m \<noteq> [] \<longrightarrow> (\<exists>x. realpath fs (e @ [hd m]) = Inl x \<and> absent_code x)"
      using missing_tail [of fs rq realRoot ?p "[]" p] np by auto
    have ne: "names_ok e" "names_ok m" using np t(1) by auto
    then have r: "real_node fs r" using realpath_real [OF assms(1) _ t(2)] by simp
    then have n: "names_ok p" using real_names [OF assms(1) r] ne t(3) by simp
    have "node_at fs r \<noteq> Some DirN \<or> node_at fs (r @ [hd m]) = None" if "m \<noteq> []"
    proof -
      have "\<exists>x. realpath fs (e @ [hd m]) = Inl x \<and> absent_code x" using t(5) that by blast
      then show ?thesis using absent_means_none [OF assms(2) t(2)] ne(2) that by (cases m) auto
    qed
    then have "nothing_below fs r m" using r by (simp add: nothing_below_def)
    then show ?thesis using root t n is_contained_iff [OF n] by blast
  qed
qed

section \<open>Writes stay inside\<close>

lemma git_admin_below:
  assumes "names_ok (c # x)"
  shows "is_git_admin_path d (d @ c # x) = (map lower c = ''.git'')"
proof -
  have "split_on (CHR ''/'') (join_with (CHR ''/'') (c # x)) = c # x"
    by (rule split_join) (use assms in \<open>auto simp: list_all_iff name_ok_def\<close>)
  then show ?thesis by (simp add: is_git_admin_path_def path_relative_def relative_fields_def)
qed

text \<open>Every change is under the real root of the workspace and not in its git admin area.\<close>

definition confined :: "fs \<Rightarrow> string \<Rightarrow> fs \<Rightarrow> bool" where
  "confined fs ws fs' = (\<forall>q. node_at fs' q \<noteq> node_at fs q \<longrightarrow>
     (\<exists>realRoot. realpath fs (workspace_path ws) = Inr realRoot \<and> prefix realRoot q \<and> \<not> is_git_admin_path realRoot q))"

lemma confined_same [simp]: "confined fs ws fs"
  by (simp add: confined_def)

lemma confinedI:
  assumes "fs_ok fs" "realpath fs (workspace_path ws) = Inr realRoot" "prefix realRoot p" "\<not> is_git_admin_path realRoot p"
    "names_ok p" "\<And>q. node_at fs' q \<noteq> node_at fs q \<Longrightarrow> q = p \<or> (prefix q p \<and> node_at fs q = None)"
  shows "confined fs ws fs'"
  unfolding confined_def
proof (intro allI impI)
  fix q
  assume "node_at fs' q \<noteq> node_at fs q"
  from assms(6) [OF this] have "prefix realRoot q \<and> \<not> is_git_admin_path realRoot q"
  proof
    assume q: "prefix q p \<and> node_at fs q = None"
    have r: "real_node fs realRoot" using realpath_real [OF assms(1) workspace_names assms(2)] .
    have "\<not> prefix q realRoot"
    proof
      assume "prefix q realRoot"
      then obtain ys where "realRoot = q @ ys" by (auto simp: prefix_def)
      then have "real_node fs q" using real_prefix [OF assms(1), of q ys] r by simp
      then show False using q by (auto simp: real_node_def)
    qed
    then have "prefix realRoot q" "q \<noteq> realRoot" using q assms(3) prefix_same_cases by auto
    then obtain zs where "q = realRoot @ zs" "zs \<noteq> []" by (auto simp: prefix_def)
    then obtain c x where c: "q = realRoot @ c # x" by (cases zs) auto
    then obtain y where y: "p = realRoot @ c # x @ y" using q by (auto simp: prefix_def)
    have "names_ok (c # x)" "names_ok (c # x @ y)" using assms(5) y by auto
    then have "is_git_admin_path realRoot q = is_git_admin_path realRoot p" using c y by (simp add: git_admin_below)
    then show ?thesis using \<open>prefix realRoot q\<close> assms(4) by simp
  qed (use assms(3,4) in simp)
  then show "\<exists>realRoot. realpath fs (workspace_path ws) = Inr realRoot \<and> prefix realRoot q \<and> \<not> is_git_admin_path realRoot q"
    using assms(2) by blast
qed

lemma stat_below:
  assumes "fs_ok fs" "nothing_below fs r m" "names_ok (r @ m)"
  shows "if m = [] then stat_node fs (r @ m) = Inr (the (node_at fs r)) else \<exists>x. stat_node fs (r @ m) = Inl x \<and> absent_code x"
proof -
  have r: "real_node fs r" using assms(2) by (simp add: nothing_below_def)
  have w: "walk fs n [] r = (n, Found r)" for n using walk_real [OF assms(1), of "[]" r n] r assms(3) by simp
  show ?thesis
  proof (cases m)
    case Nil
    then show ?thesis using w r by (auto simp: stat_node_def realpath_def lookup_path_def real_node_def)
  next
    case (Cons c cs)
    have c: "c \<noteq> ''..''" using assms(3) Cons by (simp add: name_ok_def)
    have "snd (walk fs n r (c # cs)) = (if node_at fs r \<noteq> Some DirN then LookupFailed ENOTDIR
        else if cs = [] then Missing (r @ [c]) else LookupFailed ENOENT)" for n
      using assms(2) Cons c by (auto simp: walk.simps(2) nothing_below_def)
    then show ?thesis using Cons w by (simp add: stat_node_def realpath_def lookup_path_def walk_append absent_code_def)
  qed
qed

text \<open>The file at \<open>p\<close> has been written, with the directories on the way, and nothing else has changed.\<close>

definition file_written :: "fs \<Rightarrow> path \<Rightarrow> byte list \<Rightarrow> fs \<Rightarrow> bool" where
  "file_written fs p bs fs' = (fs_ok fs' \<and> node_at fs p \<noteq> Some DirN \<and> node_at fs' p = Some (FileN bs) \<and>
     (\<forall>q. q \<noteq> p \<longrightarrow> node_at fs' q = (if node_at fs q = None \<and> prefix q p then Some DirN else node_at fs q)))"

lemma file_writtenD:
  assumes "file_written fs p bs fs'"
  shows "fs_ok fs'" "node_at fs' p = Some (FileN bs)"
    "q \<noteq> p \<Longrightarrow> node_at fs' q = (if node_at fs q = None \<and> prefix q p then Some DirN else node_at fs q)"
    "node_at fs p \<noteq> Some DirN"
  using assms unfolding file_written_def by blast+

lemma prefix_butlast: "p \<noteq> [] \<Longrightarrow> prefix q (butlast p) \<longleftrightarrow> prefix q p \<and> q \<noteq> p"
  by (cases p rule: rev_cases) (auto simp: prefix_snoc)

lemma write_made:
  assumes "dirs_made fs (butlast p) fs1" "p \<noteq> []" "names_ok p" "\<And>t. node_at fs p \<noteq> Some (LinkN t)" "node_at fs p \<noteq> Some DirN"
  shows "\<exists>fs2. write_file_at fs1 p bs = Inr fs2 \<and> file_written fs p bs fs2"
proof -
  note d = dirs_madeD [OF assms(1)]
  have same: "node_at fs1 p = node_at fs p" using d(3) [of p] prefix_butlast [OF assms(2), of p] by simp
  let ?fs2 = "jmap_set fs1 p (FileN bs)"
  have w: "write_file_at fs1 p bs = Inr ?fs2"
    using write_at_real [OF d(1,2) assms(2,3), of bs] assms(4,5) same by simp
  have "fs_ok ?fs2" by (rule fs_ok_set [OF d(1) assms(2,3) d(2)]) (use same assms(5) in simp)
  moreover have "node_at ?fs2 q = (if node_at fs q = None \<and> prefix q p then Some DirN else node_at fs q)" if "q \<noteq> p" for q
    using d(3) [of q] prefix_butlast [OF assms(2), of q] that assms(2) by (simp add: node_at_set)
  ultimately have "file_written fs p bs ?fs2" using assms(2,5) by (simp add: file_written_def node_at_set)
  with w show ?thesis by blast
qed

text \<open>What a write leaves at a target that is not a directory, whose directories have just been made: nothing new if the file
  cannot be opened, all of the bytes, or some first ones if the write stops.\<close>

definition write_left :: "tool_env \<Rightarrow> fs \<Rightarrow> fs \<Rightarrow> path \<Rightarrow> byte list \<Rightarrow> thrown option \<Rightarrow> fs \<Rightarrow> bool" where
  "write_left env fs fs1 p bs x fs2 =
     (case te_write env p fs1 of
        OpenFails msg \<Rightarrow> x = Some (Thrown msg) \<and> fs2 = fs1
      | WriteWorks \<Rightarrow> x = None \<and> file_written fs p bs fs2
      | WriteStops n msg \<Rightarrow> x = Some (Thrown msg) \<and> file_written fs p (take n bs) fs2)"

lemma write_out_left:
  assumes "\<And>cs. \<exists>fs2. write_file_at fs1 p cs = Inr fs2 \<and> file_written fs p cs fs2"
  shows "write_left env fs fs1 p bs (fst (write_out env p bs fs1)) (snd (write_out env p bs fs1))"
proof (cases "te_write env p fs1")
  case WriteWorks
  then show ?thesis using assms [of bs] by (auto simp: write_left_def write_out_def)
next
  case (WriteStops n msg)
  then show ?thesis using assms [of "take n bs"] by (auto simp: write_left_def write_out_def)
qed (simp add: write_left_def write_out_def)

text \<open>Where the jail leads a request: the real node \<open>r\<close> of its existing part \<open>e\<close> and the components \<open>m\<close> still to create.\<close>

definition jail_target :: "fs \<Rightarrow> string \<Rightarrow> string \<Rightarrow> path \<Rightarrow> path \<Rightarrow> string list \<Rightarrow> bool" where
  "jail_target fs ws rq e r m = (\<exists>realRoot. realpath fs (workspace_path ws) = Inr realRoot \<and> prefix realRoot (r @ m) \<and>
     \<not> is_git_admin_path realRoot (r @ m) \<and> names_ok (r @ m) \<and> nothing_below fs r m \<and>
     path_resolve (workspace_path ws) rq = e @ m \<and> realpath fs e = Inr r)"

lemma writable_target:
  assumes "fs_ok fs" "links_live fs" "resolve_writable_path fs ws rq = Inr p"
  shows "\<exists>e r m. p = r @ m \<and> jail_target fs ws rq e r m"
  using writable_path [OF assms] unfolding jail_target_def by blast

lemma jail_targetD:
  assumes "jail_target fs ws rq e r m"
  shows "names_ok (r @ m)" "nothing_below fs r m" "path_resolve (workspace_path ws) rq = e @ m" "realpath fs e = Inr r"
  using assms unfolding jail_target_def by blast+

lemma jail_confined_dirs:
  assumes "fs_ok fs" "jail_target fs ws rq e r m" "dirs_made fs (butlast (r @ m)) fs'" "r @ m \<noteq> []"
  shows "confined fs ws fs'"
proof -
  obtain realRoot where h: "realpath fs (workspace_path ws) = Inr realRoot" "prefix realRoot (r @ m)"
    "\<not> is_git_admin_path realRoot (r @ m)" "names_ok (r @ m)"
    using assms(2) unfolding jail_target_def by blast
  show ?thesis
  proof (rule confinedI [OF assms(1) h])
    show "q = r @ m \<or> (prefix q (r @ m) \<and> node_at fs q = None)" if "node_at fs' q \<noteq> node_at fs q" for q
      using dirs_madeD(3) [OF assms(3), of q] prefix_butlast [OF assms(4), of q] that by (auto split: if_splits)
  qed
qed

lemma jail_confined:
  assumes "fs_ok fs" "jail_target fs ws rq e r m" "file_written fs (r @ m) bs fs'"
  shows "confined fs ws fs'"
proof -
  obtain realRoot where h: "realpath fs (workspace_path ws) = Inr realRoot" "prefix realRoot (r @ m)"
    "\<not> is_git_admin_path realRoot (r @ m)" "names_ok (r @ m)"
    using assms(2) unfolding jail_target_def by blast
  show ?thesis
  proof (rule confinedI [OF assms(1) h])
    show "q = r @ m \<or> (prefix q (r @ m) \<and> node_at fs q = None)" if "node_at fs' q \<noteq> node_at fs q" for q
      using file_writtenD(3) [OF assms(3), of q] that by (auto split: if_splits)
  qed
qed

lemma target_node: "nothing_below fs r m \<Longrightarrow> fs_ok fs \<Longrightarrow> node_at fs (r @ m) = (if m = [] then node_at fs r else None)"
  using below_none [of fs r m "hd m" "tl m" "[]"] by (cases m) auto

lemma write_file_effect:
  assumes "fs_ok fs" "links_live fs" "write_file_run env a cx fs = (x, fs')"
  shows "(fs' = fs \<and> (\<forall>pl. x = Inr pl \<longrightarrow> tp_isError pl)) \<or>
    (\<exists>e r m. jail_target fs (tx_workspaceDir cx) (wa_path a) e r m \<and>
       ((\<exists>y fs1. x = Inl y \<and> r @ m \<noteq> [] \<and> dirs_made fs (butlast (r @ m)) fs1 \<and>
           write_left env fs fs1 (r @ m) (to_buffer (wa_content a)) (Some y) fs') \<or>
        (\<exists>pl. x = Inr pl \<and> \<not> tp_isError pl \<and> file_written fs (r @ m) (to_buffer (wa_content a)) fs')))"
proof (cases "MAX_WRITE_FILE_BYTES < length (to_buffer (wa_content a))")
  case True
  then show ?thesis using assms(3) by (auto simp: write_file_run_def error_payload_def)
next
  case False
  show ?thesis
  proof (cases "resolve_writable_path fs (tx_workspaceDir cx) (wa_path a)")
    case (Inl y)
    then show ?thesis using assms(3) False by (auto simp: write_file_run_def)
  next
    case (Inr p)
    obtain e r m where p: "p = r @ m" and t: "jail_target fs (tx_workspaceDir cx) (wa_path a) e r m"
      using writable_target [OF assms(1,2) Inr] by blast
    note j = jail_targetD [OF t]
    show ?thesis
    proof (cases "stat_node fs p = Inr DirN")
      case True
      then show ?thesis using assms(3) False Inr by (auto simp: write_file_run_def error_payload_def)
    next
      case nodir: False
      show ?thesis
      proof (cases "mkdir_recursive fs (butlast p)")
        case (Inl y)
        then show ?thesis using assms(3) False Inr nodir
          by (auto simp: write_file_run_def parents_blocked_def Let_def error_payload_def split: if_splits option.splits sum.splits)
      next
        case mk: (Inr fs1)
        have "stat_node fs [] = Inr DirN" by (simp add: stat_node_def realpath_def lookup_path_def node_at_def)
        then have ne: "p \<noteq> []" using nodir by auto
        have made: "dirs_made fs (butlast p) fs1" using mkdir_parents [OF assms(1) j(2,1)] mk ne p by simp
        have n: "node_at fs p = (if m = [] then node_at fs r else None)" using target_node [OF j(2) assms(1)] p by simp
        have "real_node fs r" using j(2) by (simp add: nothing_below_def)
        then have l: "\<And>t. node_at fs p \<noteq> Some (LinkN t)" using n by (auto simp: real_node_def)
        have "node_at fs p \<noteq> Some DirN" using stat_below [OF assms(1) j(2,1)] nodir n p by (auto split: if_splits)
        from write_made [OF made ne _ l this] j(1) p
        have "\<exists>fs2. write_file_at fs1 p cs = Inr fs2 \<and> file_written fs p cs fs2" for cs by blast
        note w = write_out_left [of fs1 p fs, OF this, of env "to_buffer (wa_content a)"]
        obtain o1 fs2 where o: "write_out env p (to_buffer (wa_content a)) fs1 = (o1, fs2)" by force
        show ?thesis
        proof (cases o1)
          case None
          then have "fs' = fs2 \<and> (\<exists>pl. x = Inr pl \<and> \<not> tp_isError pl)" using assms(3) False Inr nodir mk o
            by (auto simp: write_file_run_def Let_def ok_payload_def)
          moreover have "file_written fs p (to_buffer (wa_content a)) fs2" using w o None
            by (auto simp: write_left_def split: write_io.splits)
          ultimately show ?thesis using t p by blast
        next
          case (Some y)
          then have "fs' = fs2 \<and> x = Inl y" using assms(3) False Inr nodir mk o
            by (auto simp: write_file_run_def Let_def)
          then show ?thesis using t p w o Some made ne by auto
        qed
      qed
    qed
  qed
qed

text \<open>Writing over a file changes that file only.\<close>

lemma rewritten:
  assumes "fs_ok fs" "node_at fs r = Some (FileN raw)"
  shows "file_written fs r bs (jmap_set fs r (FileN bs))"
proof -
  have ne: "r \<noteq> []" using assms(2) by (auto simp: node_at_def)
  have par: "names_ok r \<and> node_at fs (butlast r) = Some DirN" using node_parent [OF assms ne] .
  have "fs_ok (jmap_set fs r (FileN bs))" using fs_ok_set [OF assms(1) ne] par assms(2) by simp
  moreover have "node_at (jmap_set fs r (FileN bs)) q = (if node_at fs q = None \<and> prefix q r then Some DirN else node_at fs q)"
    if "q \<noteq> r" for q
  proof -
    have "node_at fs q \<noteq> None" if "prefix q r"
      using real_prefix [OF assms(1), of q] assms(2) that by (auto simp: prefix_def real_node_def)
    then show ?thesis using that ne by (auto simp: node_at_set)
  qed
  ultimately show ?thesis using ne assms(2) by (simp add: file_written_def node_at_set [of r "FileN bs" fs r])
qed

lemma edit_file_effect:
  assumes "fs_ok fs" "links_live fs" "edit_file_run env a cx fs = (x, fs')"
  shows "(fs' = fs \<and> (\<forall>pl. x = Inr pl \<longrightarrow> tp_isError pl)) \<or>
    (\<exists>e r raw bs. jail_target fs (tx_workspaceDir cx) (ea_path a) e r [] \<and>
       node_at fs r = Some (FileN raw) \<and> edit_bytes a raw = Inr bs \<and>
       ((\<exists>pl. x = Inr pl \<and> \<not> tp_isError pl \<and> file_written fs r bs fs') \<or>
        (\<exists>n msg. x = Inl (Thrown msg) \<and> te_write env r fs = WriteStops n msg \<and> file_written fs r (take n bs) fs')))"
proof (cases "resolve_writable_path fs (tx_workspaceDir cx) (ea_path a)")
  case (Inl y)
  then show ?thesis using assms(3) by (auto simp: edit_file_run_def)
next
  case (Inr p)
  obtain e r m where p: "p = r @ m" and t: "jail_target fs (tx_workspaceDir cx) (ea_path a) e r m"
    using writable_target [OF assms(1,2) Inr] by blast
  note j = jail_targetD [OF t]
  have r: "real_node fs r" using j(2) by (simp add: nothing_below_def)
  show ?thesis
  proof (cases "stat_node fs p")
    case (Inl y)
    then show ?thesis using assms(3) Inr by (cases "absent_code y") (auto simp: edit_file_run_def)
  next
    case st: (Inr n)
    then have m: "m = []" and n: "node_at fs r = Some n" using stat_below [OF assms(1) j(2,1)] p r
      by (auto simp: real_node_def split: if_splits)
    have pr: "p = r" using p m by simp
    show ?thesis
    proof (cases "\<exists>raw bs. n = FileN raw \<and> edit_bytes a raw = Inr bs")
      case True
      then obtain raw bs where raw: "n = FileN raw" "edit_bytes a raw = Inr bs" by blast
      have ne: "r \<noteq> []" using n raw(1) by (auto simp: node_at_def)
      have par: "names_ok r \<and> node_at fs (butlast r) = Some DirN" using node_parent [OF assms(1) n ne] .
      have "write_file_at fs r cs = Inr (jmap_set fs r (FileN cs)) \<and> file_written fs r cs (jmap_set fs r (FileN cs))" for cs
        using write_at_real [OF assms(1) _ ne, of cs] par n raw(1) rewritten [OF assms(1), of r raw cs] by simp
      then have "\<exists>fs2. write_file_at fs r cs = Inr fs2 \<and> file_written fs r cs fs2" for cs by blast
      note w = write_out_left [of fs r fs, OF this, of env bs]
      obtain o1 fs2 where o: "write_out env r bs fs = (o1, fs2)" by force
      have l: "write_left env fs fs r bs o1 fs2" using w o by simp
      have "fs' = fs2 \<and> (case o1 of None \<Rightarrow> \<exists>pl. x = Inr pl \<and> \<not> tp_isError pl | Some y \<Rightarrow> x = Inl y)"
        using assms(3) Inr st raw o pr by (cases o1) (auto simp: edit_file_run_def ok_payload_def)
      then have "(fs' = fs \<and> (\<forall>pl. x = Inr pl \<longrightarrow> tp_isError pl)) \<or> (\<exists>pl. x = Inr pl \<and> \<not> tp_isError pl \<and> file_written fs r bs fs') \<or>
        (\<exists>n msg. x = Inl (Thrown msg) \<and> te_write env r fs = WriteStops n msg \<and> file_written fs r (take n bs) fs')"
        using l by (cases o1) (auto simp: write_left_def split: write_io.splits)
      then show ?thesis using t m n raw by blast
    next
      case False
      then show ?thesis using assms(3) Inr st by (auto simp: edit_file_run_def split: node.splits sum.splits)
    qed
  qed
qed

section \<open>The toolset\<close>

lemma settling_runs:
  "\<exists>pl. at_execute (make_tool env name keys schema (settling body)) args cx fs =
     (Answers pl, case schema args of None \<Rightarrow> fs | Some a \<Rightarrow> snd (body a cx fs))"
  by (auto simp: make_tool_def settling_def split: option.split prod.split sum.split)

lemma reading_keeps [simp]: "snd (reading f a cx fs) = fs"
  by (simp add: reading_def)

lemma read_tool_keeps: "t \<in> set (read_tools env) \<Longrightarrow> snd (at_execute t args cx fs) = fs"
  by (auto simp: read_tools_def make_tool_def reading_def split: option.split sum.split)

lemma write_left_confined:
  assumes "fs_ok fs" "jail_target fs ws rq e r m" "dirs_made fs (butlast (r @ m)) fs1" "r @ m \<noteq> []"
    "write_left env fs fs1 (r @ m) bs x fs'"
  shows "confined fs ws fs' \<and> fs_ok fs'"
  using assms(5) jail_confined_dirs [OF assms(1-4)] dirs_madeD(1) [OF assms(3)] jail_confined [OF assms(1,2)] file_writtenD(1)
  unfolding write_left_def by (cases "te_write env (r @ m) fs1") auto

lemma write_tool_confined:
  assumes "t \<in> set (write_tools env)" "fs_ok fs" "links_live fs"
  shows "confined fs (tx_workspaceDir cx) (snd (at_execute t args cx fs)) \<and> fs_ok (snd (at_execute t args cx fs))"
proof -
  have w: "confined fs (tx_workspaceDir cx) (snd (write_file_run env a cx fs)) \<and> fs_ok (snd (write_file_run env a cx fs))" for a
  proof -
    obtain x fs' where r: "write_file_run env a cx fs = (x, fs')" by force
    have "confined fs (tx_workspaceDir cx) fs' \<and> fs_ok fs'"
      using write_file_effect [OF assms(2,3) r] write_left_confined [OF assms(2)] jail_confined [OF assms(2)] file_writtenD(1)
        confined_same assms(2) by metis
    then show ?thesis using r by simp
  qed
  have e: "confined fs (tx_workspaceDir cx) (snd (edit_file_run env a cx fs)) \<and> fs_ok (snd (edit_file_run env a cx fs))" for a
  proof -
    obtain x fs' where r: "edit_file_run env a cx fs = (x, fs')" by force
    have "fs' = fs \<or> (\<exists>e q bs. jail_target fs (tx_workspaceDir cx) (ea_path a) e q [] \<and> file_written fs (q @ []) bs fs')"
      using edit_file_effect [OF assms(2,3) r] by auto
    then show ?thesis using r jail_confined [OF assms(2)] file_writtenD(1) assms(2) by fastforce
  qed
  consider "t = make_tool env ''write_file'' (Some [''path'']) write_schema (settling (write_file_run env))"
    | "t = make_tool env ''edit_file'' (Some [''path'']) edit_schema (settling (edit_file_run env))"
    using assms(1) by (auto simp: write_tools_def)
  then show ?thesis
  proof cases
    case 1
    obtain pl where x: "at_execute t args cx fs = (Answers pl, case write_schema args of None \<Rightarrow> fs | Some a \<Rightarrow> snd (write_file_run env a cx fs))"
      using settling_runs unfolding 1 by blast
    show ?thesis unfolding x using w assms(2) by (simp split: option.split)
  next
    case 2
    obtain pl where x: "at_execute t args cx fs = (Answers pl, case edit_schema args of None \<Rightarrow> fs | Some a \<Rightarrow> snd (edit_file_run env a cx fs))"
      using settling_runs unfolding 2 by blast
    show ?thesis unfolding x using e assms(2) by (simp split: option.split)
  qed
qed

text \<open>Every process that \<open>run_command\<close> starts settles: it closes, fails to start, or is killed while it runs.\<close>

definition commands_settle :: "tool_env \<Rightarrow> bool" where
  "commands_settle env = (\<forall>iv ms fs. child_promise (iv_executable iv) (fst (te_runs env iv ms fs)) \<noteq> SpawnPending)"

lemma file_tool_answers:
  "t \<in> set (read_tools env @ write_tools env) \<Longrightarrow> \<exists>pl. fst (at_execute t args cx fs) = Answers pl"
  by (auto simp: read_tools_def write_tools_def make_tool_def reading_def settling_def
      split: option.split sum.split prod.split)

lemma command_tool_answers:
  assumes "commands_settle env"
  shows "\<exists>pl. fst (at_execute (run_command_tool env) args cx fs) = Answers pl"
proof (cases "command_schema args")
  case (Some a)
  show ?thesis
  proof (cases "spawn_gate (te_platform env) (te_allowlist env) (stat_node fs (workspace_path (tx_workspaceDir cx)) = Inr DirN)
      (tx_aborted cx) \<lparr>sq_command = ca_command a, sq_args = ca_args a, sq_cwd = tx_workspaceDir cx\<rparr>")
    case (Inr iv)
    obtain c fs' where c: "te_runs env iv (tx_commandTimeoutMs cx) fs = (c, fs')" by force
    then have "child_promise (iv_executable iv) c \<noteq> SpawnPending"
      using assms unfolding commands_settle_def by (metis fst_conv)
    then show ?thesis using Some Inr c
      by (cases "child_promise (iv_executable iv) c") (simp_all add: run_command_tool_def make_tool_def run_command_run_def)
  qed (use Some in \<open>simp add: run_command_tool_def make_tool_def run_command_run_def\<close>)
qed (simp add: run_command_tool_def make_tool_def)

lemma toolset_answers:
  assumes "commands_settle env" "t \<in> set (build_toolset env w)"
  shows "\<exists>pl. fst (at_execute t args cx fs) = Answers pl"
proof -
  have "t \<in> set (read_tools env @ write_tools env) \<or> t = run_command_tool env"
    using assms(2) by (auto simp: build_toolset_def split: if_splits)
  then show ?thesis using file_tool_answers command_tool_answers [OF assms(1)] by blast
qed

end
