(* ===== verification/ToolTheorems.thy ===== *)
theory ToolTheorems imports ToolSafety Executors begin

text \<open>
  The properties of the agents' tools and of the jobs that run with them: where reads and writes go, what \<open>grep\<close>, \<open>glob\<close>
  and \<open>edit_file\<close> answer against their specifications, and that a job with the real toolset always answers.
\<close>

section \<open>A workspace for the witnesses\<close>

definition demo_cx :: tool_context where
  "demo_cx = \<lparr>tx_workspaceDir = ''/w'', tx_aborted = False, tx_commandTimeoutMs = 1000\<rparr>"

definition demo_fs :: fs where
  "demo_fs = [([''w''], DirN), ([''w'', ''a''], FileN [0x61, 0x62]), ([''w'', ''l''], LinkN ''a''), ([''etc''], DirN)]"

definition demo_env :: tool_env where
  "demo_env = \<lparr>te_json = demo_jt, te_quote = (\<lambda>t. t), te_zod = (\<lambda>_ _. []), te_regex = (\<lambda>_. Inr (\<lambda>l. l \<noteq> [])),
     te_grepTimesOut = (\<lambda>_ _. False), te_platform = Posix, te_allowlist = [],
     te_runs = (\<lambda>_ _ fs. (Inr [Closes (Some 0)], fs)), te_write = (\<lambda>_ _. WriteWorks)\<rparr>"

lemma demo_fs_ok: "fs_ok demo_fs"
  by code_simp

lemma demo_links: "links_live demo_fs"
  by (rule links_live_code) code_simp

lemma demo_root: "realpath demo_fs (workspace_path ''/w'') = Inr [''w'']"
  by code_simp

section \<open>Reads\<close>

text \<open>C32 A read shows only what the workspace holds: whatever path the model names, through \<open>..\<close>, an absolute path or a
  symbolic link, what \<open>read_file\<close> answers is the content of a regular file under the real root of the workspace, cut at the
  read cap, and the file system is as before.\<close>

theorem reads_stay_inside:
  assumes "fs_ok fs" "at_execute (make_tool env ''read_file'' None path_schema (reading read_file_run)) args cx fs = (Answers pl, fs')"
    "\<not> tp_isError pl"
  shows "fs' = fs \<and> (\<exists>realRoot p bs. realpath fs (workspace_path (tx_workspaceDir cx)) = Inr realRoot \<and> prefix realRoot p \<and>
    node_at fs p = Some (FileN bs) \<and>
    (case decode_utf8_capped bs MAX_READ_FILE_BYTES of (t, truncated) \<Rightarrow>
       tp_content pl = t @ (if truncated then READ_FILE_TRUNCATION_MARKER else [])))"
proof -
  obtain rq where rq: "path_schema args = Some rq" "read_file_run rq cx fs = Inr pl" "fs' = fs"
    using assms(2,3) by (auto simp: make_tool_def reading_def error_payload_def split: option.splits sum.splits)
  then obtain p where p: "resolve_in_workspace fs (tx_workspaceDir cx) rq = Inr p"
    by (auto simp: read_file_run_def split: sum.splits)
  then obtain bs where bs: "node_at fs p = Some (FileN bs)"
    using rq(2) by (auto simp: read_file_run_def split: option.splits node.splits)
  have "case decode_utf8_capped bs MAX_READ_FILE_BYTES of (t, truncated) \<Rightarrow>
      tp_content pl = t @ (if truncated then READ_FILE_TRUNCATION_MARKER else [])"
    using rq(2) p bs by (auto simp: read_file_run_def ok_payload_def split: prod.splits)
  moreover obtain realRoot where "realpath fs (workspace_path (tx_workspaceDir cx)) = Inr realRoot" "prefix realRoot p"
    using resolve_confined [OF assms(1) p] by blast
  ultimately show ?thesis using bs rq(3) by (intro conjI exI [of _ realRoot] exI [of _ p] exI [of _ bs])
qed

theorem reads_stay_inside_witness:
  "\<exists>p bs. prefix [''w''] p \<and> node_at demo_fs p = Some (FileN bs)"
proof -
  let ?t = "make_tool demo_env ''read_file'' None path_schema (reading read_file_run)"
  let ?args = "JObj [(''path'', JStr ''l'')]"
  have r: "resolve_in_workspace demo_fs ''/w'' ''l'' = Inr [''w'', ''a'']" by code_simp
  have n: "node_at demo_fs [''w'', ''a''] = Some (FileN [0x61, 0x62])" by code_simp
  have c: "tx_workspaceDir demo_cx = ''/w''" by (simp add: demo_cx_def)
  have "path_schema ?args = Some ''l''" by (simp add: path_schema_def req_key_def)
  then obtain pl where "at_execute ?t ?args demo_cx demo_fs = (Answers pl, demo_fs)" "\<not> tp_isError pl"
    by (cases "decode_utf8_capped [0x61, 0x62] MAX_READ_FILE_BYTES") (simp add: make_tool_def reading_def read_file_run_def c r n ok_payload_def)
  then obtain realRoot p bs where p: "realpath demo_fs (workspace_path (tx_workspaceDir demo_cx)) = Inr realRoot"
    "prefix realRoot p" "node_at demo_fs p = Some (FileN bs)" using reads_stay_inside [OF demo_fs_ok] by blast
  then have "realRoot = [''w'']" using demo_root c by simp
  then show ?thesis using p by blast
qed

text \<open>The lexical check is before any access: outside the root, nothing of the file system shows.\<close>

lemma outside_refused:
  "\<not> is_contained (workspace_path ws) (path_resolve (workspace_path ws) rq) \<Longrightarrow> resolve_in_workspace fs ws rq = Inl (violation rq)"
  by (simp add: resolve_in_workspace_def)

text \<open>C35 \<open>grep\<close> reports what it says it reports: against the list of all matching lines of the files the walk reaches (regular
  files under the root, through no link and no skipped directory, within the per-file cap), the answer is a prefix of at
  most 100 lines, all of them unless it says that a cap was reached, and the match cap is announced only when there is more.\<close>

theorem grep_reports_prefix:
  "reported (concat (map (file_matches test fs d) (walk_files fs d []))) (grep_scan test fs d) \<and>
   sorted_wrt (<) (walk_files fs d [])"
  using grep_files_spec [of no_matches test fs d "walk_files fs d []" 0] walk_sorted
  by (simp add: grep_scan_def no_matches_def)

text \<open>\<open>glob\<close> finds exactly the matching files: the paths it lists are those of the regular files below the root, none of
  them through a symbolic link or below \<open>.git\<close> or \<open>node_modules\<close>, whose path the pattern matches.\<close>

theorem glob_finds_exactly:
  assumes "fs_ok fs"
  shows "set (glob_found pattern fs d) = show_rel ` {q. listed fs d q \<and> glob_matches (glob_parts pattern) (show_rel q)}"
  using walk_lists [OF assms, of d "[]"] by (auto simp: glob_found_def)

theorem glob_finds_exactly_witness: "set (glob_found ''*'' demo_fs [''w'']) = {''a''}"
proof -
  have "listed demo_fs [''w''] q \<and> glob_matches (glob_parts ''*'') (show_rel q) \<longleftrightarrow> q = [''a'']" for q
  proof -
    have w: "set (walk_files demo_fs [''w''] []) = {[''a'']}" by code_simp
    have "glob_matches (glob_parts ''*'') (show_rel [''a''])" by code_simp
    then show ?thesis using walk_lists [OF demo_fs_ok, of "[''w'']" "[]"] w by auto
  qed
  then show ?thesis using glob_finds_exactly [OF demo_fs_ok, of "''*''" "[''w'']"] by (simp add: show_rel_def)
qed

section \<open>Writes\<close>

text \<open>C31 A file tool changes only the workspace: whatever arguments the model gives to a read or write tool, and also when a
  write fails half way, every path whose node changes is under the real root of the workspace and its first component below
  the root is not \<open>.git\<close> in any spelling, provided that no symbolic link dangles; the read tools change nothing at all.\<close>

theorem writes_stay_inside:
  assumes "fs_ok fs" "links_live fs" "t \<in> set (read_tools env @ write_tools env)"
  shows "confined fs (tx_workspaceDir cx) (snd (at_execute t args cx fs)) \<and> fs_ok (snd (at_execute t args cx fs)) \<and>
    (t \<in> set (read_tools env) \<longrightarrow> snd (at_execute t args cx fs) = fs)"
proof (cases "t \<in> set (read_tools env)")
  case True
  then show ?thesis using read_tool_keeps assms(1) by simp
next
  case False
  then show ?thesis using write_tool_confined [of t env fs cx args] assms by simp
qed

theorem writes_stay_inside_witness:
  "confined demo_fs ''/w'' (snd (at_execute (make_tool demo_env ''write_file'' (Some [''path'']) write_schema (settling (write_file_run demo_env)))
     (JObj [(''path'', JStr ''d/f''), (''content'', JStr ''x'')]) demo_cx demo_fs))"
  using writes_stay_inside [OF demo_fs_ok demo_links,
    of "make_tool demo_env ''write_file'' (Some [''path'']) write_schema (settling (write_file_run demo_env))" demo_env demo_cx]
  by (simp add: write_tools_def demo_cx_def)

text \<open>A dangling link breaks the jail: its name exists, but as \<open>realpath\<close> fails for want of an entry it is taken for a
  component to create, and writing to it creates the target of the link, outside the root.\<close>

definition dangling_fs :: fs where
  "dangling_fs = [([''w''], DirN), ([''w'', ''out''], LinkN ''/etc/cron''), ([''etc''], DirN)]"

lemma dangling_link_escapes:
  "resolve_writable_path dangling_fs ''/w'' ''out'' = Inr [''w'', ''out'']"
  "write_file_at dangling_fs [''w'', ''out''] bs = Inr (dangling_fs @ [([''etc'', ''cron''], FileN bs)])"
proof -
  show "resolve_writable_path dangling_fs ''/w'' ''out'' = Inr [''w'', ''out'']" by code_simp
  have "lookup_path dangling_fs [''w'', ''out''] = Missing [''etc'', ''cron'']" by code_simp
  then show "write_file_at dangling_fs [''w'', ''out''] bs = Inr (dangling_fs @ [([''etc'', ''cron''], FileN bs)])"
    by (simp add: write_file_at_def dangling_fs_def)
qed

lemma dangling_link_unreadable:
  "resolve_in_workspace (dangling_fs @ [([''etc'', ''cron''], FileN [])]) ''/w'' ''out'' = Inl (violation ''out'')"
  by code_simp

section \<open>Edits\<close>

lemma index_of_splits: "index_of pat s = Some i \<Longrightarrow> s = take i s @ pat @ drop (i + length pat) s"
  using index_of_prefix [of pat s i] by (auto simp: prefix_def) (metis append_take_drop_id add.commute append_eq_conv_conj drop_drop)

lemma index_of_first: "index_of pat s = Some i \<Longrightarrow> j < i \<Longrightarrow> \<not> prefix pat (drop j s)"
proof (induction pat s arbitrary: i j rule: index_of.induct)
  case (2 pat x xs)
  then show ?case by (cases j) (auto split: if_splits)
qed (auto split: if_splits)

lemma edit_bytes_spec:
  assumes "edit_bytes a raw = Inr bs" "ea_oldText a \<noteq> []"
  shows "to_buffer (buffer_text raw) = raw \<and> length bs \<le> MAX_WRITE_FILE_BYTES \<and> (\<exists>pre post. buffer_text raw = pre @ ea_oldText a @ post \<and>
    bs = to_buffer (pre @ ea_newText a @ post) \<and> occurrences (ea_oldText a) post = 0 \<and>
    index_of (ea_oldText a) (buffer_text raw) = Some (length pre))"
proof -
  let ?t = "buffer_text raw" and ?o = "ea_oldText a"
  obtain u where u: "edit_text (ea_path a) ?o (ea_newText a) ?t = Inr u" "bs = to_buffer u" "to_buffer ?t = raw" "length bs \<le> MAX_WRITE_FILE_BYTES"
    using assms(1) by (auto simp: edit_bytes_def Let_def split: if_splits sum.splits)
  have c: "occurrences ?o ?t = 1" using u(1) by (auto simp: edit_text_def Let_def split: if_splits)
  then obtain i where i: "index_of ?o ?t = Some i" by (subst (asm) occurrences.simps) (auto split: option.splits)
  have s: "u = take i ?t @ ea_newText a @ drop (i + length ?o) ?t" using u(1) c i by (simp add: edit_text_def splice_def)
  have o: "occurrences ?o (drop (i + length ?o) ?t) = 0" using c i assms(2) by (subst (asm) occurrences.simps) simp
  have l: "length (take i ?t) = i" using index_of_prefix [OF i] by simp
  show ?thesis using u s o i l index_of_splits [OF i] by (intro conjI exI [of _ "take i ?t"] exI [of _ "drop (i + length ?o) ?t"]) auto
qed

definition edit_file_tool :: "tool_env \<Rightarrow> fs agent_tool" where
  "edit_file_tool env = make_tool env ''edit_file'' (Some [''path'']) edit_schema (settling (edit_file_run env))"

text \<open>Only the node at \<open>p\<close> differs.\<close>

definition only_at :: "path \<Rightarrow> fs \<Rightarrow> fs \<Rightarrow> bool" where
  "only_at p fs fs' = (\<forall>q. q \<noteq> p \<longrightarrow> node_at fs' q = node_at fs q)"

lemma written_only_at:
  assumes "fs_ok fs" "node_at fs p = Some (FileN raw)" "file_written fs p bs fs'"
  shows "only_at p fs fs'"
  unfolding only_at_def
proof (intro allI impI)
  fix q
  assume q: "q \<noteq> p"
  have "node_at fs q \<noteq> None" if x: "prefix q p"
  proof -
    obtain ys where "p = q @ ys" using x by (auto simp: prefix_def)
    then have "real_node fs (q @ ys)" using assms(2) by (simp add: real_node_def)
    from real_prefix [OF assms(1) this] show ?thesis by (auto simp: real_node_def)
  qed
  then show "node_at fs' q = node_at fs q" using file_writtenD(3) [OF assms(3) q] by auto
qed


lemma ascii_text:
  assumes "list_all (\<lambda>c. (of_char c :: nat) < 0x80) s"
  shows "to_buffer (jtext_of s) = map (\<lambda>c. of_nat (of_char c)) s" "buffer_text (map (\<lambda>c. of_nat (of_char c)) s) = jtext_of s"
proof -
  have b: "utf8_bytes (map of_char s) = map (\<lambda>c. of_nat (of_char c)) s"
    using assms by (induction s) (simp_all add: utf8_def)
  show "to_buffer (jtext_of s) = map (\<lambda>c. of_nat (of_char c)) s"
    unfolding jtext_of_utf16 to_buffer_utf16 [OF literal_scalar] by (rule b)
  show "buffer_text (map (\<lambda>c. of_nat (of_char c)) s) = jtext_of s"
    unfolding b [symmetric] buffer_text_utf8 [OF literal_scalar] jtext_of_utf16 by simp
qed

lemma demo_edit_bytes:
  "edit_bytes \<lparr>ea_path = ''l'', ea_oldText = jtext_of ''b'', ea_newText = jtext_of ''c''\<rparr> [0x61, 0x62] = Inr [0x61, 0x63]"
proof -
  have r: "[0x61, 0x62] = (map (\<lambda>c. of_nat (of_char c)) ''ab'' :: byte list)" "[0x61, 0x63] = (map (\<lambda>c. of_nat (of_char c)) ''ac'' :: byte list)"
    by simp_all
  have t: "edit_text ''l'' (jtext_of ''b'') (jtext_of ''c'') (jtext_of ''ab'') = Inr (jtext_of ''ac'')"
    by (simp add: edit_text_def jtext_of_def occurrences.simps splice_def)
  have "list_all (\<lambda>c. (of_char c :: nat) < 0x80) ''ab''" "list_all (\<lambda>c. (of_char c :: nat) < 0x80) ''ac''" by simp_all
  note ab = ascii_text [OF this(1)] and ac = ascii_text [OF this(2)]
  show ?thesis unfolding r by (simp only: edit_bytes_def ab ac t edit_args.select_convs Let_def) (simp add: MAX_WRITE_FILE_BYTES_def ac)
qed

lemma demo_edit:
  "\<exists>fs'. at_execute (edit_file_tool demo_env)
     (JObj [(''path'', JStr ''l''), (''oldText'', JStr ''b''), (''newText'', JStr ''c'')]) demo_cx demo_fs =
     (Answers (ok_payload (jtext_of ''edited l'')), fs')"
proof -
  let ?args = "JObj [(''path'', JStr ''l''), (''oldText'', JStr ''b''), (''newText'', JStr ''c'')]"
  let ?a = "\<lparr>ea_path = ''l'', ea_oldText = jtext_of ''b'', ea_newText = jtext_of ''c''\<rparr>"
  have s: "edit_schema ?args = Some ?a"
    by (simp add: edit_schema_def req_key_def nonempty_str_def checked_def jtext_of_def MAX_EDIT_TEXT_CHARS_def)
  have r: "resolve_writable_path demo_fs ''/w'' ''l'' = Inr [''w'', ''a'']" by code_simp
  have st: "stat_node demo_fs [''w'', ''a''] = Inr (FileN [0x61, 0x62])" by code_simp
  note e = demo_edit_bytes
  have l: "lookup_path demo_fs [''w'', ''a''] = Found [''w'', ''a'']" by code_simp
  have n: "node_at demo_fs [''w'', ''a''] = Some (FileN [0x61, 0x62])" by code_simp
  show ?thesis
    by (simp add: edit_file_tool_def make_tool_def settling_def edit_file_run_def s demo_cx_def r st e write_out_def demo_env_def
        write_file_at_def l n)
qed


text \<open>Occurrences that overlap are counted once, so a text that occurs twice can pass as occurring once.\<close>

lemma overlapping_occurrence: "occurrences [1, 1] [1, 1, 1 :: unit16] = 1 \<and> prefix [1, 1] (drop 1 [1, 1, 1 :: unit16])"
  by code_simp

section \<open>A written file reads back\<close>

definition extends :: "fs \<Rightarrow> fs \<Rightarrow> bool" where
  "extends fs fs' = (\<forall>q n. node_at fs q = Some n \<longrightarrow>
     (case n of FileN _ \<Rightarrow> (\<exists>b. node_at fs' q = Some (FileN b)) | _ \<Rightarrow> node_at fs' q = Some n))"

lemma walk_extends: "extends fs fs' \<Longrightarrow> walk fs n d cs = (k, Found r) \<Longrightarrow> walk fs' n d cs = (k, Found r)"
proof (induction fs n d cs rule: walk.induct)
  case (2 fs n d c cs)
  have e: "node_at fs q = Some x \<Longrightarrow> (case x of FileN _ \<Rightarrow> (\<exists>b. node_at fs' q = Some (FileN b)) | _ \<Rightarrow> node_at fs' q = Some x)" for q x
    using "2.prems"(1) unfolding extends_def by blast
  have d: "node_at fs d = Some DirN" using "2.prems"(2) by (auto simp: walk.simps(2) split: if_splits)
  then have d': "node_at fs' d = Some DirN" using e [of d DirN] by simp
  show ?case
  proof (cases "c = ''..''")
    case True
    then show ?thesis using "2.IH"(1) "2.prems" d d' by (simp add: walk.simps(2))
  next
    case False
    then obtain x where x: "node_at fs (d @ [c]) = Some x" using "2.prems"(2) d by (auto simp: walk.simps(2) split: option.splits if_splits)
    show ?thesis
    proof (cases x)
      case (FileN b)
      then obtain b' where "node_at fs' (d @ [c]) = Some (FileN b')" using e [OF x] by auto
      then show ?thesis using "2.IH"(2) [OF _ False x FileN "2.prems"(1)] "2.prems"(2) d d' x FileN False by (simp add: walk.simps(2))
    next
      case DirN
      then have "node_at fs' (d @ [c]) = Some DirN" using e [OF x] by simp
      then show ?thesis using "2.IH"(3) [OF _ False x DirN "2.prems"(1)] "2.prems"(2) d d' x DirN False by (simp add: walk.simps(2))
    next
      case (LinkN t)
      then have "node_at fs' (d @ [c]) = Some (LinkN t)" using e [OF x] by simp
      then show ?thesis using "2.IH"(4) [OF _ False x LinkN _ "2.prems"(1)] "2.prems"(2) d d' x LinkN False
        by (auto simp: walk.simps(2) split: if_splits)
    qed
  qed
qed simp

lemma written_extends:
  assumes "fs_ok fs" "nothing_below fs r m" "file_written fs (r @ m) bs fs'"
  shows "extends fs fs'"
  unfolding extends_def
proof (intro allI impI)
  fix q n
  assume n: "node_at fs q = Some n"
  show "case n of FileN _ \<Rightarrow> (\<exists>b. node_at fs' q = Some (FileN b)) | _ \<Rightarrow> node_at fs' q = Some n"
  proof (cases "q = r @ m")
    case True
    then have p: "node_at fs (r @ m) = Some n" using n by simp
    then have "m = []" using target_node [OF assms(2,1)] by (auto split: if_splits)
    then have "\<exists>b. n = FileN b" using assms(2) p file_writtenD(4) [OF assms(3)] by (auto simp: nothing_below_def real_node_def)
    then show ?thesis using file_writtenD(2) [OF assms(3)] True by auto
  next
    case False
    then show ?thesis using file_writtenD(3) [OF assms(3) False] n by (auto split: node.split)
  qed
qed

lemma realpath_extends:
  assumes "extends fs fs'" "realpath fs p = Inr r"
  shows "realpath fs' p = Inr r"
proof -
  obtain k where "walk fs MAX_LINKS [] p = (k, Found r)"
    using assms(2) by (cases "walk fs MAX_LINKS [] p") (simp add: realpath_Inr lookup_path_def)
  from walk_extends [OF assms(1) this] show ?thesis by (simp add: realpath_Inr lookup_path_def)
qed

lemma written_resolves:
  assumes "fs_ok fs" "names_ok (r @ m)" "nothing_below fs r m" "realpath fs e = Inr r" "file_written fs (r @ m) bs fs'"
  shows "realpath fs' (e @ m) = Inr (r @ m)"
proof -
  have x: "extends fs fs'" by (rule written_extends [OF assms(1,3,5)])
  obtain k where "walk fs MAX_LINKS [] e = (k, Found r)"
    using assms(4) by (cases "walk fs MAX_LINKS [] e") (simp add: realpath_Inr lookup_path_def)
  from walk_extends [OF x this] have w: "walk fs' MAX_LINKS [] e = (k, Found r)" .
  have "walk fs' k r m = (k, Found (r @ m))"
    by (rule walk_real [OF file_writtenD(1) [OF assms(5)]]) (use file_writtenD(2) [OF assms(5)] assms(2) in \<open>simp_all add: real_node_def\<close>)
  then show ?thesis using w by (simp add: realpath_Inr lookup_path_def walk_append)
qed

lemma writable_lexical:
  "resolve_writable_path fs ws rq = Inr p \<Longrightarrow>
   CHR 0x00 \<notin> set rq \<and> is_contained (workspace_path ws) (path_resolve (workspace_path ws) rq)"
  by (auto simp: resolve_writable_path_def resolve_in_workspace_def violation_def Let_def split: sum.splits if_splits)

lemma wrote_lexical:
  assumes "write_file_run env a cx fs = (Inr pl, fs')" "\<not> tp_isError pl"
  shows "CHR 0x00 \<notin> set (wa_path a) \<and> is_contained (workspace_path (tx_workspaceDir cx))
    (path_resolve (workspace_path (tx_workspaceDir cx)) (wa_path a))"
proof (cases "resolve_writable_path fs (tx_workspaceDir cx) (wa_path a)")
  case (Inl y)
  then show ?thesis using assms by (auto simp: write_file_run_def Let_def error_payload_def split: if_splits)
qed (use writable_lexical in blast)

lemma short_text_decodes:
  assumes "well_formed t" "length (to_buffer t) \<le> n"
  shows "decode_utf8_capped (to_buffer t) n = (t, False)"
proof -
  obtain cs where cs: "list_all scalar cs" "t = utf16_text cs" by (rule well_formedE [OF assms(1)])
  then have "to_buffer t = utf8_bytes cs" by (simp add: to_buffer_utf16)
  then show ?thesis using capped_text_fitting [OF cs(1), of n] assms(2) cs(2) by (simp add: fitting_all del: length_concat)
qed


definition demo_text :: write_args where
  "demo_text = \<lparr>wa_path = ''d/f'', wa_content = jtext_of ''xy''\<rparr>"

lemma demo_text_writes: "\<exists>fs'. write_file_run demo_env demo_text demo_cx demo_fs = (Inr (ok_payload (jtext_of (''wrote '' @ show_nat 2 @ '' bytes to d/f''))), fs')"
proof -
  have r: "resolve_writable_path demo_fs ''/w'' ''d/f'' = Inr [''w'', ''d'', ''f'']" by code_simp
  have s: "stat_node demo_fs [''w'', ''d'', ''f''] = Inl ENOENT" by code_simp
  have m: "mkdir_recursive demo_fs [''w'', ''d''] = Inr (demo_fs @ [([''w'', ''d''], DirN)])" by code_simp
  have l: "lookup_path (demo_fs @ [([''w'', ''d''], DirN)]) [''w'', ''d'', ''f''] = Missing [''w'', ''d'', ''f'']" by code_simp
  have b: "length (to_buffer (jtext_of ''xy'')) = 2" by (simp add: to_buffer_def literal_bytes del: length_concat)
  show ?thesis
    by (simp add: write_file_run_def write_out_def demo_env_def demo_text_def demo_cx_def r s m write_file_at_def l b MAX_WRITE_FILE_BYTES_def)
qed


section \<open>Jobs with the real toolset\<close>


lemma demo_commands_settle: "commands_settle (demo_env\<lparr>te_allowlist := al\<rparr>)"
  by (simp add: commands_settle_def demo_env_def child_promise_def spawn_run_def just_spawned_def settle_def)

text \<open>A worker that allows a command, which the model calls.\<close>

definition working_env :: tool_env where
  "working_env = demo_env\<lparr>te_allowlist := [(''ls'', None)]\<rparr>"




end
