(* ===== verification/Git.thy ===== *)
theory Git imports Sse begin

text \<open>
  \<^verbatim>\<open>packages/daemon/src/workspace/git.ts\<close>: the wrapper every git invocation goes through, and the helper per
  command. git itself is third-party code: a parameter that answers a call and moves the repositories, a state of any
  type. The text git prints is a string of character codes.
\<close>

section \<open>Calls and results\<close>

definition DEFAULT_GIT_TIMEOUT_MS :: int where "DEFAULT_GIT_TIMEOUT_MS = 120000"
definition MAX_GIT_OUTPUT_BYTES :: nat where "MAX_GIT_OUTPUT_BYTES = 1024 * 1024"

record git_result =
  gr_code :: "int option"
  gr_stdout :: string
  gr_stderr :: string
  gr_timedOut :: bool
  gr_spawnError :: "string option"

record git_call =
  gc_args :: "string list"
  gc_cwd :: "string option"
  gc_config :: "string list"
  gc_timeoutMs :: int

type_synonym 's git = "git_call \<Rightarrow> 's \<Rightarrow> git_result \<times> 's"

definition git_ok :: "git_result \<Rightarrow> bool" where
  "git_ok r = (gr_code r = Some 0)"

text \<open>\<open>String.trim\<close>.\<close>

definition trim_text :: "string \<Rightarrow> string" where
  "trim_text s = rev (dropWhile is_js_space (rev (dropWhile is_js_space s)))"

definition code_text :: "int option \<Rightarrow> string" where
  "code_text c = (case c of None \<Rightarrow> ''null'' | Some n \<Rightarrow> show_int n)"

definition describe_git_failure :: "git_result \<Rightarrow> string" where
  "describe_git_failure r =
     (case gr_spawnError r of
        Some e \<Rightarrow> ''git could not be spawned: '' @ e
      | None \<Rightarrow>
          if gr_timedOut r then ''git timed out''
          else ''git exited '' @ code_text (gr_code r) @
            (if trim_text (gr_stderr r) = [] then [] else '': '' @ trim_text (gr_stderr r)))"

section \<open>The process\<close>

definition STRIPPED_GIT_ENV_VARS :: "string list" where
  "STRIPPED_GIT_ENV_VARS = [''GIT_AUTHOR_NAME'', ''GIT_AUTHOR_EMAIL'', ''GIT_AUTHOR_DATE'',
     ''GIT_COMMITTER_NAME'', ''GIT_COMMITTER_EMAIL'', ''GIT_COMMITTER_DATE'']"

definition nonexistent_config :: "string \<Rightarrow> string" where
  "nonexistent_config tmpdir = tmpdir @ ''/homefleet-nonexistent-gitconfig-do-not-create''"

definition git_child_env :: "string \<Rightarrow> (string, string) jmap \<Rightarrow> (string, string) jmap" where
  "git_child_env tmpdir env =
     foldl jmap_delete
       (jmap_set (jmap_set (jmap_set (jmap_set env ''GIT_CONFIG_GLOBAL'' (nonexistent_config tmpdir))
          ''GIT_CONFIG_SYSTEM'' (nonexistent_config tmpdir)) ''GIT_TERMINAL_PROMPT'' ''0'') ''LC_ALL'' ''C'')
       STRIPPED_GIT_ENV_VARS"

definition git_argv :: "git_call \<Rightarrow> string list" where
  "git_argv c = concat (map (\<lambda>p. [''-c'', p]) (gc_config c)) @ gc_args c"

text \<open>\<open>CappedCollector\<close>: the kept bytes.\<close>

definition git_collect :: "'b list \<Rightarrow> 'b list \<Rightarrow> 'b list" where
  "git_collect kept chunk =
     (if MAX_GIT_OUTPUT_BYTES - length kept = 0 then kept
      else kept @ take (MAX_GIT_OUTPUT_BYTES - length kept) chunk)"

text \<open>\<open>runGit\<close> once the child is spawned: the events of the child, the timer, the signal and the watchdog.\<close>

record 'b git_child =
  gp_stdout :: "'b list"
  gp_stderr :: "'b list"
  gp_exited :: bool
  gp_killedByUs :: bool
  gp_timedOut :: bool
  gp_watchdog :: bool
  gp_settled :: "git_result option"

datatype 'b git_event =
    GitOut "'b list"
  | GitErr "'b list"
  | GitExits
  | GitCloses "int option"
  | GitFails string
  | GitTimer
  | GitAbort
  | GitWatchdog

definition git_spawned :: "'b git_child" where
  "git_spawned = \<lparr>gp_stdout = [], gp_stderr = [], gp_exited = False, gp_killedByUs = False, gp_timedOut = False,
     gp_watchdog = False, gp_settled = None\<rparr>"

definition git_settle :: "git_result \<Rightarrow> 'b git_child \<Rightarrow> 'b git_child" where
  "git_settle x p = (if gp_settled p \<noteq> None then p else p\<lparr>gp_settled := Some x, gp_watchdog := False\<rparr>)"

definition git_kill :: "bool \<Rightarrow> 'b git_child \<Rightarrow> 'b git_child" where
  "git_kill dueToTimeout p =
     (if gp_settled p \<noteq> None \<or> gp_killedByUs p then p
      else if gp_exited p then p
      else p\<lparr>gp_killedByUs := True, gp_timedOut := dueToTimeout, gp_watchdog := True\<rparr>)"

definition git_captured :: "('b list \<Rightarrow> string) \<Rightarrow> int option \<Rightarrow> 'b git_child \<Rightarrow> git_result" where
  "git_captured conv code p =
     \<lparr>gr_code = code, gr_stdout = conv (gp_stdout p), gr_stderr = conv (gp_stderr p), gr_timedOut = gp_timedOut p,
      gr_spawnError = None\<rparr>"

fun git_step :: "('b list \<Rightarrow> string) \<Rightarrow> 'b git_event \<Rightarrow> 'b git_child \<Rightarrow> 'b git_child" where
  "git_step conv (GitOut bs) p = p\<lparr>gp_stdout := git_collect (gp_stdout p) bs\<rparr>"
| "git_step conv (GitErr bs) p = p\<lparr>gp_stderr := git_collect (gp_stderr p) bs\<rparr>"
| "git_step conv GitExits p = p\<lparr>gp_exited := True\<rparr>"
| "git_step conv (GitCloses code) p =
     git_settle (git_captured conv (if gp_killedByUs p then None else code) p) (p\<lparr>gp_exited := True\<rparr>)"
| "git_step conv (GitFails msg) p =
     git_settle \<lparr>gr_code = None, gr_stdout = [], gr_stderr = [], gr_timedOut = False, gr_spawnError = Some msg\<rparr> p"
| "git_step conv GitTimer p = git_kill True p"
| "git_step conv GitAbort p = git_kill False p"
| "git_step conv GitWatchdog p = (if gp_watchdog p then git_settle (git_captured conv None p) p else p)"

definition run_git :: "('b list \<Rightarrow> string) \<Rightarrow> 'b git_event list \<Rightarrow> git_result option" where
  "run_git conv evs = gp_settled (fold (git_step conv) evs git_spawned)"

section \<open>What git prints\<close>

text \<open>\<open>/^([0-9a-f]{40})\s+(\S+)/\<close> on a trimmed line: the hash and the ref.\<close>

definition match_head :: "string \<Rightarrow> (string \<times> string) option" where
  "match_head line =
     (let rest = dropWhile is_js_space (drop 40 line); ref = takeWhile (\<lambda>c. \<not> is_js_space c) rest
      in if lower_hex 40 (take 40 line) \<and> length rest < length (drop 40 line) \<and> ref \<noteq> []
         then Some (take 40 line, ref) else None)"

fun collect_heads :: "string list \<Rightarrow> (string, string) jmap \<Rightarrow> (string, string) jmap" where
  "collect_heads [] m = m"
| "collect_heads (l # ls) m =
     collect_heads ls (case match_head (trim_text l) of None \<Rightarrow> m | Some (sha, ref) \<Rightarrow> jmap_set m ref sha)"

definition parse_heads :: "git_result \<Rightarrow> (string, string) jmap" where
  "parse_heads r = (if \<not> git_ok r then [] else collect_heads (split_on (CHR 0x0A) (gr_stdout r)) [])"

text \<open>\<open>/^(\S+):\s+(\d+)/\<close>: the colon that a blank follows is the last character of the first run.\<close>

definition match_count :: "string \<Rightarrow> (string \<times> int) option" where
  "match_count line =
     (let key = takeWhile (\<lambda>c. \<not> is_js_space c) line; rest = drop (length key) line;
          digits = takeWhile is_digit (dropWhile is_js_space rest)
      in if 2 \<le> length key \<and> last key = CHR '':'' \<and> rest \<noteq> [] \<and> digits \<noteq> []
         then Some (butlast key, int (nat_of_text digits)) else None)"

record object_counts =
  oc_count :: int
  oc_sizeKiB :: int
  oc_inPack :: int
  oc_sizePackKiB :: int

fun collect_counts :: "string list \<Rightarrow> (string, int) jmap \<Rightarrow> (string, int) jmap" where
  "collect_counts [] m = m"
| "collect_counts (l # ls) m =
     collect_counts ls (case match_count (trim_text l) of None \<Rightarrow> m | Some (k, n) \<Rightarrow> jmap_set m k n)"

definition or_zero :: "int option \<Rightarrow> int" where
  "or_zero x = (case x of None \<Rightarrow> 0 | Some n \<Rightarrow> n)"

definition parse_counts :: "git_result \<Rightarrow> object_counts" where
  "parse_counts r =
     (let fields = (if git_ok r then collect_counts (split_on (CHR 0x0A) (gr_stdout r)) [] else [])
      in \<lparr>oc_count = or_zero (jmap_get fields ''count''), oc_sizeKiB = or_zero (jmap_get fields ''size''),
          oc_inPack = or_zero (jmap_get fields ''in-pack''), oc_sizePackKiB = or_zero (jmap_get fields ''size-pack'')\<rparr>)"

text \<open>The shortstat expression: a count is greedy digits, \<open>eat\<close> a literal, \<open>eat_plural\<close> an optional \<open>s\<close>.\<close>

definition eat :: "string \<Rightarrow> string \<Rightarrow> string option" where
  "eat lit s = (if take (length lit) s = lit then Some (drop (length lit) s) else None)"

definition eat_plural :: "string \<Rightarrow> string" where
  "eat_plural s = (case s of c # cs \<Rightarrow> if c = CHR ''s'' then cs else s | [] \<Rightarrow> [])"

definition eat_count :: "string \<Rightarrow> (int \<times> string) option" where
  "eat_count s = (if takeWhile is_digit s = [] then None
     else Some (int (nat_of_text (takeWhile is_digit s)), dropWhile is_digit s))"

definition eat_part :: "string \<Rightarrow> string \<Rightarrow> string \<Rightarrow> (int \<times> string) option" where
  "eat_part word sign s =
     Option.bind (eat '', '' s) (\<lambda>s1. Option.bind (eat_count s1) (\<lambda>(n, s2).
       Option.bind (eat ('' '' @ word) s2) (\<lambda>s3. Option.bind (eat (''('' @ sign @ '')'') (eat_plural s3)) (\<lambda>s4. Some (n, s4)))))"

definition optional_part :: "string \<Rightarrow> string \<Rightarrow> string \<Rightarrow> int \<times> string" where
  "optional_part word sign s = (case eat_part word sign s of None \<Rightarrow> (0, s) | Some p \<Rightarrow> p)"

definition shortstat_at :: "string \<Rightarrow> diff_stat option" where
  "shortstat_at s =
     Option.bind (eat_count s) (\<lambda>(f, s1). Option.bind (eat '' file'' s1) (\<lambda>s2.
       Option.bind (eat '' changed'' (eat_plural s2)) (\<lambda>s3.
         let (i, s4) = optional_part ''insertion'' ''+'' s3; (d, s5) = optional_part ''deletion'' ''-'' s4
         in Some \<lparr>filesChanged = f, insertions = i, deletions = d\<rparr>)))"

text \<open>\<open>exec\<close> tries each position from the left.\<close>

fun shortstat_search :: "string \<Rightarrow> diff_stat option" where
  "shortstat_search [] = shortstat_at []"
| "shortstat_search (c # cs) = (case shortstat_at (c # cs) of None \<Rightarrow> shortstat_search cs | Some d \<Rightarrow> Some d)"

definition parse_shortstat :: "string \<Rightarrow> diff_stat" where
  "parse_shortstat s = (case shortstat_search s of
     None \<Rightarrow> \<lparr>filesChanged = 0, insertions = 0, deletions = 0\<rparr> | Some d \<Rightarrow> d)"

definition parse_hash :: "git_result \<Rightarrow> string option" where
  "parse_hash r = (if git_ok r \<and> commit_hash_ok (trim_text (gr_stdout r)) then Some (trim_text (gr_stdout r)) else None)"

definition parse_refs :: "git_result \<Rightarrow> string list" where
  "parse_refs r = (if \<not> git_ok r then []
     else filter (\<lambda>l. l \<noteq> []) (map trim_text (split_on (CHR 0x0A) (gr_stdout r))))"

section \<open>The delegating side's commands\<close>

text \<open>A helper answers \<open>Inl\<close> the message of the \<open>GitError\<close> it throws. \<open>git\<close> answers a call and moves the repositories.\<close>

definition at_path :: "string \<Rightarrow> int \<Rightarrow> string list \<Rightarrow> git_call" where
  "at_path repoPath timeoutMs args = \<lparr>gc_args = args, gc_cwd = Some repoPath, gc_config = [], gc_timeoutMs = timeoutMs\<rparr>"

definition resolve_head_commit :: "'s git \<Rightarrow> string \<Rightarrow> int \<Rightarrow> 's \<Rightarrow> (string + string) \<times> 's" where
  "resolve_head_commit git repoPath timeoutMs s =
     (let (r, s1) = git (at_path repoPath timeoutMs [''rev-parse'', ''HEAD'']) s
      in if \<not> git_ok r then (Inl (''could not resolve HEAD of '' @ repoPath @ '': '' @ describe_git_failure r), s1)
         else if \<not> commit_hash_ok (trim_text (gr_stdout r))
         then (Inl (''rev-parse HEAD returned an unexpected value: '' @ trim_text (gr_stdout r)), s1)
         else (Inr (trim_text (gr_stdout r)), s1))"

definition is_ancestor :: "'s git \<Rightarrow> string \<Rightarrow> string \<Rightarrow> string \<Rightarrow> int \<Rightarrow> 's \<Rightarrow> bool \<times> 's" where
  "is_ancestor git repoPath ancestor descendant timeoutMs s =
     (if \<not> commit_hash_ok ancestor \<or> \<not> commit_hash_ok descendant then (False, s)
      else let (r, s1) = git (at_path repoPath timeoutMs [''merge-base'', ''--is-ancestor'', ancestor, descendant]) s
           in (gr_code r = Some 0, s1))"

definition create_bundle ::
    "'s git \<Rightarrow> string \<Rightarrow> string \<Rightarrow> string option \<Rightarrow> int \<Rightarrow> 's \<Rightarrow> (string + unit) \<times> 's" where
  "create_bundle git repoPath bundlePath have1 timeoutMs s =
     (if \<not> pred_option commit_hash_ok have1
      then (Inl (''invalid 'have' commit: '' @ (case have1 of None \<Rightarrow> [] | Some h \<Rightarrow> h)), s)
      else let (r, s1) = git (at_path repoPath timeoutMs ([''bundle'', ''create'', bundlePath, ''HEAD''] @
                 (case have1 of None \<Rightarrow> [] | Some h \<Rightarrow> [''--not'', h]))) s
           in if git_ok r then (Inr (), s1) else (Inl (''git bundle create failed: '' @ describe_git_failure r), s1))"

section \<open>The worker's commands\<close>

record worker_git =
  wg_repoDir :: string
  wg_hooksPath :: string
  wg_timeoutMs :: int

definition delegator_config :: "string \<Rightarrow> string list" where
  "delegator_config hooksPath = [''core.hooksPath='' @ hooksPath, ''protocol.ext.allow=never'',
     ''fetch.recurseSubmodules=false'', ''core.longpaths=true'']"

definition worker_config :: "worker_git \<Rightarrow> string list" where
  "worker_config w = delegator_config (wg_hooksPath w)"

definition worker_call :: "worker_git \<Rightarrow> string \<Rightarrow> string list \<Rightarrow> git_call" where
  "worker_call w cwd args =
     \<lparr>gc_args = args, gc_cwd = Some cwd, gc_config = worker_config w, gc_timeoutMs = wg_timeoutMs w\<rparr>"

definition verify_bundle_detailed :: "'s git \<Rightarrow> worker_git \<Rightarrow> string \<Rightarrow> 's \<Rightarrow> git_result \<times> 's" where
  "verify_bundle_detailed git w bundlePath =
     git (worker_call w (wg_repoDir w) [''bundle'', ''verify'', ''--end-of-options'', bundlePath])"

definition verify_bundle :: "'s git \<Rightarrow> worker_git \<Rightarrow> string \<Rightarrow> 's \<Rightarrow> bool \<times> 's" where
  "verify_bundle git w bundlePath s = apfst git_ok (verify_bundle_detailed git w bundlePath s)"

definition list_bundle_heads_detailed ::
    "'s git \<Rightarrow> worker_git \<Rightarrow> string \<Rightarrow> 's \<Rightarrow> (git_result \<times> (string, string) jmap) \<times> 's" where
  "list_bundle_heads_detailed git w bundlePath s =
     apfst (\<lambda>r. (r, parse_heads r))
       (git (worker_call w (wg_repoDir w) [''bundle'', ''list-heads'', ''--end-of-options'', bundlePath]) s)"

definition list_bundle_heads :: "'s git \<Rightarrow> worker_git \<Rightarrow> string \<Rightarrow> 's \<Rightarrow> (string, string) jmap \<times> 's" where
  "list_bundle_heads git w bundlePath s = apfst snd (list_bundle_heads_detailed git w bundlePath s)"

definition git_gc :: "'s git \<Rightarrow> worker_git \<Rightarrow> 's \<Rightarrow> git_result \<times> 's" where
  "git_gc git w = git (worker_call w (wg_repoDir w) [''gc'', ''--prune=now'', ''--quiet''])"

definition count_objects :: "'s git \<Rightarrow> worker_git \<Rightarrow> 's \<Rightarrow> object_counts \<times> 's" where
  "count_objects git w s = apfst parse_counts (git (worker_call w (wg_repoDir w) [''count-objects'', ''-v'']) s)"

definition fetch_bundle_head :: "'s git \<Rightarrow> worker_git \<Rightarrow> string \<Rightarrow> string \<Rightarrow> 's \<Rightarrow> git_result \<times> 's" where
  "fetch_bundle_head git w bundlePath intoRef =
     git (worker_call w (wg_repoDir w) [''fetch'', ''--quiet'', bundlePath, ''+HEAD:'' @ intoRef])"

definition rev_parse :: "'s git \<Rightarrow> worker_git \<Rightarrow> string \<Rightarrow> 's \<Rightarrow> string option \<times> 's" where
  "rev_parse git w rev1 s =
     apfst parse_hash (git (worker_call w (wg_repoDir w) [''rev-parse'', ''--verify'', ''--quiet'', rev1]) s)"

definition worktree_head :: "'s git \<Rightarrow> worker_git \<Rightarrow> string \<Rightarrow> 's \<Rightarrow> string option \<times> 's" where
  "worktree_head git w checkoutDir s =
     apfst parse_hash (git (worker_call w checkoutDir [''rev-parse'', ''--verify'', ''--quiet'', ''HEAD'']) s)"

definition commit_present :: "'s git \<Rightarrow> worker_git \<Rightarrow> string \<Rightarrow> 's \<Rightarrow> bool \<times> 's" where
  "commit_present git w commit s =
     (if \<not> commit_hash_ok commit then (False, s)
      else apfst git_ok (git (worker_call w (wg_repoDir w) [''cat-file'', ''-e'', commit @ ''^{commit}'']) s))"

definition update_ref :: "'s git \<Rightarrow> worker_git \<Rightarrow> string \<Rightarrow> string \<Rightarrow> 's \<Rightarrow> git_result \<times> 's" where
  "update_ref git w ref commit = git (worker_call w (wg_repoDir w) [''update-ref'', ref, commit])"

definition list_refs :: "'s git \<Rightarrow> worker_git \<Rightarrow> string \<Rightarrow> 's \<Rightarrow> string list \<times> 's" where
  "list_refs git w pre s =
     apfst parse_refs (git (worker_call w (wg_repoDir w) [''for-each-ref'', ''--format=%(refname)'', pre]) s)"

definition delete_ref :: "'s git \<Rightarrow> worker_git \<Rightarrow> string \<Rightarrow> 's \<Rightarrow> 's" where
  "delete_ref git w ref s = snd (git (worker_call w (wg_repoDir w) [''update-ref'', ''-d'', ref]) s)"

record commit_options =
  co_message :: string
  co_authorName :: string
  co_authorEmail :: string

definition commit_call :: "worker_git \<Rightarrow> string \<Rightarrow> commit_options \<Rightarrow> string list \<Rightarrow> git_call" where
  "commit_call w worktreeDir opt args =
     \<lparr>gc_args = args, gc_cwd = Some worktreeDir,
      gc_config = worker_config w @ [''user.name='' @ co_authorName opt, ''user.email='' @ co_authorEmail opt,
        ''commit.gpgsign=false''],
      gc_timeoutMs = wg_timeoutMs w\<rparr>"

definition commit_all_in_worktree ::
    "'s git \<Rightarrow> worker_git \<Rightarrow> string \<Rightarrow> commit_options \<Rightarrow> 's \<Rightarrow> (string + string option) \<times> 's" where
  "commit_all_in_worktree git w worktreeDir opt s =
     (let (added, s1) = git (commit_call w worktreeDir opt [''add'', ''-A'']) s
      in if \<not> git_ok added then (Inl (''git add -A failed: '' @ describe_git_failure added), s1)
      else let (staged, s2) = git (commit_call w worktreeDir opt [''diff'', ''--cached'', ''--quiet'']) s1
      in if gr_code staged = Some 0 then (Inr None, s2)
      else if gr_code staged \<noteq> Some 1 then (Inl (''git diff --cached failed: '' @ describe_git_failure staged), s2)
      else let (committed, s3) = git (commit_call w worktreeDir opt [''commit'', ''--quiet'', ''-m'', co_message opt]) s2
      in if \<not> git_ok committed then (Inl (''git commit failed: '' @ describe_git_failure committed), s3)
      else let (head, s4) = git (commit_call w worktreeDir opt [''rev-parse'', ''--verify'', ''--quiet'', ''HEAD'']) s3
      in case parse_hash head of
           None \<Rightarrow> (Inl (''could not read the committed head: '' @ describe_git_failure head), s4)
         | Some h \<Rightarrow> (Inr (Some h), s4))"

definition diff_stat_of :: "'s git \<Rightarrow> worker_git \<Rightarrow> string \<Rightarrow> string \<Rightarrow> string \<Rightarrow> 's \<Rightarrow> (string + diff_stat) \<times> 's" where
  "diff_stat_of git w cwd base head s =
     (let (r, s1) = git (worker_call w cwd [''diff'', ''--shortstat'', ''--find-renames'', base, head]) s
      in if \<not> git_ok r then (Inl (''git diff --shortstat failed: '' @ describe_git_failure r), s1)
         else (Inr (parse_shortstat (gr_stdout r)), s1))"

definition create_worker_bundle ::
    "'s git \<Rightarrow> worker_git \<Rightarrow> string \<Rightarrow> string \<Rightarrow> string \<Rightarrow> 's \<Rightarrow> (string + git_result) \<times> 's" where
  "create_worker_bundle git w bundlePath ref base s =
     (if \<not> commit_hash_ok base then (Inl (''invalid bundle base commit: '' @ base), s)
      else apfst Inr (git (worker_call w (wg_repoDir w) [''bundle'', ''create'', bundlePath, ref, ''--not'', base]) s))"

definition add_worktree :: "'s git \<Rightarrow> worker_git \<Rightarrow> string \<Rightarrow> string \<Rightarrow> 's \<Rightarrow> git_result \<times> 's" where
  "add_worktree git w checkoutDir commit =
     git (worker_call w (wg_repoDir w) [''worktree'', ''add'', ''--detach'', ''--force'', checkoutDir, commit])"

definition remove_worktree :: "'s git \<Rightarrow> worker_git \<Rightarrow> string \<Rightarrow> 's \<Rightarrow> 's" where
  "remove_worktree git w checkoutDir s =
     (let s1 = snd (git (worker_call w (wg_repoDir w) [''worktree'', ''remove'', ''--force'', checkoutDir]) s)
      in snd (git (worker_call w (wg_repoDir w) [''worktree'', ''prune'']) s1))"

definition init_bare_repo :: "'s git \<Rightarrow> string \<Rightarrow> int \<Rightarrow> 's \<Rightarrow> (string + unit) \<times> 's" where
  "init_bare_repo git repoDir timeoutMs s =
     (let (r, s1) = git \<lparr>gc_args = [''init'', ''--quiet'', ''--bare'', repoDir], gc_cwd = None, gc_config = [],
            gc_timeoutMs = timeoutMs\<rparr> s
      in if git_ok r then (Inr (), s1)
         else (Inl (''could not init bare repo at '' @ repoDir @ '': '' @ describe_git_failure r), s1))"

section \<open>Facts\<close>

lemma trim_text_solid:
  "list_all (\<lambda>c. \<not> is_js_space c) s \<Longrightarrow> trim_text s = s"
proof -
  assume "list_all (\<lambda>c. \<not> is_js_space c) s"
  then have "dropWhile is_js_space xs = xs" if "set xs \<subseteq> set s" for xs
    using that by (cases xs) (auto simp: list_all_iff)
  then show ?thesis by (simp add: trim_text_def)
qed

lemma hash_solid: "commit_hash_ok h \<Longrightarrow> list_all (\<lambda>c. \<not> is_js_space c) h"
  by (auto simp: commit_hash_ok_def lower_hex_def list_all_iff is_lower_hex_def is_digit_def is_js_space_def)

lemma parse_hash_ok: "parse_hash r = Some h \<Longrightarrow> commit_hash_ok h \<and> git_ok r"
  by (auto simp: parse_hash_def split: if_splits)

lemma rev_parse_ok: "rev_parse git w rev1 s = (Some h, s') \<Longrightarrow> commit_hash_ok h"
  by (auto simp: rev_parse_def apfst_def map_prod_def split: prod.splits dest: parse_hash_ok)

lemma trim_text_ends:
  "\<not> is_js_space a \<Longrightarrow> \<not> is_js_space b \<Longrightarrow> trim_text (a # xs @ [b]) = a # xs @ [b]"
  by (simp add: trim_text_def)

text \<open>\<open>git bundle list-heads\<close> prints a line per ref, the hash, a space, the ref.\<close>

definition head_line :: "string \<times> string \<Rightarrow> string" where
  "head_line p = snd p @ CHR '' '' # fst p"

definition ref_text_ok :: "string \<Rightarrow> bool" where
  "ref_text_ok r = (r \<noteq> [] \<and> list_all (\<lambda>c. \<not> is_js_space c) r)"

lemma trim_line:
  assumes "ref_text_ok x" "ref_text_ok y" shows "trim_text (x @ CHR '' '' # y) = x @ CHR '' '' # y"
proof -
  from assms obtain a xs where x: "x = a # xs" "\<not> is_js_space a" by (cases x) (auto simp: ref_text_ok_def)
  from assms obtain b ys where y: "y = ys @ [b]" "\<not> is_js_space b" by (cases y rule: rev_cases) (auto simp: ref_text_ok_def)
  show ?thesis using trim_text_ends [of a b "xs @ CHR '' '' # ys"] x y by simp
qed

lemma match_head_line:
  assumes "commit_hash_ok sha" "ref_text_ok ref"
  shows "match_head (trim_text (head_line (ref, sha))) = Some (sha, ref)"
proof -
  have s: "ref_text_ok sha" using assms(1) hash_solid [OF assms(1)]
    by (auto simp: ref_text_ok_def commit_hash_ok_def lower_hex_def)
  have len: "length sha = 40" "lower_hex 40 sha" using assms(1) by (simp_all add: commit_hash_ok_def lower_hex_def)
  from assms(2) obtain c cs where r: "ref = c # cs" "\<not> is_js_space c" by (cases ref) (auto simp: ref_text_ok_def)
  have t: "takeWhile (\<lambda>c. \<not> is_js_space c) ref = ref"
    using assms(2) by (simp add: ref_text_ok_def list_all_iff takeWhile_eq_all_conv)
  have "is_js_space (CHR '' '')" by (simp add: is_js_space_def)
  then show ?thesis using len t r trim_line [OF s assms(2)]
    by (simp add: match_head_def head_line_def)
qed

lemma parse_heads_listing:
  assumes "list_all (\<lambda>(ref, sha). ref_text_ok ref \<and> commit_hash_ok sha) hs" "git_ok r"
    "gr_stdout r = concat (map (\<lambda>p. head_line p @ [CHR 0x0A]) hs)"
  shows "parse_heads r = foldl (\<lambda>m (ref, sha). jmap_set m ref sha) [] hs"
proof -
  have nl: "CHR 0x0A \<notin> set (head_line (ref, sha))" if "ref_text_ok ref" "commit_hash_ok sha" for ref sha
  proof -
    have "is_js_space (CHR 0x0A)" by (simp add: is_js_space_def)
    moreover have "\<forall>c\<in>set sha. \<not> is_js_space c" using hash_solid [OF that(2)] by (simp add: list_all_iff)
    ultimately show ?thesis using that(1) by (auto simp: head_line_def ref_text_ok_def list_all_iff)
  qed
  have "collect_heads (split_on (CHR 0x0A) (concat (map (\<lambda>p. head_line p @ [CHR 0x0A]) hs))) m =
      foldl (\<lambda>m (ref, sha). jmap_set m ref sha) m hs" for m
    using assms(1)
  proof (induction hs arbitrary: m)
    case Nil
    show ?case by (simp add: trim_text_def match_head_def lower_hex_def)
  next
    case (Cons h hs)
    obtain ref sha where h: "h = (ref, sha)" by (cases h)
    then have ok: "ref_text_ok ref" "commit_hash_ok sha" using Cons.prems by simp_all
    have "split_on (CHR 0x0A) (head_line h @ CHR 0x0A # concat (map (\<lambda>p. head_line p @ [CHR 0x0A]) hs)) =
        head_line h # split_on (CHR 0x0A) (concat (map (\<lambda>p. head_line p @ [CHR 0x0A]) hs))"
      using nl [OF ok] h by (simp add: split_on_append)
    then show ?case using Cons match_head_line [OF ok(2,1)] by (simp add: h)
  qed
  then show ?thesis using assms(2,3) by (simp add: parse_heads_def)
qed

text \<open>What \<open>git diff --shortstat\<close> prints.\<close>

definition plural :: "nat \<Rightarrow> string \<Rightarrow> string" where
  "plural n word = word @ (if n = 1 then [] else ''s'')"

definition shortstat_part :: "nat \<Rightarrow> string \<Rightarrow> string \<Rightarrow> string" where
  "shortstat_part n word sign = '', '' @ show_nat n @ '' '' @ plural n word @ ''('' @ sign @ '')''"

definition shortstat_text :: "nat \<Rightarrow> nat option \<Rightarrow> nat option \<Rightarrow> string" where
  "shortstat_text f i d = '' '' @ show_nat f @ '' '' @ plural f ''file'' @ '' changed'' @
     (case i of None \<Rightarrow> [] | Some n \<Rightarrow> shortstat_part n ''insertion'' ''+'') @
     (case d of None \<Rightarrow> [] | Some n \<Rightarrow> shortstat_part n ''deletion'' ''-'') @ [CHR 0x0A]"

lemma eat_append [simp]: "eat lit (lit @ s) = Some s"
  by (simp add: eat_def)

lemma eat_count_nat:
  assumes "c = CHR '' ''" shows "eat_count (show_nat n @ c # s) = Some (int n, c # s)"
proof -
  have "list_all is_digit (show_nat n)" by (rule show_nat_digits)
  moreover have "\<not> is_digit c" by (simp add: assms is_digit_def)
  ultimately have "takeWhile is_digit (show_nat n @ c # s) = show_nat n" "dropWhile is_digit (show_nat n @ c # s) = c # s"
    by (simp_all add: list_all_iff takeWhile_append2 dropWhile_append2)
  then show ?thesis by (simp add: eat_count_def)
qed

lemma eat_part_text:
  assumes "sign \<noteq> []" shows "eat_part word sign (shortstat_part n word sign @ s) = Some (int n, s)"
proof -
  have p: "eat_plural ((if n = 1 then [] else ''s'') @ ''('' @ sign @ '')'' @ s) = ''('' @ sign @ '')'' @ s"
    by (simp add: eat_plural_def)
  have "eat_part word sign (shortstat_part n word sign @ s) =
      eat_part word sign ('', '' @ show_nat n @ CHR '' '' # word @ (if n = 1 then [] else ''s'') @ ''('' @ sign @ '')'' @ s)"
    by (simp add: shortstat_part_def plural_def)
  also have "\<dots> = Some (int n, s)"
    using p eat_append [of "'', ''"] eat_append [of "'' '' @ word"] eat_append [of "''('' @ sign @ '')''" s]
    by (simp add: eat_part_def eat_count_nat)
  finally show ?thesis .
qed

lemma optional_part_text:
  "sign \<noteq> [] \<Longrightarrow> optional_part word sign (shortstat_part n word sign @ s) = (int n, s)"
  by (simp add: optional_part_def eat_part_text)

lemma shortstat_reads:
  "parse_shortstat (shortstat_text f i d) =
     \<lparr>filesChanged = int f, insertions = (case i of None \<Rightarrow> 0 | Some n \<Rightarrow> int n),
      deletions = (case d of None \<Rightarrow> 0 | Some n \<Rightarrow> int n)\<rparr>"
proof -
  define tail1 where "tail1 = (case d of None \<Rightarrow> [] | Some n \<Rightarrow> shortstat_part n ''deletion'' ''-'') @ [CHR 0x0A]"
  define tail2 where "tail2 = (case i of None \<Rightarrow> [] | Some n \<Rightarrow> shortstat_part n ''insertion'' ''+'') @ tail1"
  have none: "optional_part w x [CHR 0x0A] = (0, [CHR 0x0A])" for w x
    by (simp add: optional_part_def eat_part_def eat_def)
  have d1: "fst (optional_part ''deletion'' ''-'' tail1) = (case d of None \<Rightarrow> 0 | Some n \<Rightarrow> int n)"
    using none by (cases d) (simp_all add: tail1_def optional_part_text)
  have skip: "optional_part ''insertion'' ''+'' tail1 = (0, tail1)"
  proof (cases d)
    case None
    then show ?thesis using none by (simp add: tail1_def)
  next
    case (Some n)
    have "tail1 = '', '' @ show_nat n @ CHR '' '' # ''deletion'' @ (if n = 1 then [] else ''s'') @ ''(-)'' @ [CHR 0x0A]"
      using Some by (simp add: tail1_def shortstat_part_def plural_def)
    then show ?thesis by (simp add: optional_part_def eat_part_def eat_def eat_count_nat [unfolded eat_def])
  qed
  have i1: "optional_part ''insertion'' ''+'' tail2 = ((case i of None \<Rightarrow> 0 | Some n \<Rightarrow> int n), tail1)"
    using skip by (cases i) (simp_all add: tail2_def optional_part_text)
  have txt1: "shortstat_text f i d = CHR '' '' # show_nat f @ CHR '' '' # (''file'' @ (if f = 1 then [] else ''s'') @ '' changed'' @ tail2)"
    by (simp add: shortstat_text_def plural_def tail1_def tail2_def)
  have pl: "eat_plural ((if f = 1 then [] else ''s'') @ '' changed'' @ tail2) = '' changed'' @ tail2"
    by (simp add: eat_plural_def)
  have at: "shortstat_at (show_nat f @ CHR '' '' # (''file'' @ (if f = 1 then [] else ''s'') @ '' changed'' @ tail2)) =
      Some \<lparr>filesChanged = int f, insertions = (case i of None \<Rightarrow> 0 | Some n \<Rightarrow> int n),
        deletions = (case d of None \<Rightarrow> 0 | Some n \<Rightarrow> int n)\<rparr>"
    using pl d1 i1 eat_append [of "'' file''"] eat_append [of "'' changed''" tail2]
    by (cases "optional_part ''deletion'' ''-'' tail1") (simp add: shortstat_at_def eat_count_nat)
  have no: "shortstat_at (CHR '' '' # s) = None" for s
    by (simp add: shortstat_at_def eat_count_def is_digit_def)
  obtain c cs where c: "show_nat f = c # cs" by (cases "show_nat f") auto
  show ?thesis unfolding parse_shortstat_def txt1 shortstat_search.simps no using at c by simp
qed

section \<open>Running a command\<close>

text \<open>What the child and its killer make of a run: bounded text, and no exit code once we killed it.\<close>

definition git_inv :: "'b git_child \<Rightarrow> bool" where
  "git_inv p = (length (gp_stdout p) \<le> MAX_GIT_OUTPUT_BYTES \<and> length (gp_stderr p) \<le> MAX_GIT_OUTPUT_BYTES \<and>
     (gp_timedOut p \<longrightarrow> gp_killedByUs p) \<and> (gp_watchdog p \<longrightarrow> gp_killedByUs p \<and> gp_settled p = None) \<and>
     (gp_killedByUs p \<and> gp_settled p = None \<longrightarrow> gp_watchdog p) \<and>
     (case gp_settled p of None \<Rightarrow> True
      | Some r \<Rightarrow> (gp_killedByUs p \<longrightarrow> gr_code r = None) \<and> (gr_timedOut r \<longrightarrow> gr_code r = None) \<and>
          (gr_spawnError r \<noteq> None \<longrightarrow> gr_code r = None)))"

lemma git_collect_le: "length kept \<le> MAX_GIT_OUTPUT_BYTES \<Longrightarrow> length (git_collect kept chunk) \<le> MAX_GIT_OUTPUT_BYTES"
  by (auto simp: git_collect_def)

lemma git_step_inv: "git_inv p \<Longrightarrow> git_inv (git_step conv e p)"
  by (cases e; cases "gp_settled p")
     (auto simp: git_inv_def git_settle_def git_kill_def git_captured_def git_collect_le)

lemma git_settled_stays: "gp_settled p = Some r \<Longrightarrow> gp_settled (fold (git_step conv) evs p) = Some r"
proof (induction evs arbitrary: p)
  case (Cons e evs)
  have "gp_settled (git_step conv e p) = Some r" using Cons.prems
    by (cases e) (auto simp: git_settle_def git_kill_def)
  then show ?case using Cons.IH by simp
qed simp

lemma git_run_inv: "git_inv p \<Longrightarrow> git_inv (fold (git_step conv) evs p)"
  by (induction evs arbitrary: p) (auto intro: git_step_inv)

lemma git_spawned_inv: "git_inv git_spawned"
  by (simp add: git_inv_def git_spawned_def)

text \<open>A git that we kill never reports a verdict: whatever it printed and however it ends, once the timer or the
  signal has killed a running child, the call settles at the latest when the watchdog fires, its exit code is null,
  and no later event changes it; and no run keeps more than the cap of either stream.\<close>

theorem killed_git_has_no_verdict:
  assumes "gp_settled (fold (git_step conv) evs git_spawned) = None" "\<not> gp_exited (fold (git_step conv) evs git_spawned)"
    "e = GitTimer \<or> e = GitAbort" "GitWatchdog \<in> set later"
  shows "\<exists>r. run_git conv (evs @ e # later) = Some r \<and> \<not> git_ok r"
proof -
  let ?p = "fold (git_step conv) evs git_spawned"
  let ?q = "git_step conv e ?p"
  have ip: "git_inv ?p" by (rule git_run_inv [OF git_spawned_inv])
  then have iq: "git_inv ?q" by (rule git_step_inv)
  have kq: "gp_killedByUs ?q"
    using assms(1-3) by (auto simp: git_kill_def)
  have keep: "gp_killedByUs (fold (git_step conv) xs p)" if "gp_killedByUs p" for xs and p :: "'a git_child"
    using that
  proof (induction xs arbitrary: p)
    case (Cons x xs)
    have "gp_killedByUs (git_step conv x p)" using Cons.prems
      by (cases x) (auto simp: git_settle_def git_kill_def)
    then show ?case using Cons.IH by simp
  qed simp
  obtain as bs where l: "later = as @ GitWatchdog # bs" using assms(4) by (meson split_list)
  let ?r = "fold (git_step conv) as ?q"
  have ir: "git_inv ?r" by (rule git_run_inv [OF iq])
  have kr: "gp_killedByUs ?r" by (rule keep [OF kq])
  let ?w = "git_step conv GitWatchdog ?r"
  have iw: "git_inv ?w" by (rule git_step_inv [OF ir])
  have kw: "gp_killedByUs ?w" using kr by (auto simp: git_settle_def)
  have "gp_settled ?w \<noteq> None"
  proof (cases "gp_settled ?r")
    case None
    then have "gp_watchdog ?r" using ir kr by (auto simp: git_inv_def)
    then show ?thesis using None by (simp add: git_settle_def)
  next
    case (Some x)
    then show ?thesis by (auto simp: git_settle_def)
  qed
  then obtain x where x: "gp_settled ?w = Some x" by blast
  then have "gr_code x = None" using iw kw by (auto simp: git_inv_def)
  moreover have "run_git conv (evs @ e # later) = Some x"
    using git_settled_stays [OF x, of conv bs] by (simp add: run_git_def l)
  ultimately show ?thesis by (auto simp: git_ok_def)
qed

theorem killed_git_has_no_verdict_witness:
  "\<exists>r. run_git (\<lambda>b :: char list. b) [GitOut ''partial'', GitTimer, GitCloses (Some 0), GitWatchdog] = Some r \<and> \<not> git_ok r"
  using killed_git_has_no_verdict [of "\<lambda>b :: char list. b" "[GitOut ''partial'']" GitTimer "[GitCloses (Some 0), GitWatchdog]"]
  by (simp add: git_spawned_def)

lemma jmap_get_deletes: "jmap_get (foldl jmap_delete m ks) k = (if k \<in> set ks then None else jmap_get m k)"
  by (induction ks arbitrary: m) auto

text \<open>The ambient environment cannot change what git does: the pinned variables have their values and no identity
  variable is left, whatever the daemon was started with.\<close>

lemma git_child_env_pins:
  "jmap_get (git_child_env tmpdir env) ''LC_ALL'' = Some ''C''"
  "jmap_get (git_child_env tmpdir env) ''GIT_TERMINAL_PROMPT'' = Some ''0''"
  "jmap_get (git_child_env tmpdir env) ''GIT_CONFIG_GLOBAL'' = Some (nonexistent_config tmpdir)"
  "jmap_get (git_child_env tmpdir env) ''GIT_CONFIG_SYSTEM'' = Some (nonexistent_config tmpdir)"
  unfolding git_child_env_def jmap_get_deletes STRIPPED_GIT_ENV_VARS_def by simp_all

lemma git_child_env_strips: "v \<in> set STRIPPED_GIT_ENV_VARS \<Longrightarrow> jmap_get (git_child_env tmpdir env) v = None"
  by (simp add: git_child_env_def jmap_get_deletes)

end
