(* ===== verification/Replies.thy ===== *)
theory Replies imports Wire begin

text \<open>
  \<^verbatim>\<open>packages/protocol/src\<close>: the schemas of what a peer answers, as decoders of JSON values. The instant of an ISO
  timestamp is an argument (\<open>instant\<close>): the text of \<open>z.iso.datetime()\<close> stands for its milliseconds.
\<close>

section \<open>Enumerations and errors\<close>

definition decode_enum :: "(string \<times> 'a) list \<Rightarrow> json \<Rightarrow> 'a option" where
  "decode_enum names j = do { s \<leftarrow> as_str j; map_of names s }"

fun as_bool :: "json \<Rightarrow> bool option" where
  "as_bool (JBool b) = Some b"
| "as_bool _ = None"

definition nullable :: "(json \<Rightarrow> 'a option) \<Rightarrow> json \<Rightarrow> 'a option option" where
  "nullable d j = (if j = JNull then Some None else map_option Some (d j))"

definition as_jtext :: "json \<Rightarrow> jtext option" where
  "as_jtext j = map_option jtext_of (as_str j)"

definition error_code_names :: "(string \<times> hfp_error_code) list" where
  "error_code_names = [(''UNAUTHORIZED'', UNAUTHORIZED), (''UNKNOWN_JOB'', UNKNOWN_JOB), (''NO_ARTIFACT'', NO_ARTIFACT),
     (''UNSUPPORTED_JOB_TYPE'', UNSUPPORTED_JOB_TYPE), (''WORKSPACE_UNAVAILABLE'', WORKSPACE_UNAVAILABLE),
     (''BUSY'', BUSY), (''INVALID_REQUEST'', INVALID_REQUEST), (''CANCELED'', CANCELED), (''TIMEOUT'', TIMEOUT),
     (''BUDGET_EXCEEDED'', BUDGET_EXCEEDED), (''COMMAND_NOT_ALLOWED'', COMMAND_NOT_ALLOWED),
     (''MODEL_NOT_OFFERED'', MODEL_NOT_OFFERED), (''NO_MODEL_SPECIFIED'', NO_MODEL_SPECIFIED),
     (''UPGRADE_DISABLED'', UPGRADE_DISABLED), (''UPGRADE_REJECTED'', UPGRADE_REJECTED),
     (''UPGRADE_BUSY'', UPGRADE_BUSY), (''INTERNAL'', INTERNAL)]"

definition error_code_name :: "hfp_error_code \<Rightarrow> string" where
  "error_code_name c = (case find (\<lambda>p. snd p = c) error_code_names of None \<Rightarrow> [] | Some p \<Rightarrow> fst p)"

definition decode_error :: "json \<Rightarrow> hfp_error option" where
  "decode_error j = do {
     kvs \<leftarrow> as_obj j;
     c \<leftarrow> req_key (decode_enum error_code_names) ''code'' kvs;
     m \<leftarrow> req_key as_str ''message'' kvs;
     d \<leftarrow> opt_key Some ''details'' kvs;
     Some \<lparr>err_code = c, err_message = m, err_details = d\<rparr>
   }"

section \<open>Job results and snapshots\<close>

definition status_names :: "(string \<times> job_status) list" where
  "status_names = [(''queued'', Queued), (''running'', Running), (''succeeded'', Succeeded), (''failed'', Failed),
     (''canceled'', Canceled)]"

definition type_names :: "(string \<times> job_type) list" where
  "type_names = [(''recon'', Recon), (''command'', Command), (''write'', Write)]"

definition decode_output :: "json \<Rightarrow> command_output option" where
  "decode_output j = do {
     kvs \<leftarrow> as_obj j;
     o1 \<leftarrow> req_key as_jtext ''stdout'' kvs;
     e \<leftarrow> req_key as_jtext ''stderr'' kvs;
     c \<leftarrow> req_key (nullable as_int) ''exitCode'' kvs;
     Some \<lparr>out_stdout = o1, out_stderr = e, out_exitCode = c\<rparr>
   }"

definition decode_stats :: "json \<Rightarrow> job_stats option" where
  "decode_stats j = do {
     kvs \<leftarrow> as_obj j;
     t \<leftarrow> req_key as_int ''toolCalls'' kvs;
     w \<leftarrow> req_key as_int ''wallMs'' kvs;
     p \<leftarrow> opt_key as_int ''promptTokens'' kvs;
     c \<leftarrow> opt_key as_int ''completionTokens'' kvs;
     checked job_stats_ok \<lparr>st_toolCalls = t, st_wallMs = w, st_promptTokens = p, st_completionTokens = c\<rparr>
   }"

definition decode_diff_stat :: "json \<Rightarrow> diff_stat option" where
  "decode_diff_stat j = do {
     kvs \<leftarrow> as_obj j;
     f \<leftarrow> req_key as_int ''filesChanged'' kvs;
     i \<leftarrow> req_key as_int ''insertions'' kvs;
     d \<leftarrow> req_key as_int ''deletions'' kvs;
     Some \<lparr>filesChanged = f, insertions = i, deletions = d\<rparr>
   }"

definition decode_artifact :: "json \<Rightarrow> write_artifact option" where
  "decode_artifact j = do {
     kvs \<leftarrow> as_obj j;
     b \<leftarrow> req_key as_str ''branchName'' kvs;
     base \<leftarrow> req_key as_str ''baseCommit'' kvs;
     h \<leftarrow> req_key as_str ''headCommit'' kvs;
     d \<leftarrow> req_key decode_diff_stat ''diffStat'' kvs;
     m \<leftarrow> req_key as_jtext ''commitMessage'' kvs;
     checked write_artifact_ok \<lparr>art_branchName = b, art_baseCommit = base, art_headCommit = h, art_diffStat = d,
       art_commitMessage = m\<rparr>
   }"

definition decode_verify_report :: "json \<Rightarrow> verify_report option" where
  "decode_verify_report j = do {
     kvs \<leftarrow> as_obj j;
     n \<leftarrow> req_key as_str ''name'' kvs;
     a \<leftarrow> req_key (as_list as_str) ''args'' kvs;
     c \<leftarrow> req_key (nullable as_int) ''exitCode'' kvs;
     t \<leftarrow> req_key as_jtext ''outputTail'' kvs;
     Some \<lparr>vr_name = n, vr_args = a, vr_exitCode = c, vr_outputTail = t\<rparr>
   }"

definition decode_result :: "json \<Rightarrow> job_result option" where
  "decode_result j = do {
     kvs \<leftarrow> as_obj j;
     i \<leftarrow> req_key as_str ''jobId'' kvs;
     ty \<leftarrow> req_key (decode_enum type_names) ''type'' kvs;
     s \<leftarrow> req_key (decode_enum status_names) ''status'' kvs;
     m \<leftarrow> opt_key as_jtext ''summary'' kvs;
     o1 \<leftarrow> opt_key decode_output ''output'' kvs;
     st \<leftarrow> req_key decode_stats ''stats'' kvs;
     e \<leftarrow> opt_key decode_error ''error'' kvs;
     a \<leftarrow> opt_key (nullable decode_artifact) ''artifact'' kvs;
     v \<leftarrow> opt_key decode_verify_report ''verify'' kvs;
     checked job_result_ok \<lparr>res_jobId = i, res_type = ty, res_status = s, res_summary = m, res_output = o1,
       res_stats = st, res_error = e, res_artifact = a, res_verify = v\<rparr>
   }"

definition decode_snapshot :: "json \<Rightarrow> job_snapshot option" where
  "decode_snapshot j = do {
     kvs \<leftarrow> as_obj j;
     i \<leftarrow> req_key as_str ''jobId'' kvs;
     s \<leftarrow> req_key (decode_enum status_names) ''status'' kvs;
     r \<leftarrow> opt_key decode_result ''result'' kvs;
     checked job_snapshot_ok \<lparr>snap_jobId = i, snap_status = s, snap_result = r\<rparr>
   }"

definition decode_cancel :: "json \<Rightarrow> (string \<times> job_status) option" where
  "decode_cancel j = do {
     kvs \<leftarrow> as_obj j;
     i \<leftarrow> req_key as_str ''jobId'' kvs;
     s \<leftarrow> req_key (decode_enum status_names) ''status'' kvs;
     checked (\<lambda>p. job_id_ok (fst p)) (i, s)
   }"

definition decode_delegated :: "json \<Rightarrow> string option" where
  "decode_delegated j = do { kvs \<leftarrow> as_obj j; i \<leftarrow> req_key as_str ''jobId'' kvs; checked job_id_ok i }"

definition as_commit :: "json \<Rightarrow> string option" where
  "as_commit j = do { s \<leftarrow> as_str j; checked commit_hash_ok s }"

definition decode_tip :: "json \<Rightarrow> string option option" where
  "decode_tip j = do { kvs \<leftarrow> as_obj j; req_key (nullable as_commit) ''headCommit'' kvs }"

definition decode_uploaded :: "json \<Rightarrow> string option" where
  "decode_uploaded j = do {
     kvs \<leftarrow> as_obj j;
     b \<leftarrow> req_key as_bool ''ok'' kvs;
     h \<leftarrow> req_key as_commit ''headCommit'' kvs;
     if b then Some h else None
   }"

section \<open>Node information\<close>

definition decode_gpu :: "json \<Rightarrow> gpu_info option" where
  "decode_gpu j = do {
     kvs \<leftarrow> as_obj j;
     n \<leftarrow> req_key as_str ''name'' kvs;
     v \<leftarrow> opt_key as_int ''vramBytes'' kvs;
     Some \<lparr>gpu_name = n, gpu_vramBytes = v\<rparr>
   }"

definition decode_model :: "json \<Rightarrow> model_info option" where
  "decode_model j = do {
     kvs \<leftarrow> as_obj j;
     i \<leftarrow> req_key as_str ''id'' kvs;
     l \<leftarrow> opt_key as_str ''label'' kvs;
     w \<leftarrow> opt_key as_int ''contextWindow'' kvs;
     s \<leftarrow> opt_key (decode_enum [(''ok'', ModelOk), (''not_served'', NotServed), (''unreachable'', Unreachable)]) ''status'' kvs;
     Some \<lparr>mi_id = i, mi_label = l, mi_contextWindow = w, mi_status = s\<rparr>
   }"

definition decode_hardware :: "json \<Rightarrow> hardware_info option" where
  "decode_hardware j = do {
     kvs \<leftarrow> as_obj j;
     c \<leftarrow> req_key as_str ''cpu'' kvs;
     r \<leftarrow> req_key as_int ''ramBytes'' kvs;
     g \<leftarrow> req_key (as_list decode_gpu) ''gpus'' kvs;
     Some \<lparr>hw_cpu = c, hw_ramBytes = r, hw_gpus = g\<rparr>
   }"

definition decode_last_upgrade :: "(string \<Rightarrow> int option) \<Rightarrow> json \<Rightarrow> last_upgrade option" where
  "decode_last_upgrade instant j = do {
     kvs \<leftarrow> as_obj j;
     v \<leftarrow> req_key as_str ''version'' kvs;
     o1 \<leftarrow> req_key (decode_enum [(''succeeded'', UpSucceeded), (''rolled-back'', UpRolledBack), (''failed'', UpFailed)]) ''outcome'' kvs;
     r \<leftarrow> opt_key as_str ''reason'' kvs;
     a \<leftarrow> req_key (\<lambda>x. Option.bind (as_str x) instant) ''at'' kvs;
     Some \<lparr>lu_version = v, lu_outcome = o1, lu_reason = r, lu_at = a\<rparr>
   }"

definition decode_allow_remote :: "json \<Rightarrow> bool option" where
  "decode_allow_remote j = do { kvs \<leftarrow> as_obj j; req_key as_bool ''allowRemote'' kvs }"

definition decode_node_info :: "(string \<Rightarrow> int option) \<Rightarrow> json \<Rightarrow> node_info option" where
  "decode_node_info instant j = do {
     kvs \<leftarrow> as_obj j;
     d \<leftarrow> req_key as_str ''deviceId'' kvs;
     n \<leftarrow> req_key as_str ''name'' kvs;
     dv \<leftarrow> req_key as_str ''daemonVersion'' kvs;
     pv \<leftarrow> req_key as_str ''protocolVersion'' kvs;
     pl \<leftarrow> req_key (decode_enum [(''win32'', Win32), (''linux'', Linux), (''darwin'', Darwin)]) ''platform'' kvs;
     ro \<leftarrow> req_key (as_list (decode_enum [(''inference'', Inference), (''execution'', Execution)])) ''roles'' kvs;
     ex \<leftarrow> req_key (as_list (decode_enum [(''command'', CommandKind), (''agent'', AgentKind), (''write'', WriteKind)])) ''executors'' kvs;
     m \<leftarrow> req_key (as_list decode_model) ''models'' kvs;
     h \<leftarrow> req_key decode_hardware ''hardware'' kvs;
     mx \<leftarrow> req_key as_int ''maxConcurrentJobs'' kvs;
     aj \<leftarrow> req_key as_int ''activeJobs'' kvs;
     u \<leftarrow> opt_key decode_allow_remote ''upgrade'' kvs;
     l \<leftarrow> opt_key (decode_last_upgrade instant) ''lastUpgrade'' kvs;
     checked node_info_ok \<lparr>ni_deviceId = d, ni_name = n, ni_daemonVersion = dv, ni_protocolVersion = pv, ni_platform = pl,
       ni_roles = ro, ni_executors = ex, ni_hardware = h, ni_models = m, ni_maxConcurrentJobs = mx, ni_activeJobs = aj,
       ni_allowRemote = u, ni_lastUpgrade = l\<rparr>
   }"

text \<open>The hello request and response have the same shape.\<close>

definition decode_hello :: "(string \<Rightarrow> int option) \<Rightarrow> json \<Rightarrow> node_info option" where
  "decode_hello instant j = do { kvs \<leftarrow> as_obj j; req_key (decode_node_info instant) ''nodeInfo'' kvs }"

definition decode_pair_request :: "(string \<Rightarrow> int option) \<Rightarrow> json \<Rightarrow> pair_request option" where
  "decode_pair_request instant j = do {
     kvs \<leftarrow> as_obj j;
     c \<leftarrow> req_key as_str ''code'' kvs;
     n \<leftarrow> req_key (decode_node_info instant) ''nodeInfo'' kvs;
     checked pair_request_ok \<lparr>pq_code = c, pq_nodeInfo = n\<rparr>
   }"

definition decode_pair_response :: "(string \<Rightarrow> int option) \<Rightarrow> json \<Rightarrow> pair_response option" where
  "decode_pair_response instant j = do {
     kvs \<leftarrow> as_obj j;
     a \<leftarrow> req_key as_bool ''accepted'' kvs;
     n \<leftarrow> opt_key (decode_node_info instant) ''nodeInfo'' kvs;
     checked pair_response_ok \<lparr>pr_accepted = a, pr_nodeInfo = n\<rparr>
   }"

section \<open>What a node says of itself\<close>

definition enum_name :: "(string \<times> 'a) list \<Rightarrow> 'a \<Rightarrow> json" where
  "enum_name names x = JStr (case find (\<lambda>p. snd p = x) names of None \<Rightarrow> [] | Some p \<Rightarrow> fst p)"

definition encode_gpu :: "gpu_info \<Rightarrow> json" where
  "encode_gpu g = JObj ((''name'', JStr (gpu_name g)) # opt_pair ''vramBytes'' JNum (gpu_vramBytes g))"

definition encode_model :: "model_info \<Rightarrow> json" where
  "encode_model m = JObj ((''id'', JStr (mi_id m)) # opt_pair ''label'' JStr (mi_label m) @
     opt_pair ''contextWindow'' JNum (mi_contextWindow m) @
     opt_pair ''status'' (enum_name [(''ok'', ModelOk), (''not_served'', NotServed), (''unreachable'', Unreachable)]) (mi_status m))"

definition encode_hardware :: "hardware_info \<Rightarrow> json" where
  "encode_hardware h = JObj [(''cpu'', JStr (hw_cpu h)), (''ramBytes'', JNum (hw_ramBytes h)),
     (''gpus'', JArr (map encode_gpu (hw_gpus h)))]"

definition encode_last_upgrade :: "(int \<Rightarrow> string) \<Rightarrow> last_upgrade \<Rightarrow> json" where
  "encode_last_upgrade stamp u = JObj ([(''version'', JStr (lu_version u)),
     (''outcome'', enum_name [(''succeeded'', UpSucceeded), (''rolled-back'', UpRolledBack), (''failed'', UpFailed)] (lu_outcome u))] @
     opt_pair ''reason'' JStr (lu_reason u) @ [(''at'', JStr (stamp (lu_at u)))])"

definition encode_node_info :: "(int \<Rightarrow> string) \<Rightarrow> node_info \<Rightarrow> json" where
  "encode_node_info stamp n = JObj ([(''deviceId'', JStr (ni_deviceId n)), (''name'', JStr (ni_name n)),
     (''daemonVersion'', JStr (ni_daemonVersion n)), (''protocolVersion'', JStr (ni_protocolVersion n)),
     (''platform'', enum_name [(''win32'', Win32), (''linux'', Linux), (''darwin'', Darwin)] (ni_platform n)),
     (''roles'', JArr (map (enum_name [(''inference'', Inference), (''execution'', Execution)]) (ni_roles n))),
     (''executors'', JArr (map (enum_name [(''command'', CommandKind), (''agent'', AgentKind), (''write'', WriteKind)]) (ni_executors n))),
     (''models'', JArr (map encode_model (ni_models n))), (''hardware'', encode_hardware (ni_hardware n)),
     (''maxConcurrentJobs'', JNum (ni_maxConcurrentJobs n)), (''activeJobs'', JNum (ni_activeJobs n))] @
     opt_pair ''upgrade'' (\<lambda>b. JObj [(''allowRemote'', JBool b)]) (ni_allowRemote n) @
     opt_pair ''lastUpgrade'' (encode_last_upgrade stamp) (ni_lastUpgrade n))"

section \<open>Facts\<close>

lemma decode_snapshot_ok: "decode_snapshot j = Some x \<Longrightarrow> job_snapshot_ok x"
  by (auto simp: decode_snapshot_def bind_eq_Some_conv)

lemma decode_delegated_ok: "decode_delegated j = Some i \<Longrightarrow> job_id_ok i"
  by (auto simp: decode_delegated_def bind_eq_Some_conv)

lemma decode_node_info_ok: "decode_node_info instant j = Some n \<Longrightarrow> node_info_ok n"
  by (auto simp: decode_node_info_def bind_eq_Some_conv)

lemma decode_hello_ok: "decode_hello instant j = Some n \<Longrightarrow> node_info_ok n"
  by (auto simp: decode_hello_def bind_eq_Some_conv req_key_Some dest: decode_node_info_ok)

lemma decode_pair_response_ok: "decode_pair_response instant j = Some r \<Longrightarrow> pair_response_ok r"
  by (auto simp: decode_pair_response_def bind_eq_Some_conv)

lemma as_commit_ok: "as_commit j = Some h \<Longrightarrow> commit_hash_ok h"
  by (auto simp: as_commit_def bind_eq_Some_conv)

lemma decode_tip_ok: "decode_tip j = Some (Some h) \<Longrightarrow> commit_hash_ok h"
  by (auto simp: decode_tip_def bind_eq_Some_conv req_key_Some nullable_def split: if_splits dest: as_commit_ok)

end
