(* ===== verification/Client.thy ===== *)
theory Client imports Git NodeServer Replies begin

text \<open>
  \<^verbatim>\<open>packages/daemon/src/transport/client.ts\<close>: the HFP client. The network is a parameter that accepts a TLS
  connection and answers a request on it; the temporary directory and files of a transfer are the host's, another
  parameter. Both move a state of any type. A request that is not sent does not move it.
\<close>

section \<open>Errors\<close>

datatype apply_code = BAD_BUNDLE | REF_MISMATCH | NON_FAST_FORWARD | GIT_FAILURE

datatype client_error =
    RequestFailed int "hfp_error option" string
  | FingerprintMismatch string string
  | RequestTimeout string nat int
  | ResponseTooLarge nat
  | BadHeadCommit "string option"
  | NoCertificate string nat
  | SchemaRejected
  | GitFailed string
  | ApplyRefused apply_code string
  | OtherError string

text \<open>How the socket ends an exchange early: an error, or its inactivity timer.\<close>

datatype transport_failure = Broke string | Stalled

definition transport_error :: "string \<Rightarrow> nat \<Rightarrow> int \<Rightarrow> transport_failure \<Rightarrow> client_error" where
  "transport_error host port timeoutMs f =
     (case f of Broke msg \<Rightarrow> OtherError msg | Stalled \<Rightarrow> RequestTimeout host port timeoutMs)"

section \<open>The network and the host\<close>

definition STREAM_IDLE_TIMEOUT_MS :: int where "STREAM_IDLE_TIMEOUT_MS = 45000"
definition BUNDLE_UPLOAD_IDLE_TIMEOUT_MS :: int where "BUNDLE_UPLOAD_IDLE_TIMEOUT_MS = 120000"
definition DEFAULT_REQUEST_TIMEOUT_MS :: int where "DEFAULT_REQUEST_TIMEOUT_MS = 10000"
definition HEAD_COMMIT_HEADER :: string where "HEAD_COMMIT_HEADER = ''x-homefleet-head-commit''"
definition REPO_ID_HEADER :: string where "REPO_ID_HEADER = ''x-homefleet-repo-id''"

datatype request_body = NoBody | TextBody string | FileBody string

record http_request =
  hq_host :: string
  hq_port :: nat
  hq_method :: string
  hq_path :: string
  hq_headers :: "(string \<times> string) list"
  hq_body :: request_body

record http_response =
  hs_status :: int
  hs_headers :: "(string, string) jmap"
  hs_chunks :: "string list"
  hs_failure :: "transport_failure option"

text \<open>The certificate is its DER bytes; \<open>nw_text\<close> is \<open>JSON.stringify\<close>, \<open>nw_json\<close> is \<open>JSON.parse\<close>.\<close>

record 's network =
  nw_connect :: "string \<Rightarrow> nat \<Rightarrow> int \<Rightarrow> 's \<Rightarrow> (transport_failure + string option) \<times> 's"
  nw_send :: "http_request \<Rightarrow> 's \<Rightarrow> (transport_failure + http_response) \<times> 's"
  nw_fingerprint :: "string \<Rightarrow> string"
  nw_json :: "string \<Rightarrow> json option"
  nw_text :: "json \<Rightarrow> string"
  nw_instant :: "string \<Rightarrow> int option"
  nw_stamp :: "int \<Rightarrow> string"

record 's host =
  ho_mkdtemp :: "string \<Rightarrow> 's \<Rightarrow> (string + string) \<times> 's"
  ho_mkdir :: "string \<Rightarrow> 's \<Rightarrow> string option \<times> 's"
  ho_rm :: "string \<Rightarrow> 's \<Rightarrow> string option \<times> 's"
  ho_size :: "string \<Rightarrow> 's \<Rightarrow> (string + nat) \<times> 's"
  ho_create :: "string \<Rightarrow> 's \<Rightarrow> string option \<times> 's"
  ho_append :: "string \<Rightarrow> string \<Rightarrow> 's \<Rightarrow> string option \<times> 's"

record hfp_target =
  tg_host :: string
  tg_port :: nat
  tg_deviceId :: string
  tg_timeoutMs :: "int option"

definition timeout_or :: "int \<Rightarrow> int option \<Rightarrow> int" where
  "timeout_or dflt t = (case t of None \<Rightarrow> dflt | Some n \<Rightarrow> n)"

section \<open>Percent encoding\<close>

definition hex_upper :: "nat \<Rightarrow> char" where
  "hex_upper n = (if n < 10 then char_of (48 + n) else char_of (55 + n))"

definition percent_byte :: "nat \<Rightarrow> string" where
  "percent_byte b = [CHR ''%'', hex_upper (b div 16), hex_upper (b mod 16)]"

definition uri_unreserved :: "char \<Rightarrow> bool" where
  "uri_unreserved c = (is_digit c \<or> (65 \<le> (of_char c :: nat) \<and> (of_char c :: nat) \<le> 90) \<or>
     (97 \<le> (of_char c :: nat) \<and> (of_char c :: nat) \<le> 122) \<or> c \<in> set ''-_.!~*'' \<or> c = CHR 0x27 \<or> c \<in> set ''()'')"

text \<open>\<open>encodeURIComponent\<close>: the UTF-8 bytes of a character that is not unreserved.\<close>

definition encode_char :: "char \<Rightarrow> string" where
  "encode_char c =
     (if uri_unreserved c then [c]
      else if (of_char c :: nat) < 128 then percent_byte (of_char c)
      else percent_byte (192 + of_char c div 64) @ percent_byte (128 + of_char c mod 64))"

definition encode_uri_component :: "string \<Rightarrow> string" where
  "encode_uri_component s = concat (map encode_char s)"

section \<open>Reading a response\<close>

fun read_body :: "transport_failure option \<Rightarrow> string list \<Rightarrow> string \<Rightarrow> (transport_failure option) + string" where
  "read_body end1 [] got = (case end1 of None \<Rightarrow> Inr got | Some f \<Rightarrow> Inl (Some f))"
| "read_body end1 (c # cs) got =
     (if MAX_BODY_BYTES < length got + length c then Inl None else read_body end1 cs (got @ c))"

fun read_capped_body :: "nat \<Rightarrow> transport_failure option \<Rightarrow> string list \<Rightarrow> string \<Rightarrow> transport_failure + string" where
  "read_capped_body limit end1 [] got = (case end1 of None \<Rightarrow> Inr got | Some f \<Rightarrow> Inl f)"
| "read_capped_body limit end1 (c # cs) got =
     (if limit < length got + length c then Inr got else read_capped_body limit end1 cs (got @ c))"

definition build_request_error :: "'s network \<Rightarrow> int \<Rightarrow> string \<Rightarrow> client_error" where
  "build_request_error nw status bodyText =
     (let e = Option.bind (nw_json nw bodyText) decode_error;
          detail = (case e of None \<Rightarrow> bodyText | Some x \<Rightarrow> error_code_name (err_code x) @ '': '' @ err_message x)
      in RequestFailed status e (''HFP request failed with status '' @ show_int status @ '' ('' @ detail @ '')''))"

definition is_2xx :: "int \<Rightarrow> bool" where
  "is_2xx status = (200 \<le> status \<and> status < 300)"

section \<open>The pinned connection and a request\<close>

definition connect_pinned ::
    "'s network \<Rightarrow> string \<Rightarrow> nat \<Rightarrow> string option \<Rightarrow> int \<Rightarrow> 's \<Rightarrow> (client_error + string) \<times> 's" where
  "connect_pinned nw host port expected timeoutMs s =
     (case nw_connect nw host port timeoutMs s of
        (Inl f, s1) \<Rightarrow> (Inl (transport_error host port timeoutMs f), s1)
      | (Inr None, s1) \<Rightarrow> (Inl (NoCertificate host port), s1)
      | (Inr (Some der), s1) \<Rightarrow>
          (case expected of
             None \<Rightarrow> (Inr (nw_fingerprint nw der), s1)
           | Some d \<Rightarrow>
               if nw_fingerprint nw der \<noteq> d then (Inl (FingerprintMismatch d (nw_fingerprint nw der)), s1)
               else (Inr (nw_fingerprint nw der), s1)))"

definition utf8_length :: "string \<Rightarrow> nat" where
  "utf8_length s = length s + length (filter (\<lambda>c. 128 \<le> (of_char c :: nat)) s)"

definition host_header :: "string \<Rightarrow> nat \<Rightarrow> string \<times> string" where
  "host_header host port = (''host'', host @ '':'' @ show_nat port)"

definition json_request :: "'s network \<Rightarrow> string \<Rightarrow> nat \<Rightarrow> string \<Rightarrow> string \<Rightarrow> json option \<Rightarrow> http_request" where
  "json_request nw host port method path body =
     \<lparr>hq_host = host, hq_port = port, hq_method = method, hq_path = HFP_PATH_PREFIX @ path,
      hq_headers = host_header host port #
        (case body of None \<Rightarrow> []
         | Some j \<Rightarrow> [(''content-type'', ''application/json''), (''content-length'', show_nat (utf8_length (nw_text nw j)))]),
      hq_body = (case body of None \<Rightarrow> NoBody | Some j \<Rightarrow> TextBody (nw_text nw j))\<rparr>"

record raw_response =
  ra_status :: int
  ra_bodyText :: string
  ra_serverDeviceId :: string

definition raw_request ::
    "'s network \<Rightarrow> string \<Rightarrow> nat \<Rightarrow> string option \<Rightarrow> string \<Rightarrow> string \<Rightarrow> json option \<Rightarrow> int option \<Rightarrow> 's \<Rightarrow>
     (client_error + raw_response) \<times> 's" where
  "raw_request nw host port expected method path body timeout s =
     (let timeoutMs = timeout_or DEFAULT_REQUEST_TIMEOUT_MS timeout
      in case connect_pinned nw host port expected timeoutMs s of
        (Inl e, s1) \<Rightarrow> (Inl e, s1)
      | (Inr d, s1) \<Rightarrow>
          (case nw_send nw (json_request nw host port method path body) s1 of
             (Inl f, s2) \<Rightarrow> (Inl (transport_error host port timeoutMs f), s2)
           | (Inr rs, s2) \<Rightarrow>
               (case read_body (hs_failure rs) (hs_chunks rs) [] of
                  Inl None \<Rightarrow> (Inl (ResponseTooLarge MAX_BODY_BYTES), s2)
                | Inl (Some f) \<Rightarrow> (Inl (transport_error host port timeoutMs f), s2)
                | Inr t \<Rightarrow> (Inr \<lparr>ra_status = hs_status rs, ra_bodyText = t, ra_serverDeviceId = d\<rparr>, s2))))"

definition request_internal ::
    "'s network \<Rightarrow> string \<Rightarrow> nat \<Rightarrow> string option \<Rightarrow> string \<Rightarrow> string \<Rightarrow> json option \<Rightarrow> (json \<Rightarrow> 'a option) \<Rightarrow> int option \<Rightarrow>
     's \<Rightarrow> (client_error + 'a \<times> string) \<times> 's" where
  "request_internal nw host port expected method path body schema timeout s =
     (case raw_request nw host port expected method path body timeout s of
        (Inl e, s1) \<Rightarrow> (Inl e, s1)
      | (Inr r, s1) \<Rightarrow>
          if \<not> is_2xx (ra_status r) then (Inl (build_request_error nw (ra_status r) (ra_bodyText r)), s1)
          else (case nw_json nw (ra_bodyText r) of
                  None \<Rightarrow> (Inl (RequestFailed (ra_status r) None ''peer returned a 2xx response with a non-JSON body''), s1)
                | Some j \<Rightarrow>
                    (case schema j of
                       None \<Rightarrow> (Inl SchemaRejected, s1)
                     | Some v \<Rightarrow> (Inr (v, ra_serverDeviceId r), s1))))"

definition hfp_request ::
    "'s network \<Rightarrow> hfp_target \<Rightarrow> string \<Rightarrow> string \<Rightarrow> json option \<Rightarrow> (json \<Rightarrow> 'a option) \<Rightarrow> 's \<Rightarrow> (client_error + 'a) \<times> 's" where
  "hfp_request nw t method path body schema s =
     apfst (map_sum id fst)
       (request_internal nw (tg_host t) (tg_port t) (Some (tg_deviceId t)) method path body schema (tg_timeoutMs t) s)"

section \<open>The calls\<close>

definition hello_body :: "'s network \<Rightarrow> node_info \<Rightarrow> json" where
  "hello_body nw n = JObj [(''nodeInfo'', encode_node_info (nw_stamp nw) n)]"

definition client_hello :: "'s network \<Rightarrow> hfp_target \<Rightarrow> node_info \<Rightarrow> 's \<Rightarrow> (client_error + node_info) \<times> 's" where
  "client_hello nw t ours =
     hfp_request nw t ''POST'' ''/hello'' (Some (hello_body nw ours)) (decode_hello (nw_instant nw))"

definition client_pair ::
    "'s network \<Rightarrow> string \<Rightarrow> nat \<Rightarrow> string option \<Rightarrow> int option \<Rightarrow> string \<Rightarrow> node_info \<Rightarrow> 's \<Rightarrow>
     (client_error + pair_response \<times> string) \<times> 's" where
  "client_pair nw host port expected timeout code ours s =
     (case request_internal nw host port expected ''POST'' ''/pair''
        (Some (JObj [(''code'', JStr code), (''nodeInfo'', encode_node_info (nw_stamp nw) ours)]))
        (decode_pair_response (nw_instant nw)) timeout s of
        (Inl e, s1) \<Rightarrow> (Inl e, s1)
      | (Inr (response, d), s1) \<Rightarrow>
          (case pr_nodeInfo response of
             Some n \<Rightarrow>
               if pr_accepted response \<and> ni_deviceId n \<noteq> d then (Inl (FingerprintMismatch (ni_deviceId n) d), s1)
               else (Inr (response, d), s1)
           | None \<Rightarrow> (Inr (response, d), s1)))"

definition client_delegate :: "'s network \<Rightarrow> hfp_target \<Rightarrow> job_params \<Rightarrow> 's \<Rightarrow> (client_error + string) \<times> 's" where
  "client_delegate nw t params =
     hfp_request nw t ''POST'' ''/jobs'' (Some (encode_delegate params)) decode_delegated"

definition client_snapshot :: "'s network \<Rightarrow> hfp_target \<Rightarrow> string \<Rightarrow> 's \<Rightarrow> (client_error + job_snapshot) \<times> 's" where
  "client_snapshot nw t jobId =
     hfp_request nw t ''GET'' (''/jobs/'' @ encode_uri_component jobId) None decode_snapshot"

definition client_cancel :: "'s network \<Rightarrow> hfp_target \<Rightarrow> string \<Rightarrow> 's \<Rightarrow> (client_error + string \<times> job_status) \<times> 's" where
  "client_cancel nw t jobId =
     hfp_request nw t ''POST'' (''/jobs/'' @ encode_uri_component jobId @ ''/cancel'') None decode_cancel"

definition client_have_tip :: "'s network \<Rightarrow> hfp_target \<Rightarrow> string \<Rightarrow> 's \<Rightarrow> (client_error + string option) \<times> 's" where
  "client_have_tip nw t repoId =
     hfp_request nw t ''POST'' ''/workspace/have'' (Some (JObj [(''repoId'', JStr repoId)])) decode_tip"

section \<open>Uploading a bundle\<close>

definition upload_request :: "hfp_target \<Rightarrow> string \<Rightarrow> string \<Rightarrow> string \<Rightarrow> nat \<Rightarrow> http_request" where
  "upload_request t repoId headCommit bundlePath size1 =
     \<lparr>hq_host = tg_host t, hq_port = tg_port t, hq_method = ''POST'', hq_path = HFP_PATH_PREFIX @ ''/workspace/bundle'',
      hq_headers = [host_header (tg_host t) (tg_port t), (''content-type'', ''application/octet-stream''),
        (''content-length'', show_nat size1), (REPO_ID_HEADER, encode_uri_component repoId),
        (HEAD_COMMIT_HEADER, headCommit)],
      hq_body = FileBody bundlePath\<rparr>"

definition upload_bundle ::
    "'s network \<Rightarrow> 's host \<Rightarrow> hfp_target \<Rightarrow> string \<Rightarrow> string \<Rightarrow> string \<Rightarrow> 's \<Rightarrow> (client_error + string) \<times> 's" where
  "upload_bundle nw ho t repoId headCommit bundlePath s =
     (case ho_size ho bundlePath s of
        (Inl msg, s1) \<Rightarrow> (Inl (OtherError msg), s1)
      | (Inr size1, s1) \<Rightarrow>
          (case connect_pinned nw (tg_host t) (tg_port t) (Some (tg_deviceId t))
                  (timeout_or DEFAULT_REQUEST_TIMEOUT_MS (tg_timeoutMs t)) s1 of
             (Inl e, s2) \<Rightarrow> (Inl e, s2)
           | (Inr _, s2) \<Rightarrow>
               (case nw_send nw (upload_request t repoId headCommit bundlePath size1) s2 of
                  (Inl f, s3) \<Rightarrow> (Inl (transport_error (tg_host t) (tg_port t) BUNDLE_UPLOAD_IDLE_TIMEOUT_MS f), s3)
                | (Inr rs, s3) \<Rightarrow>
                    (case read_capped_body MAX_BODY_BYTES (hs_failure rs) (hs_chunks rs) [] of
                       Inl f \<Rightarrow> (Inl (transport_error (tg_host t) (tg_port t) BUNDLE_UPLOAD_IDLE_TIMEOUT_MS f), s3)
                     | Inr body \<Rightarrow>
                         if \<not> is_2xx (hs_status rs) then (Inl (build_request_error nw (hs_status rs) body), s3)
                         else (case nw_json nw body of
                                 None \<Rightarrow> (Inl (RequestFailed (hs_status rs) None
                                   ''worker returned a 2xx bundle-upload response with a non-JSON body''), s3)
                               | Some j \<Rightarrow>
                                   (case decode_uploaded j of
                                      None \<Rightarrow> (Inl SchemaRejected, s3)
                                    | Some h \<Rightarrow> (Inr h, s3)))))))"

text \<open>\<open>try ... finally rm\<close>: an error of the removal replaces what the block answered.\<close>

definition finally_rm :: "'s host \<Rightarrow> string \<Rightarrow> (client_error + 'a) \<times> 's \<Rightarrow> (client_error + 'a) \<times> 's" where
  "finally_rm ho dir p =
     (case ho_rm ho dir (snd p) of
        (None, s1) \<Rightarrow> (fst p, s1)
      | (Some msg, s1) \<Rightarrow> (Inl (OtherError msg), s1))"

text \<open>The bundle of \<open>syncWorkspace\<close> once the temporary directory is there.\<close>

definition ship_bundle ::
    "'s network \<Rightarrow> 's host \<Rightarrow> 's git \<Rightarrow> hfp_target \<Rightarrow> string \<Rightarrow> string \<Rightarrow> string \<Rightarrow> string option \<Rightarrow> string \<Rightarrow> 's \<Rightarrow>
     (client_error + string) \<times> 's" where
  "ship_bundle nw ho git t repoPath repoId headCommit have1 bundlePath s =
     (case create_bundle git repoPath bundlePath have1 DEFAULT_GIT_TIMEOUT_MS s of
        (Inl msg, s1) \<Rightarrow> (Inl (GitFailed msg), s1)
      | (Inr _, s1) \<Rightarrow>
          (case upload_bundle nw ho t repoId headCommit bundlePath s1 of
             (Inl e, s2) \<Rightarrow> (Inl e, s2)
           | (Inr _, s2) \<Rightarrow> (Inr headCommit, s2)))"

definition sync_workspace ::
    "'s network \<Rightarrow> 's host \<Rightarrow> 's git \<Rightarrow> hfp_target \<Rightarrow> string \<Rightarrow> string \<Rightarrow> 's \<Rightarrow> (client_error + string) \<times> 's" where
  "sync_workspace nw ho git t repoPath repoId s =
     (case resolve_head_commit git repoPath DEFAULT_GIT_TIMEOUT_MS s of
        (Inl msg, s1) \<Rightarrow> (Inl (GitFailed msg), s1)
      | (Inr head, s1) \<Rightarrow>
          (case client_have_tip nw t repoId s1 of
             (Inl e, s2) \<Rightarrow> (Inl e, s2)
           | (Inr tip, s2) \<Rightarrow>
               if tip = Some head then (Inr head, s2)
               else
                 let (incremental, s3) =
                       (case tip of None \<Rightarrow> (False, s2)
                        | Some h \<Rightarrow> is_ancestor git repoPath h head DEFAULT_GIT_TIMEOUT_MS s2)
                 in (case ho_mkdtemp ho ''homefleet-bundle-out-'' s3 of
                       (Inl msg, s4) \<Rightarrow> (Inl (OtherError msg), s4)
                     | (Inr dir, s4) \<Rightarrow>
                         finally_rm ho dir
                           (ship_bundle nw ho git t repoPath repoId head (if incremental then tip else None)
                              (dir @ ''/sync.bundle'') s4))))"

section \<open>Downloading to a file\<close>

datatype stream_end = StreamOk | StreamTooLarge | StreamFailed client_error

text \<open>\<open>streamResponseToFileCapped\<close>: the write stream opens the file, and each chunk within the cap is written.\<close>

fun stream_chunks ::
    "'s host \<Rightarrow> (transport_failure \<Rightarrow> client_error) \<Rightarrow> string \<Rightarrow> nat \<Rightarrow> transport_failure option \<Rightarrow> string list \<Rightarrow> nat \<Rightarrow> 's \<Rightarrow>
     stream_end \<times> 's" where
  "stream_chunks ho err path maxBytes end1 [] size1 s =
     (case end1 of None \<Rightarrow> (StreamOk, s) | Some f \<Rightarrow> (StreamFailed (err f), s))"
| "stream_chunks ho err path maxBytes end1 (c # cs) size1 s =
     (if maxBytes < size1 + length c then (StreamTooLarge, s)
      else case ho_append ho path c s of
             (Some msg, s1) \<Rightarrow> (StreamFailed (OtherError msg), s1)
           | (None, s1) \<Rightarrow> stream_chunks ho err path maxBytes end1 cs (size1 + length c) s1)"

definition stream_to_file ::
    "'s host \<Rightarrow> (transport_failure \<Rightarrow> client_error) \<Rightarrow> string \<Rightarrow> nat \<Rightarrow> http_response \<Rightarrow> 's \<Rightarrow> stream_end \<times> 's" where
  "stream_to_file ho err path maxBytes rs s =
     (case ho_create ho path s of
        (Some msg, s1) \<Rightarrow> (StreamFailed (OtherError msg), s1)
      | (None, s1) \<Rightarrow> stream_chunks ho err path maxBytes (hs_failure rs) (hs_chunks rs) 0 s1)"

text \<open>The catch block: a started file is removed, and an error of the removal is the one thrown.\<close>

definition discard_download :: "'s host \<Rightarrow> string \<Rightarrow> client_error \<Rightarrow> 's \<Rightarrow> (client_error + 'a) \<times> 's" where
  "discard_download ho path e s =
     (case ho_rm ho path s of (None, s1) \<Rightarrow> (Inl e, s1) | (Some msg, s1) \<Rightarrow> (Inl (OtherError msg), s1))"

definition get_request :: "hfp_target \<Rightarrow> string \<Rightarrow> http_request" where
  "get_request t path =
     \<lparr>hq_host = tg_host t, hq_port = tg_port t, hq_method = ''GET'', hq_path = path,
      hq_headers = [host_header (tg_host t) (tg_port t)], hq_body = NoBody\<rparr>"

text \<open>\<open>accept\<close> is the inspection of a 2xx response's headers: a refusal, or what it read there.\<close>

definition download_to_file ::
    "'s network \<Rightarrow> 's host \<Rightarrow> hfp_target \<Rightarrow> string \<Rightarrow> string \<Rightarrow> nat \<Rightarrow> (http_response \<Rightarrow> client_error + 'a) \<Rightarrow> 's \<Rightarrow>
     (client_error + 'a) \<times> 's" where
  "download_to_file nw ho t requestPath destPath maxBytes accept s =
     (let err = transport_error (tg_host t) (tg_port t) BUNDLE_UPLOAD_IDLE_TIMEOUT_MS
      in case connect_pinned nw (tg_host t) (tg_port t) (Some (tg_deviceId t))
              (timeout_or DEFAULT_REQUEST_TIMEOUT_MS (tg_timeoutMs t)) s of
        (Inl e, s1) \<Rightarrow> (Inl e, s1)
      | (Inr _, s1) \<Rightarrow>
          (case nw_send nw (get_request t requestPath) s1 of
             (Inl f, s2) \<Rightarrow> (Inl (err f), s2)
           | (Inr rs, s2) \<Rightarrow>
               if \<not> is_2xx (hs_status rs) then
                 (case read_capped_body MAX_BODY_BYTES (hs_failure rs) (hs_chunks rs) [] of
                    Inl f \<Rightarrow> (Inl (err f), s2)
                  | Inr body \<Rightarrow> (Inl (build_request_error nw (hs_status rs) body), s2))
               else (case accept rs of
                 Inl e \<Rightarrow> (Inl e, s2)
               | Inr v \<Rightarrow>
                   (case stream_to_file ho err destPath maxBytes rs s2 of
                      (StreamOk, s3) \<Rightarrow> (Inr v, s3)
                    | (StreamTooLarge, s3) \<Rightarrow> discard_download ho destPath (ResponseTooLarge maxBytes) s3
                    | (StreamFailed e, s3) \<Rightarrow> discard_download ho destPath e s3))))"

definition head_commit_header :: "http_response \<Rightarrow> client_error + string" where
  "head_commit_header rs =
     (case jmap_get (hs_headers rs) HEAD_COMMIT_HEADER of
        None \<Rightarrow> Inl (BadHeadCommit None)
      | Some h \<Rightarrow> if commit_hash_ok h then Inr h else Inl (BadHeadCommit (Some h)))"

definition fetch_job_artifact ::
    "'s network \<Rightarrow> 's host \<Rightarrow> hfp_target \<Rightarrow> string \<Rightarrow> string \<Rightarrow> nat \<Rightarrow> 's \<Rightarrow> (client_error + string) \<times> 's" where
  "fetch_job_artifact nw ho t jobId destPath maxBytes =
     download_to_file nw ho t (HFP_PATH_PREFIX @ ''/jobs/'' @ encode_uri_component jobId @ ''/artifact'') destPath maxBytes
       head_commit_header"

definition fetch_upgrade_tarball ::
    "'s network \<Rightarrow> 's host \<Rightarrow> hfp_target \<Rightarrow> string \<Rightarrow> string \<Rightarrow> nat \<Rightarrow> 's \<Rightarrow> (client_error + unit) \<times> 's" where
  "fetch_upgrade_tarball nw ho t version destPath maxBytes =
     download_to_file nw ho t (HFP_PATH_PREFIX @ ''/upgrade/tarball/'' @ encode_uri_component version) destPath maxBytes
       (\<lambda>rs. Inr ())"

section \<open>The event stream\<close>

definition events_request :: "hfp_target \<Rightarrow> string \<Rightarrow> int option \<Rightarrow> http_request" where
  "events_request t jobId fromSeq =
     \<lparr>hq_host = tg_host t, hq_port = tg_port t, hq_method = ''GET'',
      hq_path = HFP_PATH_PREFIX @ ''/jobs/'' @ encode_uri_component jobId @ ''/events'',
      hq_headers = [host_header (tg_host t) (tg_port t), (''accept'', ''text/event-stream'')] @
        (case last_event_id_header fromSeq of None \<Rightarrow> [] | Some v \<Rightarrow> [(''last-event-id'', v)]),
      hq_body = NoBody\<rparr>"

text \<open>Which cap an oversized stream broke: the chunks that fit the total already break the cap of an event, or not.\<close>

fun within_total :: "nat \<Rightarrow> string list \<Rightarrow> string list" where
  "within_total got [] = []"
| "within_total got (c # cs) =
     (if MAX_SSE_TOTAL_BYTES < got + length c then [] else c # within_total (got + length c) cs)"

definition sse_limit :: "(string \<Rightarrow> job_event option) \<Rightarrow> string list \<Rightarrow> nat" where
  "sse_limit dec chunks =
     (if fst (parse_sse_events dec (within_total 0 chunks)) = SseTooLarge then MAX_SSE_EVENT_BYTES else MAX_SSE_TOTAL_BYTES)"

text \<open>What the iterator yields, and how it ends: \<open>None\<close> is a plain end. A record that is not JSON or not an event
  ends it as a rejected response does.\<close>

definition stream_job_events ::
    "'s network \<Rightarrow> (string \<Rightarrow> job_event option) \<Rightarrow> hfp_target \<Rightarrow> string \<Rightarrow> int option \<Rightarrow> 's \<Rightarrow>
     (job_event list \<times> client_error option) \<times> 's" where
  "stream_job_events nw dec t jobId fromSeq s =
     (let err = transport_error (tg_host t) (tg_port t) STREAM_IDLE_TIMEOUT_MS
      in case connect_pinned nw (tg_host t) (tg_port t) (Some (tg_deviceId t))
              (timeout_or DEFAULT_REQUEST_TIMEOUT_MS (tg_timeoutMs t)) s of
        (Inl e, s1) \<Rightarrow> (([], Some e), s1)
      | (Inr _, s1) \<Rightarrow>
          (case nw_send nw (events_request t jobId fromSeq) s1 of
             (Inl f, s2) \<Rightarrow> (([], Some (err f)), s2)
           | (Inr rs, s2) \<Rightarrow>
               if \<not> is_2xx (hs_status rs) then
                 (case read_capped_body MAX_BODY_BYTES (hs_failure rs) (hs_chunks rs) [] of
                    Inl f \<Rightarrow> (([], Some (err f)), s2)
                  | Inr body \<Rightarrow> (([], Some (build_request_error nw (hs_status rs) body)), s2))
               else (case parse_sse_events dec (hs_chunks rs) of
                 (SseOpen, evs) \<Rightarrow> ((evs, map_option err (hs_failure rs)), s2)
               | (SseDone, evs) \<Rightarrow> ((evs, None), s2)
               | (SseTooLarge, evs) \<Rightarrow> ((evs, Some (ResponseTooLarge (sse_limit dec (hs_chunks rs)))), s2)
               | (SseBad, evs) \<Rightarrow> ((evs, Some SchemaRejected), s2))))"

section \<open>The pin\<close>

text \<open>The connection is not with the expected device: it failed, it came without a certificate, or with another one.\<close>

definition unidentified :: "'s network \<Rightarrow> string \<Rightarrow> nat \<Rightarrow> string \<Rightarrow> int \<Rightarrow> 's \<Rightarrow> bool" where
  "unidentified nw host port d timeoutMs s =
     (case nw_connect nw host port timeoutMs s of
        (Inr (Some der), _) \<Rightarrow> nw_fingerprint nw der \<noteq> d
      | _ \<Rightarrow> True)"

lemma connect_unidentified:
  assumes "unidentified nw host port d ms s"
  shows "\<exists>e. connect_pinned nw host port (Some d) ms s = (Inl e, snd (nw_connect nw host port ms s))"
proof -
  obtain r s1 where r: "nw_connect nw host port ms s = (r, s1)" by (cases "nw_connect nw host port ms s")
  show ?thesis
  proof (cases r)
    case (Inl f)
    then show ?thesis using r by (simp add: connect_pinned_def)
  next
    case (Inr c)
    then show ?thesis using r assms by (cases c) (simp_all add: connect_pinned_def unidentified_def)
  qed
qed

lemma connect_identified:
  assumes "connect_pinned nw host port (Some d) ms s = (Inr x, s1)"
  shows "\<not> unidentified nw host port d ms s \<and> x = d \<and> s1 = snd (nw_connect nw host port ms s)"
  using assms by (auto simp: connect_pinned_def unidentified_def split: sum.splits option.splits prod.splits if_splits)

lemma raw_unidentified:
  assumes "unidentified nw host port d (timeout_or DEFAULT_REQUEST_TIMEOUT_MS timeout) s"
  shows "\<exists>e. raw_request nw host port (Some d) method path body timeout s =
    (Inl e, snd (nw_connect nw host port (timeout_or DEFAULT_REQUEST_TIMEOUT_MS timeout) s))"
  using connect_unidentified [OF assms] by (auto simp: raw_request_def Let_def)

lemma request_unidentified:
  assumes "unidentified nw (tg_host t) (tg_port t) (tg_deviceId t) (timeout_or DEFAULT_REQUEST_TIMEOUT_MS (tg_timeoutMs t)) s"
  shows "\<exists>e. hfp_request nw t method path body schema s =
    (Inl e, snd (nw_connect nw (tg_host t) (tg_port t) (timeout_or DEFAULT_REQUEST_TIMEOUT_MS (tg_timeoutMs t)) s))"
  using raw_unidentified [OF assms, of "method" "path" "body"] by (auto simp: hfp_request_def request_internal_def)

lemma download_unidentified:
  assumes "unidentified nw (tg_host t) (tg_port t) (tg_deviceId t) (timeout_or DEFAULT_REQUEST_TIMEOUT_MS (tg_timeoutMs t)) s"
  shows "\<exists>e. download_to_file nw ho t path dest n accept s =
    (Inl e, snd (nw_connect nw (tg_host t) (tg_port t) (timeout_or DEFAULT_REQUEST_TIMEOUT_MS (tg_timeoutMs t)) s))"
  using connect_unidentified [OF assms] by (auto simp: download_to_file_def Let_def)

lemma stream_unidentified:
  assumes "unidentified nw (tg_host t) (tg_port t) (tg_deviceId t) (timeout_or DEFAULT_REQUEST_TIMEOUT_MS (tg_timeoutMs t)) s"
  shows "\<exists>e. stream_job_events nw dec t jobId fromSeq s =
    (([], Some e), snd (nw_connect nw (tg_host t) (tg_port t) (timeout_or DEFAULT_REQUEST_TIMEOUT_MS (tg_timeoutMs t)) s))"
  using connect_unidentified [OF assms] by (auto simp: stream_job_events_def Let_def)

lemma upload_unidentified:
  assumes "ho_size ho bundlePath s = (Inr n, s1)"
    "unidentified nw (tg_host t) (tg_port t) (tg_deviceId t) (timeout_or DEFAULT_REQUEST_TIMEOUT_MS (tg_timeoutMs t)) s1"
  shows "\<exists>e. upload_bundle nw ho t repoId headCommit bundlePath s =
    (Inl e, snd (nw_connect nw (tg_host t) (tg_port t) (timeout_or DEFAULT_REQUEST_TIMEOUT_MS (tg_timeoutMs t)) s1))"
  using connect_unidentified [OF assms(2)] assms(1) by (auto simp: upload_bundle_def)

text \<open>The connection \<open>t\<close> asks for in a state, and what the attempt leaves.\<close>

definition pin_fails :: "'s network \<Rightarrow> hfp_target \<Rightarrow> 's \<Rightarrow> bool" where
  "pin_fails nw t = unidentified nw (tg_host t) (tg_port t) (tg_deviceId t) (timeout_or DEFAULT_REQUEST_TIMEOUT_MS (tg_timeoutMs t))"

definition after_connect :: "'s network \<Rightarrow> hfp_target \<Rightarrow> 's \<Rightarrow> 's" where
  "after_connect nw t s = snd (nw_connect nw (tg_host t) (tg_port t) (timeout_or DEFAULT_REQUEST_TIMEOUT_MS (tg_timeoutMs t)) s)"

lemma pair_unidentified:
  assumes "pin_fails nw t s"
  shows "\<exists>e. client_pair nw (tg_host t) (tg_port t) (Some (tg_deviceId t)) (tg_timeoutMs t) code ours s = (Inl e, after_connect nw t s)"
  using raw_unidentified [OF assms [unfolded pin_fails_def], of "''POST''" "''/pair''"
      "Some (JObj [(''code'', JStr code), (''nodeInfo'', encode_node_info (nw_stamp nw) ours)])"]
  by (auto simp: client_pair_def request_internal_def after_connect_def)

lemma pair_without_certificate:
  assumes "\<forall>der. fst (nw_connect nw (tg_host t) (tg_port t) (timeout_or DEFAULT_REQUEST_TIMEOUT_MS (tg_timeoutMs t)) s) \<noteq> Inr (Some der)"
  shows "\<exists>e. client_pair nw (tg_host t) (tg_port t) None (tg_timeoutMs t) code ours s = (Inl e, after_connect nw t s)"
proof -
  let ?ms = "timeout_or DEFAULT_REQUEST_TIMEOUT_MS (tg_timeoutMs t)"
  obtain r s1 where r: "nw_connect nw (tg_host t) (tg_port t) ?ms s = (r, s1)" by fastforce
  with assms have "\<exists>e. connect_pinned nw (tg_host t) (tg_port t) None ?ms s = (Inl e, s1)"
    by (cases r; cases "projr r") (auto simp: connect_pinned_def)
  with r show ?thesis by (auto simp: client_pair_def request_internal_def raw_request_def Let_def after_connect_def)
qed

lemma sync_unidentified:
  assumes "resolve_head_commit git repoPath DEFAULT_GIT_TIMEOUT_MS s = (Inr head, s1)" "pin_fails nw t s1"
  shows "\<exists>e. sync_workspace nw ho git t repoPath repoId s = (Inl e, after_connect nw t s1)"
proof -
  obtain e where "client_have_tip nw t repoId s1 = (Inl e, after_connect nw t s1)"
    using request_unidentified [OF assms(2) [unfolded pin_fails_def]] unfolding client_have_tip_def after_connect_def by blast
  with assms(1) show ?thesis by (simp add: sync_workspace_def)
qed

text \<open>C16 Nothing is sent to a peer that has not shown its certificate: when the connection fails, brings no certificate
  or one with another fingerprint than the device the caller named, every call of the client ends with an error, in the
  state the connection attempt left, whatever a request on that connection would have done. An upload first measures its
  file and a workspace sync first reads the local HEAD; for them the same holds from there. Pairing by address without an
  expected device ends that way when the peer shows no certificate.\<close>

theorem unidentified_peer_gets_nothing:
  assumes "pin_fails nw t s"
  shows "let nw' = nw\<lparr>nw_send := send\<rparr> in
    (\<exists>e. client_hello nw' t ours s = (Inl e, after_connect nw t s)) \<and>
    (\<exists>e. client_pair nw' (tg_host t) (tg_port t) (Some (tg_deviceId t)) (tg_timeoutMs t) code ours s = (Inl e, after_connect nw t s)) \<and>
    ((\<forall>der. fst (nw_connect nw (tg_host t) (tg_port t) (timeout_or DEFAULT_REQUEST_TIMEOUT_MS (tg_timeoutMs t)) s) \<noteq> Inr (Some der)) \<longrightarrow>
       (\<exists>e. client_pair nw' (tg_host t) (tg_port t) None (tg_timeoutMs t) code ours s = (Inl e, after_connect nw t s))) \<and>
    (\<exists>e. client_delegate nw' t params s = (Inl e, after_connect nw t s)) \<and>
    (\<exists>e. client_snapshot nw' t jobId s = (Inl e, after_connect nw t s)) \<and>
    (\<exists>e. client_cancel nw' t jobId s = (Inl e, after_connect nw t s)) \<and>
    (\<exists>e. client_have_tip nw' t repoId s = (Inl e, after_connect nw t s)) \<and>
    (\<forall>s0 size1. ho_size ho bundlePath s0 = (Inr size1, s) \<longrightarrow>
       (\<exists>e. upload_bundle nw' ho t repoId head bundlePath s0 = (Inl e, after_connect nw t s))) \<and>
    (\<forall>s0 h. resolve_head_commit git repoPath DEFAULT_GIT_TIMEOUT_MS s0 = (Inr h, s) \<longrightarrow>
       (\<exists>e. sync_workspace nw' ho git t repoPath repoId s0 = (Inl e, after_connect nw t s))) \<and>
    (\<exists>e. fetch_job_artifact nw' ho t jobId dest n s = (Inl e, after_connect nw t s)) \<and>
    (\<exists>e. fetch_upgrade_tarball nw' ho t version dest n s = (Inl e, after_connect nw t s)) \<and>
    (\<exists>e. stream_job_events nw' dec t jobId fromSeq s = (([], Some e), after_connect nw t s))"
proof -
  let ?nw = "nw\<lparr>nw_send := send\<rparr>"
  have u: "pin_fails ?nw t s"
    using assms by (simp add: pin_fails_def unidentified_def split: prod.splits sum.splits option.splits)
  have ac: "after_connect nw t = after_connect ?nw t" "nw_connect nw = nw_connect ?nw"
    by (simp_all add: fun_eq_iff after_connect_def)
  note u1 = u [unfolded pin_fails_def]
  show ?thesis unfolding Let_def ac client_hello_def client_delegate_def client_snapshot_def client_cancel_def
      client_have_tip_def fetch_job_artifact_def fetch_upgrade_tarball_def
    by (intro conjI allI impI sync_unidentified [OF _ u] pair_unidentified [OF u]
        pair_without_certificate upload_unidentified [OF _ u1, folded after_connect_def]
        request_unidentified [OF u1, folded after_connect_def] download_unidentified [OF u1, folded after_connect_def]
        stream_unidentified [OF u1, folded after_connect_def]) (blast, assumption+)
qed

text \<open>A network whose one peer presents the certificate \<open>der\<close>, logs what it is sent and answers with fixed chunks.\<close>

definition demo_network :: "int \<Rightarrow> string list \<Rightarrow> http_request list network" where
  "demo_network status chunks =
     \<lparr>nw_connect = (\<lambda>h p ms s. (Inr (Some ''der''), s)),
      nw_send = (\<lambda>rq s. (Inr \<lparr>hs_status = status, hs_headers = [(HEAD_COMMIT_HEADER, replicate 40 (CHR ''a''))],
        hs_chunks = chunks, hs_failure = None\<rparr>, s @ [rq])),
      nw_fingerprint = (\<lambda>der. replicate 64 (CHR ''b'')), nw_json = (\<lambda>t. None), nw_text = (\<lambda>j. []),
      nw_instant = (\<lambda>t. None), nw_stamp = (\<lambda>i. [])\<rparr>"

definition demo_target :: "char \<Rightarrow> hfp_target" where
  "demo_target c = \<lparr>tg_host = ''h'', tg_port = 1, tg_deviceId = replicate 64 c, tg_timeoutMs = None\<rparr>"

theorem unidentified_peer_gets_nothing_witness:
  "\<exists>e. client_snapshot (demo_network 200 [''x'']) (demo_target (CHR ''c'')) ''j'' [] = (Inl e, [])"
proof -
  have "pin_fails (demo_network 200 [''x'']) (demo_target (CHR ''c'')) []"
    by (simp add: pin_fails_def unidentified_def demo_network_def demo_target_def)
  note facts = unidentified_peer_gets_nothing [OF this, of "nw_send (demo_network 200 [''x''])"]
  have "demo_network 200 [''x'']\<lparr>nw_send := nw_send (demo_network 200 [''x''])\<rparr> = demo_network 200 [''x'']" by simp
  from facts [unfolded Let_def this]
  have "\<exists>e. client_snapshot (demo_network 200 [''x'']) (demo_target (CHR ''c'')) ''j'' [] =
      (Inl e, after_connect (demo_network 200 [''x'']) (demo_target (CHR ''c'')) [])" by blast
  then show ?thesis by (simp add: after_connect_def demo_network_def)
qed

section \<open>Downloads\<close>

text \<open>What a directory of files does: \<open>content\<close> reads the state.\<close>

definition files_laws :: "('s \<Rightarrow> string \<Rightarrow> string option) \<Rightarrow> 's host \<Rightarrow> bool" where
  "files_laws content ho =
     ((\<forall>p s. fst (ho_create ho p s) = None \<longrightarrow> content (snd (ho_create ho p s)) = (content s)(p \<mapsto> [])) \<and>
      (\<forall>p c s b. fst (ho_append ho p c s) = None \<and> content s p = Some b \<longrightarrow>
         content (snd (ho_append ho p c s)) = (content s)(p \<mapsto> b @ c)) \<and>
      (\<forall>p s. fst (ho_rm ho p s) = None \<longrightarrow> content (snd (ho_rm ho p s)) = (content s)(p := None)))"

text \<open>The network does not touch the files.\<close>

definition network_apart :: "('s \<Rightarrow> string \<Rightarrow> string option) \<Rightarrow> 's network \<Rightarrow> bool" where
  "network_apart content nw =
     ((\<forall>h p ms s. content (snd (nw_connect nw h p ms s)) = content s) \<and>
      (\<forall>rq s. content (snd (nw_send nw rq s)) = content s))"

lemma stream_chunks_ok:
  assumes "files_laws content ho" "stream_chunks ho err path maxBytes end1 cs n s = (StreamOk, s1)"
    "content s path = Some b" "length b = n" "n \<le> maxBytes"
  shows "content s1 path = Some (b @ concat cs) \<and> length (b @ concat cs) \<le> maxBytes \<and> end1 = None"
  using assms(2-5)
proof (induction cs arbitrary: n s b)
  case Nil
  then show ?case by (auto split: option.splits)
next
  case (Cons c cs)
  obtain r s2 where a: "ho_append ho path c s = (r, s2)" by (cases "ho_append ho path c s")
  from Cons.prems a have le: "n + length c \<le> maxBytes" and r: "r = None"
    and st: "stream_chunks ho err path maxBytes end1 cs (n + length c) s2 = (StreamOk, s1)"
    by (auto split: if_splits option.splits)
  have "content s2 path = Some (b @ c)"
    using assms(1) a r Cons.prems(2) unfolding files_laws_def by (metis fst_conv snd_conv fun_upd_same)
  from Cons.IH [OF st this _ le] Cons.prems(3) show ?case by simp
qed

lemma discard_gone:
  assumes "files_laws content ho" "discard_download ho path e s = (Inl e', s1)" "content s1 path \<noteq> None"
  shows "\<exists>msg. ho_rm ho path s = (Some msg, s1) \<and> e' = OtherError msg"
proof (cases "ho_rm ho path s")
  case (Pair r s2)
  then have "r = None \<Longrightarrow> content s2 path = None" using assms(1) unfolding files_laws_def by (metis fst_conv snd_conv fun_upd_same)
  with Pair assms(2,3) show ?thesis by (cases r) (simp_all add: discard_download_def)
qed


text \<open>A host with the files of the state and no failures.\<close>

type_synonym demo_state = "(string \<rightharpoonup> string) \<times> http_request list"

definition demo_host :: "demo_state host" where
  "demo_host =
     \<lparr>ho_mkdtemp = (\<lambda>pre s. (Inr (''/tmp/'' @ pre), s)), ho_mkdir = (\<lambda>p s. (None, s)),
      ho_rm = (\<lambda>p s. (None, ((fst s)(p := None), snd s))), ho_size = (\<lambda>p s. (Inr 0, s)),
      ho_create = (\<lambda>p s. (None, ((fst s)(p \<mapsto> []), snd s))),
      ho_append = (\<lambda>p c s. (None, ((fst s)(p := map_option (\<lambda>b. b @ c) (fst s p)), snd s)))\<rparr>"

definition demo_wire :: "int \<Rightarrow> string list \<Rightarrow> demo_state network" where
  "demo_wire status chunks =
     \<lparr>nw_connect = (\<lambda>h p ms s. (Inr (Some ''der''), s)),
      nw_send = (\<lambda>rq s. (Inr \<lparr>hs_status = status, hs_headers = [(HEAD_COMMIT_HEADER, replicate 40 (CHR ''a''))],
        hs_chunks = chunks, hs_failure = None\<rparr>, (fst s, snd s @ [rq]))),
      nw_fingerprint = (\<lambda>der. replicate 64 (CHR ''b'')), nw_json = (\<lambda>t. None), nw_text = (\<lambda>j. []),
      nw_instant = (\<lambda>t. None), nw_stamp = (\<lambda>i. [])\<rparr>"

lemma demo_host_laws: "files_laws fst demo_host" "network_apart fst (demo_wire status chunks)"
  by (auto simp: files_laws_def network_apart_def demo_host_def demo_wire_def)


end
