(* ===== verification/ArtifactApply.thy ===== *)
theory ArtifactApply imports Client begin

text \<open>
  \<^verbatim>\<open>packages/daemon/src/workspace/artifact-apply.ts\<close> and \<^verbatim>\<open>packages/daemon/src/mcp/artifact-applier.ts\<close>: the gate
  through which a worker's bundle enters the user's repository, and the download in front of it. git is the parameter of
  the git wrapper; what it does to refs is stated where a property needs it.
\<close>

section \<open>The gate\<close>

text \<open>\<open>ai_between\<close> is what happens to the world between the checks and the fetch (the test seam of the code, and the
  window in which the bundle file may be swapped); \<open>ai_aborted\<close> reads the signal; \<open>ai_issues\<close> is zod's message.\<close>

record 's apply_input =
  ai_sourceRepoPath :: string
  ai_artifact :: write_artifact
  ai_bundlePath :: string
  ai_hooksPathDir :: string
  ai_timeoutMs :: "int option"
  ai_aborted :: "'s \<Rightarrow> bool"
  ai_between :: "'s \<Rightarrow> 's"
  ai_issues :: string

definition never_ran :: "git_result \<Rightarrow> bool" where
  "never_ran r = (gr_timedOut r \<or> gr_code r = None)"

definition contains_text :: "string \<Rightarrow> string \<Rightarrow> bool" where
  "contains_text t s = list_ex (\<lambda>i. take (length t) (drop i s) = t) [0..<Suc (length s)]"

definition target_ref :: "write_artifact \<Rightarrow> string" where
  "target_ref a = ''refs/heads/'' @ art_branchName a"

definition source_git :: "'s apply_input \<Rightarrow> worker_git" where
  "source_git inp = \<lparr>wg_repoDir = ai_sourceRepoPath inp, wg_hooksPath = ai_hooksPathDir inp,
     wg_timeoutMs = timeout_or DEFAULT_GIT_TIMEOUT_MS (ai_timeoutMs inp)\<rparr>"

definition verdict_or_failure :: "'s apply_input \<Rightarrow> git_result \<Rightarrow> apply_code \<Rightarrow> string \<Rightarrow> 's \<Rightarrow> apply_code \<times> string" where
  "verdict_or_failure inp r code msg s =
     (if ai_aborted inp s \<or> never_ran r then (GIT_FAILURE, ''git was interrupted: '' @ describe_git_failure r)
      else (code, msg))"

text \<open>Step 2, on the advertised refs.\<close>

definition heads_refusal :: "write_artifact \<Rightarrow> (string, string) jmap \<Rightarrow> (apply_code \<times> string) option" where
  "heads_refusal a heads =
     (if length heads \<noteq> 1 then
        Some (REF_MISMATCH, ''bundle advertises '' @ show_nat (length heads) @ '' refs; expected exactly '' @ target_ref a)
      else case jmap_get heads (target_ref a) of
        None \<Rightarrow> Some (REF_MISMATCH, ''bundle's single ref is not '' @ target_ref a)
      | Some tip \<Rightarrow>
          if tip \<noteq> art_headCommit a then
            Some (REF_MISMATCH, ''bundle advertises '' @ target_ref a @ '' at '' @ tip @ '', but the artifact claims '' @
              art_headCommit a)
          else None)"

definition fetch_call :: "'s apply_input \<Rightarrow> git_call" where
  "fetch_call inp = worker_call (source_git inp) (ai_sourceRepoPath inp)
     [''fetch'', ''--no-tags'', ''--end-of-options'', ai_bundlePath inp,
      target_ref (ai_artifact inp) @ '':'' @ target_ref (ai_artifact inp)]"

definition reread_call :: "'s apply_input \<Rightarrow> git_call" where
  "reread_call inp = worker_call (source_git inp) (ai_sourceRepoPath inp)
     [''rev-parse'', ''--verify'', ''--quiet'', target_ref (ai_artifact inp)]"

definition fetch_refusal :: "'s apply_input \<Rightarrow> git_result \<Rightarrow> 's \<Rightarrow> apply_code \<times> string" where
  "fetch_refusal inp r s =
     (if ai_aborted inp s \<or> never_ran r then (GIT_FAILURE, ''git fetch was interrupted: '' @ describe_git_failure r)
      else if contains_text ''non-fast-forward'' (gr_stderr r) \<or> contains_text ''[rejected]'' (gr_stderr r) then
        (NON_FAST_FORWARD, target_ref (ai_artifact inp) @ '' already exists and does not fast-forward to '' @
           art_headCommit (ai_artifact inp))
      else (GIT_FAILURE, ''git fetch failed: '' @ describe_git_failure r))"

text \<open>Step 5: what the fetch delivered.\<close>

definition check_delivered :: "'s apply_input \<Rightarrow> git_result \<Rightarrow> (apply_code \<times> string) + string" where
  "check_delivered inp r =
     (let a = ai_artifact inp; tip = trim_text (gr_stdout r)
      in if \<not> git_ok r \<or> \<not> commit_hash_ok tip then
           Inl (GIT_FAILURE, ''could not re-read '' @ target_ref a @ '' after the fetch: '' @ describe_git_failure r)
         else if tip \<noteq> art_headCommit a then
           Inl (REF_MISMATCH, ''post-fetch check: '' @ target_ref a @ '' WAS advanced to '' @ tip @
             '', which differs from the claimed '' @ art_headCommit a @
             '' (bundle changed between verification and fetch). The write stayed inside the reserved refs/heads/homefleet/ namespace, but the branch should be inspected or deleted, not reviewed as the job's result.'')
         else Inr (art_branchName a))"

definition apply_write_artifact :: "'s git \<Rightarrow> 's apply_input \<Rightarrow> 's \<Rightarrow> ((apply_code \<times> string) + string) \<times> 's" where
  "apply_write_artifact git inp s =
     (let a = ai_artifact inp; w = source_git inp
      in if \<not> write_artifact_ok a then
           (Inl (REF_MISMATCH, ''write artifact failed schema re-validation: '' @ ai_issues inp), s)
      else case list_bundle_heads_detailed git w (ai_bundlePath inp) s of
        ((r1, heads), s1) \<Rightarrow>
          if heads = [] then
            (Inl (verdict_or_failure inp r1 BAD_BUNDLE
              (ai_bundlePath inp @ '' is not a readable git bundle (no advertised refs)'') s1), s1)
          else case heads_refusal a heads of Some e \<Rightarrow> (Inl e, s1)
          | None \<Rightarrow>
            (case verify_bundle_detailed git w (ai_bundlePath inp) s1 of
               (r2, s2) \<Rightarrow>
                 if \<not> git_ok r2 then
                   (Inl (verdict_or_failure inp r2 BAD_BUNDLE (''git bundle verify refused '' @ ai_bundlePath inp @
                     '' (corrupt bundle or missing prerequisite commit)'') s2), s2)
                 else case git (fetch_call inp) (ai_between inp s2) of
                   (r3, s3) \<Rightarrow>
                     if \<not> git_ok r3 then (Inl (fetch_refusal inp r3 s3), s3)
                     else case git (reread_call inp) s3 of (r4, s4) \<Rightarrow> (check_delivered inp r4, s4)))"

section \<open>The applier\<close>

definition applier_input :: "string \<Rightarrow> write_artifact \<Rightarrow> string \<Rightarrow> string \<Rightarrow> 's apply_input" where
  "applier_input repoPath a dir issues =
     \<lparr>ai_sourceRepoPath = repoPath, ai_artifact = a, ai_bundlePath = dir @ ''/artifact.bundle'',
      ai_hooksPathDir = dir @ ''/no-hooks'', ai_timeoutMs = None, ai_aborted = (\<lambda>s. False), ai_between = (\<lambda>s. s),
      ai_issues = issues\<rparr>"

definition fetch_and_apply ::
    "'s network \<Rightarrow> 's host \<Rightarrow> 's git \<Rightarrow> nat \<Rightarrow> hfp_target \<Rightarrow> string \<Rightarrow> write_artifact \<Rightarrow> string \<Rightarrow> string \<Rightarrow> string \<Rightarrow> 's \<Rightarrow>
     (client_error + string) \<times> 's" where
  "fetch_and_apply nw ho git maxBundleBytes t jobId a repoPath issues dir s =
     (case ho_mkdir ho (dir @ ''/no-hooks'') s of
        (Some msg, s1) \<Rightarrow> (Inl (OtherError msg), s1)
      | (None, s1) \<Rightarrow>
          (case fetch_job_artifact nw ho t jobId (dir @ ''/artifact.bundle'') maxBundleBytes s1 of
             (Inl e, s2) \<Rightarrow> (Inl e, s2)
           | (Inr head, s2) \<Rightarrow>
               if head \<noteq> art_headCommit a then
                 (Inl (ApplyRefused REF_MISMATCH (''the worker's artifact download claims head '' @ head @
                    '' but the job result claims '' @ art_headCommit a @
                    ''; refusing to apply an artifact the worker cannot describe consistently'')), s2)
               else apfst (map_sum (\<lambda>(c, m). ApplyRefused c m) id)
                      (apply_write_artifact git (applier_input repoPath a dir issues) s2)))"

definition apply_delegated_artifact ::
    "'s network \<Rightarrow> 's host \<Rightarrow> 's git \<Rightarrow> nat \<Rightarrow> hfp_target \<Rightarrow> string \<Rightarrow> write_artifact \<Rightarrow> string \<Rightarrow> string \<Rightarrow> 's \<Rightarrow>
     (client_error + string) \<times> 's" where
  "apply_delegated_artifact nw ho git maxBundleBytes t jobId a repoPath issues s =
     (case ho_mkdtemp ho ''homefleet-artifact-in-'' s of
        (Inl msg, s1) \<Rightarrow> (Inl (OtherError msg), s1)
      | (Inr dir, s1) \<Rightarrow>
          finally_rm ho dir (fetch_and_apply nw ho git maxBundleBytes t jobId a repoPath issues dir s1))"

section \<open>What git does to refs\<close>

text \<open>What the gate relies on in git, for the four commands it runs, with the configuration they carry (no hooks, no \<open>ext\<close>
  transport, no submodule recursion) and for a reserved branch only. \<open>repo_at\<close> tells which repository a path is in, so that
  aliases and linked worktrees are one repository; \<open>refs\<close> reads what a ref of it holds, and no reserved branch is a symbolic
  ref; \<open>descends\<close> is ancestry of commits, which never changes.
  The bundle commands and \<open>rev-parse\<close> leave every ref alone; \<open>rev-parse --verify\<close> of the full name of a branch that exists
  prints its commit. A fetch with \<open>--no-tags\<close> and the one refspec \<open>branch:branch\<close>, without a plus sign, moves only that
  branch of that repository, never removes it and moves it only forward, also when it fails or is killed; and when it
  succeeds the branch is there.\<close>

definition git_laws ::
    "(string \<Rightarrow> 'r) \<Rightarrow> ('s \<Rightarrow> 'r \<Rightarrow> string \<Rightarrow> string option) \<Rightarrow> (string \<Rightarrow> string \<Rightarrow> bool) \<Rightarrow> 's git \<Rightarrow> bool" where
  "git_laws repo_at refs descends git =
     ((\<forall>w repo verb b s. verb \<in> {''list-heads'', ''verify''} \<longrightarrow>
         refs (snd (git (worker_call w repo [''bundle'', verb, ''--end-of-options'', b]) s)) = refs s) \<and>
      (\<forall>w repo b s. write_branch_ok b \<longrightarrow>
         (case git (worker_call w repo [''rev-parse'', ''--verify'', ''--quiet'', ''refs/heads/'' @ b]) s of
            (r, s') \<Rightarrow> refs s' = refs s \<and>
              (\<forall>h. git_ok r \<and> refs s (repo_at repo) (''refs/heads/'' @ b) = Some h \<longrightarrow> trim_text (gr_stdout r) = h))) \<and>
      (\<forall>w repo f b s. write_branch_ok b \<longrightarrow>
         (case git (worker_call w repo [''fetch'', ''--no-tags'', ''--end-of-options'', f,
                      (''refs/heads/'' @ b) @ '':'' @ (''refs/heads/'' @ b)]) s of
            (r, s') \<Rightarrow>
              (\<forall>repo' ref'. (repo', ref') \<noteq> (repo_at repo, ''refs/heads/'' @ b) \<longrightarrow> refs s' repo' ref' = refs s repo' ref') \<and>
              (\<forall>h. refs s (repo_at repo) (''refs/heads/'' @ b) = Some h \<longrightarrow>
                 (\<exists>h'. refs s' (repo_at repo) (''refs/heads/'' @ b) = Some h' \<and> (h' = h \<or> descends h' h))) \<and>
              (git_ok r \<longrightarrow> refs s' (repo_at repo) (''refs/heads/'' @ b) \<noteq> None))))"

lemma quiet_bundle:
  "git_laws repo_at refs descends git \<Longrightarrow> verb \<in> {''list-heads'', ''verify''} \<Longrightarrow>
     refs (snd (git (worker_call w d [''bundle'', verb, ''--end-of-options'', b]) s)) = refs s"
  by (rule git_laws_def [THEN iffD1, THEN conjunct1, rule_format])

lemma reread_laws:
  assumes "git_laws repo_at refs descends git" "write_branch_ok (art_branchName (ai_artifact inp))"
    "git (reread_call inp) s = (r, s')"
  shows "refs s' = refs s"
    and "git_ok r \<Longrightarrow> refs s (repo_at (ai_sourceRepoPath inp)) (target_ref (ai_artifact inp)) = Some h \<Longrightarrow>
      trim_text (gr_stdout r) = h"
proof -
  have "case git (reread_call inp) s of (r, s') \<Rightarrow> refs s' = refs s \<and>
      (\<forall>h. git_ok r \<and> refs s (repo_at (ai_sourceRepoPath inp)) (target_ref (ai_artifact inp)) = Some h \<longrightarrow> trim_text (gr_stdout r) = h)"
    using assms(1) [unfolded git_laws_def, THEN conjunct2, THEN conjunct1, rule_format, OF assms(2)]
    unfolding reread_call_def target_ref_def .
  with assms(3) show "refs s' = refs s"
    "git_ok r \<Longrightarrow> refs s (repo_at (ai_sourceRepoPath inp)) (target_ref (ai_artifact inp)) = Some h \<Longrightarrow> trim_text (gr_stdout r) = h"
    by auto
qed

lemma fetch_laws:
  assumes "git_laws repo_at refs descends git" "write_branch_ok (art_branchName (ai_artifact inp))"
    "git (fetch_call inp) s = (r, s')"
  shows "(repo', ref') \<noteq> (repo_at (ai_sourceRepoPath inp), target_ref (ai_artifact inp)) \<Longrightarrow> refs s' repo' ref' = refs s repo' ref'"
    and "refs s (repo_at (ai_sourceRepoPath inp)) (target_ref (ai_artifact inp)) = Some h \<Longrightarrow>
      \<exists>h'. refs s' (repo_at (ai_sourceRepoPath inp)) (target_ref (ai_artifact inp)) = Some h' \<and> (h' = h \<or> descends h' h)"
    and "git_ok r \<Longrightarrow> \<exists>h'. refs s' (repo_at (ai_sourceRepoPath inp)) (target_ref (ai_artifact inp)) = Some h'"
proof -
  let ?repo = "repo_at (ai_sourceRepoPath inp)" and ?ref = "target_ref (ai_artifact inp)"
  have "case git (fetch_call inp) s of (r, s') \<Rightarrow>
      (\<forall>repo' ref'. (repo', ref') \<noteq> (?repo, ?ref) \<longrightarrow> refs s' repo' ref' = refs s repo' ref') \<and>
      (\<forall>h. refs s ?repo ?ref = Some h \<longrightarrow> (\<exists>h'. refs s' ?repo ?ref = Some h' \<and> (h' = h \<or> descends h' h))) \<and>
      (git_ok r \<longrightarrow> refs s' ?repo ?ref \<noteq> None)"
    using assms(1) [unfolded git_laws_def, THEN conjunct2, THEN conjunct2, rule_format, OF assms(2)]
    unfolding fetch_call_def target_ref_def .
  with assms(3) show
    "(repo', ref') \<noteq> (?repo, ?ref) \<Longrightarrow> refs s' repo' ref' = refs s repo' ref'"
    "refs s ?repo ?ref = Some h \<Longrightarrow> \<exists>h'. refs s' ?repo ?ref = Some h' \<and> (h' = h \<or> descends h' h)"
    "git_ok r \<Longrightarrow> \<exists>h'. refs s' ?repo ?ref = Some h'"
    by auto
qed

text \<open>What the gate did to the refs, whatever it answers.\<close>

definition apply_effect ::
    "(string \<Rightarrow> 'r) \<Rightarrow> ('s \<Rightarrow> 'r \<Rightarrow> string \<Rightarrow> string option) \<Rightarrow> (string \<Rightarrow> string \<Rightarrow> bool) \<Rightarrow> 's apply_input \<Rightarrow> 's \<Rightarrow> 's \<Rightarrow> bool" where
  "apply_effect repo_at refs descends inp s s' =
     (let repo = repo_at (ai_sourceRepoPath inp); ref = target_ref (ai_artifact inp)
      in (\<forall>repo' ref'. (repo', ref') \<noteq> (repo, ref) \<longrightarrow> refs s' repo' ref' = refs s repo' ref') \<and>
         (refs s' repo ref = refs s repo ref \<or> write_branch_ok (art_branchName (ai_artifact inp)) \<and>
            (refs s repo ref = None \<or> (\<exists>h h'. refs s repo ref = Some h \<and> refs s' repo ref = Some h' \<and> descends h' h))))"

lemma apply_effect_same: "refs s' = refs s \<Longrightarrow> apply_effect repo_at refs descends inp s s'"
  by (simp add: apply_effect_def Let_def)

lemma apply_effect_cong:
  "refs s1 = refs s2 \<Longrightarrow> refs s1' = refs s2' \<Longrightarrow>
     apply_effect repo_at refs descends inp s1 s1' = apply_effect repo_at refs descends inp s2 s2'"
  by (simp add: apply_effect_def Let_def)

lemma fetch_effect:
  assumes "git_laws repo_at refs descends git" "write_branch_ok (art_branchName (ai_artifact inp))"
    "git (fetch_call inp) s = (r, s')"
  shows "apply_effect repo_at refs descends inp s s'"
proof (cases "refs s (repo_at (ai_sourceRepoPath inp)) (target_ref (ai_artifact inp))")
  case None
  then show ?thesis using assms(2) fetch_laws(1) [OF assms] by (simp add: apply_effect_def Let_def)
next
  case (Some h)
  from fetch_laws(2) [OF assms Some] fetch_laws(1) [OF assms] Some assms(2)
  show ?thesis by (auto simp: apply_effect_def Let_def)
qed

lemma apply_confined_to_reserved_ref_facts:
  assumes "git_laws repo_at refs descends git" "\<And>s. refs (ai_between inp s) = refs s"
  shows "apply_effect repo_at refs descends inp s (snd (apply_write_artifact git inp s)) \<and>
    (\<not> write_artifact_ok (ai_artifact inp) \<longrightarrow> apply_write_artifact git inp s = (fst (apply_write_artifact git inp s), s)) \<and>
    (case fst (apply_write_artifact git inp s) of
       Inr b \<Rightarrow> write_artifact_ok (ai_artifact inp) \<and> b = art_branchName (ai_artifact inp) \<and>
         refs (snd (apply_write_artifact git inp s)) (repo_at (ai_sourceRepoPath inp)) (''refs/heads/'' @ b) =
           Some (art_headCommit (ai_artifact inp))
     | Inl e \<Rightarrow> True)"
proof (cases "write_artifact_ok (ai_artifact inp)")
  case False
  then show ?thesis by (simp add: apply_write_artifact_def Let_def apply_effect_same)
next
  case ok: True
  then have b: "write_branch_ok (art_branchName (ai_artifact inp))" by (simp add: write_artifact_ok_def)
  let ?w = "source_git inp"
  obtain r1 heads s1 where l: "list_bundle_heads_detailed git ?w (ai_bundlePath inp) s = ((r1, heads), s1)"
    by (metis prod.collapse)
  have e1: "refs s1 = refs s"
  proof -
    have s1: "s1 = snd (git (worker_call ?w (wg_repoDir ?w) [''bundle'', ''list-heads'', ''--end-of-options'', ai_bundlePath inp]) s)"
      using l by (auto simp: list_bundle_heads_detailed_def apfst_def map_prod_def split: prod.splits)
    show ?thesis unfolding s1 by (rule quiet_bundle [OF assms(1)]) simp
  qed
  obtain r2 s2 where v: "verify_bundle_detailed git ?w (ai_bundlePath inp) s1 = (r2, s2)" by fastforce
  have e2: "refs s2 = refs s"
    using v e1 quiet_bundle [OF assms(1), of "''verify''" ?w "wg_repoDir ?w" "ai_bundlePath inp" s1]
    by (simp add: verify_bundle_detailed_def)
  let ?s2 = "ai_between inp s2"
  obtain r3 s3 where f: "git (fetch_call inp) ?s2 = (r3, s3)" by fastforce
  have e3: "apply_effect repo_at refs descends inp s s3"
    using fetch_effect [OF assms(1) b f] e2 assms(2) apply_effect_cong [of refs ?s2 s s3 s3] by simp
  obtain r4 s4 where p: "git (reread_call inp) s3 = (r4, s4)" by fastforce
  note e4 = reread_laws(1) [OF assms(1) b p]
  show ?thesis
  proof (cases "heads = [] \<or> heads_refusal (ai_artifact inp) heads \<noteq> None \<or> \<not> git_ok r2")
    case True
    then have "\<exists>e s'. apply_write_artifact git inp s = (Inl e, s') \<and> refs s' = refs s"
      using ok l v e1 e2 by (auto simp: apply_write_artifact_def Let_def split: option.split)
    then show ?thesis using ok by (auto simp: apply_effect_same)
  next
    case False
    then have h: "heads \<noteq> []" "heads_refusal (ai_artifact inp) heads = None" "git_ok r2" by blast+
    then have a: "apply_write_artifact git inp s =
        (if \<not> git_ok r3 then (Inl (fetch_refusal inp r3 s3), s3) else (check_delivered inp r4, s4))"
      using ok l v f p by (simp add: apply_write_artifact_def Let_def)
    show ?thesis
    proof (cases "git_ok r3")
      case fail: False
      then show ?thesis using a e3 ok by simp
    next
      case True
      have "apply_effect repo_at refs descends inp s s4" using e3 e4 apply_effect_cong [of refs s s s4 s3] by simp
      moreover have "write_artifact_ok (ai_artifact inp) \<and> b' = art_branchName (ai_artifact inp) \<and>
          refs s4 (repo_at (ai_sourceRepoPath inp)) (''refs/heads/'' @ b') = Some (art_headCommit (ai_artifact inp))"
        if c: "check_delivered inp r4 = Inr b'" for b'
      proof -
        from c have g: "git_ok r4" "trim_text (gr_stdout r4) = art_headCommit (ai_artifact inp)" "b' = art_branchName (ai_artifact inp)"
          by (auto simp: check_delivered_def Let_def split: if_splits)
        from fetch_laws(3) [OF assms(1) b f True] obtain h where
          h: "refs s3 (repo_at (ai_sourceRepoPath inp)) (target_ref (ai_artifact inp)) = Some h" by blast
        from reread_laws(2) [OF assms(1) b p g(1) h] g h e4 ok show ?thesis by (simp add: target_ref_def)
      qed
      ultimately show ?thesis using a True ok by (cases "check_delivered inp r4") auto
    qed
  qed
qed

text \<open>C12 The user's repository is safe from a write job: whatever artifact the job result claims and whatever the bundle
  holds, and even when the bundle is swapped between the checks and the fetch (which itself moves no ref), the gate changes no ref of
  any repository but \<open>refs/heads/homefleet/\<close> and twelve hex digits of the mapped one, that one only when it is new or forward,
  and no ref at all for an artifact the schema refuses; this with git as documented for the four commands the gate runs, on a
  reserved branch that is not a symbolic ref; and when it reports the branch, the artifact was valid and the ref is at exactly the
  commit it claims.\<close>

theorem apply_confined_to_reserved_ref:
  assumes "git_laws repo_at refs descends git" "\<And>s. refs (ai_between inp s) = refs s"
  shows "apply_effect repo_at refs descends inp s (snd (apply_write_artifact git inp s)) \<and>
    (\<not> write_artifact_ok (ai_artifact inp) \<longrightarrow> apply_write_artifact git inp s = (fst (apply_write_artifact git inp s), s)) \<and>
    (case fst (apply_write_artifact git inp s) of
       Inr b \<Rightarrow> write_artifact_ok (ai_artifact inp) \<and> b = art_branchName (ai_artifact inp) \<and>
         refs (snd (apply_write_artifact git inp s)) (repo_at (ai_sourceRepoPath inp)) (''refs/heads/'' @ b) =
           Some (art_headCommit (ai_artifact inp))
     | Inl e \<Rightarrow> True)"
  by (rule apply_confined_to_reserved_ref_facts [OF assms])

text \<open>A git that works on a part of a larger world.\<close>

lemma git_laws_lift:
  assumes "git_laws repo_at refs descends git"
    "\<And>c w. fst (git' c w) = fst (git c (f w))" "\<And>c w. f (snd (git' c w)) = snd (git c (f w))"
  shows "git_laws repo_at (\<lambda>w. refs (f w)) descends git'"
  using assms(1) unfolding git_laws_def case_prod_beta assms(2,3) by (elim conjE, intro conjI) simp_all

section \<open>A small git\<close>

text \<open>A git of two commits, the second the child of the first, with refs per repository and one bundle with one head: a fetch
  creates a ref or moves it forward, and rejects everything else.\<close>

type_synonym git_state = "(string \<times> string \<Rightarrow> string option) \<times> (string \<times> string)"

definition git_reply :: "int \<Rightarrow> string \<Rightarrow> string \<Rightarrow> git_result" where
  "git_reply code out err = \<lparr>gr_code = Some code, gr_stdout = out, gr_stderr = err, gr_timedOut = False, gr_spawnError = None\<rparr>"

definition small_refs :: "git_state \<Rightarrow> string \<Rightarrow> string \<Rightarrow> string option" where
  "small_refs s repo ref = fst s (repo, ref)"

definition small_parent :: "string \<Rightarrow> string option" where
  "small_parent h = (if h = replicate 40 (CHR ''a'') then Some (replicate 40 (CHR ''0'')) else None)"

definition small_descends :: "string \<Rightarrow> string \<Rightarrow> bool" where
  "small_descends h' h = (h' = h \<or> small_parent h' = Some h)"

definition git_fetches :: "string \<Rightarrow> string \<Rightarrow> git_state \<Rightarrow> git_result \<times> git_state" where
  "git_fetches repo ref s =
     (if ref \<noteq> fst (snd s) then (git_reply 128 [] ''no such ref'', s)
      else if (case fst s (repo, ref) of None \<Rightarrow> True | Some h \<Rightarrow> small_descends (snd (snd s)) h) then
        (git_reply 0 [] [], ((fst s)((repo, ref) := Some (snd (snd s))), snd s))
      else (git_reply 1 [] ''! [rejected] (non-fast-forward)'', s))"

definition git_reads :: "string \<Rightarrow> string \<Rightarrow> git_state \<Rightarrow> git_result \<times> git_state" where
  "git_reads repo ref s =
     (case fst s (repo, ref) of
        None \<Rightarrow> (git_reply 1 [] [], s)
      | Some h \<Rightarrow> if trim_text h = h then (git_reply 0 h [], s) else (git_reply 1 [] [], s))"

definition small_git :: "git_state git" where
  "small_git c s =
     (case gc_cwd c of
        None \<Rightarrow> (git_reply 128 [] [], s)
      | Some repo \<Rightarrow>
          if gc_args c = [] then (git_reply 1 [] [], s)
          else if hd (gc_args c) = ''bundle'' then (git_reply 0 (head_line (snd s) @ [CHR 0x0A]) [], s)
          else if hd (gc_args c) = ''fetch'' then git_fetches repo (takeWhile (\<lambda>x. x \<noteq> CHR '':'') (last (gc_args c))) s
          else if hd (gc_args c) = ''rev-parse'' then git_reads repo (last (gc_args c)) s
          else (git_reply 1 [] [], s))"

lemma branch_plain: "write_branch_ok b \<Longrightarrow> CHR ''+'' \<notin> set (''refs/heads/'' @ b) \<and> CHR '':'' \<notin> set (''refs/heads/'' @ b)"
proof -
  assume "write_branch_ok b"
  then obtain h where h: "b = WRITE_BRANCH_PREFIX @ h" "lower_hex 12 h" by (auto simp: write_branch_ok_def)
  have "\<not> is_lower_hex (CHR ''+'')" "\<not> is_lower_hex (CHR '':'')" by (simp_all add: is_lower_hex_def is_digit_def)
  then have "CHR ''+'' \<notin> set h" "CHR '':'' \<notin> set h" using h(2) by (auto simp: lower_hex_def list_all_iff)
  then show ?thesis by (simp add: h(1) WRITE_BRANCH_PREFIX_def)
qed

lemma small_git_laws: "git_laws id small_refs small_descends small_git"
proof -
  have q: "snd (small_git (worker_call w repo (''bundle'' # xs)) s) = s" for w repo xs s
    by (simp add: small_git_def worker_call_def)
  have r: "small_git (worker_call w repo [''rev-parse'', a, b, ref]) s = git_reads repo ref s" for w repo a b ref s
    by (simp add: small_git_def worker_call_def)
  have rr: "case git_reads repo ref s of (r, s') \<Rightarrow> small_refs s' = small_refs s \<and>
      (\<forall>h. git_ok r \<and> small_refs s repo ref = Some h \<longrightarrow> trim_text (gr_stdout r) = h)" for repo ref s
    by (auto simp: git_reads_def small_refs_def git_ok_def git_reply_def split: option.split)
  have tw: "takeWhile (\<lambda>x. x \<noteq> CHR '':'') (ref @ CHR '':'' # ref) = ref" if "CHR '':'' \<notin> set ref" for ref :: string
    using that by (subst takeWhile_append2) auto
  have f: "small_git (worker_call w repo [''fetch'', a, b, f, (''refs/heads/'' @ br) @ '':'' @ (''refs/heads/'' @ br)]) s =
      git_fetches repo (''refs/heads/'' @ br) s" if "write_branch_ok br" for w repo a b f br s
  proof -
    have "CHR '':'' \<notin> set (''refs/heads/'' @ br)" using branch_plain [OF that] by blast
    from tw [OF this] show ?thesis by (simp add: small_git_def worker_call_def)
  qed
  have ff: "case git_fetches repo ref s of (r, s') \<Rightarrow>
      (\<forall>repo' ref'. (repo', ref') \<noteq> (repo, ref) \<longrightarrow> small_refs s' repo' ref' = small_refs s repo' ref') \<and>
      (\<forall>h. small_refs s repo ref = Some h \<longrightarrow> (\<exists>h'. small_refs s' repo ref = Some h' \<and> (h' = h \<or> small_descends h' h))) \<and>
      (git_ok r \<longrightarrow> small_refs s' repo ref \<noteq> None)" for repo ref s
    by (auto simp: git_fetches_def small_refs_def git_reply_def git_ok_def split: option.split)
  show ?thesis unfolding git_laws_def id_apply
  proof (intro conjI allI impI)
    show "small_refs (snd (small_git (worker_call w repo [''bundle'', verb, ''--end-of-options'', b]) s)) = small_refs s" for w repo verb b s
      by (simp only: q)
    show "case small_git (worker_call w repo [''rev-parse'', ''--verify'', ''--quiet'', ''refs/heads/'' @ b]) s of
        (r, s') \<Rightarrow> small_refs s' = small_refs s \<and>
          (\<forall>h. git_ok r \<and> small_refs s repo (''refs/heads/'' @ b) = Some h \<longrightarrow> trim_text (gr_stdout r) = h)" for w repo b s
      unfolding r by (rule rr)
    show "case small_git (worker_call w repo [''fetch'', ''--no-tags'', ''--end-of-options'', fl,
          (''refs/heads/'' @ b) @ '':'' @ (''refs/heads/'' @ b)]) s of
        (r, s') \<Rightarrow>
          (\<forall>repo' ref'. (repo', ref') \<noteq> (repo, ''refs/heads/'' @ b) \<longrightarrow> small_refs s' repo' ref' = small_refs s repo' ref') \<and>
          (\<forall>h. small_refs s repo (''refs/heads/'' @ b) = Some h \<longrightarrow>
             (\<exists>h'. small_refs s' repo (''refs/heads/'' @ b) = Some h' \<and> (h' = h \<or> small_descends h' h))) \<and>
          (git_ok r \<longrightarrow> small_refs s' repo (''refs/heads/'' @ b) \<noteq> None)" if b: "write_branch_ok b" for w repo fl b s
      unfolding f [OF b] by (rule ff)
  qed
qed

definition demo_artifact :: write_artifact where
  "demo_artifact = \<lparr>art_branchName = ''homefleet/0123456789ab'', art_baseCommit = replicate 40 (CHR ''0''),
     art_headCommit = replicate 40 (CHR ''a''), art_diffStat = \<lparr>filesChanged = 1, insertions = 1, deletions = 0\<rparr>,
     art_commitMessage = [0x66]\<rparr>"

definition demo_input :: "git_state apply_input" where
  "demo_input = \<lparr>ai_sourceRepoPath = ''/repo'', ai_artifact = demo_artifact, ai_bundlePath = ''/tmp/b'',
     ai_hooksPathDir = ''/tmp/h'', ai_timeoutMs = None, ai_aborted = (\<lambda>s. False),
     ai_between = (\<lambda>s. (fst s, (fst (snd s), replicate 40 (CHR ''e'')))), ai_issues = []\<rparr>"

text \<open>The bundle is swapped in the window: the gate refuses, and only the reserved ref was touched.\<close>

theorem apply_confined_to_reserved_ref_witness:
  "apply_effect id small_refs small_descends demo_input
     (Map.empty, (target_ref demo_artifact, art_headCommit demo_artifact))
     (snd (apply_write_artifact small_git demo_input (Map.empty, (target_ref demo_artifact, art_headCommit demo_artifact))))"
proof -
  have "small_refs (ai_between demo_input s) = small_refs s" for s by (simp add: demo_input_def small_refs_def fun_eq_iff)
  from apply_confined_to_reserved_ref [OF small_git_laws this] show ?thesis by blast
qed

end
