(* ===== verification/McpTools.thy ===== *)
theory McpTools imports ArtifactApply Delegation Aggregator TrustStore begin

text \<open>
  \<^verbatim>\<open>packages/daemon/src/mcp/node-directory.ts\<close>, \<^verbatim>\<open>repo-resolver.ts\<close> and \<^verbatim>\<open>tools.ts\<close>: the delegating side, from a tool
  call of the local agent to the requests on the wire and the refs of its own repository. A handler takes the delegation
  registry and the world and gives a tool result with both; the world is moved by the network, the host and git alone.
  The schemas of the tool inputs have accepted the arguments. An ellipsis is written as three dots.
\<close>

section \<open>The node directory\<close>

definition DEFAULT_HELLO_TIMEOUT_MS :: int where "DEFAULT_HELLO_TIMEOUT_MS = 2000"

record node_endpoint =
  ep_host :: string
  ep_port :: nat
  ep_name :: "string option"

record node_entry =
  ne_deviceId :: string
  ne_name :: string
  ne_endpoint :: "(string \<times> nat) option"
  ne_reachable :: bool
  ne_nodeInfo :: "node_info option"

record resolved_node =
  rn_deviceId :: string
  rn_name :: string
  rn_endpoint :: "(string \<times> nat) option"

text \<open>\<open>endpointSourceFromDiscovery\<close>: live candidates first, then the known nodes; either may be missing.\<close>

definition endpoint_from_discovery :: "candidate list option \<Rightarrow> known_node list option \<Rightarrow> string \<Rightarrow> node_endpoint option" where
  "endpoint_from_discovery live known d =
     (case Option.bind live (find (\<lambda>c. ca_deviceId c = Some d)) of
        Some c \<Rightarrow> Some \<lparr>ep_host = ca_host c, ep_port = ca_port c, ep_name = ca_name c\<rparr>
      | None \<Rightarrow>
          (case Option.bind known (find (\<lambda>n. kn_deviceId n = d)) of
             Some n \<Rightarrow> Some \<lparr>ep_host = kn_host n, ep_port = kn_port n, ep_name = kn_name n\<rparr>
           | None \<Rightarrow> None))"

text \<open>What the directory and the tools are given. The trust store, the discovery state and this node's information are read
  from the world when they are needed.\<close>

record 's collaborators =
  mc_network :: "'s network"
  mc_host :: "'s host"
  mc_git :: "'s git"
  mc_trusted :: "'s \<Rightarrow> trusted_device list"
  mc_candidates :: "'s \<Rightarrow> candidate list option"
  mc_known :: "'s \<Rightarrow> known_node list option"
  mc_ourNodeInfo :: "'s \<Rightarrow> node_info"
  mc_now :: "'s \<Rightarrow> int"
  mc_repos :: "(string \<times> string) list"
  mc_maxBundleBytes :: nat
  mc_requestTimeoutMs :: "int option"
  mc_issues :: string

definition endpoint_for :: "'s collaborators \<Rightarrow> 's \<Rightarrow> string \<Rightarrow> node_endpoint option" where
  "endpoint_for mc s d = endpoint_from_discovery (mc_candidates mc s) (mc_known mc s) d"

definition hello_target :: "string \<times> nat \<Rightarrow> string \<Rightarrow> hfp_target" where
  "hello_target e d = \<lparr>tg_host = fst e, tg_port = snd e, tg_deviceId = d, tg_timeoutMs = Some DEFAULT_HELLO_TIMEOUT_MS\<rparr>"

definition list_entry :: "'s collaborators \<Rightarrow> trusted_device \<Rightarrow> 's \<Rightarrow> node_entry \<times> 's" where
  "list_entry mc d s =
     (case endpoint_for mc s (td_deviceId d) of
        None \<Rightarrow> (\<lparr>ne_deviceId = td_deviceId d, ne_name = td_name d, ne_endpoint = None, ne_reachable = False, ne_nodeInfo = None\<rparr>, s)
      | Some e \<Rightarrow>
          let base = \<lparr>ne_deviceId = td_deviceId d, ne_name = td_name d, ne_endpoint = Some (ep_host e, ep_port e),
                ne_reachable = False, ne_nodeInfo = None\<rparr>
          in (case client_hello (mc_network mc) (hello_target (ep_host e, ep_port e) (td_deviceId d)) (mc_ourNodeInfo mc s) s of
                (Inr n, s1) \<Rightarrow> (base\<lparr>ne_reachable := True, ne_nodeInfo := Some n\<rparr>, s1)
              | (Inl _, s1) \<Rightarrow> (base, s1)))"

text \<open>The hellos run in parallel in the code; none waits for another, and each answers its own entry.\<close>

fun list_entries :: "'s collaborators \<Rightarrow> trusted_device list \<Rightarrow> 's \<Rightarrow> node_entry list \<times> 's" where
  "list_entries mc [] s = ([], s)"
| "list_entries mc (d # ds) s =
     (let (e, s1) = list_entry mc d s; (es, s2) = list_entries mc ds s1 in (e # es, s2))"

definition directory_list :: "'s collaborators \<Rightarrow> 's \<Rightarrow> node_entry list \<times> 's" where
  "directory_list mc s = list_entries mc (mc_trusted mc s) s"

definition directory_resolve :: "'s collaborators \<Rightarrow> 's \<Rightarrow> string \<Rightarrow> resolved_node option" where
  "directory_resolve mc s d =
     (case find (\<lambda>x. td_deviceId x = d) (mc_trusted mc s) of
        None \<Rightarrow> None
      | Some x \<Rightarrow> Some \<lparr>rn_deviceId = d, rn_name = td_name x,
          rn_endpoint = map_option (\<lambda>e. (ep_host e, ep_port e)) (endpoint_for mc s d)\<rparr>)"

definition advertised_models :: "'s collaborators \<Rightarrow> string \<Rightarrow> 's \<Rightarrow> string list option \<times> 's" where
  "advertised_models mc d s =
     (case Option.bind (directory_resolve mc s d) rn_endpoint of
        None \<Rightarrow> (None, s)
      | Some e \<Rightarrow>
          (case client_hello (mc_network mc) (hello_target e d) (mc_ourNodeInfo mc s) s of
             (Inl _, s1) \<Rightarrow> (None, s1)
           | (Inr n, s1) \<Rightarrow> (if ni_models n \<noteq> [] then Some (map mi_id (ni_models n)) else None, s1)))"

text \<open>\<open>createRepoResolver\<close>: the last mapping of a repo id.\<close>

definition resolve_repo_path :: "(string \<times> string) list \<Rightarrow> string \<Rightarrow> string option" where
  "resolve_repo_path repos repoId = jmap_get (foldl (\<lambda>m (r, p). jmap_set m r p) [] repos) repoId"

section \<open>Tool results\<close>

record node_caps =
  nc_roles :: "node_role list"
  nc_executors :: "executor_kind list"
  nc_models :: "model_info list"
  nc_activeJobs :: int
  nc_maxConcurrentJobs :: int

record node_summary =
  su_deviceId :: string
  su_name :: string
  su_reachable :: bool
  su_caps :: "node_caps option"

datatype artifact_surface = SurfaceApplied string | SurfaceFailed string | SurfaceNone

datatype tool_output =
    NodesOut "node_summary list"
  | DelegatedOut string string
  | StatusOut string job_status
  | ResultOut string job_status "job_result option" "artifact_surface option"

datatype tool_result = ToolOk string tool_output | ToolFail string

definition to_node_summary :: "node_entry \<Rightarrow> node_summary" where
  "to_node_summary e =
     \<lparr>su_deviceId = ne_deviceId e, su_name = ne_name e, su_reachable = ne_reachable e,
      su_caps = map_option (\<lambda>n. \<lparr>nc_roles = ni_roles n, nc_executors = ni_executors n, nc_models = ni_models n,
        nc_activeJobs = ni_activeJobs n, nc_maxConcurrentJobs = ni_maxConcurrentJobs n\<rparr>) (ne_nodeInfo e)\<rparr>"

definition quoted :: "string \<Rightarrow> string" where
  "quoted s = CHR 0x22 # s @ [CHR 0x22]"

definition suffix_text :: "string \<Rightarrow> string" where
  "suffix_text detail = (if detail = [] then ''.'' else '': '' @ detail)"

fun known_refusal :: "hfp_error_code \<Rightarrow> string option" where
  "known_refusal BUSY = Some ''The worker is at capacity and rejected the job (BUSY)''"
| "known_refusal UNSUPPORTED_JOB_TYPE = Some ''The worker has no executor for this job type (UNSUPPORTED_JOB_TYPE)''"
| "known_refusal WORKSPACE_UNAVAILABLE =
     Some ''The worker could not make the requested workspace available (WORKSPACE_UNAVAILABLE)''"
| "known_refusal UNAUTHORIZED = Some ''The worker rejected this node as not paired (UNAUTHORIZED)''"
| "known_refusal INVALID_REQUEST = Some ''The worker rejected the request as invalid (INVALID_REQUEST)''"
| "known_refusal UNKNOWN_JOB = Some ''The worker does not recognize that job (UNKNOWN_JOB)''"
| "known_refusal _ = None"

fun error_message :: "client_error \<Rightarrow> string" where
  "error_message (RequestFailed st e m) = m"
| "error_message (FingerprintMismatch x a) = ''server certificate fingerprint '' @ a @ '' does not match expected device ID '' @ x @
     ''; aborting before sending the request''"
| "error_message (RequestTimeout h p n) = ''request to '' @ h @ '':'' @ show_nat p @ '' timed out after '' @ show_int n @ ''ms''"
| "error_message (ResponseTooLarge n) = ''response body exceeded the '' @ show_nat n @ ''-byte limit; aborting''"
| "error_message (BadHeadCommit h) = (case h of
     None \<Rightarrow> ''artifact response is missing the '' @ HEAD_COMMIT_HEADER @ '' header''
   | Some _ \<Rightarrow> ''artifact response carries an invalid '' @ HEAD_COMMIT_HEADER @ '' header'')"
| "error_message (NoCertificate h p) = ''server at '' @ h @ '':'' @ show_nat p @
     '' presented no certificate; refusing to send a request to an unidentifiable peer''"
| "error_message SchemaRejected = ''the response does not match its schema''"
| "error_message (GitFailed m) = m"
| "error_message (ApplyRefused c m) = m"
| "error_message (OtherError m) = m"

definition describe_hfp_failure :: "client_error \<Rightarrow> string" where
  "describe_hfp_failure e =
     (case e of
        RequestFailed status h _ \<Rightarrow>
          (let detail = (case h of None \<Rightarrow> [] | Some x \<Rightarrow> err_message x)
           in (case Option.bind h (\<lambda>x. known_refusal (err_code x)) of
                 Some t \<Rightarrow> t
               | None \<Rightarrow> ''The worker returned an error ('' @
                   (case h of None \<Rightarrow> ''HTTP '' @ show_int status | Some x \<Rightarrow> error_code_name (err_code x)) @ '')'') @
              suffix_text detail)
      | RequestTimeout _ _ n \<Rightarrow> ''The worker did not respond within '' @ show_int n @ ''ms; it may be offline or unreachable.''
      | FingerprintMismatch _ _ \<Rightarrow> ''The node's TLS certificate did not match its paired identity (possible impersonation); the connection was refused.''
      | NoCertificate _ _ \<Rightarrow> ''The node presented no TLS certificate, so its identity could not be verified; the connection was refused.''
      | _ \<Rightarrow> ''Could not complete the request against the worker: '' @ error_message e)"

fun is_worker_failure :: "client_error \<Rightarrow> bool" where
  "is_worker_failure (RequestFailed _ _ _) = True"
| "is_worker_failure (RequestTimeout _ _ _) = True"
| "is_worker_failure (FingerprintMismatch _ _) = True"
| "is_worker_failure (NoCertificate _ _) = True"
| "is_worker_failure _ = False"

definition describe_sync_failure :: "client_error \<Rightarrow> string \<Rightarrow> string \<Rightarrow> string" where
  "describe_sync_failure e repoPath repoId =
     (if is_worker_failure e then describe_hfp_failure e
      else case e of
        GitFailed m \<Rightarrow> ''Could not read or bundle the local repo at '' @ quoted repoPath @ '' for '' @ quoted repoId @ '': '' @ m
      | _ \<Rightarrow> ''Could not sync the local repo at '' @ quoted repoPath @ '' for '' @ quoted repoId @ '': '' @ error_message e)"

fun apply_code_name :: "apply_code \<Rightarrow> string" where
  "apply_code_name BAD_BUNDLE = ''BAD_BUNDLE''"
| "apply_code_name REF_MISMATCH = ''REF_MISMATCH''"
| "apply_code_name NON_FAST_FORWARD = ''NON_FAST_FORWARD''"
| "apply_code_name GIT_FAILURE = ''GIT_FAILURE''"

definition describe_apply_failure :: "client_error \<Rightarrow> string" where
  "describe_apply_failure e =
     (case e of
        ApplyRefused c m \<Rightarrow> apply_code_name c @ '': '' @ m
      | _ \<Rightarrow> if is_worker_failure e then describe_hfp_failure e else error_message e)"

definition review_command_for :: "applied_artifact \<Rightarrow> string" where
  "review_command_for a = ''git diff '' @ aa_baseCommit a @ ''...'' @ aa_branchName a"

definition unknown_job :: "string \<Rightarrow> tool_result" where
  "unknown_job jobId = ToolFail (''Unknown job '' @ quoted jobId @ ''. It was not delegated through this MCP server (or its record has been evicted), so there is no node to query. Delegate with delegate_task, then use the returned jobId.'')"

definition no_longer_paired :: "string \<Rightarrow> string \<Rightarrow> tool_result" where
  "no_longer_paired jobId d = ToolFail (''Job '' @ jobId @ '' was delegated to node '' @ take 12 d @ ''..., which is no longer paired with this node, so it cannot be queried or canceled from here. Pair with it again to reach it.'')"

section \<open>Tasks\<close>

datatype task_input =
    ReconTask string string "string option" "int option" "int option"
  | CommandTask string string "string list option" "int option"
  | WriteTask string "string option" string "string list option" "(string \<times> string list option) option" "int option" "int option"

fun task_repo :: "task_input \<Rightarrow> string" where
  "task_repo (ReconTask r _ _ _ _) = r"
| "task_repo (CommandTask r _ _ _) = r"
| "task_repo (WriteTask r _ _ _ _ _ _) = r"

fun task_type :: "task_input \<Rightarrow> job_type" where
  "task_type (ReconTask _ _ _ _ _) = Recon"
| "task_type (CommandTask _ _ _ _) = Command"
| "task_type (WriteTask _ _ _ _ _ _ _) = Write"

fun task_model :: "task_input \<Rightarrow> string option" where
  "task_model (ReconTask _ _ m _ _) = m"
| "task_model (CommandTask _ _ _ _) = None"
| "task_model (WriteTask _ m _ _ _ _ _) = m"

definition in_range :: "int \<Rightarrow> int \<Rightarrow> int option \<Rightarrow> bool" where
  "in_range lo hi x = pred_option (\<lambda>n. lo \<le> n \<and> n \<le> hi) x"

text \<open>What the input schemas accept.\<close>

fun task_ok :: "task_input \<Rightarrow> bool" where
  "task_ok (ReconTask r p m c w) = (repo_id_ok r \<and> 1 \<le> length p \<and> length p \<le> 16384 \<and> in_range 1 200 c \<and> in_range 1000 3600000 w)"
| "task_ok (CommandTask r c a t) = (repo_id_ok r \<and> in_range 1000 3600000 t)"
| "task_ok (WriteTask r m i h v c w) = (repo_id_ok r \<and> 1 \<le> length i \<and> length i \<le> 16384 \<and>
     pred_option (\<lambda>hs. length hs \<le> 32 \<and> list_all (\<lambda>x. 1 \<le> length x \<and> length x \<le> 1024) hs) h \<and>
     pred_option (\<lambda>p. 1 \<le> length (fst p)) v \<and> in_range 1 200 c \<and> in_range 1000 3600000 w)"

definition budgets_json :: "int option \<Rightarrow> int option \<Rightarrow> json" where
  "budgets_json calls wall = JObj (opt_pair ''maxToolCalls'' JNum calls @ opt_pair ''maxWallMs'' JNum wall)"

definition workspace_json :: "string \<Rightarrow> string \<Rightarrow> json" where
  "workspace_json repoId head = JObj [(''repoId'', JStr repoId), (''headCommit'', JStr head)]"

text \<open>The object handed to \<open>JobParamsSchema.parse\<close>.\<close>

fun task_json :: "task_input \<Rightarrow> string \<Rightarrow> json" where
  "task_json (ReconTask r p m c w) head = JObj ([(''type'', JStr ''recon''), (''workspace'', workspace_json r head),
     (''prompt'', JStr p)] @ opt_pair ''model'' JStr m @ [(''budgets'', budgets_json c w)])"
| "task_json (CommandTask r c a t) head = JObj ([(''type'', JStr ''command''), (''workspace'', workspace_json r head),
     (''command'', JStr c)] @ opt_pair ''args'' encode_strings a @ opt_pair ''timeoutMs'' JNum t)"
| "task_json (WriteTask r m i h v c w) head = JObj ([(''type'', JStr ''write''), (''workspace'', workspace_json r head)] @
     opt_pair ''model'' JStr m @ [(''instructions'', JStr i)] @ opt_pair ''pathHints'' encode_strings h @
     opt_pair ''verifyCommand'' (\<lambda>(n, a). JObj ((''name'', JStr n) # opt_pair ''args'' encode_strings a)) v @
     [(''budgets'', budgets_json c w)])"

definition to_job_params :: "task_input \<Rightarrow> string \<Rightarrow> job_params option" where
  "to_job_params task head = decode_params (task_json task head)"

section \<open>The tools\<close>

definition target_for :: "'s collaborators \<Rightarrow> delegation_route \<Rightarrow> hfp_target" where
  "target_for mc r = \<lparr>tg_host = dr_host r, tg_port = dr_port r, tg_deviceId = dr_deviceId r,
     tg_timeoutMs = mc_requestTimeoutMs mc\<rparr>"

definition list_nodes :: "'s collaborators \<Rightarrow> bool \<Rightarrow> delegation_map \<Rightarrow> 's \<Rightarrow> tool_result \<times> delegation_map \<times> 's" where
  "list_nodes mc reachableOnly m s =
     (let (es, s1) = directory_list mc s;
          nodes = map to_node_summary (if reachableOnly then filter ne_reachable es else es)
      in (ToolOk (show_nat (length nodes) @ '' paired node(s), '' @ show_nat (length (filter su_reachable nodes)) @ '' reachable.'')
            (NodesOut nodes), m, s1))"

text \<open>\<open>delegate_task\<close> from the dispatch on.\<close>

definition dispatch :: "'s collaborators \<Rightarrow> string \<Rightarrow> string \<Rightarrow> string \<times> nat \<Rightarrow> hfp_target \<Rightarrow> task_input \<Rightarrow> job_params \<Rightarrow>
    delegation_map \<Rightarrow> 's \<Rightarrow> tool_result \<times> delegation_map \<times> 's" where
  "dispatch mc node name e t task params m s =
     (case client_delegate (mc_network mc) t params s of
        (Inl x, s1) \<Rightarrow> (ToolFail (describe_hfp_failure x), m, s1)
      | (Inr jobId, s1) \<Rightarrow>
          (ToolOk (''Delegated '' @ (case task_type task of Recon \<Rightarrow> ''recon'' | Command \<Rightarrow> ''command'' | Write \<Rightarrow> ''write'') @ '' job '' @ jobId @
             '' to '' @ quoted name @ ''.'') (DelegatedOut jobId node),
           record_delegation (mc_now mc s1) jobId
             \<lparr>dr_deviceId = node, dr_host = fst e, dr_port = snd e, dr_repoId = task_repo task\<rparr> (task_type task) m, s1))"

fun join_comma :: "string list \<Rightarrow> string" where
  "join_comma [] = []"
| "join_comma [x] = x"
| "join_comma (x # xs) = x @ '', '' @ join_comma xs"

definition model_refusal :: "'s collaborators \<Rightarrow> string \<Rightarrow> string \<Rightarrow> task_input \<Rightarrow> 's \<Rightarrow> string option \<times> 's" where
  "model_refusal mc node name task s =
     (case task_model task of
        None \<Rightarrow> (None, s)
      | Some x \<Rightarrow>
          (case advertised_models mc node s of
             (None, s1) \<Rightarrow> (None, s1)
           | (Some offered, s1) \<Rightarrow>
               if x \<notin> set offered then
                 (Some (''MODEL_NOT_OFFERED: node '' @ quoted name @ '' does not offer model '' @ quoted x @
                   ''. It advertises: '' @ join_comma offered @
                   ''. Name one of those, or omit task.model to use the node's default.''), s1)
               else (None, s1)))"

definition delegate_task :: "'s collaborators \<Rightarrow> string \<Rightarrow> task_input \<Rightarrow> delegation_map \<Rightarrow> 's \<Rightarrow> tool_result \<times> delegation_map \<times> 's" where
  "delegate_task mc node task m s =
     (case directory_resolve mc s node of
        None \<Rightarrow> (ToolFail (''Unknown or unpaired node '' @ quoted node @
          ''. Only paired nodes can be delegated to; use list_nodes to see them.''), m, s)
      | Some rn \<Rightarrow>
          (case rn_endpoint rn of
             None \<Rightarrow> (ToolFail (''Node '' @ quoted (rn_name rn) @ '' ('' @ node @ '') is paired but has not been discovered on the network, so there is no address to reach it. Make sure its daemon is running and discoverable, then retry.''), m, s)
           | Some e \<Rightarrow>
               (case resolve_repo_path (mc_repos mc) (task_repo task) of
                  None \<Rightarrow> (ToolFail (''This daemon has no local repo mapped to '' @ quoted (task_repo task) @
                    ''; add it to this daemon's config repos list before delegating a task against it.''), m, s)
                | Some repoPath \<Rightarrow>
                    (case model_refusal mc node (rn_name rn) task s of
                       (Some text1, s1) \<Rightarrow> (ToolFail text1, m, s1)
                     | (None, s1) \<Rightarrow>
                         let t = \<lparr>tg_host = fst e, tg_port = snd e, tg_deviceId = node, tg_timeoutMs = mc_requestTimeoutMs mc\<rparr>
                         in (case sync_workspace (mc_network mc) (mc_host mc) (mc_git mc) t repoPath (task_repo task) s1 of
                               (Inl x, s2) \<Rightarrow> (ToolFail (describe_sync_failure x repoPath (task_repo task)), m, s2)
                             | (Inr head, s2) \<Rightarrow>
                                 (case to_job_params task head of
                                    None \<Rightarrow> (ToolFail (''The task parameters are invalid: '' @ mc_issues mc), m, s2)
                                  | Some params \<Rightarrow> dispatch mc node (rn_name rn) e t task params m s2))))))"

text \<open>What every tool that names a job does first: a route of the registry whose node is still paired.\<close>

definition with_route :: "'s collaborators \<Rightarrow> string \<Rightarrow> (delegation_route \<Rightarrow> tool_result \<times> delegation_map \<times> 's) \<Rightarrow>
    delegation_map \<Rightarrow> 's \<Rightarrow> tool_result \<times> delegation_map \<times> 's" where
  "with_route mc jobId f m s =
     (case lookup_route m jobId of
        None \<Rightarrow> (unknown_job jobId, m, s)
      | Some r \<Rightarrow>
          if directory_resolve mc s (dr_deviceId r) = None then (no_longer_paired jobId (dr_deviceId r), m, s)
          else f r)"

definition status_text :: "job_status \<Rightarrow> string" where
  "status_text st = (case find (\<lambda>p. snd p = st) status_names of None \<Rightarrow> [] | Some p \<Rightarrow> fst p)"

definition job_status_tool :: "'s collaborators \<Rightarrow> string \<Rightarrow> delegation_map \<Rightarrow> 's \<Rightarrow> tool_result \<times> delegation_map \<times> 's" where
  "job_status_tool mc jobId m s = with_route mc jobId (\<lambda>r.
     case client_snapshot (mc_network mc) (target_for mc r) jobId s of
       (Inl x, s1) \<Rightarrow> (ToolFail (describe_hfp_failure x), m, s1)
     | (Inr snap, s1) \<Rightarrow> (ToolOk (''Job '' @ jobId @ '' is '' @ status_text (snap_status snap) @ ''.'') (StatusOut jobId (snap_status snap)),
         observe_status (mc_now mc s1) jobId (snap_status snap) m, s1)) m s"

definition cancel_job_tool :: "'s collaborators \<Rightarrow> string \<Rightarrow> delegation_map \<Rightarrow> 's \<Rightarrow> tool_result \<times> delegation_map \<times> 's" where
  "cancel_job_tool mc jobId m s = with_route mc jobId (\<lambda>r.
     case client_cancel (mc_network mc) (target_for mc r) jobId s of
       (Inl x, s1) \<Rightarrow> (ToolFail (describe_hfp_failure x), m, s1)
     | (Inr (_, st), s1) \<Rightarrow> (ToolOk (''Cancellation requested for job '' @ jobId @ ''; status is now '' @ status_text st @ ''.'')
         (StatusOut jobId st), observe_status (mc_now mc s1) jobId st m, s1)) m s"

text \<open>\<open>writeArtifactSurface\<close>, the run of the single flight.\<close>

definition write_artifact_surface :: "'s collaborators \<Rightarrow> string \<Rightarrow> delegation_route \<Rightarrow> job_result \<Rightarrow> delegation_map \<Rightarrow> 's \<Rightarrow>
    artifact_surface \<times> delegation_map \<times> 's" where
  "write_artifact_surface mc jobId r res m s =
     (case applied_artifact_of m jobId of
        Some a \<Rightarrow> (SurfaceApplied (review_command_for a), m, s)
      | None \<Rightarrow>
          (case res_artifact res of
             Some (Some a) \<Rightarrow>
               if res_status res \<noteq> Succeeded then (SurfaceNone, m, s)
               else (case resolve_repo_path (mc_repos mc) (dr_repoId r) of
                 None \<Rightarrow> (SurfaceFailed (''this daemon has no local repo mapped to '' @ quoted (dr_repoId r) @
                   ''; restore the entry in this daemon's config repos list, then call job_result again to retry the apply''), m, s)
               | Some repoPath \<Rightarrow>
                   (case apply_delegated_artifact (mc_network mc) (mc_host mc) (mc_git mc) (mc_maxBundleBytes mc)
                           (target_for mc r) jobId a repoPath (mc_issues mc) s of
                      (Inl x, s1) \<Rightarrow> (SurfaceFailed (describe_apply_failure x), m, s1)
                    | (Inr branch, s1) \<Rightarrow>
                        let ap = \<lparr>aa_branchName = branch, aa_baseCommit = art_baseCommit a\<rparr>
                        in (SurfaceApplied (review_command_for ap), record_applied jobId ap m, s1)))
           | _ \<Rightarrow> (SurfaceNone, m, s)))"

definition surface_text :: "artifact_surface \<Rightarrow> string" where
  "surface_text x =
     (case x of
        SurfaceApplied c \<Rightarrow> '' Artifact applied; review with: '' @ c
      | SurfaceFailed e \<Rightarrow> '' Artifact apply FAILED (call job_result again to retry): '' @ e
      | SurfaceNone \<Rightarrow> '' No artifact to apply.'')"

definition job_result_tool :: "'s collaborators \<Rightarrow> string \<Rightarrow> delegation_map \<Rightarrow> 's \<Rightarrow> tool_result \<times> delegation_map \<times> 's" where
  "job_result_tool mc jobId m s = with_route mc jobId (\<lambda>r.
     case client_snapshot (mc_network mc) (target_for mc r) jobId s of
       (Inl x, s1) \<Rightarrow> (ToolFail (describe_hfp_failure x), m, s1)
     | (Inr snap, s1) \<Rightarrow>
         (let m1 = observe_status (mc_now mc s1) jobId (snap_status snap) m; st = snap_status snap
          in case snap_result snap of
               None \<Rightarrow> (ToolOk (''Job '' @ jobId @ '' is '' @ status_text st @ ''; no result yet.'') (ResultOut jobId st None None), m1, s1)
             | Some res \<Rightarrow>
                 let text1 = ''Job '' @ jobId @ '' finished with status '' @ status_text st @ ''.''
                 in if res_type res \<noteq> Write then (ToolOk text1 (ResultOut jobId st (Some res) None), m1, s1)
                    else (case write_artifact_surface mc jobId r res m1 s1 of
                            (x, m2, s2) \<Rightarrow> (ToolOk (text1 @ surface_text x) (ResultOut jobId st (Some res) (Some x)), m2, s2)))) m s"

end
