(* ===== verification/Delegating.thy ===== *)
theory Delegating imports McpTools begin

text \<open>
  What the tools of the delegating side promise: the parameters they send are the task at the synced commit, a node that
  is not paired is never contacted, and what they report as applied is in the repository.
\<close>

section \<open>Parameters\<close>

definition or_default :: "'a \<Rightarrow> 'a option \<Rightarrow> 'a" where
  "or_default d x = (case x of None \<Rightarrow> d | Some y \<Rightarrow> y)"

text \<open>The task, untouched, at a commit.\<close>

fun task_params :: "task_input \<Rightarrow> string \<Rightarrow> job_params" where
  "task_params (ReconTask r p m c w) head = ReconParams \<lparr>rp_workspace = \<lparr>ws_repoId = r, ws_headCommit = head\<rparr>,
     rp_prompt = p, rp_model = m, rp_budgets = \<lparr>maxToolCalls = or_default 50 c, maxWallMs = or_default 600000 w\<rparr>\<rparr>"
| "task_params (CommandTask r c a t) head = CommandParams \<lparr>cp_workspace = \<lparr>ws_repoId = r, ws_headCommit = head\<rparr>,
     cp_command = c, cp_args = or_default [] a, cp_timeoutMs = or_default 600000 t\<rparr>"
| "task_params (WriteTask r m i h v c w) head = WriteParams \<lparr>wp_workspace = \<lparr>ws_repoId = r, ws_headCommit = head\<rparr>,
     wp_model = m, wp_instructions = i, wp_pathHints = h,
     wp_verifyCommand = map_option (\<lambda>(n, a). \<lparr>vc_name = n, vc_args = or_default [] a\<rparr>) v,
     wp_budgets = \<lparr>maxToolCalls = or_default 100 c, maxWallMs = or_default 600000 w\<rparr>\<rparr>"

lemma decode_workspace_json: "commit_hash_ok head \<Longrightarrow> decode_workspace_ref (workspace_json r head) = Some \<lparr>ws_repoId = r, ws_headCommit = head\<rparr>"
  by (simp add: decode_workspace_ref_def workspace_json_def req_key_def checked_def workspace_ref_ok_def commit_hash_ok_def)

lemma parse_task_budgets:
  assumes "in_range 1 200 c" "in_range 1000 3600000 w" "1 \<le> d" "d \<le> 200"
  shows "decode_budgets (parse_budgets d) (budgets_json c w) = Some \<lparr>maxToolCalls = or_default d c, maxWallMs = or_default 600000 w\<rparr>"
  using assms
  by (cases c; cases w) (auto simp: decode_budgets_def budgets_json_def opt_pair_def opt_key_def parse_budgets_def
      budgets_ok_def in_range_def or_default_def)

lemma budgets_in_range:
  assumes "in_range 1 200 c" "in_range 1000 3600000 w" "1 \<le> d" "d \<le> 200"
  shows "budgets_ok \<lparr>maxToolCalls = or_default d c, maxWallMs = or_default 600000 w\<rparr>"
  using assms by (cases c; cases w) (auto simp: budgets_ok_def in_range_def or_default_def)

lemma decode_task_verify:
  assumes "1 \<le> length n"
  shows "decode_verify (JObj ((''name'', JStr n) # opt_pair ''args'' encode_strings a)) = Some \<lparr>vc_name = n, vc_args = or_default [] a\<rparr>"
  using assms by (cases a) (simp_all add: decode_verify_def req_key_def key_or_def opt_pair_def checked_def or_default_def)

lemma task_params_sent:
  assumes "task_ok task" "commit_hash_ok head"
  shows "to_job_params task head = Some (task_params task head)"
proof (cases task)
  case (ReconTask r p m c w)
  then have b: "in_range 1 200 c" "in_range 1000 3600000 w" using assms by simp_all
  show ?thesis
    using assms parse_task_budgets [OF b, of 50] budgets_in_range [OF b, of 50] decode_workspace_json [OF assms(2)]
    by (cases m) (simp_all add: ReconTask to_job_params_def wire_defs decode_recon_def parse_job_budgets_def checked_def
        recon_params_ok_def workspace_ref_ok_def commit_hash_ok_def)
next
  case (CommandTask r c a t)
  show ?thesis using assms decode_workspace_json [OF assms(2)]
    by (cases a; cases t) (auto simp: CommandTask to_job_params_def wire_defs decode_command_def checked_def
        command_params_ok_def workspace_ref_ok_def commit_hash_ok_def or_default_def in_range_def)
next
  case (WriteTask r m i h v c w)
  then have b: "in_range 1 200 c" "in_range 1000 3600000 w" using assms by simp_all
  have d: "\<And>x. v = Some x \<Longrightarrow> decode_verify ((\<lambda>(n, a). JObj ((''name'', JStr n) # opt_pair ''args'' encode_strings a)) x) =
      Some ((\<lambda>(n, a). \<lparr>vc_name = n, vc_args = or_default [] a\<rparr>) x)"
    using assms(1) decode_task_verify by (auto simp: WriteTask)
  have ok: "write_params_ok \<lparr>wp_workspace = \<lparr>ws_repoId = r, ws_headCommit = head\<rparr>, wp_model = m, wp_instructions = i,
      wp_pathHints = h, wp_verifyCommand = map_option (\<lambda>(n, a). \<lparr>vc_name = n, vc_args = or_default [] a\<rparr>) v,
      wp_budgets = \<lparr>maxToolCalls = or_default 100 c, maxWallMs = or_default 600000 w\<rparr>\<rparr>"
    using assms budgets_in_range [OF b, of 100]
    by (auto simp: WriteTask write_params_ok_def workspace_ref_ok_def commit_hash_ok_def split: option.splits)
  show ?thesis
    using ok d parse_task_budgets [OF b, of 100] decode_workspace_json [OF assms(2)]
    by (cases m; cases h; cases v) (simp_all add: WriteTask to_job_params_def wire_defs decode_write_def
        parse_write_budgets_def checked_def)
qed

section \<open>Unpaired nodes\<close>

lemma resolve_unpaired: "d \<notin> set (map td_deviceId (mc_trusted mc s)) \<Longrightarrow> directory_resolve mc s d = None"
  by (auto simp: directory_resolve_def find_None_iff split: option.split)

lemma resolve_paired: "directory_resolve mc s d = Some rn \<Longrightarrow> d \<in> set (map td_deviceId (mc_trusted mc s))"
  using resolve_unpaired by fastforce

lemma list_entries_ids: "map ne_deviceId (fst (list_entries mc ds s)) = map td_deviceId ds"
proof (induction ds arbitrary: s)
  case (Cons d ds)
  have "ne_deviceId (fst (list_entry mc d s)) = td_deviceId d"
    by (auto simp: list_entry_def Let_def split: option.split sum.split prod.split)
  then show ?case using Cons by (simp add: case_prod_unfold Let_def)
qed simp

text \<open>C15 A node the user unpaired is out of reach: a task for it is refused, and the status, the result and the
  cancellation of its old jobs are too, each without moving the world - no connection, no request, no ref - and without
  changing the registry; it is in no listing either.\<close>

theorem unpaired_node_never_contacted:
  assumes "d \<notin> set (map td_deviceId (mc_trusted mc s))" "lookup_route m jobId = Some r" "dr_deviceId r = d"
  shows "(\<exists>e. delegate_task mc d task m s = (ToolFail e, m, s)) \<and>
    job_status_tool mc jobId m s = (no_longer_paired jobId d, m, s) \<and>
    job_result_tool mc jobId m s = (no_longer_paired jobId d, m, s) \<and>
    cancel_job_tool mc jobId m s = (no_longer_paired jobId d, m, s) \<and>
    d \<notin> ne_deviceId ` set (fst (directory_list mc s))"
proof -
  have "set (map ne_deviceId (fst (directory_list mc s))) = set (map td_deviceId (mc_trusted mc s))"
    by (simp only: directory_list_def list_entries_ids)
  then show ?thesis using resolve_unpaired [OF assms(1)] assms
    by (simp add: delegate_task_def job_status_tool_def job_result_tool_def cancel_job_tool_def with_route_def)
qed

section \<open>Dispatching\<close>

lemma sync_head_ok: "sync_workspace nw ho git t repoPath repoId s = (Inr head, s1) \<Longrightarrow>
    commit_hash_ok head \<and> (\<exists>s0. resolve_head_commit git repoPath DEFAULT_GIT_TIMEOUT_MS s = (Inr head, s0))"
proof -
  assume a: "sync_workspace nw ho git t repoPath repoId s = (Inr head, s1)"
  obtain h s0 where h: "resolve_head_commit git repoPath DEFAULT_GIT_TIMEOUT_MS s = (h, s0)"
    by (cases "resolve_head_commit git repoPath DEFAULT_GIT_TIMEOUT_MS s")
  with a obtain x where x: "h = Inr x" by (cases h) (auto simp: sync_workspace_def)
  have ship: "fst (finally_rm ho dir (ship_bundle nw ho git t repoPath repoId x have1 b s2)) = Inr head \<Longrightarrow> head = x" for dir have1 b s2
    by (auto simp: finally_rm_def ship_bundle_def split: prod.splits sum.splits option.splits)
  have "head = x" using a h x ship
    by (auto simp: sync_workspace_def Let_def split: prod.splits sum.splits if_splits) (metis fst_conv)+
  moreover have "commit_hash_ok x" using h x
    by (auto simp: resolve_head_commit_def Let_def split: prod.splits if_splits)
  ultimately show ?thesis using h x by simp
qed

lemma delegate_registry:
  assumes "delegate_task mc node task m s = (res, m', s')"
  obtains (refused) e where "res = ToolFail e" "m' = m"
  | (sent) rn e t repoPath s1 head s2 params jobId txt1 where
      "directory_resolve mc s node = Some rn" "resolve_repo_path (mc_repos mc) (task_repo task) = Some repoPath"
      "t = \<lparr>tg_host = fst e, tg_port = snd e, tg_deviceId = node, tg_timeoutMs = mc_requestTimeoutMs mc\<rparr>"
      "sync_workspace (mc_network mc) (mc_host mc) (mc_git mc) t repoPath (task_repo task) s1 = (Inr head, s2)"
      "to_job_params task head = Some params" "client_delegate (mc_network mc) t params s2 = (Inr jobId, s')"
      "m' = record_delegation (mc_now mc s') jobId
         \<lparr>dr_deviceId = node, dr_host = fst e, dr_port = snd e, dr_repoId = task_repo task\<rparr> (task_type task) m"
      "res = ToolOk txt1 (DelegatedOut jobId node)"
proof (cases "directory_resolve mc s node")
  case None
  then show thesis using assms by (auto simp: delegate_task_def intro: refused)
next
  case (Some rn)
  show thesis
  proof (cases "rn_endpoint rn")
    case None
    then show thesis using assms Some by (auto simp: delegate_task_def intro: refused)
  next
    case e: (Some e)
    show thesis
    proof (cases "resolve_repo_path (mc_repos mc) (task_repo task)")
      case None
      then show thesis using assms Some e by (auto simp: delegate_task_def intro: refused)
    next
      case p: (Some repoPath)
      let ?t = "\<lparr>tg_host = fst e, tg_port = snd e, tg_deviceId = node, tg_timeoutMs = mc_requestTimeoutMs mc\<rparr>"
      obtain q s1 where q: "model_refusal mc node (rn_name rn) task s = (q, s1)" by fastforce
      show thesis
      proof (cases q)
        case x: (Some x)
        then show thesis using assms Some e p q by (auto simp: delegate_task_def intro: refused)
      next
        case None
        obtain h s2 where h: "sync_workspace (mc_network mc) (mc_host mc) (mc_git mc) ?t repoPath (task_repo task) s1 = (h, s2)" by fastforce
        show thesis
        proof (cases h)
          case (Inl x)
          then show thesis using assms Some e p q None h by (auto simp: delegate_task_def intro: refused)
        next
          case (Inr head)
          show thesis
          proof (cases "to_job_params task head")
            case n: None
            then show thesis using assms Some e p q None h Inr by (auto simp: delegate_task_def intro: refused)
          next
            case pp: (Some params)
            have dt: "(res, m', s') = dispatch mc node (rn_name rn) e ?t task params m s2"
              using assms Some e p q None h Inr pp by (simp add: delegate_task_def)
            obtain c s3 where c: "client_delegate (mc_network mc) ?t params s2 = (c, s3)" by fastforce
            show thesis
            proof (cases c)
              case (Inl x)
              then show thesis using dt c by (auto simp: dispatch_def intro: refused)
            next
              case j: (Inr jobId)
              note dt
              also have "dispatch mc node (rn_name rn) e ?t task params m s2 =
                  (ToolOk (''Delegated '' @ (case task_type task of Recon \<Rightarrow> ''recon'' | Command \<Rightarrow> ''command'' | Write \<Rightarrow> ''write'') @
                     '' job '' @ jobId @ '' to '' @ quoted (rn_name rn) @ ''.'') (DelegatedOut jobId node),
                   record_delegation (mc_now mc s3) jobId
                     \<lparr>dr_deviceId = node, dr_host = fst e, dr_port = snd e, dr_repoId = task_repo task\<rparr> (task_type task) m, s3)"
                using c j by (simp add: dispatch_def)
              finally have r: "res = ToolOk (''Delegated '' @ (case task_type task of Recon \<Rightarrow> ''recon'' | Command \<Rightarrow> ''command'' | Write \<Rightarrow> ''write'') @
                     '' job '' @ jobId @ '' to '' @ quoted (rn_name rn) @ ''.'') (DelegatedOut jobId node)"
                "m' = record_delegation (mc_now mc s3) jobId
                     \<lparr>dr_deviceId = node, dr_host = fst e, dr_port = snd e, dr_repoId = task_repo task\<rparr> (task_type task) m"
                "s' = s3" by (simp_all only: prod.inject)
              show thesis
                by (rule sent [OF Some p refl h [unfolded Inr] pp c [unfolded j, folded r(3)] _ r(1)]) (simp add: r(2,3))
            qed
          qed
        qed
      qed
    qed
  qed
qed

text \<open>C14 A delegation that succeeds ran the code the agent means: its node is paired and its repo mapped, the worker was
  synced from the mapped repository first, and what was sent is exactly the task - content untouched, defaults filled in - at
  the commit that repository's HEAD then had, which the agent cannot choose; the job is recorded under that node's address and repo.
  A delegation that fails leaves no record.\<close>

theorem delegated_at_synced_commit:
  assumes "task_ok task" "jmap_ok m" "length m \<le> MAX_TRACKED_DELEGATIONS"
  shows "case delegate_task mc node task m s of
      (ToolOk txt1 out, m', s') \<Rightarrow>
        node \<in> set (map td_deviceId (mc_trusted mc s)) \<and>
        (\<exists>t repoPath head s1 s2 jobId r.
           tg_deviceId t = node \<and> resolve_repo_path (mc_repos mc) (task_repo task) = Some repoPath \<and>
           fst (resolve_head_commit (mc_git mc) repoPath DEFAULT_GIT_TIMEOUT_MS s1) = Inr head \<and>
           sync_workspace (mc_network mc) (mc_host mc) (mc_git mc) t repoPath (task_repo task) s1 = (Inr head, s2) \<and>
           client_delegate (mc_network mc) t (task_params task head) s2 = (Inr jobId, s') \<and>
           out = DelegatedOut jobId node \<and> lookup_route m' jobId = Some r \<and> dr_deviceId r = node \<and>
           dr_host r = tg_host t \<and> dr_port r = tg_port t \<and> dr_repoId r = task_repo task \<and> applied_artifact_of m' jobId = None)
    | (ToolFail e, m', s') \<Rightarrow> m' = m"
proof -
  obtain res m' s' where r: "delegate_task mc node task m s = (res, m', s')" by (metis prod.exhaust)
  then show ?thesis
  proof (cases rule: delegate_registry)
    case (refused e)
    then show ?thesis using r by simp
  next
    case (sent rn e t repoPath s1 head s2 params jobId txt1)
    from sync_head_ok [OF sent(4)] have h: "commit_hash_ok head"
      "fst (resolve_head_commit (mc_git mc) repoPath DEFAULT_GIT_TIMEOUT_MS s1) = Inr head" by auto
    from task_params_sent [OF assms(1) h(1)] sent(5) have p: "client_delegate (mc_network mc) t (task_params task head) s2 = (Inr jobId, s')"
      using sent(6) by simp
    have rec1: "lookup_route m' jobId = Some \<lparr>dr_deviceId = node, dr_host = fst e, dr_port = snd e, dr_repoId = task_repo task\<rparr>"
      "applied_artifact_of m' jobId = None"
      using delegation_recorded [OF assms(2,3)] sent(7) by simp_all
    have t: "tg_deviceId t = node" "tg_host t = fst e" "tg_port t = snd e" using sent(3) by simp_all
    show ?thesis unfolding r prod.case sent(8) tool_result.case
      using resolve_paired [OF sent(1)] sent(2,4) h(2) p rec1 t by fastforce
  qed
qed

section \<open>Applying\<close>

text \<open>The network and the host's temporary files are not the repositories.\<close>

definition world_apart :: "('s \<Rightarrow> 'r) \<Rightarrow> 's network \<Rightarrow> 's host \<Rightarrow> bool" where
  "world_apart refs nw ho =
     ((\<forall>h p n s. refs (snd (nw_connect nw h p n s)) = refs s) \<and> (\<forall>rq s. refs (snd (nw_send nw rq s)) = refs s) \<and>
      (\<forall>x s. refs (snd (ho_mkdtemp ho x s)) = refs s) \<and> (\<forall>x s. refs (snd (ho_mkdir ho x s)) = refs s) \<and>
      (\<forall>x s. refs (snd (ho_rm ho x s)) = refs s) \<and> (\<forall>x s. refs (snd (ho_create ho x s)) = refs s) \<and>
      (\<forall>x c s. refs (snd (ho_append ho x c s)) = refs s))"

lemma apart_connect:
  assumes a: "world_apart refs nw ho"
  shows "connect_pinned nw h p d n s = (r, s') \<Longrightarrow> refs s' = refs s"
  using a by (auto simp: world_apart_def connect_pinned_def split: prod.splits sum.splits option.splits if_splits) (metis snd_conv)+

lemma apart_send:
  assumes a: "world_apart refs nw ho"
  shows "nw_send nw rq s = (r, s') \<Longrightarrow> refs s' = refs s"
  using a unfolding world_apart_def by (metis snd_conv)

lemma apart_mkdtemp:
  assumes a: "world_apart refs nw ho"
  shows "ho_mkdtemp ho x s = (r, s') \<Longrightarrow> refs s' = refs s"
  using a unfolding world_apart_def by (metis snd_conv)

lemma apart_mkdir:
  assumes a: "world_apart refs nw ho"
  shows "ho_mkdir ho x s = (r, s') \<Longrightarrow> refs s' = refs s"
  using a unfolding world_apart_def by (metis snd_conv)

lemma apart_rm:
  assumes a: "world_apart refs nw ho"
  shows "ho_rm ho x s = (r, s') \<Longrightarrow> refs s' = refs s"
  using a unfolding world_apart_def by (metis snd_conv)

lemma apart_create:
  assumes a: "world_apart refs nw ho"
  shows "ho_create ho x s = (r, s') \<Longrightarrow> refs s' = refs s"
  using a unfolding world_apart_def by (metis snd_conv)

lemma apart_append:
  assumes a: "world_apart refs nw ho"
  shows "ho_append ho x c s = (r, s') \<Longrightarrow> refs s' = refs s"
  using a unfolding world_apart_def by (metis snd_conv)

lemma apart_raw:
  assumes a: "world_apart refs nw ho"
  shows "raw_request nw h p d method path body n s = (r, s') \<Longrightarrow> refs s' = refs s"
  by (auto simp: raw_request_def Let_def split: prod.splits sum.splits option.splits dest!: apart_connect [OF a] apart_send [OF a])

lemma apart_request:
  assumes a: "world_apart refs nw ho"
  shows "hfp_request nw t method path body schema s = (r, s') \<Longrightarrow> refs s' = refs s"
  by (auto simp: hfp_request_def request_internal_def apfst_def map_prod_def split: prod.splits sum.splits option.splits if_splits dest!: apart_raw [OF a])

lemma apart_chunks:
  assumes a: "world_apart refs nw ho"
  shows "stream_chunks ho err path n e cs k s = (r, s') \<Longrightarrow> refs s' = refs s"
proof (induction cs arbitrary: k s)
  case Nil
  then show ?case by (auto split: option.splits)
next
  case (Cons c cs)
  obtain x s1 where x: "ho_append ho path c s = (x, s1)" by fastforce
  with Cons apart_append [OF a x] show ?case by (auto split: if_splits option.splits)
qed

lemma apart_discard:
  assumes a: "world_apart refs nw ho"
  shows "discard_download ho path e s = (r, s') \<Longrightarrow> refs s' = refs s"
  by (auto simp: discard_download_def split: prod.splits option.splits dest!: apart_rm [OF a])

lemma apart_stream:
  assumes a: "world_apart refs nw ho"
  shows "stream_to_file ho err path n rs s = (r, s') \<Longrightarrow> refs s' = refs s"
  by (auto simp: stream_to_file_def split: prod.splits option.splits dest!: apart_create [OF a] apart_chunks [OF a])

lemma apart_download:
  assumes a: "world_apart refs nw ho"
  shows "download_to_file nw ho t path dest n accept s = (r, s') \<Longrightarrow> refs s' = refs s"
  by (auto simp: download_to_file_def Let_def split: prod.splits sum.splits stream_end.splits if_splits
      dest!: apart_connect [OF a] apart_send [OF a] apart_stream [OF a] apart_discard [OF a])

lemma apart_fetch:
  assumes a: "world_apart refs nw ho"
  shows "fetch_job_artifact nw ho t jobId dest n s = (r, s') \<Longrightarrow> refs s' = refs s"
  unfolding fetch_job_artifact_def by (rule apart_download [OF a])

lemma apart_finally:
  assumes a: "world_apart refs nw ho"
  shows "finally_rm ho dir p = (r, s') \<Longrightarrow> refs s' = refs (snd p)"
  by (auto simp: finally_rm_def split: prod.splits option.splits dest!: apart_rm [OF a])

lemma apart_snapshot:
  assumes a: "world_apart refs nw ho"
  shows "client_snapshot nw t jobId s = (r, s') \<Longrightarrow> refs s' = refs s"
  unfolding client_snapshot_def by (rule apart_request [OF a])

lemma apply_effect_moved:
  assumes "apply_effect repo_at refs descends inp s s'" "refs s' repo ref \<noteq> refs s repo ref"
  shows "write_branch_ok (art_branchName (ai_artifact inp)) \<and> repo = repo_at (ai_sourceRepoPath inp) \<and>
    ref = ''refs/heads/'' @ art_branchName (ai_artifact inp)"
proof -
  have "(repo, ref) = (repo_at (ai_sourceRepoPath inp), target_ref (ai_artifact inp))"
    using assms unfolding apply_effect_def Let_def by blast
  with assms show ?thesis unfolding apply_effect_def Let_def target_ref_def by blast
qed

lemma apply_delegated_spec:
  assumes "git_laws repo_at refs descends git" "world_apart refs nw ho"
    "apply_delegated_artifact nw ho git n t jobId a repoPath issues s = (r, s')"
  shows "refs s' repo ref \<noteq> refs s repo ref \<Longrightarrow>
      write_branch_ok (art_branchName a) \<and> repo = repo_at repoPath \<and> ref = ''refs/heads/'' @ art_branchName a"
    and "r = Inr b \<Longrightarrow> write_artifact_ok a \<and> b = art_branchName a \<and>
      refs s' (repo_at repoPath) (''refs/heads/'' @ art_branchName a) = Some (art_headCommit a)"
proof -
  let ?moved = "\<lambda>s1 s2. \<forall>repo ref. refs s2 repo ref \<noteq> refs s1 repo ref \<longrightarrow>
      write_branch_ok (art_branchName a) \<and> repo = repo_at repoPath \<and> ref = ''refs/heads/'' @ art_branchName a"
  let ?good = "\<lambda>x s2. \<forall>b. x = Inr b \<longrightarrow> write_artifact_ok a \<and> b = art_branchName a \<and>
      refs s2 (repo_at repoPath) (''refs/heads/'' @ art_branchName a) = Some (art_headCommit a)"
  have core: "?moved s1 s2 \<and> ?good x s2"
    if f: "fetch_and_apply nw ho git n t jobId a repoPath issues dir s1 = (x, s2)" for dir s1 x s2
  proof -
    let ?inp = "applier_input repoPath a dir issues :: 'b apply_input"
    have g: "?moved s3 (snd (apply_write_artifact git ?inp s3)) \<and>
        (case fst (apply_write_artifact git ?inp s3) of
           Inr b \<Rightarrow> write_artifact_ok a \<and> b = art_branchName a \<and>
             refs (snd (apply_write_artifact git ?inp s3)) (repo_at repoPath) (''refs/heads/'' @ b) = Some (art_headCommit a)
         | Inl e \<Rightarrow> True)" for s3
    proof -
      have fld: "ai_artifact ?inp = a" "ai_sourceRepoPath ?inp = repoPath" and
        btw: "\<And>s. refs (ai_between ?inp s) = refs s" by (simp_all add: applier_input_def)
      note fact1 = apply_confined_to_reserved_ref_facts [where inp = ?inp, OF assms(1) btw, of s3]
      from fact1 have "?moved s3 (snd (apply_write_artifact git ?inp s3))"
        using apply_effect_moved [of repo_at refs descends ?inp s3, unfolded fld] by blast
      with fact1 show ?thesis unfolding fld by blast
    qed
    have quiet: "?moved s1 s2 \<and> ?good x s2" if "refs s2 = refs s1" "\<And>b. x \<noteq> Inr b" using that by simp
    obtain k s3 where k: "ho_mkdir ho (dir @ ''/no-hooks'') s1 = (k, s3)" by fastforce
    note r3 = apart_mkdir [OF assms(2) k]
    obtain d s4 where d: "fetch_job_artifact nw ho t jobId (dir @ ''/artifact.bundle'') n s3 = (d, s4)" by fastforce
    note r4 = apart_fetch [OF assms(2) d]
    show ?thesis
    proof (cases "k \<noteq> None \<or> d \<noteq> Inr (art_headCommit a)")
      case True
      then show ?thesis using f k d r3 r4
        by (intro quiet) (auto simp: fetch_and_apply_def split: option.splits sum.splits if_splits)
    next
      case False
      obtain y s5 where y: "apply_write_artifact git ?inp s4 = (y, s5)" by fastforce
      have x: "x = map_sum (\<lambda>(c, m). ApplyRefused c m) id y" "s2 = s5"
        using f k d False y by (auto simp: fetch_and_apply_def)
      have "refs s4 = refs s1" using r3 r4 by simp
      moreover have "?moved s4 s5" using g [of s4] unfolding y by simp
      moreover have "?good x s5" using g [of s4] x unfolding y by (cases y) (auto split: prod.splits)
      ultimately show ?thesis unfolding x(2) by (simp only:)
    qed
  qed
  have "?moved s s' \<and> ?good r s'"
  proof -
    obtain k s1 where k: "ho_mkdtemp ho ''homefleet-artifact-in-'' s = (k, s1)" by fastforce
    note r1 = apart_mkdtemp [OF assms(2) k]
    show ?thesis
    proof (cases k)
      case (Inl msg)
      then show ?thesis using assms(3) k r1 by (auto simp: apply_delegated_artifact_def)
    next
      case (Inr dir)
      obtain x s2 where x: "fetch_and_apply nw ho git n t jobId a repoPath issues dir s1 = (x, s2)" by fastforce
      have "finally_rm ho dir (x, s2) = (r, s')" using assms(3) k Inr x by (simp add: apply_delegated_artifact_def)
      with apart_finally [OF assms(2) this] core [OF x] r1 show ?thesis
        by (auto simp: finally_rm_def split: prod.splits option.splits)
    qed
  qed
  then show "refs s' repo ref \<noteq> refs s repo ref \<Longrightarrow>
      write_branch_ok (art_branchName a) \<and> repo = repo_at repoPath \<and> ref = ''refs/heads/'' @ art_branchName a"
    "r = Inr b \<Longrightarrow> write_artifact_ok a \<and> b = art_branchName a \<and>
      refs s' (repo_at repoPath) (''refs/heads/'' @ art_branchName a) = Some (art_headCommit a)" by blast+
qed

lemma request_decoded:
  "hfp_request nw t method path body schema s = (Inr v, s') \<Longrightarrow> \<exists>j. schema j = Some v"
  by (auto simp: hfp_request_def request_internal_def apfst_def map_prod_def split: prod.splits sum.splits option.splits if_splits)

lemma snapshot_decoded: "client_snapshot nw t jobId s = (Inr snap, s') \<Longrightarrow> job_snapshot_ok snap"
  unfolding client_snapshot_def by (auto dest!: request_decoded dest: decode_snapshot_ok)

lemma surface_spec:
  assumes "git_laws repo_at refs descends (mc_git mc)" "world_apart refs (mc_network mc) (mc_host mc)"
    "write_artifact_surface mc jobId r res m s = (x, m', s')"
  shows "(\<forall>repo ref. refs s' repo ref \<noteq> refs s repo ref \<longrightarrow>
      (\<exists>path b. resolve_repo_path (mc_repos mc) (dr_repoId r) = Some path \<and> repo = repo_at path \<and> write_branch_ok b \<and>
         ref = ''refs/heads/'' @ b)) \<and>
    (\<forall>cmd. x = SurfaceApplied cmd \<longrightarrow>
      (case applied_artifact_of m jobId of
         Some ap \<Rightarrow> cmd = review_command_for ap \<and> m' = m \<and> s' = s
       | None \<Rightarrow> \<exists>a path. res_artifact res = Some (Some a) \<and> res_status res = Succeeded \<and> write_artifact_ok a \<and>
           resolve_repo_path (mc_repos mc) (dr_repoId r) = Some path \<and>
           refs s' (repo_at path) (''refs/heads/'' @ art_branchName a) = Some (art_headCommit a) \<and>
           cmd = ''git diff '' @ art_baseCommit a @ ''...'' @ art_branchName a))"
proof (cases "applied_artifact_of m jobId")
  case (Some ap)
  then show ?thesis using assms(3) by (auto simp: write_artifact_surface_def)
next
  case None
  show ?thesis
  proof (cases "\<exists>a. res_artifact res = Some (Some a) \<and> res_status res = Succeeded")
    case False
    then have "x = SurfaceNone \<and> s' = s" using assms(3) None
      by (auto simp: write_artifact_surface_def split: option.splits if_splits)
    then show ?thesis by simp
  next
    case True
    then obtain a where a: "res_artifact res = Some (Some a)" "res_status res = Succeeded" by blast
    show ?thesis
    proof (cases "resolve_repo_path (mc_repos mc) (dr_repoId r)")
      case n: None
      then show ?thesis using assms(3) None a by (auto simp: write_artifact_surface_def)
    next
      case p: (Some repoPath)
      obtain y s1 where y: "apply_delegated_artifact (mc_network mc) (mc_host mc) (mc_git mc) (mc_maxBundleBytes mc)
          (target_for mc r) jobId a repoPath (mc_issues mc) s = (y, s1)" by fastforce
      note spec = apply_delegated_spec [OF assms(1,2) y]
      show ?thesis
      proof (cases y)
        case (Inl e)
        then have "s' = s1" "\<And>c. x \<noteq> SurfaceApplied c" using assms(3) None a p y by (auto simp: write_artifact_surface_def)
        then show ?thesis using spec(1) p None by blast
      next
        case (Inr b)
        then have "s' = s1" "x = SurfaceApplied (review_command_for \<lparr>aa_branchName = b, aa_baseCommit = art_baseCommit a\<rparr>)"
          using assms(3) None a p y by (auto simp: write_artifact_surface_def Let_def)
        then show ?thesis using spec(1) spec(2) [OF Inr] p None a by (fastforce simp: review_command_for_def)
      qed
    qed
  qed
qed

text \<open>Unless it comes to the surface of a write result, \<open>job_result\<close> moves no ref and reports nothing applied.\<close>

lemma job_result_cases:
  assumes "world_apart refs (mc_network mc) (mc_host mc)" "job_result_tool mc jobId m s = (res, m', s')"
  obtains (quiet) "refs s' = refs s" "\<And>t j st jr c. res \<noteq> ToolOk t (ResultOut j st (Some jr) (Some (SurfaceApplied c)))"
  | (surface) r :: delegation_route and jr m1 s1 x m2 t st where "lookup_route m jobId = Some r"
      "s1 = snd (client_snapshot (mc_network mc) (target_for mc r) jobId s)" "refs s1 = refs s" "job_result_ok jr"
      "applied_artifact_of m1 jobId = applied_artifact_of m jobId" "write_artifact_surface mc jobId r jr m1 s1 = (x, m2, s')"
      "res = ToolOk t (ResultOut jobId st (Some jr) (Some x))"
proof (cases "\<exists>r. lookup_route m jobId = Some r \<and> directory_resolve mc s (dr_deviceId r) \<noteq> None")
  case False
  then show ?thesis using assms(2)
    by (intro quiet) (auto simp: job_result_tool_def with_route_def unknown_job_def no_longer_paired_def split: option.splits)
next
  case True
  then obtain r where r: "lookup_route m jobId = Some r" "directory_resolve mc s (dr_deviceId r) \<noteq> None" by blast
  obtain q s1 where q: "client_snapshot (mc_network mc) (target_for mc r) jobId s = (q, s1)" by fastforce
  note r1 = apart_snapshot [OF assms(1) q]
  show ?thesis
  proof (cases "\<exists>snap jr. q = Inr snap \<and> snap_result snap = Some jr \<and> res_type jr = Write")
    case False
    then show ?thesis using assms(2) r q r1
      by (intro quiet) (auto simp: job_result_tool_def with_route_def Let_def split: sum.splits option.splits if_splits)
  next
    case True
    then obtain snap jr where sn: "q = Inr snap" "snap_result snap = Some jr" "res_type jr = Write" by blast
    have ok: "job_result_ok jr" using q sn snapshot_decoded [of "mc_network mc" "target_for mc r" jobId s snap s1]
      by (simp add: job_snapshot_ok_def)
    let ?m1 = "observe_status (mc_now mc s1) jobId (snap_status snap) m"
    have ap: "applied_artifact_of ?m1 jobId = applied_artifact_of m jobId"
      by (auto simp: applied_artifact_of_def observe_status_def split: option.split)
    obtain x m2 s2 where x: "write_artifact_surface mc jobId r jr ?m1 s1 = (x, m2, s2)" by (metis prod.exhaust)
    have "res = ToolOk (''Job '' @ jobId @ '' finished with status '' @ status_text (snap_status snap) @ ''.'' @ surface_text x)
        (ResultOut jobId (snap_status snap) (Some jr) (Some x))" "s' = s2"
      using assms(2) r q sn x by (auto simp: job_result_tool_def with_route_def Let_def)
    then show ?thesis using surface [OF r(1) _ r1 ok ap] q x by simp
  qed
qed

text \<open>C13 What a job result says is applied is in the repository: with git as documented, and a network and temporary
  files that are not the repositories, \<open>job_result\<close> moves no ref but reserved ones of the repository mapped for the job's
  repo id; and when it reports an artifact applied, either an earlier call did and this one only asked for the
  status (no download, no git), or the
  worker's result succeeded with a valid artifact, the reserved branch it names is now at exactly the commit it claims, and
  the review command compares that branch with the artifact's base.\<close>

theorem reported_artifact_is_in_repo:
  assumes "git_laws repo_at refs descends (mc_git mc)" "world_apart refs (mc_network mc) (mc_host mc)"
  shows "case job_result_tool mc jobId m s of (res, m', s') \<Rightarrow>
    (\<forall>repo ref. refs s' repo ref \<noteq> refs s repo ref \<longrightarrow>
       (\<exists>r path b. lookup_route m jobId = Some r \<and> resolve_repo_path (mc_repos mc) (dr_repoId r) = Some path \<and>
          repo = repo_at path \<and> write_branch_ok b \<and> ref = ''refs/heads/'' @ b)) \<and>
    (\<forall>txt1 j st jr cmd. res = ToolOk txt1 (ResultOut j st (Some jr) (Some (SurfaceApplied cmd))) \<longrightarrow>
       (case applied_artifact_of m jobId of
          Some ap \<Rightarrow> cmd = review_command_for ap \<and>
            (\<exists>r. lookup_route m jobId = Some r \<and> s' = snd (client_snapshot (mc_network mc) (target_for mc r) jobId s))
        | None \<Rightarrow> \<exists>r a path. lookup_route m jobId = Some r \<and> resolve_repo_path (mc_repos mc) (dr_repoId r) = Some path \<and>
            job_result_ok jr \<and> res_artifact jr = Some (Some a) \<and> res_status jr = Succeeded \<and> write_artifact_ok a \<and>
            refs s' (repo_at path) (''refs/heads/'' @ art_branchName a) = Some (art_headCommit a) \<and>
            cmd = ''git diff '' @ art_baseCommit a @ ''...'' @ art_branchName a))"
proof -
  obtain res m' s' where j: "job_result_tool mc jobId m s = (res, m', s')" by (metis prod.exhaust)
  from assms(2) j show ?thesis
  proof (cases rule: job_result_cases)
    case quiet
    then show ?thesis using j by simp
  next
    case (surface r jr m1 s1 x m2 t st)
    note sf = surface_spec [OF assms surface(6), unfolded surface(5)]
    have "\<exists>r path b. lookup_route m jobId = Some r \<and> resolve_repo_path (mc_repos mc) (dr_repoId r) = Some path \<and>
        repo = repo_at path \<and> write_branch_ok b \<and> ref = ''refs/heads/'' @ b" if "refs s' repo ref \<noteq> refs s repo ref" for repo ref
      using sf [THEN conjunct1, rule_format, of repo ref] that surface(1) unfolding surface(3) by auto
    moreover have "case applied_artifact_of m jobId of
        Some ap \<Rightarrow> cmd = review_command_for ap \<and>
          (\<exists>r. lookup_route m jobId = Some r \<and> s' = snd (client_snapshot (mc_network mc) (target_for mc r) jobId s))
      | None \<Rightarrow> \<exists>r a path. lookup_route m jobId = Some r \<and> resolve_repo_path (mc_repos mc) (dr_repoId r) = Some path \<and>
          job_result_ok jr \<and> res_artifact jr = Some (Some a) \<and> res_status jr = Succeeded \<and> write_artifact_ok a \<and>
          refs s' (repo_at path) (''refs/heads/'' @ art_branchName a) = Some (art_headCommit a) \<and>
          cmd = ''git diff '' @ art_baseCommit a @ ''...'' @ art_branchName a" if "x = SurfaceApplied cmd" for cmd
      using sf [THEN conjunct2, rule_format, OF that] surface(1,2,4) by (cases "applied_artifact_of m jobId") auto
    ultimately show ?thesis unfolding j prod.case surface(7) by simp
  qed
qed

section \<open>A delegating node\<close>

text \<open>One worker, whose answers are canned by path; the small git, whose repository has a HEAD; no failures.\<close>

type_synonym demo_world = "git_state \<times> http_request list"

definition demo_peer :: string where "demo_peer = replicate 64 (CHR ''b'')"
definition demo_head :: string where "demo_head = replicate 40 (CHR ''a'')"
definition demo_job_id :: string where "demo_job_id = ''00000000-0000-4000-8000-0123456789ab''"

definition demo_result :: job_result where
  "demo_result = \<lparr>res_jobId = demo_job_id, res_type = Write, res_status = Succeeded, res_summary = None, res_output = None,
     res_stats = \<lparr>st_toolCalls = 1, st_wallMs = 1, st_promptTokens = None, st_completionTokens = None\<rparr>, res_error = None,
     res_artifact = Some (Some demo_artifact), res_verify = None\<rparr>"

definition demo_reply :: "string \<Rightarrow> string" where
  "demo_reply path =
     (if path = HFP_PATH_PREFIX @ ''/workspace/have'' then ''tip''
      else if path = HFP_PATH_PREFIX @ ''/jobs'' then ''job''
      else ''snap'')"

definition demo_json :: "string \<Rightarrow> json option" where
  "demo_json body =
     (if body = ''tip'' then Some (JObj [(''headCommit'', JStr demo_head)])
      else if body = ''job'' then Some (JObj [(''jobId'', JStr demo_job_id)])
      else if body = ''snap'' then Some (JObj [(''jobId'', JStr demo_job_id), (''status'', JStr ''succeeded''),
        (''result'', JObj [(''jobId'', JStr demo_job_id), (''type'', JStr ''write''), (''status'', JStr ''succeeded''),
           (''stats'', JObj [(''toolCalls'', JNum 1), (''wallMs'', JNum 1)]),
           (''artifact'', JObj [(''branchName'', JStr ''homefleet/0123456789ab''), (''baseCommit'', JStr (replicate 40 (CHR ''0''))),
              (''headCommit'', JStr demo_head),
              (''diffStat'', JObj [(''filesChanged'', JNum 1), (''insertions'', JNum 1), (''deletions'', JNum 0)]),
              (''commitMessage'', JStr ''f'')])])])
      else None)"

definition demo_net :: "demo_world network" where
  "demo_net =
     \<lparr>nw_connect = (\<lambda>h p ms s. (Inr (Some ''der''), s)),
      nw_send = (\<lambda>rq s. (Inr \<lparr>hs_status = 200, hs_headers = [(HEAD_COMMIT_HEADER, demo_head)],
        hs_chunks = [demo_reply (hq_path rq)], hs_failure = None\<rparr>, (fst s, snd s @ [rq]))),
      nw_fingerprint = (\<lambda>der. demo_peer), nw_json = demo_json, nw_text = (\<lambda>j. []),
      nw_instant = (\<lambda>t. None), nw_stamp = (\<lambda>i. [])\<rparr>"

definition demo_files :: "demo_world host" where
  "demo_files =
     \<lparr>ho_mkdtemp = (\<lambda>pre s. (Inr (''/tmp/'' @ pre), s)), ho_mkdir = (\<lambda>p s. (None, s)), ho_rm = (\<lambda>p s. (None, s)),
      ho_size = (\<lambda>p s. (Inr 0, s)), ho_create = (\<lambda>p s. (None, s)), ho_append = (\<lambda>p c s. (None, s))\<rparr>"

definition demo_git :: "demo_world git" where
  "demo_git c w = (case small_git c (fst w) of (r, g) \<Rightarrow> (r, (g, snd w)))"

definition demo_node :: node_info where
  "demo_node = \<lparr>ni_deviceId = demo_peer, ni_name = ''n'', ni_daemonVersion = ''1.0.0'', ni_protocolVersion = ''1.0.0'',
     ni_platform = Linux, ni_roles = [], ni_executors = [], ni_hardware = \<lparr>hw_cpu = [], hw_ramBytes = 0, hw_gpus = []\<rparr>,
     ni_models = [], ni_maxConcurrentJobs = 1, ni_activeJobs = 0, ni_allowRemote = None, ni_lastUpgrade = None\<rparr>"

definition demo_mc :: "demo_world collaborators" where
  "demo_mc =
     \<lparr>mc_network = demo_net, mc_host = demo_files, mc_git = demo_git,
      mc_trusted = (\<lambda>s. [\<lparr>td_deviceId = demo_peer, td_name = ''w'', td_addedAt = 0\<rparr>]),
      mc_candidates = (\<lambda>s. Some [\<lparr>ca_deviceId = Some demo_peer, ca_name = None, ca_host = ''h'', ca_port = 1,
        ca_source = Mdns, ca_lastSeenAt = 0\<rparr>]),
      mc_known = (\<lambda>s. None), mc_ourNodeInfo = (\<lambda>s. demo_node), mc_now = (\<lambda>s. 7), mc_repos = [(''r'', ''/repo'')],
      mc_maxBundleBytes = 100, mc_requestTimeoutMs = None, mc_issues = []\<rparr>"

text \<open>The repository is at the demo head; the bundle on offer has the demo artifact's branch at that head.\<close>

definition demo_start :: demo_world where
  "demo_start = (([(''/repo'', ''HEAD'') \<mapsto> demo_head], (target_ref demo_artifact, demo_head)), [])"

definition demo_route :: delegation_route where
  "demo_route = \<lparr>dr_deviceId = demo_peer, dr_host = ''h'', dr_port = 1, dr_repoId = ''r''\<rparr>"

definition demo_registry :: delegation_map where
  "demo_registry = [(demo_job_id, \<lparr>de_route = demo_route, de_type = Write, de_recordedAt = 0, de_lastStatus = Queued,
     de_lastStatusAt = 0, de_applied = None\<rparr>)]"

lemma demo_git_laws: "git_laws id (\<lambda>s. small_refs (fst s)) small_descends demo_git"
  by (rule git_laws_lift [OF small_git_laws]) (simp_all add: demo_git_def split: prod.split)

lemma demo_world_apart: "world_apart (\<lambda>s. small_refs (fst s)) demo_net demo_files"
  by (simp add: world_apart_def demo_net_def demo_files_def)

lemma demo_hashes: "commit_hash_ok demo_head" "trim_text demo_head = demo_head"
proof -
  show h: "commit_hash_ok demo_head"
    by (simp add: commit_hash_ok_def lower_hex_def demo_head_def list_all_iff is_lower_hex_def is_digit_def)
  show "trim_text demo_head = demo_head" by (rule trim_text_solid [OF hash_solid [OF h]])
qed

lemma demo_connects:
  "connect_pinned demo_net h p (Some demo_peer) n s = (Inr demo_peer, s)"
  by (simp add: connect_pinned_def demo_net_def)

lemma demo_requests:
  assumes "tg_deviceId t = demo_peer" "demo_json (demo_reply (HFP_PATH_PREFIX @ path)) = Some j" "schema j = Some v"
  shows "hfp_request demo_net t method path body schema s =
    (Inr v, (fst s, snd s @ [json_request demo_net (tg_host t) (tg_port t) method path body]))"
proof -
  have "length (demo_reply p) \<le> 4" for p by (simp add: demo_reply_def)
  then have "\<not> MAX_BODY_BYTES < length (demo_reply p)" for p
    by (simp add: MAX_BODY_BYTES_def not_less) (meson le_trans numeral_le_iff semiring_norm)
  then show ?thesis using assms
    by (simp add: hfp_request_def request_internal_def raw_request_def Let_def demo_connects)
       (simp add: demo_net_def is_2xx_def json_request_def)
qed

lemma demo_tip: "client_have_tip demo_net t repoId s =
    (Inr (Some demo_head), (fst s, snd s @ [json_request demo_net (tg_host t) (tg_port t) ''POST'' ''/workspace/have''
       (Some (JObj [(''repoId'', JStr repoId)]))]))" if "tg_deviceId t = demo_peer"
  unfolding client_have_tip_def
  by (rule demo_requests [OF that, of _ "JObj [(''headCommit'', JStr demo_head)]"])
     (simp_all add: demo_reply_def demo_json_def HFP_PATH_PREFIX_def decode_tip_def req_key_def nullable_def as_commit_def
        checked_def demo_hashes)

lemma demo_job_id_ok: "job_id_ok demo_job_id" by code_simp

lemma demo_delegated: "client_delegate demo_net t params s =
    (Inr demo_job_id, (fst s, snd s @ [json_request demo_net (tg_host t) (tg_port t) ''POST'' ''/jobs'' (Some (encode_delegate params))]))"
  if "tg_deviceId t = demo_peer"
  unfolding client_delegate_def
  by (rule demo_requests [OF that, of _ "JObj [(''jobId'', JStr demo_job_id)]"])
     (simp_all add: demo_reply_def demo_json_def HFP_PATH_PREFIX_def decode_delegated_def req_key_def checked_def demo_job_id_ok)

lemma demo_sync: "\<exists>s'. sync_workspace demo_net demo_files demo_git t ''/repo'' ''r'' demo_start = (Inr demo_head, s')"
  if "tg_deviceId t = demo_peer"
proof -
  have "resolve_head_commit demo_git ''/repo'' n demo_start = (Inr demo_head, demo_start)" for n
    by (simp add: resolve_head_commit_def Let_def at_path_def demo_git_def small_git_def git_reads_def demo_start_def
        git_reply_def git_ok_def demo_hashes)
  then show ?thesis using demo_tip [OF that] by (simp add: sync_workspace_def) (metis prod.exhaust)
qed

definition demo_task :: task_input where "demo_task = CommandTask ''r'' ''ls'' None None"

lemma demo_task_ok: "task_ok demo_task"
  by (simp add: demo_task_def repo_id_ok_def in_range_def)

lemma demo_delegates:
  "\<exists>txt1 m' s'. delegate_task demo_mc demo_peer demo_task [] demo_start = (ToolOk txt1 (DelegatedOut demo_job_id demo_peer), m', s')"
proof -
  let ?t = "\<lparr>tg_host = ''h'', tg_port = 1, tg_deviceId = demo_peer, tg_timeoutMs = None\<rparr>"
  obtain s' where "sync_workspace demo_net demo_files demo_git ?t ''/repo'' ''r'' demo_start = (Inr demo_head, s')"
    using demo_sync [of ?t] by auto
  then show ?thesis using task_params_sent [OF demo_task_ok demo_hashes(1)] demo_delegated [of ?t]
    by (simp add: delegate_task_def dispatch_def directory_resolve_def demo_mc_def endpoint_for_def endpoint_from_discovery_def
        model_refusal_def resolve_repo_path_def demo_task_def Let_def) (metis prod.exhaust)
qed

theorem delegated_at_synced_commit_witness:
  "\<exists>txt1 m' s' t head s2. delegate_task demo_mc demo_peer demo_task [] demo_start =
       (ToolOk txt1 (DelegatedOut demo_job_id demo_peer), m', s') \<and> tg_deviceId t = demo_peer \<and>
     client_delegate demo_net t (task_params demo_task head) s2 = (Inr demo_job_id, s')"
proof -
  obtain txt1 m' s' where d: "delegate_task demo_mc demo_peer demo_task [] demo_start =
      (ToolOk txt1 (DelegatedOut demo_job_id demo_peer), m', s')" using demo_delegates by blast
  have n: "mc_network demo_mc = demo_net" by (simp add: demo_mc_def)
  from delegated_at_synced_commit [OF demo_task_ok, where m = "[]" and mc = demo_mc and node = demo_peer and s = demo_start] d n
  obtain t head s2 where "tg_deviceId t = demo_peer" "client_delegate demo_net t (task_params demo_task head) s2 = (Inr demo_job_id, s')"
    by auto
  then show ?thesis using d by blast
qed

definition stranger :: string where "stranger = replicate 64 (CHR ''d'')"

definition stranger_registry :: delegation_map where
  "stranger_registry = [(demo_job_id, \<lparr>de_route = demo_route\<lparr>dr_deviceId := stranger\<rparr>, de_type = Write, de_recordedAt = 0,
     de_lastStatus = Queued, de_lastStatusAt = 0, de_applied = None\<rparr>)]"

theorem unpaired_node_never_contacted_witness:
  "job_result_tool demo_mc demo_job_id stranger_registry demo_start =
     (no_longer_paired demo_job_id stranger, stranger_registry, demo_start)"
  using unpaired_node_never_contacted [of stranger demo_mc demo_start stranger_registry demo_job_id
      "demo_route\<lparr>dr_deviceId := stranger\<rparr>"]
  by (simp add: stranger_def demo_peer_def demo_mc_def stranger_registry_def lookup_route_def)

definition demo_snapshot :: job_snapshot where
  "demo_snapshot = \<lparr>snap_jobId = demo_job_id, snap_status = Succeeded, snap_result = Some demo_result\<rparr>"

lemma demo_artifact_decoded:
  "decode_artifact (JObj [(''branchName'', JStr ''homefleet/0123456789ab''), (''baseCommit'', JStr (replicate 40 (CHR ''0''))),
     (''headCommit'', JStr demo_head),
     (''diffStat'', JObj [(''filesChanged'', JNum 1), (''insertions'', JNum 1), (''deletions'', JNum 0)]),
     (''commitMessage'', JStr ''f'')]) = Some demo_artifact"
  by code_simp

lemma demo_result_ok: "job_result_ok demo_result"
  by code_simp

lemma demo_snapshot_decoded: "Option.bind (demo_json ''snap'') decode_snapshot = Some demo_snapshot"
  using demo_result_ok demo_job_id_ok
  by (simp add: demo_json_def decode_snapshot_def decode_result_def req_key_def opt_key_def demo_artifact_decoded nullable_def
      decode_enum_def type_names_def status_names_def decode_stats_def checked_def job_stats_ok_def demo_snapshot_def
      demo_result_def job_snapshot_ok_def)

lemma demo_snapshot_fetched:
  assumes "tg_deviceId t = demo_peer"
  shows "\<exists>s'. client_snapshot demo_net t demo_job_id s = (Inr demo_snapshot, s') \<and> fst s' = fst s"
proof -
  obtain j where j: "demo_json ''snap'' = Some j" "decode_snapshot j = Some demo_snapshot"
    using demo_snapshot_decoded by (cases "demo_json ''snap''") auto
  have "demo_reply (HFP_PATH_PREFIX @ ''/jobs/'' @ encode_uri_component demo_job_id) = ''snap''"
    by (simp add: demo_reply_def HFP_PATH_PREFIX_def)
  then show ?thesis unfolding client_snapshot_def
    using demo_requests [OF assms, of "''/jobs/'' @ encode_uri_component demo_job_id" j decode_snapshot demo_snapshot] j by auto
qed

lemma demo_heads: "parse_heads (git_reply 0 (head_line (target_ref demo_artifact, demo_head) @ [CHR 0x0A]) []) =
    [(target_ref demo_artifact, demo_head)]"
proof -
  have "ref_text_ok (target_ref demo_artifact)"
    by (simp add: target_ref_def demo_artifact_def ref_text_ok_def is_js_space_def)
  then show ?thesis
    using parse_heads_listing [of "[(target_ref demo_artifact, demo_head)]"
        "git_reply 0 (head_line (target_ref demo_artifact, demo_head) @ [CHR 0x0A]) []"] demo_hashes(1)
    by (simp add: git_reply_def git_ok_def)
qed

lemma demo_applied:
  assumes "fst s = fst demo_start"
  shows "\<exists>s'. apply_write_artifact demo_git (applier_input ''/repo'' demo_artifact dir issues) s = (Inr (art_branchName demo_artifact), s')"
proof -
  let ?inp = "applier_input ''/repo'' demo_artifact dir issues :: demo_world apply_input"
  have ok: "write_artifact_ok demo_artifact"
    using demo_result_ok by (simp add: job_result_ok_def job_result_shape_ok_def demo_result_def)
  obtain log where s: "s = (fst demo_start, log)" using assms by (cases s) simp
  have sm: "fst demo_start = ([(''/repo'', ''HEAD'') \<mapsto> demo_head], (target_ref demo_artifact, demo_head))"
    by (simp add: demo_start_def)
  have b: "demo_git (worker_call w ''/repo'' (''bundle'' # xs)) s = (git_reply 0 (head_line (target_ref demo_artifact, demo_head) @ [CHR 0x0A]) [], s)" for w xs
    by (simp add: s sm demo_git_def small_git_def worker_call_def)
  have "CHR '':'' \<notin> set (target_ref demo_artifact)" by (simp add: target_ref_def demo_artifact_def)
  then have tw: "takeWhile (\<lambda>x. x \<noteq> CHR '':'') (target_ref demo_artifact @ CHR '':'' # target_ref demo_artifact) = target_ref demo_artifact"
    by (subst takeWhile_append2) auto
  have nh: "target_ref demo_artifact \<noteq> ''HEAD''" by (simp add: target_ref_def)
  define s1 where "s1 = ((([(''/repo'', ''HEAD'') \<mapsto> demo_head])((''/repo'', target_ref demo_artifact) := Some demo_head),
      (target_ref demo_artifact, demo_head)), log)"
  have f: "demo_git (fetch_call ?inp) s = (git_reply 0 [] [], s1)"
    using tw nh by (simp add: s sm s1_def demo_git_def small_git_def fetch_call_def worker_call_def applier_input_def git_fetches_def)
  have r: "demo_git (reread_call ?inp) s1 = (git_reply 0 demo_head [], s1)"
    by (simp add: s1_def demo_git_def small_git_def reread_call_def worker_call_def applier_input_def git_reads_def demo_hashes)
  have h: "heads_refusal demo_artifact [(target_ref demo_artifact, demo_head)] = None"
    by (simp add: heads_refusal_def demo_artifact_def demo_head_def)
  have c: "check_delivered ?inp (git_reply 0 demo_head []) = Inr (art_branchName demo_artifact)"
    using demo_hashes by (simp add: check_delivered_def applier_input_def git_reply_def git_ok_def demo_artifact_def demo_head_def [symmetric])
  show ?thesis
    using ok b f r h c demo_heads
    by (simp add: apply_write_artifact_def Let_def applier_input_def source_git_def list_bundle_heads_detailed_def
        verify_bundle_detailed_def git_reply_def git_ok_def)
qed

lemma demo_fetched:
  assumes "tg_deviceId t = demo_peer"
  shows "\<exists>s'. fetch_job_artifact demo_net demo_files t jobId dest 100 s = (Inr demo_head, s') \<and> fst s' = fst s"
proof -
  have "\<not> 100 < length (demo_reply p)" for p by (simp add: demo_reply_def)
  then have "fetch_job_artifact demo_net demo_files t jobId dest 100 s =
      (Inr demo_head, (fst s, snd s @ [get_request t (HFP_PATH_PREFIX @ ''/jobs/'' @ encode_uri_component jobId @ ''/artifact'')]))"
    using assms demo_hashes(1)
    by (simp add: fetch_job_artifact_def download_to_file_def Let_def demo_connects)
       (simp add: demo_net_def is_2xx_def head_commit_header_def stream_to_file_def demo_files_def)
  then show ?thesis by simp
qed

lemma demo_files_simps:
  "ho_mkdtemp demo_files x s = (Inr (''/tmp/'' @ x), s)" "ho_mkdir demo_files x s = (None, s)" "ho_rm demo_files x s = (None, s)"
  by (simp_all add: demo_files_def)

lemma demo_apply_delegated:
  assumes "fst s = fst demo_start" "tg_deviceId t = demo_peer"
  shows "\<exists>s'. apply_delegated_artifact demo_net demo_files demo_git 100 t jobId demo_artifact ''/repo'' [] s =
    (Inr (art_branchName demo_artifact), s')"
proof -
  let ?dir = "''/tmp/homefleet-artifact-in-''"
  obtain s2 where s2: "fetch_job_artifact demo_net demo_files t jobId (?dir @ ''/artifact.bundle'') 100 s = (Inr demo_head, s2)"
    "fst s2 = fst s" using demo_fetched [OF assms(2)] by blast
  obtain s3 where s3: "apply_write_artifact demo_git (applier_input ''/repo'' demo_artifact ?dir []) s2 = (Inr (art_branchName demo_artifact), s3)"
    using demo_applied assms(1) s2 by metis
  have "art_headCommit demo_artifact = demo_head" by (simp add: demo_artifact_def demo_head_def)
  then have "fetch_and_apply demo_net demo_files demo_git 100 t jobId demo_artifact ''/repo'' [] ?dir s =
      (Inr (art_branchName demo_artifact), s3)"
    using s2 s3 by (simp add: fetch_and_apply_def demo_files_simps)
  then show ?thesis by (simp add: apply_delegated_artifact_def finally_rm_def demo_files_simps)
qed

text \<open>Nothing ties the branch to the job: a worker's result for one job may name the branch of another, and it is applied.\<close>

lemma foreign_branch_accepted:
  "\<exists>s'. apply_delegated_artifact demo_net demo_files demo_git 100
      \<lparr>tg_host = ''h'', tg_port = 1, tg_deviceId = demo_peer, tg_timeoutMs = None\<rparr>
      ''11111111-1111-4111-8111-111111111111'' demo_artifact ''/repo'' [] demo_start = (Inr (art_branchName demo_artifact), s')"
  "art_branchName demo_artifact \<noteq> write_branch_name ''11111111-1111-4111-8111-111111111111''"
  by (rule demo_apply_delegated) (simp_all add: demo_artifact_def write_branch_name_def job_id_12_def WRITE_BRANCH_PREFIX_def)

lemma demo_job_result:
  "\<exists>txt1 cmd m' s'. job_result_tool demo_mc demo_job_id demo_registry demo_start =
     (ToolOk txt1 (ResultOut demo_job_id Succeeded (Some demo_result) (Some (SurfaceApplied cmd))), m', s')"
proof -
  let ?t = "\<lparr>tg_host = ''h'', tg_port = 1, tg_deviceId = demo_peer, tg_timeoutMs = None\<rparr>"
  have tp: "tg_deviceId ?t = demo_peer" by simp
  obtain s1 where s1: "client_snapshot demo_net ?t demo_job_id demo_start = (Inr demo_snapshot, s1)" "fst s1 = fst demo_start"
    using demo_snapshot_fetched [OF tp] by blast
  obtain s3 where ap: "apply_delegated_artifact demo_net demo_files demo_git 100 ?t demo_job_id demo_artifact ''/repo'' [] s1 =
      (Inr (art_branchName demo_artifact), s3)" using demo_apply_delegated [OF s1(2) tp] by blast
  have route: "lookup_route demo_registry demo_job_id = Some demo_route"
    "directory_resolve demo_mc demo_start (dr_deviceId demo_route) \<noteq> None" "target_for demo_mc demo_route = ?t"
    "resolve_repo_path (mc_repos demo_mc) (dr_repoId demo_route) = Some ''/repo''"
    by (simp_all add: lookup_route_def demo_registry_def directory_resolve_def demo_mc_def demo_route_def target_for_def resolve_repo_path_def)
  have mc: "mc_network demo_mc = demo_net" "mc_host demo_mc = demo_files" "mc_git demo_mc = demo_git"
    "mc_maxBundleBytes demo_mc = 100" "mc_issues demo_mc = []" by (simp_all add: demo_mc_def)
  have none: "applied_artifact_of (observe_status n demo_job_id st demo_registry) demo_job_id = None" for n st
    by (simp add: applied_artifact_of_def observe_status_def demo_registry_def)
  have res: "snap_result demo_snapshot = Some demo_result" "snap_status demo_snapshot = Succeeded" "res_type demo_result = Write"
    "res_artifact demo_result = Some (Some demo_artifact)" "res_status demo_result = Succeeded"
    by (simp_all add: demo_snapshot_def demo_result_def)
  define m1 where "m1 = observe_status (mc_now demo_mc s1) demo_job_id Succeeded demo_registry"
  have sf: "write_artifact_surface demo_mc demo_job_id demo_route demo_result m1 s1 =
      (SurfaceApplied (review_command_for \<lparr>aa_branchName = art_branchName demo_artifact, aa_baseCommit = art_baseCommit demo_artifact\<rparr>),
       record_applied demo_job_id \<lparr>aa_branchName = art_branchName demo_artifact, aa_baseCommit = art_baseCommit demo_artifact\<rparr> m1, s3)"
    using route(3,4) ap res(4,5) none by (simp add: write_artifact_surface_def mc Let_def m1_def)
  show ?thesis
    unfolding job_result_tool_def with_route_def route(1) option.case mc route(3) s1(1) prod.case sum.case Let_def res(1,2)
      if_not_P [OF route(2)] m1_def [symmetric] sf using res(3) by simp
qed

theorem reported_artifact_is_in_repo_witness:
  "\<exists>txt1 cmd m' s' a. job_result_tool demo_mc demo_job_id demo_registry demo_start =
     (ToolOk txt1 (ResultOut demo_job_id Succeeded (Some demo_result) (Some (SurfaceApplied cmd))), m', s') \<and>
     res_artifact demo_result = Some (Some a) \<and>
     fst (fst s') (''/repo'', ''refs/heads/'' @ art_branchName a) = Some (art_headCommit a)"
proof -
  obtain txt1 cmd m' s' where j: "job_result_tool demo_mc demo_job_id demo_registry demo_start =
     (ToolOk txt1 (ResultOut demo_job_id Succeeded (Some demo_result) (Some (SurfaceApplied cmd))), m', s')"
    using demo_job_result by blast
  have mc: "mc_network demo_mc = demo_net" "mc_host demo_mc = demo_files" "mc_git demo_mc = demo_git" by (simp_all add: demo_mc_def)
  have n: "applied_artifact_of demo_registry demo_job_id = None" by (simp add: applied_artifact_of_def demo_registry_def)
  have repo: "resolve_repo_path (mc_repos demo_mc) x = Some p \<Longrightarrow> p = ''/repo''" for x p
    by (simp add: resolve_repo_path_def demo_mc_def split: if_splits)
  note facts = reported_artifact_is_in_repo [OF demo_git_laws [folded mc(3)] demo_world_apart [folded mc(1,2)],
      where jobId = demo_job_id and m = demo_registry and s = demo_start]
  from facts [unfolded j prod.case, THEN conjunct2, rule_format, OF refl]
  obtain r :: delegation_route and a repo where "resolve_repo_path (mc_repos demo_mc) (dr_repoId r) = Some repo"
    "res_artifact demo_result = Some (Some a)" "fst (fst s') (repo, ''refs/heads/'' @ art_branchName a) = Some (art_headCommit a)"
    unfolding n option.case id_apply small_refs_def by blast
  then show ?thesis using j repo by blast
qed

end
