(* ===== verification/Spec2Isabelle.thy ===== *)
theory Spec2Isabelle imports Prelude Text Semver Protocol Eviction TrustStore Pairing KnownNodes Aggregator Catalog
  ExecutorContract JobManager JobInvariants JobRuns JobProperties JobStream JobTheorems Delegation Upgrade Release
  Coordinator Rollout Wire Sse NodeServer JobRoutes WorkspaceStore WorkspaceInvariant WorkspaceProperties
  Spawn ToolLoop Executors FileSystem FileTools WriteTools ToolSafety ToolTheorems Git Replies Client ArtifactApply McpTools Delegating
begin

text \<open>
  Verification development of HomeFleet (skeleton).
\<close>

end
